(* ===== verification/Rust_Base.thy ===== *)
theory Rust_Base
  imports Main "HOL-Library.Word"
begin

text \<open>
  The part of Rust and of its standard library that the modelled code uses: machine
  integers, byte slices, UTF-8 strings, and computations that may panic.

  A \<open>String\<close> or \<open>&str\<close> is its UTF-8 octets (\<open>rstr\<close>). A \<open>char\<close> is its code point, a natural
  number. A \<open>usize\<close> is a natural number; the one place where the code depends on the width
  (\<open>checked_add\<close>) writes the 64-bit limit out. The lemmas on splitting, joining, big-endian
  integers and slices are shared by every component.
\<close>

unbundle bit_operations_syntax

named_theorems rust_str \<open>executable string operations, for the evaluation of closed terms\<close>
named_theorems wire \<open>lengths and round trips of wire encodings\<close>

type_synonym u8 = "8 word"
type_synonym u16 = "16 word"
type_synonym u32 = "32 word"
type_synonym u64 = "64 word"
type_synonym rstr = "u8 list"

section \<open>Panics\<close>

text \<open>An operation that may panic returns \<open>Panic\<close> where the source aborts the thread.\<close>

datatype 'a exec = Done 'a | Panic

fun bind_exec :: "'a exec \<Rightarrow> ('a \<Rightarrow> 'b exec) \<Rightarrow> 'b exec" where
  "bind_exec (Done a) f = f a"
| "bind_exec Panic f = Panic"

lemma bind_exec_Done_iff [simp]:
  "bind_exec m f = Done b \<longleftrightarrow> (\<exists>a. m = Done a \<and> f a = Done b)"
  by (cases m) auto

lemma bind_exec_cong [fundef_cong]:
  "m = n \<Longrightarrow> (\<And>a. n = Done a \<Longrightarrow> f a = g a) \<Longrightarrow> bind_exec m f = bind_exec n g"
  by (cases n) auto

section \<open>Results\<close>

text \<open>\<open>Result<T, E>\<close> is \<open>'e + 'a\<close>; the \<open>?\<close> operator is \<open>and_then\<close>.\<close>

fun and_then :: "'e + 'a \<Rightarrow> ('a \<Rightarrow> 'e + 'b) \<Rightarrow> 'e + 'b" where
  "and_then (Inl e) f = Inl e"
| "and_then (Inr a) f = f a"

fun ok_or :: "'e \<Rightarrow> 'a option \<Rightarrow> 'e + 'a" where
  "ok_or e None = Inl e"
| "ok_or e (Some a) = Inr a"

lemma and_then_Inr_iff [simp]: "and_then m f = Inr b \<longleftrightarrow> (\<exists>a. m = Inr a \<and> f a = Inr b)"
  by (cases m) auto

lemma ok_or_Inr_iff [simp]: "ok_or e m = Inr a \<longleftrightarrow> m = Some a"
  by (cases m) auto

lemma and_then_cong [fundef_cong]:
  "m = n \<Longrightarrow> (\<And>a. n = Inr a \<Longrightarrow> f a = g a) \<Longrightarrow> and_then m f = and_then n g"
  by (cases n) auto

section \<open>Integers\<close>

definition USIZE_MAX :: nat where
  "USIZE_MAX = 2 ^ 64 - 1"

definition checked_add_usize :: "nat \<Rightarrow> nat \<Rightarrow> nat option" where
  "checked_add_usize a b = (if a + b \<le> USIZE_MAX then Some (a + b) else None)"

lemma checked_add_usize_code [code]:
  "checked_add_usize a b = (if int (a + b) \<le> 18446744073709551615 then Some (a + b) else None)"
  by (simp add: checked_add_usize_def USIZE_MAX_def)

text \<open>\<open>u16::from_be_bytes\<close>, \<open>u32::from_be_bytes\<close> and their inverses.\<close>

definition from_be16 :: "u8 \<Rightarrow> u8 \<Rightarrow> u16" where
  "from_be16 a b = word_of_nat (unat a * 256 + unat b)"

definition to_be16 :: "u16 \<Rightarrow> u8 list" where
  "to_be16 w = [word_of_nat (unat w div 256), word_of_nat (unat w)]"

definition from_be32 :: "u8 \<Rightarrow> u8 \<Rightarrow> u8 \<Rightarrow> u8 \<Rightarrow> u32" where
  "from_be32 a b c d =
     word_of_nat (((unat a * 256 + unat b) * 256 + unat c) * 256 + unat d)"

definition to_be32 :: "u32 \<Rightarrow> u8 list" where
  "to_be32 w = [word_of_nat (unat w div 16777216), word_of_nat (unat w div 65536),
                word_of_nat (unat w div 256), word_of_nat (unat w)]"

lemma unat_u8 [simp]: "unat (b :: u8) < 256"
  using unsigned_less [of b] by simp

lemma unat_u16 [simp]: "unat (b :: u16) < 65536"
  using unsigned_less [of b] by simp

lemma unat_u32 [simp]: "unat (b :: u32) < 4294967296"
  using unsigned_less [of b] by simp

lemma unat_u8_of_nat: "unat (word_of_nat n :: u8) = n mod 256"
  by (simp add: unat_of_nat)

lemma unat_u16_of_nat: "unat (word_of_nat n :: u16) = n mod 65536"
  by (simp add: unat_of_nat)

lemma unat_u32_of_nat: "unat (word_of_nat n :: u32) = n mod 4294967296"
  by (simp add: unat_of_nat)

lemma unat_from_be16 [simp]: "unat (from_be16 a b) = unat a * 256 + unat b"
proof -
  have "unat a * 256 + unat b < 65536"
    using unat_u8 [of a] unat_u8 [of b] by linarith
  then show ?thesis unfolding from_be16_def unat_u16_of_nat by simp
qed

lemma unat_from_be32:
  "unat (from_be32 a b c d) = ((unat a * 256 + unat b) * 256 + unat c) * 256 + unat d"
proof -
  have "unat a \<le> 255" "unat b \<le> 255" "unat c \<le> 255" "unat d \<le> 255"
    using unat_u8 [of a] unat_u8 [of b] unat_u8 [of c] unat_u8 [of d] by linarith+
  then have "((unat a * 256 + unat b) * 256 + unat c) * 256 + unat d < 4294967296"
    by (simp add: distrib_right)
  then show ?thesis unfolding from_be32_def unat_u32_of_nat by simp
qed

lemma length_to_be16 [simp, wire]: "length (to_be16 w) = 2"
  by (simp add: to_be16_def)

lemma length_to_be32 [simp, wire]: "length (to_be32 w) = 4"
  by (simp add: to_be32_def)

lemma from_to_be16 [simp, wire]:
  "from_be16 (word_of_nat (unat w div 256)) (word_of_nat (unat w)) = w"
proof (rule word_unat_eq_iff [THEN iffD2])
  have "unat w div 256 mod 256 * 256 + unat w mod 256 = unat w"
    using unat_u16 [of w] by (simp add: less_mult_imp_div_less)
  then show "unat (from_be16 (word_of_nat (unat w div 256)) (word_of_nat (unat w))) = unat w"
    by (simp only: unat_from_be16 unat_u8_of_nat)
qed

lemma from_to_be16_ucast [simp, wire]: "from_be16 (word_of_nat (unat w div 256)) (ucast w) = w"
  using from_to_be16 [of w] by simp

lemma to_from_be16 [simp, wire]: "to_be16 (from_be16 a b) = [a, b]"
proof -
  have "(unat a * 256 + unat b) div 256 = unat a" "(unat a * 256 + unat b) mod 256 = unat b"
    using unat_u8 [of b] by simp_all
  then have "word_of_nat (unat (from_be16 a b) div 256) = a"
    and "word_of_nat (unat (from_be16 a b)) = b"
    by (simp_all only: word_unat_eq_iff unat_from_be16 unat_u8_of_nat mod_less unat_u8)
  then show ?thesis unfolding to_be16_def by (simp only:)
qed

lemma be32_digits:
  "((n div 16777216 * 256 + n div 65536 mod 256) * 256 + n div 256 mod 256) * 256
     + n mod 256 = (n :: nat)"
proof -
  have "n div 65536 = n div 256 div 256" and "n div 16777216 = n div 256 div 256 div 256"
    by (simp_all add: div_mult2_eq [symmetric])
  then show ?thesis
    by (simp only: div_mult_mod_eq)
qed

lemma from_to_be32 [simp, wire]:
  "from_be32 (word_of_nat (unat w div 16777216)) (word_of_nat (unat w div 65536))
     (word_of_nat (unat w div 256)) (word_of_nat (unat w)) = w"
proof (rule word_unat_eq_iff [THEN iffD2])
  have "unat w div 16777216 mod 256 = unat w div 16777216"
    using unat_u32 [of w] by (simp add: less_mult_imp_div_less)
  then show "unat (from_be32 (word_of_nat (unat w div 16777216))
      (word_of_nat (unat w div 65536)) (word_of_nat (unat w div 256))
      (word_of_nat (unat w))) = unat w"
    by (simp only: unat_from_be32 unat_u8_of_nat be32_digits)
qed

lemma from_to_be32_ucast [simp, wire]:
  "from_be32 (word_of_nat (unat w div 16777216)) (word_of_nat (unat w div 65536))
     (word_of_nat (unat w div 256)) (ucast w) = w"
  using from_to_be32 [of w] by simp

lemma to_from_be32 [simp, wire]: "to_be32 (from_be32 a b c d) = [a, b, c, d]"
proof -
  let ?n = "((unat a * 256 + unat b) * 256 + unat c) * 256 + unat d"
  have dg: "(m * 256 + unat x) div 256 = m" "(m * 256 + unat x) mod 256 = unat x" for m and x :: u8
    using unat_u8 [of x] by simp_all
  have "?n div 65536 = ?n div 256 div 256" "?n div 16777216 = ?n div 256 div 256 div 256"
    by (simp_all only: div_mult2_eq [symmetric]) simp_all
  then have "?n div 16777216 mod 256 = unat a" "?n div 65536 mod 256 = unat b"
    "?n div 256 mod 256 = unat c" "?n mod 256 = unat d"
    by (simp_all only: dg mod_less unat_u8)
  then have "word_of_nat (?n div 16777216) = a" "word_of_nat (?n div 65536) = b"
    "word_of_nat (?n div 256) = c" "word_of_nat ?n = d"
    by (simp_all only: word_unat_eq_iff unat_u8_of_nat)
  then show ?thesis by (simp only: to_be32_def unat_from_be32)
qed

section \<open>Slices\<close>

text \<open>\<open>buf.get(a..b)\<close>: the slice, or \<open>None\<close> when the range is not inside the buffer.\<close>

definition slice_get :: "'a list \<Rightarrow> nat \<Rightarrow> nat \<Rightarrow> 'a list option" where
  "slice_get xs a b = (if a \<le> b \<and> b \<le> length xs then Some (take (b - a) (drop a xs)) else None)"

text \<open>\<open>dst[at..at + src.len()].copy_from_slice(src)\<close> on a range inside the buffer.\<close>

definition copy_at :: "'a list \<Rightarrow> nat \<Rightarrow> 'a list \<Rightarrow> 'a list" where
  "copy_at xs a ys = take a xs @ ys @ drop (a + length ys) xs"

lemma length_copy_at [simp]: "a + length ys \<le> length xs \<Longrightarrow> length (copy_at xs a ys) = length xs"
  by (simp add: copy_at_def)

lemma nth_copy_at:
  "a + length ys \<le> length xs \<Longrightarrow>
     copy_at xs a ys ! i = (if a \<le> i \<and> i < a + length ys then ys ! (i - a) else xs ! i)"
  by (auto simp: copy_at_def nth_append not_less intro: arg_cong [of _ _ "nth xs"])

section \<open>Strings\<close>

text \<open>The octets of a string literal.\<close>

definition str_lit :: "string \<Rightarrow> rstr" where
  "str_lit s = map of_char s"

lemma str_lit_dot [simp, code_unfold]: "str_lit ''.'' = [46]"
  by (simp add: str_lit_def)

abbreviation DOT :: u8 where
  "DOT \<equiv> 46"

text \<open>\<open>s.split(d)\<close> for a one-octet separator, and \<open>parts.join(sep)\<close>.\<close>

fun split_on :: "'a \<Rightarrow> 'a list \<Rightarrow> 'a list list" where
  "split_on d [] = [[]]"
| "split_on d (x # xs) =
     (if x = d then [] # split_on d xs
      else (case split_on d xs of [] \<Rightarrow> [[x]] | l # ls \<Rightarrow> (x # l) # ls))"

fun join :: "'a list \<Rightarrow> 'a list list \<Rightarrow> 'a list" where
  "join sep [] = []"
| "join sep [l] = l"
| "join sep (l # m # ls) = l @ sep @ join sep (m # ls)"

lemma split_on_ne [simp]: "split_on d xs \<noteq> []"
  by (induction xs) (auto split: list.splits)

lemma split_on_no_sep: "l \<in> set (split_on d xs) \<Longrightarrow> d \<notin> set l"
  by (induction xs arbitrary: l) (auto split: list.splits if_splits)

lemma join_Cons: "ls \<noteq> [] \<Longrightarrow> join sep (l # ls) = l @ sep @ join sep ls"
  by (cases ls) auto

lemma join_split_on [simp]: "join [d] (split_on d xs) = xs"
proof (induction xs)
  case (Cons x xs)
  obtain l ls where "split_on d xs = l # ls"
    by (cases "split_on d xs") auto
  with Cons show ?case by (cases ls) (auto simp: join_Cons)
qed simp

lemma split_on_append:
  "d \<notin> set l \<Longrightarrow> split_on d (l @ d # xs) = l # split_on d xs"
  by (induction l) auto

lemma split_on_single: "d \<notin> set l \<Longrightarrow> split_on d l = [l]"
  by (induction l) auto

lemma split_on_join:
  "ls \<noteq> [] \<Longrightarrow> (\<And>l. l \<in> set ls \<Longrightarrow> d \<notin> set l) \<Longrightarrow> split_on d (join [d] ls) = ls"
proof (induction ls rule: induct_list012)
  case (3 l m ls)
  then show ?case by (simp add: split_on_append)
qed (simp_all add: split_on_single)

lemma length_join_single: "ls \<noteq> [] \<Longrightarrow> length (join [d] ls) + 1 = sum_list (map (\<lambda>l. length l + 1) ls)"
  by (induction ls rule: induct_list012) auto

subsection \<open>ASCII case\<close>

definition ascii_lower :: "u8 \<Rightarrow> u8" where
  "ascii_lower b = (if 65 \<le> b \<and> b \<le> 90 then b + 32 else b)"

definition to_ascii_lowercase :: "rstr \<Rightarrow> rstr" where
  "to_ascii_lowercase s = map ascii_lower s"

definition eq_ignore_ascii_case :: "rstr \<Rightarrow> rstr \<Rightarrow> bool" where
  "eq_ignore_ascii_case a b \<longleftrightarrow> map ascii_lower a = map ascii_lower b"

definition is_ascii :: "rstr \<Rightarrow> bool" where
  "is_ascii s = list_all (\<lambda>b. b < 128) s"

lemma ascii_lower_idem [simp]: "ascii_lower (ascii_lower b) = ascii_lower b"
  by (auto simp: ascii_lower_def word_le_nat_alt unat_word_ariths)

lemma to_ascii_lowercase_idem [simp]: "to_ascii_lowercase (to_ascii_lowercase s) = to_ascii_lowercase s"
  by (simp add: to_ascii_lowercase_def)

lemma length_to_ascii_lowercase [simp]: "length (to_ascii_lowercase s) = length s"
  by (simp add: to_ascii_lowercase_def)

lemma eq_ignore_ascii_case_lower:
  "eq_ignore_ascii_case a b \<longleftrightarrow> to_ascii_lowercase a = to_ascii_lowercase b"
  by (simp add: eq_ignore_ascii_case_def to_ascii_lowercase_def)

lemma eq_ignore_ascii_case_refl [simp]: "eq_ignore_ascii_case a a"
  by (simp add: eq_ignore_ascii_case_def)

lemma eq_ignore_ascii_case_length: "eq_ignore_ascii_case a b \<Longrightarrow> length a = length b"
  unfolding eq_ignore_ascii_case_def by (metis length_map)

text \<open>
  \<open>str::to_lowercase\<close> maps every character by the Unicode tables, which are not part of the
  repository. It is a parameter of the definitions that use it; the only law they rely on is
  that it is the ASCII mapping on ASCII strings.
\<close>

locale str_lower =
  fixes lower :: "rstr \<Rightarrow> rstr"
  assumes lower_ascii: "is_ascii s \<Longrightarrow> lower s = to_ascii_lowercase s"
begin

lemma lower_eq_iff:
  "is_ascii a \<Longrightarrow> is_ascii b \<Longrightarrow> lower a = lower b \<longleftrightarrow> eq_ignore_ascii_case a b"
  by (simp add: lower_ascii eq_ignore_ascii_case_lower)

end

interpretation ascii_lc: str_lower to_ascii_lowercase
  by unfold_locales simp

subsection \<open>UTF-8\<close>

text \<open>
  \<open>std::str::from_utf8\<close> together with \<open>chars()\<close>: the code points of a well-formed octet string,
  \<open>None\<close> for an ill-formed one (overlong forms, surrogates and values above U+10FFFF
  included).
\<close>

definition utf8_cont :: "u8 \<Rightarrow> bool" where
  "utf8_cont b \<longleftrightarrow> 128 \<le> b \<and> b \<le> 191"

fun utf8_two :: "u8 \<Rightarrow> u8 list \<Rightarrow> (nat \<times> u8 list) option" where
  "utf8_two b0 (b1 # r) =
     (if utf8_cont b1 then Some ((unat b0 - 192) * 64 + (unat b1 - 128), r) else None)"
| "utf8_two b0 _ = None"

fun utf8_three :: "u8 \<Rightarrow> u8 list \<Rightarrow> (nat \<times> u8 list) option" where
  "utf8_three b0 (b1 # b2 # r) =
     (if utf8_cont b1 \<and> utf8_cont b2 \<and> (b0 = 224 \<longrightarrow> 160 \<le> b1) \<and> (b0 = 237 \<longrightarrow> b1 \<le> 159)
      then Some (((unat b0 - 224) * 64 + (unat b1 - 128)) * 64 + (unat b2 - 128), r)
      else None)"
| "utf8_three b0 _ = None"

fun utf8_four :: "u8 \<Rightarrow> u8 list \<Rightarrow> (nat \<times> u8 list) option" where
  "utf8_four b0 (b1 # b2 # b3 # r) =
     (if utf8_cont b1 \<and> utf8_cont b2 \<and> utf8_cont b3
         \<and> (b0 = 240 \<longrightarrow> 144 \<le> b1) \<and> (b0 = 244 \<longrightarrow> b1 \<le> 143)
      then Some ((((unat b0 - 240) * 64 + (unat b1 - 128)) * 64 + (unat b2 - 128)) * 64
                   + (unat b3 - 128), r)
      else None)"
| "utf8_four b0 _ = None"

fun utf8_next :: "u8 list \<Rightarrow> (nat \<times> u8 list) option" where
  "utf8_next [] = None"
| "utf8_next (b0 # bs) =
     (if b0 < 128 then Some (unat b0, bs)
      else if 194 \<le> b0 \<and> b0 \<le> 223 then utf8_two b0 bs
      else if 224 \<le> b0 \<and> b0 \<le> 239 then utf8_three b0 bs
      else if 240 \<le> b0 \<and> b0 \<le> 244 then utf8_four b0 bs
      else None)"

lemma utf8_tail:
  "utf8_two b s = Some (ch, r) \<Longrightarrow> utf8_two b (s @ t) = Some (ch, r @ t) \<and> length r < length s"
  "utf8_three b s = Some (ch, r) \<Longrightarrow> utf8_three b (s @ t) = Some (ch, r @ t) \<and> length r < length s"
  "utf8_four b s = Some (ch, r) \<Longrightarrow> utf8_four b (s @ t) = Some (ch, r @ t) \<and> length r < length s"
  by (cases "(b, s)" rule: utf8_two.cases; simp split: if_splits;
      cases "(b, s)" rule: utf8_three.cases; simp split: if_splits;
      cases "(b, s)" rule: utf8_four.cases; simp split: if_splits)+

lemma utf8_next_append: "utf8_next s = Some (ch, r) \<Longrightarrow> utf8_next (s @ t) = Some (ch, r @ t)"
  by (cases s) (auto simp: utf8_tail split: if_splits)

lemma utf8_next_shorter: "utf8_next s = Some (ch, r) \<Longrightarrow> length r < length s"
  by (cases s) (auto dest: utf8_tail split: if_splits)

function utf8_chars :: "u8 list \<Rightarrow> nat list option" where
  "utf8_chars s =
     (if s = [] then Some []
      else (case utf8_next s of
              None \<Rightarrow> None
            | Some (ch, r) \<Rightarrow> map_option (Cons ch) (utf8_chars r)))"
  by pat_completeness auto
termination
  by (relation "measure length") (auto dest: utf8_next_shorter)

declare utf8_chars.simps [simp del]

lemma utf8_chars_Nil [simp]: "utf8_chars [] = Some []"
  by (simp add: utf8_chars.simps)

lemma utf8_chars_ascii_Cons [simp]:
  "b < 128 \<Longrightarrow> utf8_chars (b # bs) = map_option (Cons (unat b)) (utf8_chars bs)"
  by (simp add: utf8_chars.simps [of "b # bs"])

lemma utf8_chars_append:
  "utf8_chars s = Some x \<Longrightarrow> utf8_chars (s @ t) = map_option ((@) x) (utf8_chars t)"
proof (induction s arbitrary: x rule: utf8_chars.induct)
  case (1 s)
  show ?case
  proof (cases "s = []")
    case True
    with 1 show ?thesis by (cases "utf8_chars t") auto
  next
    case False
    with "1.prems" obtain ch r y where *: "utf8_next s = Some (ch, r)"
      "utf8_chars r = Some y" "x = ch # y"
      by (auto simp: utf8_chars.simps [of s] split: option.splits)
    with "1.IH" [OF False, of "(ch, r)" ch r y] False show ?thesis
      by (simp add: utf8_chars.simps [of "s @ t"] utf8_next_append option.map_comp comp_def)
  qed
qed

definition utf8_valid :: "u8 list \<Rightarrow> bool" where
  "utf8_valid s \<longleftrightarrow> utf8_chars s \<noteq> None"

lemma utf8_chars_ascii: "is_ascii s \<Longrightarrow> utf8_chars s = Some (map unat s)"
  by (induction s) (auto simp: is_ascii_def)

lemma utf8_valid_ascii [simp]: "is_ascii s \<Longrightarrow> utf8_valid s"
  by (simp add: utf8_valid_def utf8_chars_ascii)

text \<open>\<open>str::chars\<close>; a \<open>str\<close> is always valid UTF-8.\<close>

definition str_chars :: "rstr \<Rightarrow> nat list" where
  "str_chars s = (case utf8_chars s of None \<Rightarrow> [] | Some cs \<Rightarrow> cs)"

lemma str_chars_ascii: "is_ascii s \<Longrightarrow> str_chars s = map unat s"
  by (simp add: str_chars_def utf8_chars_ascii)

definition char_to_ascii_uppercase :: "nat \<Rightarrow> nat" where
  "char_to_ascii_uppercase c = (if 97 \<le> c \<and> c \<le> 122 then c - 32 else c)"

definition char_to_ascii_lowercase :: "nat \<Rightarrow> nat" where
  "char_to_ascii_lowercase c = (if 65 \<le> c \<and> c \<le> 90 then c + 32 else c)"

definition char_is_ascii_digit :: "nat \<Rightarrow> bool" where
  "char_is_ascii_digit c \<longleftrightarrow> 48 \<le> c \<and> c \<le> 57"

definition char_is_ascii_uppercase :: "nat \<Rightarrow> bool" where
  "char_is_ascii_uppercase c \<longleftrightarrow> 65 \<le> c \<and> c \<le> 90"

definition char_is_ascii_alphanumeric :: "nat \<Rightarrow> bool" where
  "char_is_ascii_alphanumeric c \<longleftrightarrow>
     48 \<le> c \<and> c \<le> 57 \<or> 65 \<le> c \<and> c \<le> 90 \<or> 97 \<le> c \<and> c \<le> 122"

definition char_is_ascii_control :: "nat \<Rightarrow> bool" where
  "char_is_ascii_control c \<longleftrightarrow> c < 32 \<or> c = 127"

text \<open>
  The octets of a character, and ASCII lower-casing, which maps characters one by one.
\<close>

definition utf8_len :: "nat \<Rightarrow> nat" where
  "utf8_len c = (if c < 128 then 1 else if c < 2048 then 2 else if c < 65536 then 3 else 4)"

lemma utf8_two_len: "utf8_two b s = Some (ch, r) \<Longrightarrow> 194 \<le> unat b \<Longrightarrow> unat b \<le> 223
    \<Longrightarrow> utf8_len ch = 2 \<and> length s = 1 + length r"
  by (cases "(b, s)" rule: utf8_two.cases)
    (auto simp: utf8_len_def utf8_cont_def word_le_nat_alt split: if_splits)

lemma utf8_three_len: "utf8_three b s = Some (ch, r) \<Longrightarrow> 224 \<le> unat b \<Longrightarrow> unat b \<le> 239
    \<Longrightarrow> utf8_len ch = 3 \<and> length s = 2 + length r"
  apply (cases "(b, s)" rule: utf8_three.cases)
    apply (auto simp: utf8_len_def utf8_cont_def word_le_nat_alt word_unat_eq_iff split: if_splits)
  done

lemma utf8_four_len: "utf8_four b s = Some (ch, r) \<Longrightarrow> 240 \<le> unat b
    \<Longrightarrow> utf8_len ch = 4 \<and> length s = 3 + length r"
  apply (cases "(b, s)" rule: utf8_four.cases)
     apply (auto simp: utf8_len_def utf8_cont_def word_le_nat_alt word_unat_eq_iff split: if_splits)
  done

lemma utf8_next_len: "utf8_next s = Some (ch, r) \<Longrightarrow> length s = utf8_len ch + length r"
  by (cases s) (auto simp: word_le_nat_alt word_less_nat_alt utf8_len_def [of "unat _"]
      dest!: utf8_two_len utf8_three_len utf8_four_len split: if_splits)

lemma ascii_lower_unat:
  "unat (ascii_lower b) = char_to_ascii_lowercase (unat b)"
  by (auto simp: ascii_lower_def char_to_ascii_lowercase_def word_le_nat_alt unat_word_ariths)

lemma ascii_lower_high [simp]: "128 \<le> b \<Longrightarrow> ascii_lower b = b"
  by (auto simp: ascii_lower_def word_le_nat_alt)

lemma ascii_lower_low [simp]: "ascii_lower b < 128 \<longleftrightarrow> b < 128"
  by (auto simp: word_less_nat_alt ascii_lower_unat char_to_ascii_lowercase_def)

lemma ascii_lower_dot [simp]: "ascii_lower b = 46 \<longleftrightarrow> b = 46"
  by (auto simp: word_unat_eq_iff ascii_lower_unat char_to_ascii_lowercase_def)

lemma utf8_cont_lower [simp]: "utf8_cont b \<Longrightarrow> ascii_lower b = b"
  by (simp add: utf8_cont_def)

lemma utf8_two_lower: "utf8_two b s = Some (ch, r) \<Longrightarrow> utf8_two b (map ascii_lower s) = Some (ch, map ascii_lower r)"
  by (cases "(b, s)" rule: utf8_two.cases) (auto split: if_splits)

lemma utf8_three_lower:
  "utf8_three b s = Some (ch, r) \<Longrightarrow> utf8_three b (map ascii_lower s) = Some (ch, map ascii_lower r)"
  by (cases "(b, s)" rule: utf8_three.cases) (auto split: if_splits)

lemma utf8_four_lower:
  "utf8_four b s = Some (ch, r) \<Longrightarrow> utf8_four b (map ascii_lower s) = Some (ch, map ascii_lower r)"
  by (cases "(b, s)" rule: utf8_four.cases) (auto split: if_splits)

lemma utf8_len_high: "utf8_len ch \<noteq> 1 \<Longrightarrow> char_to_ascii_lowercase ch = ch"
  by (auto simp: utf8_len_def char_to_ascii_lowercase_def split: if_splits)

lemma utf8_next_lower:
  assumes "utf8_next s = Some (ch, r)"
  shows "utf8_next (map ascii_lower s) = Some (char_to_ascii_lowercase ch, map ascii_lower r)"
proof -
  from assms obtain b bs where s: "s = b # bs" by (cases s) auto
  show ?thesis
  proof (cases "b < 128")
    case True
    with assms s show ?thesis by (auto simp: ascii_lower_unat)
  next
    case False
    then have b: "ascii_lower b = b" by (simp add: not_less)
    have "utf8_len ch \<noteq> 1"
      using assms False
      by (auto simp: s word_le_nat_alt dest!: utf8_two_len utf8_three_len utf8_four_len split: if_splits)
    with assms False b show ?thesis
      by (auto simp: s utf8_len_high utf8_two_lower utf8_three_lower utf8_four_lower split: if_splits)
  qed
qed

lemma utf8_chars_Some_Nil [simp]: "utf8_chars s = Some [] \<longleftrightarrow> s = []"
  by (subst utf8_chars.simps) (auto split: option.splits)

lemma utf8_chars_Some_Cons:
  "utf8_chars s = Some (ch # cs) \<longleftrightarrow> (\<exists>r. utf8_next s = Some (ch, r) \<and> utf8_chars r = Some cs)"
  by (subst utf8_chars.simps) (auto split: option.splits)

lemma utf8_chars_lower:
  "utf8_chars s = Some cs \<Longrightarrow> utf8_chars (map ascii_lower s) = Some (map char_to_ascii_lowercase cs)"
proof (induction cs arbitrary: s)
  case (Cons ch cs)
  then obtain r where "utf8_next s = Some (ch, r)" "utf8_chars r = Some cs"
    by (auto simp: utf8_chars_Some_Cons)
  with Cons.IH [of r] utf8_next_lower [of s ch r] show ?case
    by (simp add: utf8_chars_Some_Cons)
qed simp

lemma utf8_chars_length: "utf8_chars s = Some cs \<Longrightarrow> length s = sum_list (map utf8_len cs)"
proof (induction cs arbitrary: s)
  case (Cons ch cs)
  then obtain r where "utf8_next s = Some (ch, r)" "utf8_chars r = Some cs"
    by (auto simp: utf8_chars_Some_Cons)
  with Cons.IH [of r] show ?case by (simp add: utf8_next_len)
qed simp

text \<open>
  \<open>is_char_boundary\<close>, and the slice \<open>&s[i..]\<close>, which panics off a boundary and past the end.
\<close>

definition is_char_boundary :: "rstr \<Rightarrow> nat \<Rightarrow> bool" where
  "is_char_boundary s i \<longleftrightarrow>
     i = 0 \<or> i = length s \<or> (i < length s \<and> \<not> utf8_cont (s ! i))"

definition str_from :: "rstr \<Rightarrow> nat \<Rightarrow> rstr exec" where
  "str_from s i = (if is_char_boundary s i then Done (drop i s) else Panic)"

lemma is_char_boundary_ascii: "is_ascii s \<Longrightarrow> i \<le> length s \<Longrightarrow> is_char_boundary s i"
  by (auto simp: is_char_boundary_def is_ascii_def list_all_length utf8_cont_def not_le
      nat_less_le)

lemma str_from_ascii: "is_ascii s \<Longrightarrow> i \<le> length s \<Longrightarrow> str_from s i = Done (drop i s)"
  by (simp add: str_from_def is_char_boundary_ascii)

subsection \<open>Prefixes, suffixes, digits\<close>

definition ends_with :: "rstr \<Rightarrow> rstr \<Rightarrow> bool" where
  "ends_with s t \<longleftrightarrow> length t \<le> length s \<and> drop (length s - length t) s = t"

definition strip_suffix :: "rstr \<Rightarrow> rstr \<Rightarrow> rstr option" where
  "strip_suffix s t = (if ends_with s t then Some (take (length s - length t) s) else None)"

lemma strip_suffix_Some: "strip_suffix s t = Some r \<longleftrightarrow> s = r @ t"
  by (auto simp: strip_suffix_def ends_with_def)
     (metis append_take_drop_id)

lemma ends_with_iff: "ends_with s t \<longleftrightarrow> (\<exists>r. s = r @ t)"
  by (metis option.distinct(1) strip_suffix_Some strip_suffix_def option.exhaust)

definition hex_digit :: "nat \<Rightarrow> u8" where
  "hex_digit n = (if n < 10 then word_of_nat (48 + n) else word_of_nat (87 + n))"

definition hex_value :: "u8 \<Rightarrow> nat option" where
  "hex_value b =
     (if 48 \<le> b \<and> b \<le> 57 then Some (unat b - 48)
      else if 97 \<le> b \<and> b \<le> 102 then Some (unat b - 87)
      else if 65 \<le> b \<and> b \<le> 70 then Some (unat b - 55)
      else None)"

definition is_ascii_digit :: "u8 \<Rightarrow> bool" where
  "is_ascii_digit b \<longleftrightarrow> 48 \<le> b \<and> b \<le> 57"

lemma unat_hex_digit: "n < 16 \<Longrightarrow> unat (hex_digit n) = (if n < 10 then 48 + n else 87 + n)"
  by (simp add: hex_digit_def unat_u8_of_nat del: of_nat_add)

lemma hex_value_digit [simp]: "n < 16 \<Longrightarrow> hex_value (hex_digit n) = Some n"
  by (auto simp: hex_value_def word_le_nat_alt unat_hex_digit)

text \<open>Decimal formatting and \<open>str::parse::<u8>\<close> (an optional sign, then decimal digits).\<close>

fun dec_digits :: "nat \<Rightarrow> rstr" where
  "dec_digits n = (if n < 10 then [hex_digit n] else dec_digits (n div 10) @ [hex_digit (n mod 10)])"

declare dec_digits.simps [simp del]

fun dec_value :: "nat \<Rightarrow> rstr \<Rightarrow> nat option" where
  "dec_value acc [] = Some acc"
| "dec_value acc (b # bs) =
     (if is_ascii_digit b then dec_value (acc * 10 + (unat b - 48)) bs else None)"

definition parse_u8 :: "rstr \<Rightarrow> u8 option" where
  "parse_u8 s =
     (let ds = (if s \<noteq> [] \<and> hd s = 43 then tl s else s)
      in if ds = [] then None
         else (case dec_value 0 ds of
             None \<Rightarrow> None
           | Some n \<Rightarrow> if n \<le> 255 then Some (word_of_nat n) else None))"

lemma dec_value_append:
  "dec_value acc (xs @ ys) = Option.bind (dec_value acc xs) (\<lambda>n. dec_value n ys)"
  by (induction xs arbitrary: acc) auto

lemma is_ascii_digit_hex [simp]: "n < 10 \<Longrightarrow> is_ascii_digit (hex_digit n)"
  by (simp add: is_ascii_digit_def word_le_nat_alt unat_hex_digit)

lemma dec_value_digits: "dec_value 0 (dec_digits n) = Some n"
proof (induction n rule: dec_digits.induct)
  case (1 n)
  show ?case
  proof (cases "n < 10")
    case True
    then show ?thesis by (simp add: dec_digits.simps [of n] unat_hex_digit)
  next
    case False
    with 1 show ?thesis
      by (simp add: dec_digits.simps [of n] dec_value_append unat_hex_digit)
  qed
qed

lemma dec_digits_set: "b \<in> set (dec_digits n) \<Longrightarrow> is_ascii_digit b"
proof (induction n rule: dec_digits.induct)
  case (1 n)
  then show ?case
    by (cases "n < 10") (auto simp: dec_digits.simps [of n])
qed

lemma dec_digits_ne [simp]: "dec_digits n \<noteq> []"
  by (subst dec_digits.simps) simp

lemma parse_u8_digits: "parse_u8 (dec_digits (unat b)) = Some b"
proof -
  have "hd (dec_digits (unat b)) \<in> set (dec_digits (unat b))" by simp
  then have "is_ascii_digit (hd (dec_digits (unat b)))" by (rule dec_digits_set)
  then have "hd (dec_digits (unat b)) \<noteq> 43" by (auto simp: is_ascii_digit_def)
  moreover have "unat b \<le> 255" using unat_u8 [of b] by linarith
  ultimately show ?thesis by (simp add: parse_u8_def dec_value_digits)
qed

end
