(* ===== verification/Byte_Cursor.thy ===== *)
theory Byte_Cursor
  imports Rust_Base
begin

text \<open>
  The bounds-checked read cursor of \<open>src/byte_cursor.rs\<close>, on which every wire-format parser is
  built. A read returns the value with the advanced cursor, or \<open>None\<close>, where the source
  returns \<open>None\<close> and leaves the position alone. \<open>find\<close> slices \<open>buf[pos..]\<close> and so panics when
  the position is past the end.

  The locale \<open>fixed_reader\<close> is what the parsers rely on: a reader of a fixed width succeeds
  exactly when that many octets are left, and then moves by that width and nothing else.
\<close>

record byte_cursor =
  bc_buf :: "u8 list"
  bc_pos :: nat

definition bc_new :: "u8 list \<Rightarrow> byte_cursor" where
  "bc_new buf = \<lparr>bc_buf = buf, bc_pos = 0\<rparr>"

definition bc_at :: "u8 list \<Rightarrow> nat \<Rightarrow> byte_cursor" where
  "bc_at buf pos = \<lparr>bc_buf = buf, bc_pos = pos\<rparr>"

definition set_position :: "nat \<Rightarrow> byte_cursor \<Rightarrow> byte_cursor" where
  "set_position pos c = c\<lparr>bc_pos := pos\<rparr>"

definition remaining :: "byte_cursor \<Rightarrow> nat" where
  "remaining c = length (bc_buf c) - bc_pos c"

definition bc_is_empty :: "byte_cursor \<Rightarrow> bool" where
  "bc_is_empty c \<longleftrightarrow> bc_pos c \<ge> length (bc_buf c)"

definition read_u8 :: "byte_cursor \<Rightarrow> (u8 \<times> byte_cursor) option" where
  "read_u8 c =
     (if bc_pos c < length (bc_buf c)
      then Some (bc_buf c ! bc_pos c, c\<lparr>bc_pos := bc_pos c + 1\<rparr>)
      else None)"

definition peek_u8 :: "byte_cursor \<Rightarrow> u8 option" where
  "peek_u8 c = (if bc_pos c < length (bc_buf c) then Some (bc_buf c ! bc_pos c) else None)"

definition read_slice :: "nat \<Rightarrow> byte_cursor \<Rightarrow> (u8 list \<times> byte_cursor) option" where
  "read_slice n c =
     (case checked_add_usize (bc_pos c) n of
        None \<Rightarrow> None
      | Some e \<Rightarrow>
          (case slice_get (bc_buf c) (bc_pos c) e of
             None \<Rightarrow> None
           | Some s \<Rightarrow> Some (s, c\<lparr>bc_pos := e\<rparr>)))"

definition read_u16_be :: "byte_cursor \<Rightarrow> (u16 \<times> byte_cursor) option" where
  "read_u16_be c =
     (case read_slice 2 c of
        None \<Rightarrow> None
      | Some (bytes, c') \<Rightarrow> Some (from_be16 (bytes ! 0) (bytes ! 1), c'))"

definition read_u32_be :: "byte_cursor \<Rightarrow> (u32 \<times> byte_cursor) option" where
  "read_u32_be c =
     (case read_slice 4 c of
        None \<Rightarrow> None
      | Some (bytes, c') \<Rightarrow>
          Some (from_be32 (bytes ! 0) (bytes ! 1) (bytes ! 2) (bytes ! 3), c'))"

definition advance :: "nat \<Rightarrow> byte_cursor \<Rightarrow> (unit \<times> byte_cursor) option" where
  "advance n c =
     (case checked_add_usize (bc_pos c) n of
        None \<Rightarrow> None
      | Some e \<Rightarrow> if e > length (bc_buf c) then None else Some ((), c\<lparr>bc_pos := e\<rparr>))"

fun position_of :: "u8 \<Rightarrow> u8 list \<Rightarrow> nat option" where
  "position_of b [] = None"
| "position_of b (x # xs) = (if x = b then Some 0 else map_option Suc (position_of b xs))"

definition bc_find :: "u8 \<Rightarrow> byte_cursor \<Rightarrow> nat option exec" where
  "bc_find b c =
     (if bc_pos c \<le> length (bc_buf c) then Done (position_of b (drop (bc_pos c) (bc_buf c)))
      else Panic)"

text \<open>A buffer that fits the address space, as every Rust slice does.\<close>

definition fits :: "'a list \<Rightarrow> bool" where
  "fits xs \<longleftrightarrow> length xs \<le> USIZE_MAX"

section \<open>Fixed-width readers\<close>

locale fixed_reader =
  fixes rd :: "byte_cursor \<Rightarrow> ('a \<times> byte_cursor) option" and width :: nat
  assumes rd_Some: "rd c = Some (x, c') \<Longrightarrow>
      c' = c\<lparr>bc_pos := bc_pos c + width\<rparr> \<and> bc_pos c + width \<le> length (bc_buf c)"
    and rd_None: "fits (bc_buf c) \<Longrightarrow> rd c = None \<Longrightarrow> length (bc_buf c) < bc_pos c + width"
begin

lemma rd_total:
  "fits (bc_buf c) \<Longrightarrow> bc_pos c + width \<le> length (bc_buf c) \<Longrightarrow>
     \<exists>x. rd c = Some (x, c\<lparr>bc_pos := bc_pos c + width\<rparr>)"
  using rd_None [of c] rd_Some [of c] by (cases "rd c") fastforce+

lemma rd_remaining: "rd c = Some (x, c') \<Longrightarrow> remaining c' + width = remaining c"
  using rd_Some [of c x c'] by (auto simp: remaining_def)

lemma rd_buf: "rd c = Some (x, c') \<Longrightarrow> bc_buf c' = bc_buf c"
  using rd_Some [of c x c'] by simp

end

lemma read_slice_eq:
  "fits (bc_buf c) \<Longrightarrow> read_slice n c =
     (if bc_pos c + n \<le> length (bc_buf c)
      then Some (take n (drop (bc_pos c) (bc_buf c)), c\<lparr>bc_pos := bc_pos c + n\<rparr>) else None)"
  by (auto simp: read_slice_def checked_add_usize_def slice_get_def fits_def)

lemma read_slice_SomeD:
  "read_slice n c = Some (s, c') \<Longrightarrow>
     s = take n (drop (bc_pos c) (bc_buf c)) \<and> c' = c\<lparr>bc_pos := bc_pos c + n\<rparr>
     \<and> bc_pos c + n \<le> length (bc_buf c)"
  by (auto simp: read_slice_def checked_add_usize_def slice_get_def
      split: option.splits if_splits)

lemma read_slice_NoneD:
  "fits (bc_buf c) \<Longrightarrow> read_slice n c = None \<Longrightarrow> length (bc_buf c) < bc_pos c + n"
  by (simp add: read_slice_eq split: if_splits)

lemma read_u16_be_slice:
  "map_option snd (read_u16_be c) = map_option snd (read_slice 2 c)"
  by (simp add: read_u16_be_def split: option.split prod.split)

lemma read_u32_be_slice:
  "map_option snd (read_u32_be c) = map_option snd (read_slice 4 c)"
  by (simp add: read_u32_be_def split: option.split prod.split)

interpretation rd_u8: fixed_reader read_u8 1
  by unfold_locales (auto simp: read_u8_def split: if_splits)

interpretation rd_slice: fixed_reader "read_slice n" n for n
  by unfold_locales (auto dest: read_slice_SomeD read_slice_NoneD)

text \<open>A reader that consumes what some fixed-width reader consumes is one too.\<close>

lemma fixed_reader_via:
  assumes "fixed_reader rd n" and same: "\<And>c. map_option snd (rd' c) = map_option snd (rd c)"
  shows "fixed_reader rd' n"
proof
  fix c x c'
  assume "rd' c = Some (x, c')"
  then have "map_option snd (rd c) = Some c'"
    using same [of c] by simp
  then obtain y where "rd c = Some (y, c')" by auto
  then show "c' = c\<lparr>bc_pos := bc_pos c + n\<rparr> \<and> bc_pos c + n \<le> length (bc_buf c)"
    by (rule fixed_reader.rd_Some [OF assms(1)])
next
  fix c
  assume "fits (bc_buf c)" and "rd' c = None"
  then show "length (bc_buf c) < bc_pos c + n"
    using same [of c] fixed_reader.rd_None [OF assms(1), of c] by simp
qed

interpretation rd_u16: fixed_reader read_u16_be 2
  by (rule fixed_reader_via [OF rd_slice.fixed_reader_axioms read_u16_be_slice])

interpretation rd_u32: fixed_reader read_u32_be 4
  by (rule fixed_reader_via [OF rd_slice.fixed_reader_axioms read_u32_be_slice])

interpretation rd_advance: fixed_reader "advance n" n for n
  by unfold_locales
     (auto simp: advance_def checked_add_usize_def fits_def split: option.splits if_splits)

section \<open>Reading what was written\<close>

text \<open>
  A cursor standing in front of an encoded value inside a larger buffer reads it back. These
  are the rewrite rules of every round trip over the wire.
\<close>

lemma read_u8_at [simp, wire]:
  "bc_pos c < length (bc_buf c) \<Longrightarrow>
     read_u8 c = Some (bc_buf c ! bc_pos c, c\<lparr>bc_pos := bc_pos c + 1\<rparr>)"
  by (simp add: read_u8_def)

lemma read_slice_mid [wire]:
  "fits (pre @ s @ post) \<Longrightarrow> n = length s \<Longrightarrow>
     read_slice n (bc_at (pre @ s @ post) (length pre))
       = Some (s, bc_at (pre @ s @ post) (length pre + n))"
  by (simp add: read_slice_eq bc_at_def)

lemma read_u16_be_mid [wire]:
  "fits (pre @ to_be16 w @ post) \<Longrightarrow>
     read_u16_be (bc_at (pre @ to_be16 w @ post) (length pre))
       = Some (w, bc_at (pre @ to_be16 w @ post) (length pre + 2))"
  by (simp add: read_u16_be_def read_slice_mid) (simp add: to_be16_def)

lemma read_u32_be_mid [wire]:
  "fits (pre @ to_be32 w @ post) \<Longrightarrow>
     read_u32_be (bc_at (pre @ to_be32 w @ post) (length pre))
       = Some (w, bc_at (pre @ to_be32 w @ post) (length pre + 4))"
  by (simp add: read_u32_be_def read_slice_mid) (simp add: to_be32_def)

end
