(* ===== verification/Dns_Name.thy ===== *)
theory Dns_Name
  imports Byte_Cursor
begin

text \<open>
  The wire codec of domain names of \<open>src/rfc1035.rs\<close>: \<open>extract_name\<close> with its pointer
  compression, \<open>write_name\<close>, \<open>skip_name\<close> and \<open>do_rfc1035_name\<close>.

  The loop of \<open>extract_name\<close> is a function on the cursor and the loop's variables. It always
  returns: each turn either follows a pointer, at most 255 times, or adds a label to a name
  of at most 255 octets, which is the termination measure.

  Output goes to a \<open>BytesMut\<close> of the \<open>bytes\<close> crate, which is not part of the repository. Its
  operations are a parameter (\<open>bytes_mut\<close>) of the writing functions, and the locale
  \<open>bytes_mut_laws\<close> states what the crate documents of them: each \<open>put\<close> appends, integers
  big-endian.
\<close>

datatype dns_error =
    PacketTooShort
  | InvalidName rstr
  | CompressionLoop
  | NameTooLong
  | UnexpectedEof

section \<open>The output buffer\<close>

record 'b bytes_mut =
  bm_new :: 'b
  bm_put_u8 :: "'b \<Rightarrow> u8 \<Rightarrow> 'b"
  bm_put_u16 :: "'b \<Rightarrow> u16 \<Rightarrow> 'b"
  bm_put_u32 :: "'b \<Rightarrow> u32 \<Rightarrow> 'b"
  bm_put_slice :: "'b \<Rightarrow> u8 list \<Rightarrow> 'b"
  bm_to_vec :: "'b \<Rightarrow> u8 list"

locale bytes_mut_laws =
  fixes B :: "'b bytes_mut"
  assumes to_vec_new: "bm_to_vec B (bm_new B) = []"
    and to_vec_put_u8: "bm_to_vec B (bm_put_u8 B b x) = bm_to_vec B b @ [x]"
    and to_vec_put_u16: "bm_to_vec B (bm_put_u16 B b w) = bm_to_vec B b @ to_be16 w"
    and to_vec_put_u32: "bm_to_vec B (bm_put_u32 B b v) = bm_to_vec B b @ to_be32 v"
    and to_vec_put_slice: "bm_to_vec B (bm_put_slice B b s) = bm_to_vec B b @ s"
begin

lemmas to_vec_simps = to_vec_new to_vec_put_u8 to_vec_put_u16 to_vec_put_u32 to_vec_put_slice

end

text \<open>The octet vector itself is such a buffer.\<close>

definition vec_bytes_mut :: "u8 list bytes_mut" where
  "vec_bytes_mut = \<lparr>bm_new = [], bm_put_u8 = (\<lambda>b x. b @ [x]), bm_put_u16 = (\<lambda>b w. b @ to_be16 w),
     bm_put_u32 = (\<lambda>b v. b @ to_be32 v), bm_put_slice = (@), bm_to_vec = (\<lambda>b. b)\<rparr>"

interpretation vec: bytes_mut_laws vec_bytes_mut
  by unfold_locales (simp_all add: vec_bytes_mut_def)

section \<open>Reading a name\<close>

text \<open>The 14-bit target of a compression pointer.\<close>

definition ptr_target :: "u8 \<Rightarrow> u8 \<Rightarrow> nat" where
  "ptr_target b lo = push_bit 8 (unat b AND 0x3F) OR unat lo"

definition unknown_label_type :: "u8 \<Rightarrow> dns_error" where
  "unknown_label_type b =
     InvalidName (str_lit ''unknown label type 0x''
       @ [hex_digit (unat b div 16), hex_digit (unat b mod 16)])"

function extract_name_loop ::
    "byte_cursor \<Rightarrow> rstr list \<Rightarrow> nat option \<Rightarrow> nat \<Rightarrow> nat \<Rightarrow> dns_error + (rstr \<times> nat)" where
  "extract_name_loop c labels end_offset hops wire_len =
     (case read_u8 c of
        None \<Rightarrow> Inl UnexpectedEof
      | Some (b, c1) \<Rightarrow>
          if b = 0 then
            Inr (join [DOT] labels, case end_offset of None \<Rightarrow> bc_pos c1 | Some e \<Rightarrow> e)
          else if b AND 0xC0 = 0xC0 then
            (case read_u8 c1 of
               None \<Rightarrow> Inl PacketTooShort
             | Some (lo, c2) \<Rightarrow>
                 let end_offset' = (if end_offset = None then Some (bc_pos c2) else end_offset);
                     hops' = hops + 1
                 in if hops' > 255 then Inl CompressionLoop
                    else let ptr = ptr_target b lo
                         in if ptr \<ge> length (bc_buf c2)
                            then Inl (InvalidName (str_lit ''compression pointer out of bounds''))
                            else extract_name_loop (set_position ptr c2) labels end_offset' hops'
                                   wire_len)
          else if b AND 0xC0 = 0 then
            (case read_slice (unat b) c1 of
               None \<Rightarrow> Inl UnexpectedEof
             | Some (label_bytes, c2) \<Rightarrow>
                 let wire_len' = wire_len + (unat b + 1)
                 in if wire_len' > 255 then Inl NameTooLong
                    else if \<not> utf8_valid label_bytes
                    then Inl (InvalidName (str_lit ''non-UTF8 label bytes''))
                    else extract_name_loop c2 (labels @ [label_bytes]) end_offset hops wire_len')
          else Inl (unknown_label_type b))"
  by pat_completeness auto
termination
  by (relation "measure (\<lambda>(c, labels, e, hops, wire_len). (256 - hops) + (256 - wire_len))") auto

declare extract_name_loop.simps [simp del]

definition extract_name :: "u8 list \<Rightarrow> nat \<Rightarrow> dns_error + (rstr \<times> nat)" where
  "extract_name pkt offset = extract_name_loop (bc_at pkt offset) [] None 0 1"

function skip_name_loop :: "byte_cursor \<Rightarrow> dns_error + nat" where
  "skip_name_loop c =
     (case read_u8 c of
        None \<Rightarrow> Inl UnexpectedEof
      | Some (b, c1) \<Rightarrow>
          if b = 0 then Inr (bc_pos c1)
          else if b AND 0xC0 = 0xC0 then
            (case read_u8 c1 of None \<Rightarrow> Inl PacketTooShort | Some (_, c2) \<Rightarrow> Inr (bc_pos c2))
          else if b AND 0xC0 \<noteq> 0 then Inl (unknown_label_type b)
          else (case advance (unat b) c1 of
                  None \<Rightarrow> Inl UnexpectedEof
                | Some (_, c2) \<Rightarrow> skip_name_loop c2))"
  by pat_completeness auto
termination
  by (relation "measure remaining")
     (auto dest!: rd_u8.rd_remaining rd_advance.rd_remaining)

declare skip_name_loop.simps [simp del]

definition skip_name :: "u8 list \<Rightarrow> nat \<Rightarrow> dns_error + nat" where
  "skip_name pkt offset = skip_name_loop (bc_at pkt offset)"

section \<open>Writing a name\<close>

definition write_label :: "'b bytes_mut \<Rightarrow> 'b \<Rightarrow> rstr \<Rightarrow> 'b" where
  "write_label B buf label = bm_put_slice B (bm_put_u8 B buf (word_of_nat (length label))) label"

definition write_name :: "'b bytes_mut \<Rightarrow> 'b \<Rightarrow> rstr \<Rightarrow> 'b" where
  "write_name B buf name =
     (let name = (if name = str_lit ''.'' then [] else name)
      in if name = [] then bm_put_u8 B buf 0
         else bm_put_u8 B (foldl (write_label B) buf (split_on DOT name)) 0)"

text \<open>The octets \<open>write_name\<close> appends.\<close>

definition labels_wire :: "rstr list \<Rightarrow> u8 list" where
  "labels_wire ls = concat (map (\<lambda>l. word_of_nat (length l) # l) ls)"

definition name_wire :: "rstr \<Rightarrow> u8 list" where
  "name_wire name =
     (if name = [] \<or> name = str_lit ''.'' then [0] else labels_wire (split_on DOT name) @ [0])"

context bytes_mut_laws begin

lemma to_vec_write_labels:
  "bm_to_vec B (foldl (write_label B) buf ls) = bm_to_vec B buf @ labels_wire ls"
  by (induction ls arbitrary: buf)
     (simp_all add: write_label_def labels_wire_def to_vec_simps)

lemma to_vec_write_name: "bm_to_vec B (write_name B buf name) = bm_to_vec B buf @ name_wire name"
  by (simp add: write_name_def name_wire_def to_vec_write_labels to_vec_simps Let_def)

end

lemma to_vec_vec [simp]: "bm_to_vec vec_bytes_mut buf = buf"
  by (simp add: vec_bytes_mut_def)

lemma write_name_vec [simp]: "write_name vec_bytes_mut buf name = buf @ name_wire name"
  using vec.to_vec_write_name [of buf name] by simp

section \<open>Bounds of a parsed name\<close>

lemma labels_wire_simps [simp]:
  "labels_wire [] = []"
  "labels_wire (l # ls) = word_of_nat (length l) # l @ labels_wire ls"
  by (simp_all add: labels_wire_def)

lemma length_labels_wire: "length (labels_wire ls) = sum_list (map (\<lambda>l. length l + 1) ls)"
  by (induction ls) simp_all

lemma length_name_wire:
  "length (name_wire name) = (if name = [] \<or> name = str_lit ''.'' then 1 else length name + 2)"
  using length_join_single [of "split_on DOT name" DOT]
  by (simp add: name_wire_def length_labels_wire)

lemma utf8_valid_append: "utf8_valid a \<Longrightarrow> utf8_valid b \<Longrightarrow> utf8_valid (a @ b)"
  by (auto simp: utf8_valid_def utf8_chars_append)

lemma utf8_valid_join: "(\<And>l. l \<in> set ls \<Longrightarrow> utf8_valid l) \<Longrightarrow> utf8_valid (join [DOT] ls)"
proof (induction ls rule: induct_list012)
  case 1
  then show ?case by (simp add: utf8_valid_def)
next
  case (3 l m ls)
  have "utf8_valid [DOT]" by (simp add: utf8_valid_def)
  with 3 show ?case
    by (simp add: utf8_valid_append del: append_Cons append_Nil)
qed simp

text \<open>
  The successful runs of the loop as a relation, one rule per branch that goes on or returns,
  so that facts about parsed names are proved by rule induction.
\<close>

inductive extracts ::
    "byte_cursor \<Rightarrow> rstr list \<Rightarrow> nat option \<Rightarrow> nat \<Rightarrow> nat \<Rightarrow> rstr \<times> nat \<Rightarrow> bool" where
  root: "read_u8 c = Some (0, c1) \<Longrightarrow>
     extracts c labels e hops w (join [DOT] labels, case e of None \<Rightarrow> bc_pos c1 | Some e' \<Rightarrow> e')"
| pointer: "read_u8 c = Some (b, c1) \<Longrightarrow> b AND 0xC0 = 0xC0 \<Longrightarrow> read_u8 c1 = Some (lo, c2) \<Longrightarrow>
     hops < 255 \<Longrightarrow> ptr_target b lo < length (bc_buf c2) \<Longrightarrow>
     extracts (set_position (ptr_target b lo) c2) labels
       (if e = None then Some (bc_pos c2) else e) (hops + 1) w r \<Longrightarrow>
     extracts c labels e hops w r"
| label: "read_u8 c = Some (b, c1) \<Longrightarrow> b \<noteq> 0 \<Longrightarrow> b AND 0xC0 = 0 \<Longrightarrow>
     read_slice (unat b) c1 = Some (l, c2) \<Longrightarrow> w + (unat b + 1) \<le> 255 \<Longrightarrow> utf8_valid l \<Longrightarrow>
     extracts c2 (labels @ [l]) e hops (w + (unat b + 1)) r \<Longrightarrow>
     extracts c labels e hops w r"

lemma extracts_imp_loop: "extracts c labels e hops w r \<Longrightarrow> extract_name_loop c labels e hops w = Inr r"
proof (induction rule: extracts.induct)
  case (root c c1 labels e hops w)
  then show ?case by (simp add: extract_name_loop.simps [of c])
next
  case (pointer c b c1 lo c2 hops labels e w r)
  moreover from pointer have "b \<noteq> 0" by auto
  ultimately show ?case by (simp add: extract_name_loop.simps [of c] Let_def)
next
  case (label c b c1 l c2 w labels e hops r)
  then show ?case by (simp add: extract_name_loop.simps [of c] Let_def)
qed

lemma loop_imp_extracts: "extract_name_loop c labels e hops w = Inr r \<Longrightarrow> extracts c labels e hops w r"
proof (induction c labels e hops w rule: extract_name_loop.induct)
  case (1 c labels e hops w)
  note eq = "1.prems" [unfolded extract_name_loop.simps [of c labels e hops w]]
  from eq obtain b c1 where b: "read_u8 c = Some (b, c1)"
    by (auto split: option.splits)
  consider "b = 0" | "b \<noteq> 0" "b AND 0xC0 = 0xC0" | "b \<noteq> 0" "b AND 0xC0 = 0"
    | "b \<noteq> 0" "b AND 0xC0 \<noteq> 0xC0" "b AND 0xC0 \<noteq> 0"
    by blast
  then show ?case
  proof cases
    case 1
    with eq b show ?thesis by (auto intro: extracts.root)
  next
    case 2
    with eq b obtain lo c2 where lo: "read_u8 c1 = Some (lo, c2)"
      by (auto split: option.splits)
    with eq b 2 have hops: "\<not> hops + 1 > 255" and ptr: "\<not> ptr_target b lo \<ge> length (bc_buf c2)"
      and rest: "extract_name_loop (set_position (ptr_target b lo) c2) labels
        (if e = None then Some (bc_pos c2) else e) (hops + 1) w = Inr r"
      by (auto simp: Let_def split: if_splits)
    have "extracts (set_position (ptr_target b lo) c2) labels
        (if e = None then Some (bc_pos c2) else e) (hops + 1) w r"
      by (rule "1.IH"(1) [OF b refl 2 lo refl refl refl hops refl ptr rest])
    with hops ptr show ?thesis
      by (intro extracts.pointer [OF b 2(2) lo]) auto
  next
    case 3
    with eq b obtain l c2 where l: "read_slice (unat b) c1 = Some (l, c2)"
      by (auto split: option.splits)
    with eq b 3 have len: "\<not> w + (unat b + 1) > 255" and utf8: "\<not> \<not> utf8_valid l"
      and rest: "extract_name_loop c2 (labels @ [l]) e hops (w + (unat b + 1)) = Inr r"
      by (auto simp: Let_def split: if_splits)
    have nptr: "b AND 0xC0 \<noteq> 0xC0" using 3 by simp
    have "extracts c2 (labels @ [l]) e hops (w + (unat b + 1)) r"
      by (rule "1.IH"(2) [OF b refl 3(1) nptr 3(2) l refl refl len utf8 rest])
    with len utf8 show ?thesis
      by (intro extracts.label [OF b 3 l]) auto
  next
    case 4
    with eq b show ?thesis by simp
  qed
qed

lemma extract_name_loop_iff:
  "extract_name_loop c labels e hops w = Inr r \<longleftrightarrow> extracts c labels e hops w r"
  using extracts_imp_loop loop_imp_extracts by blast

text \<open>
  What the loop keeps: the labels collected so far are valid and account for the wire length,
  the end offset, once set, is the result, and until then the cursor moves forward.
\<close>

definition labels_ok :: "rstr list \<Rightarrow> nat \<Rightarrow> bool" where
  "labels_ok labels wire_len \<longleftrightarrow>
     (\<forall>l \<in> set labels. utf8_valid l \<and> l \<noteq> []) \<and> wire_len = 1 + length (labels_wire labels)"

lemma labels_ok_snoc:
  "labels_ok ls w \<Longrightarrow> utf8_valid l \<Longrightarrow> l \<noteq> [] \<Longrightarrow> labels_ok (ls @ [l]) (w + (length l + 1))"
  by (auto simp: labels_ok_def length_labels_wire)

lemma labels_ok_join:
  assumes "labels_ok ls w" and "w \<le> 255"
  shows "utf8_valid (join [DOT] ls) \<and> length (join [DOT] ls) \<le> 253"
proof
  show "utf8_valid (join [DOT] ls)"
    using assms(1) by (intro utf8_valid_join) (simp add: labels_ok_def)
  show "length (join [DOT] ls) \<le> 253"
    using assms length_join_single [of ls DOT]
    by (cases "ls = []") (auto simp: labels_ok_def length_labels_wire)
qed

lemma length_read_slice: "read_slice n c = Some (s, c') \<Longrightarrow> length s = n"
  by (auto dest!: read_slice_SomeD)

lemma extracts_name:
  "extracts c labels e hops w r \<Longrightarrow> labels_ok labels w \<Longrightarrow> w \<le> 255 \<Longrightarrow>
     utf8_valid (fst r) \<and> length (fst r) \<le> 253"
proof (induction rule: extracts.induct)
  case (root c c1 labels e hops w)
  then show ?case by (simp add: labels_ok_join)
next
  case (label c b c1 l c2 w labels e hops r)
  then have "length l = unat b" by (simp add: length_read_slice)
  moreover from this label have "l \<noteq> []" by (auto simp: unat_eq_0)
  ultimately show ?case
    using label labels_ok_snoc [of labels w l] by simp
qed simp

lemma extracts_end: "extracts c labels e hops w r \<Longrightarrow> e = Some e' \<Longrightarrow> snd r = e'"
  by (induction rule: extracts.induct) auto

lemma extracts_skip:
  "extracts c labels e hops w r \<Longrightarrow> e = None \<Longrightarrow> skip_name_loop c = Inr (snd r)"
proof (induction rule: extracts.induct)
  case (root c c1 labels e hops w)
  then show ?case by (simp add: skip_name_loop.simps [of c])
next
  case (pointer c b c1 lo c2 hops labels e w r)
  then have "snd r = bc_pos c2" and "b \<noteq> 0"
    using extracts_end [OF pointer.hyps(6)] by auto
  with pointer show ?case by (simp add: skip_name_loop.simps [of c])
next
  case (label c b c1 l c2 w labels e hops r)
  then have "advance (unat b) c1 = Some ((), c2)"
    using read_slice_SomeD [OF label.hyps(4)]
    by (auto simp: advance_def read_slice_def checked_add_usize_def
        split: option.splits if_splits)
  with label show ?case by (simp add: skip_name_loop.simps [of c])
qed

lemma skip_name_loop_bounds:
  "skip_name_loop c = Inr off \<Longrightarrow> bc_pos c < off \<and> off \<le> length (bc_buf c)"
proof (induction c rule: skip_name_loop.induct)
  case (1 c)
  note eq = "1.prems" [unfolded skip_name_loop.simps [of c]]
  from eq obtain b c1 where b: "read_u8 c = Some (b, c1)"
    by (auto split: option.splits)
  show ?case
  proof (cases "b \<noteq> 0 \<and> b AND 0xC0 = 0")
    case True
    with eq b obtain u c2 where adv: "advance (unat b) c1 = Some (u, c2)"
      and "skip_name_loop c2 = Inr off"
      by (auto split: option.splits)
    with True b have "bc_pos c2 < off \<and> off \<le> length (bc_buf c2)"
      by (intro "1.IH") auto
    with rd_u8.rd_Some [OF b] rd_advance.rd_Some [OF adv] show ?thesis by simp
  next
    case False
    with eq b rd_u8.rd_Some [OF b] show ?thesis
      by (auto split: option.splits if_splits dest!: rd_u8.rd_Some)
  qed
qed

lemma extract_name_skip: "extract_name pkt off = Inr (n, off') \<Longrightarrow> skip_name pkt off = Inr off'"
  using extracts_skip [of "bc_at pkt off" "[]" None 0 1 "(n, off')"]
  by (simp add: extract_name_def skip_name_def extract_name_loop_iff)

lemma skip_name_bounds: "skip_name pkt off = Inr off' \<Longrightarrow> off < off' \<and> off' \<le> length pkt"
  unfolding skip_name_def by (drule skip_name_loop_bounds) (simp add: bc_at_def)

lemma extract_name_bounds: "extract_name pkt off = Inr (n, off') \<Longrightarrow> off < off' \<and> off' \<le> length pkt"
  by (drule extract_name_skip) (rule skip_name_bounds)

lemma extract_name_valid: "extract_name pkt off = Inr (n, off') \<Longrightarrow> utf8_valid n \<and> length n \<le> 253"
  using extracts_name [of "bc_at pkt off" "[]" None 0 1 "(n, off')"]
  by (simp add: extract_name_def extract_name_loop_iff labels_ok_def)

section \<open>Round trip\<close>

text \<open>A name that fits the wire: non-empty UTF-8 labels of at most 63 octets, 255 in all.\<close>

definition label_ok :: "rstr \<Rightarrow> bool" where
  "label_ok l \<longleftrightarrow> l \<noteq> [] \<and> length l \<le> 63 \<and> utf8_valid l"

definition name_ok :: "rstr \<Rightarrow> bool" where
  "name_ok n \<longleftrightarrow> n = [] \<or> (list_all label_ok (split_on DOT n) \<and> length n \<le> 253)"

lemma label_octet:
  assumes "label_ok l"
  shows "unat (word_of_nat (length l) :: u8) = length l" "(word_of_nat (length l) :: u8) \<noteq> 0"
    "(word_of_nat (length l) :: u8) AND 0xC0 = 0"
proof -
  let ?b = "word_of_nat (length l) :: u8"
  show len: "unat ?b = length l"
    using assms by (simp add: label_ok_def unat_u8_of_nat)
  then show "?b \<noteq> 0" using assms by (auto simp: label_ok_def)
  have "unat ?b < 2 ^ 6" using len assms by (simp add: label_ok_def)
  then have "take_bit 6 ?b = ?b"
    by (simp only: word_unat_eq_iff unsigned_take_bit_eq take_bit_nat_eq_self)
  then have "?b AND 0xC0 = (?b AND mask 6) AND 0xC0"
    by (simp add: take_bit_eq_mask)
  also have "\<dots> = ?b AND (mask 6 AND 0xC0)" by (simp only: and.assoc)
  also have "\<dots> = 0" by (simp add: mask_numeral)
  finally show "?b AND 0xC0 = 0" .
qed

lemma extracts_labels_wire:
  assumes "list_all label_ok ls" and "w + length (labels_wire ls) \<le> 255"
    and "fits (pre @ labels_wire ls @ 0 # post)"
  shows "extracts (bc_at (pre @ labels_wire ls @ 0 # post) (length pre)) acc None h w
           (join [DOT] (acc @ ls), length pre + length (labels_wire ls) + 1)"
  using assms
proof (induction ls arbitrary: pre acc w)
  case Nil
  have "read_u8 (bc_at (pre @ 0 # post) (length pre)) = Some (0, bc_at (pre @ 0 # post) (length pre + 1))"
    by (simp add: bc_at_def)
  from extracts.root [OF this, of acc None] show ?case by (simp add: bc_at_def)
next
  case (Cons l ls)
  let ?b = "word_of_nat (length l) :: u8"
  let ?pkt = "pre @ labels_wire (l # ls) @ 0 # post"
  have l: "label_ok l" using Cons.prems(1) by simp
  note b = label_octet [OF l]
  have 1: "read_u8 (bc_at ?pkt (length pre)) = Some (?b, bc_at ?pkt (length pre + 1))"
    by (simp add: bc_at_def)
  have 2: "read_slice (unat ?b) (bc_at ?pkt (length pre + 1))
      = Some (l, bc_at ?pkt (length pre + 1 + length l))"
    using read_slice_mid [of "pre @ [?b]" l "labels_wire ls @ 0 # post"] Cons.prems(3) b(1)
    by simp
  have "extracts (bc_at ((pre @ ?b # l) @ labels_wire ls @ 0 # post) (length (pre @ ?b # l)))
      (acc @ [l]) None h (w + (length l + 1))
      (join [DOT] ((acc @ [l]) @ ls), length (pre @ ?b # l) + length (labels_wire ls) + 1)"
    using Cons.prems by (intro Cons.IH) (auto simp: length_labels_wire)
  then have 3: "extracts (bc_at ?pkt (length pre + 1 + length l)) (acc @ [l]) None h
      (w + (unat ?b + 1)) (join [DOT] (acc @ l # ls), length pre + length (labels_wire (l # ls)) + 1)"
    using b(1) by (simp add: add.assoc)
  have "w + (unat ?b + 1) \<le> 255" using Cons.prems(2) b(1) by simp
  moreover have "utf8_valid l" using l by (simp add: label_ok_def)
  ultimately show ?case
    using extracts.label [OF 1 b(2,3) 2 _ _ 3] by simp
qed

lemma not_label_ok_Nil [simp]: "\<not> label_ok []"
  by (simp add: label_ok_def)

lemma name_ok_not_dot: "name_ok n \<Longrightarrow> n \<noteq> str_lit ''.''"
  by (auto simp: name_ok_def)

lemma extract_name_wire:
  assumes "name_ok n" and "fits (pre @ name_wire n @ post)"
  shows "extract_name (pre @ name_wire n @ post) (length pre)
           = Inr (n, length pre + length (name_wire n))"
proof (cases "n = []")
  case True
  then show ?thesis
    using extracts_labels_wire [of "[]" 1 pre post "[]" 0] assms(2)
    by (simp add: extract_name_def extract_name_loop_iff name_wire_def)
next
  case False
  let ?ls = "split_on DOT n"
  have "n \<noteq> str_lit ''.''" using assms(1) by (rule name_ok_not_dot)
  then have w: "name_wire n = labels_wire ?ls @ [0]" using False by (simp add: name_wire_def)
  have "length (name_wire n) = length n + 2"
    using False \<open>n \<noteq> str_lit ''.''\<close> by (simp add: length_name_wire)
  then show ?thesis
    using extracts_labels_wire [of ?ls 1 pre post "[]" 0] assms False w
    by (simp add: extract_name_def extract_name_loop_iff name_ok_def)
qed

section \<open>Compression loops\<close>

lemma pointer_loop_diverts:
  assumes "off + 1 < length pkt" and "pkt ! off AND 0xC0 = 0xC0"
    and "ptr_target (pkt ! off) (pkt ! (off + 1)) = off"
  shows "extract_name_loop (bc_at pkt off) labels e hops w = Inl CompressionLoop"
proof (induction "256 - hops" arbitrary: e hops)
  case 0
  from assms(2) have "pkt ! off \<noteq> 0" by auto
  with 0 assms show ?case
    unfolding extract_name_loop.simps [of "bc_at pkt off" labels e hops w]
    by (simp add: bc_at_def Let_def)
next
  case (Suc n)
  from assms(2) have nz: "pkt ! off \<noteq> 0" by auto
  from Suc have IH: "extract_name_loop \<lparr>bc_buf = pkt, bc_pos = off\<rparr> labels e' (Suc hops) w
      = Inl CompressionLoop" for e'
    using Suc.hyps(1) [of "Suc hops" e'] by (simp add: bc_at_def)
  show ?case
    using assms nz
    unfolding extract_name_loop.simps [of "bc_at pkt off" labels e hops w]
    by (simp add: bc_at_def Let_def set_position_def IH)
qed

section \<open>The escaping writer\<close>

text \<open>
  \<open>do_rfc1035_name\<close> writes into a plain vector, under an optional limit. The \<open>u8\<close> length counter
  of a label saturates on an escape and overflows (a panic under overflow checks) on an
  ordinary octet.
\<close>

definition NAME_ESCAPE :: u8 where
  "NAME_ESCAPE = 1"

definition over_limit :: "nat option \<Rightarrow> u8 list \<Rightarrow> bool" where
  "over_limit limit buf = (case limit of None \<Rightarrow> False | Some lim \<Rightarrow> length buf > lim)"

definition saturating_add_u8 :: "u8 \<Rightarrow> u8 \<Rightarrow> u8" where
  "saturating_add_u8 a b = (if unat a + unat b > 255 then 255 else a + b)"

fun push_label_bytes :: "nat option \<Rightarrow> rstr \<Rightarrow> u8 list \<Rightarrow> u8 \<Rightarrow> (bool \<times> u8 list \<times> u8) exec" where
  "push_label_bytes limit [] buf label_len = Done (True, buf, label_len)"
| "push_label_bytes limit (b # bs) buf label_len =
     (if b = NAME_ESCAPE then
        let buf' = buf @ [NAME_ESCAPE, b + 1]; len' = saturating_add_u8 label_len 2
        in if over_limit limit buf' then Done (False, buf', len')
           else push_label_bytes limit bs buf' len'
      else if label_len = 255 then Panic
      else let buf' = buf @ [b]; len' = label_len + 1
           in if over_limit limit buf' then Done (False, buf', len')
              else push_label_bytes limit bs buf' len')"

fun push_labels :: "nat option \<Rightarrow> rstr list \<Rightarrow> u8 list \<Rightarrow> (bool \<times> u8 list) exec" where
  "push_labels limit [] buf = Done (True, buf)"
| "push_labels limit (label # ls) buf =
     (if label = [] then push_labels limit ls buf
      else let len_pos = length buf; buf1 = buf @ [0]
           in if over_limit limit buf1 then Done (False, buf1)
              else bind_exec (push_label_bytes limit label buf1 0) (\<lambda>(ok, buf2, label_len).
                     if \<not> ok then Done (False, buf2)
                     else push_labels limit ls (buf2[len_pos := label_len])))"

definition do_rfc1035_name :: "u8 list \<Rightarrow> rstr \<Rightarrow> nat option \<Rightarrow> (bool \<times> u8 list) exec" where
  "do_rfc1035_name buf name limit = push_labels limit (split_on DOT name) buf"

definition esc_octet :: "u8 \<Rightarrow> u8 list" where
  "esc_octet b = (if b = NAME_ESCAPE then [NAME_ESCAPE, b + 1] else [b])"

definition esc_label :: "rstr \<Rightarrow> u8 list" where
  "esc_label l = concat (map esc_octet l)"

lemma esc_label_simps [simp]:
  "esc_label [] = []" "esc_label (b # l) = esc_octet b @ esc_label l"
  by (simp_all add: esc_label_def)

lemma length_esc_octet: "length (esc_octet b) = (if b = NAME_ESCAPE then 2 else 1)"
  by (simp add: esc_octet_def)

definition within :: "nat option \<Rightarrow> nat \<Rightarrow> bool" where
  "within limit n = (case limit of None \<Rightarrow> True | Some lim \<Rightarrow> n \<le> lim)"

lemma over_limit_within: "over_limit limit buf \<longleftrightarrow> \<not> within limit (length buf)"
  by (auto simp: over_limit_def within_def split: option.split)

lemma within_mono: "within limit n \<Longrightarrow> m \<le> n \<Longrightarrow> within limit m"
  by (auto simp: within_def split: option.splits)

lemma saturating_add_u8_two: "unat len + 2 \<le> 255 \<Longrightarrow> saturating_add_u8 len 2 = len + 2 \<and> unat (len + 2) = unat len + 2"
  using unat_add_lem [of len 2] by (simp add: saturating_add_u8_def)

lemma unat_succ_u8: "unat len + 1 \<le> 255 \<Longrightarrow> len \<noteq> (255 :: u8) \<and> unat (len + 1) = unat len + 1"
  using unat_add_lem [of len 1] by auto

lemma push_label_bytes_within:
  assumes "unat len + length (esc_label l) \<le> 255" and "within limit (length buf + length (esc_label l))"
  shows "push_label_bytes limit l buf len
           = Done (True, buf @ esc_label l, len + word_of_nat (length (esc_label l)))"
  using assms
proof (induction l arbitrary: buf len)
  case (Cons b l)
  let ?w = "if b = NAME_ESCAPE then 2 else 1 :: nat"
  have len: "unat len + ?w \<le> 255" using Cons.prems(1) by (simp add: length_esc_octet split: if_splits)
  have lim: "within limit (length buf + ?w)"
    using Cons.prems(2) by (rule within_mono) (simp add: length_esc_octet)
  show ?case
  proof (cases "b = NAME_ESCAPE")
    case True
    with len lim Cons.prems Cons.IH [of "len + 2" "buf @ [NAME_ESCAPE, b + 1]"] show ?thesis
      by (simp add: esc_octet_def over_limit_within saturating_add_u8_two Let_def add.assoc)
  next
    case False
    with len lim Cons.prems Cons.IH [of "len + 1" "buf @ [b]"] unat_succ_u8 [of len] show ?thesis
      by (simp add: esc_octet_def over_limit_within Let_def add.assoc)
  qed
qed simp

lemma push_label_bytes_over:
  assumes "unat len + length (esc_label l) \<le> 255" and "\<not> within limit (length buf + length (esc_label l))"
    and "within limit (length buf)"
  shows "\<exists>buf' len'. push_label_bytes limit l buf len = Done (False, buf', len')"
  using assms
proof (induction l arbitrary: buf len)
  case (Cons b l)
  show ?case
  proof (cases "b = NAME_ESCAPE")
    case True
    with Cons.prems Cons.IH [of "len + 2" "buf @ [NAME_ESCAPE, b + 1]"] saturating_add_u8_two [of len]
    show ?thesis by (auto simp: esc_octet_def over_limit_within Let_def)
  next
    case False
    with Cons.prems Cons.IH [of "len + 1" "buf @ [b]"] unat_succ_u8 [of len]
    show ?thesis by (auto simp: esc_octet_def over_limit_within Let_def)
  qed
qed simp

text \<open>The labels \<open>do_rfc1035_name\<close> writes, escaped; empty labels are skipped.\<close>

definition esc_labels :: "rstr \<Rightarrow> rstr list" where
  "esc_labels name = map esc_label (filter (\<lambda>l. l \<noteq> []) (split_on DOT name))"

lemma push_labels_spec:
  assumes "\<forall>l \<in> set ls. length (esc_label l) \<le> 255"
    and "ls' = map esc_label (filter (\<lambda>l. l \<noteq> []) ls)" and "within limit (length buf)"
  shows "if within limit (length buf + length (labels_wire ls'))
         then push_labels limit ls buf = Done (True, buf @ labels_wire ls')
         else \<exists>buf'. push_labels limit ls buf = Done (False, buf')"
  using assms
proof (induction ls arbitrary: buf ls')
  case (Cons l ls)
  let ?rest = "map esc_label (filter (\<lambda>l. l \<noteq> []) ls)"
  show ?case
  proof (cases "l = []")
    case True
    with Cons.IH [of ?rest buf] Cons.prems show ?thesis by simp
  next
    case False
    let ?e = "esc_label l"
    have len: "unat (0 :: u8) + length ?e \<le> 255" using Cons.prems(1) by simp
    have ls': "ls' = ?e # ?rest" using False Cons.prems(2) by simp
    show ?thesis
    proof (cases "within limit (length buf + 1 + length ?e)")
      case True
      then have "within limit (length (buf @ [0]))" by (rule within_mono) simp
      moreover have "push_label_bytes limit l (buf @ [0]) 0
          = Done (True, buf @ [0] @ ?e, word_of_nat (length ?e))"
        using push_label_bytes_within [of 0 l limit "buf @ [0]"] len True by simp
      ultimately have "push_labels limit (l # ls) buf
          = push_labels limit ls (buf @ word_of_nat (length ?e) # ?e)"
        using False by (simp add: over_limit_within Let_def list_update_append)
      then show ?thesis
        using Cons.IH [of ?rest "buf @ word_of_nat (length ?e) # ?e"] Cons.prems(1) True ls'
        by (simp add: add.assoc)
    next
      case no: False
      then have "\<not> within limit (length buf + length (labels_wire ls'))"
        using within_mono [of limit "length buf + length (labels_wire ls')"] ls' by auto
      moreover have "\<exists>buf'. push_labels limit (l # ls) buf = Done (False, buf')"
        using push_label_bytes_over [of 0 l limit "buf @ [0]"] len no False
        by (auto simp: over_limit_within Let_def)
      ultimately show ?thesis by simp
    qed
  qed
qed simp

section \<open>Properties\<close>

text \<open>C20: a domain name written by \<open>write_name\<close> is read back by \<open>extract_name\<close>, wherever in a
  packet it stands, and the offset ends right behind it.\<close>

theorem write_extract_name:
  assumes "bytes_mut_laws B" and "name_ok n" and "fits (bm_to_vec B (write_name B buf n) @ post)"
  shows "extract_name (bm_to_vec B (write_name B buf n) @ post) (length (bm_to_vec B buf))
           = Inr (n, length (bm_to_vec B (write_name B buf n)))"
  using extract_name_wire [of n "bm_to_vec B buf" post] assms
  by (simp add: bytes_mut_laws.to_vec_write_name)

theorem write_extract_name_witness:
  "extract_name (bm_to_vec vec_bytes_mut (write_name vec_bytes_mut [7] [97, DOT, 98, 99]) @ [5])
       (length (bm_to_vec vec_bytes_mut [7]))
     = Inr ([97, DOT, 98, 99], length (bm_to_vec vec_bytes_mut (write_name vec_bytes_mut [7] [97, DOT, 98, 99])))"
proof -
  have ok: "name_ok [97, DOT, 98, 99]" by code_simp
  have "fits (bm_to_vec vec_bytes_mut (write_name vec_bytes_mut [7] [97, DOT, 98, 99]) @ [5])"
    by (simp add: fits_def USIZE_MAX_def length_name_wire)
  from write_extract_name [OF vec.bytes_mut_laws_axioms ok this] show ?thesis .
qed

text \<open>C18: when \<open>extract_name\<close> succeeds the offset has moved forward and stays inside the packet, the
  name is valid UTF-8 of at most 253 octets, and \<open>skip_name\<close> stops at the same offset.\<close>

theorem extract_name_safe:
  assumes "extract_name pkt off = Inr (n, off')"
  shows "off < off' \<and> off' \<le> length pkt \<and> utf8_valid n \<and> length n \<le> 253
           \<and> skip_name pkt off = Inr off'"
  using extract_name_bounds [OF assms] extract_name_valid [OF assms] extract_name_skip [OF assms]
  by simp

theorem extract_name_safe_witness:
  "(3 :: nat) < 5 \<and> utf8_valid [97] \<and> skip_name [1, 97, 0, 0xC0, 0] 3 = Inr 5"
proof -
  have "extract_name [1, 97, 0, 0xC0, 0] 3 = Inr ([97], 5)" by code_simp
  from extract_name_safe [OF this] show ?thesis by simp
qed

text \<open>\<open>do_rfc1035_name\<close> appends the escaped non-empty labels, each behind its length, exactly when
  the result stays within the limit, and reports failure otherwise.\<close>

lemma do_rfc1035_name_spec:
  assumes "\<forall>l \<in> set (split_on DOT name). length (esc_label l) \<le> 255"
    and "within limit (length buf)"
  shows "if within limit (length buf + length (labels_wire (esc_labels name)))
         then do_rfc1035_name buf name limit = Done (True, buf @ labels_wire (esc_labels name))
         else \<exists>buf'. do_rfc1035_name buf name limit = Done (False, buf')"
  unfolding do_rfc1035_name_def
  by (rule push_labels_spec [OF assms(1) esc_labels_def assms(2)])

end
