(* ===== verification/Dns_Protocol.thy ===== *)
theory Dns_Protocol
  imports Rust_Base
begin

text \<open>
  The constants, enumerations and packet header of \<open>src/dns_protocol/mod.rs\<close>. An enumeration with
  explicit discriminants is a datatype, its \<open>as\<close> cast a \<open>_code\<close> function and its \<open>TryFrom\<close> a
  \<open>_try_from\<close> function into \<open>InvalidWireValue + enum\<close>. The header is a record of words; its flag
  accessors are the masks of the source.
\<close>

section \<open>Enumerations\<close>

datatype invalid_wire_value = InvalidWireValue u16

datatype rcode = NoError | FormErr | ServFail | NxDomain | NotImpl | Refused

fun rcode_code :: "rcode \<Rightarrow> u8" where
  "rcode_code NoError = 0"
| "rcode_code FormErr = 1"
| "rcode_code ServFail = 2"
| "rcode_code NxDomain = 3"
| "rcode_code NotImpl = 4"
| "rcode_code Refused = 5"

definition rcode_try_from :: "u8 \<Rightarrow> invalid_wire_value + rcode" where
  "rcode_try_from v =
     (if v = 0 then Inr NoError
      else if v = 1 then Inr FormErr
      else if v = 2 then Inr ServFail
      else if v = 3 then Inr NxDomain
      else if v = 4 then Inr NotImpl
      else if v = 5 then Inr Refused
      else Inl (InvalidWireValue (ucast v)))"

datatype opcode = Query | IQuery | Status | Notify | Update

fun opcode_code :: "opcode \<Rightarrow> u8" where
  "opcode_code Query = 0"
| "opcode_code IQuery = 1"
| "opcode_code Status = 2"
| "opcode_code Notify = 4"
| "opcode_code Update = 5"

definition opcode_try_from :: "u8 \<Rightarrow> invalid_wire_value + opcode" where
  "opcode_try_from v =
     (if v = 0 then Inr Query
      else if v = 1 then Inr IQuery
      else if v = 2 then Inr Status
      else if v = 4 then Inr Notify
      else if v = 5 then Inr Update
      else Inl (InvalidWireValue (ucast v)))"

datatype dns_class = C_IN | C_CHAOS | C_HESIOD | C_ANY

fun class_code :: "dns_class \<Rightarrow> u16" where
  "class_code C_IN = 1"
| "class_code C_CHAOS = 3"
| "class_code C_HESIOD = 4"
| "class_code C_ANY = 255"

definition class_try_from :: "u16 \<Rightarrow> invalid_wire_value + dns_class" where
  "class_try_from v =
     (if v = 1 then Inr C_IN
      else if v = 3 then Inr C_CHAOS
      else if v = 4 then Inr C_HESIOD
      else if v = 255 then Inr C_ANY
      else Inl (InvalidWireValue v))"

datatype rrtype =
    RR_A | RR_NS | RR_MD | RR_MF | RR_CNAME | RR_SOA
   | RR_MB | RR_MG | RR_MR | RR_PTR | RR_MINFO | RR_MX
   | RR_TXT | RR_RP | RR_AFSDB | RR_RT | RR_SIG | RR_PX
   | RR_AAAA | RR_NXT | RR_SRV | RR_NAPTR | RR_KX | RR_DNAME
   | RR_OPT | RR_DS | RR_RRSIG | RR_NSEC | RR_DNSKEY | RR_NSEC3
   | RR_TKEY | RR_TSIG | RR_AXFR | RR_MAILB | RR_ANY | RR_CAA

fun rrtype_code :: "rrtype \<Rightarrow> u16" where
   "rrtype_code RR_A = 1"
| "rrtype_code RR_NS = 2"
| "rrtype_code RR_MD = 3"
| "rrtype_code RR_MF = 4"
| "rrtype_code RR_CNAME = 5"
| "rrtype_code RR_SOA = 6"
| "rrtype_code RR_MB = 7"
| "rrtype_code RR_MG = 8"
| "rrtype_code RR_MR = 9"
| "rrtype_code RR_PTR = 12"
| "rrtype_code RR_MINFO = 14"
| "rrtype_code RR_MX = 15"
| "rrtype_code RR_TXT = 16"
| "rrtype_code RR_RP = 17"
| "rrtype_code RR_AFSDB = 18"
| "rrtype_code RR_RT = 21"
| "rrtype_code RR_SIG = 24"
| "rrtype_code RR_PX = 26"
| "rrtype_code RR_AAAA = 28"
| "rrtype_code RR_NXT = 30"
| "rrtype_code RR_SRV = 33"
| "rrtype_code RR_NAPTR = 35"
| "rrtype_code RR_KX = 36"
| "rrtype_code RR_DNAME = 39"
| "rrtype_code RR_OPT = 41"
| "rrtype_code RR_DS = 43"
| "rrtype_code RR_RRSIG = 46"
| "rrtype_code RR_NSEC = 47"
| "rrtype_code RR_DNSKEY = 48"
| "rrtype_code RR_NSEC3 = 50"
| "rrtype_code RR_TKEY = 249"
| "rrtype_code RR_TSIG = 250"
| "rrtype_code RR_AXFR = 252"
| "rrtype_code RR_MAILB = 253"
| "rrtype_code RR_ANY = 255"
| "rrtype_code RR_CAA = 257"

definition rrtype_try_from :: "u16 \<Rightarrow> invalid_wire_value + rrtype" where
  "rrtype_try_from v =
     (if v = 1 then Inr RR_A
      else if v = 2 then Inr RR_NS
      else if v = 3 then Inr RR_MD
      else if v = 4 then Inr RR_MF
      else if v = 5 then Inr RR_CNAME
      else if v = 6 then Inr RR_SOA
      else if v = 7 then Inr RR_MB
      else if v = 8 then Inr RR_MG
      else if v = 9 then Inr RR_MR
      else if v = 12 then Inr RR_PTR
      else if v = 14 then Inr RR_MINFO
      else if v = 15 then Inr RR_MX
      else if v = 16 then Inr RR_TXT
      else if v = 17 then Inr RR_RP
      else if v = 18 then Inr RR_AFSDB
      else if v = 21 then Inr RR_RT
      else if v = 24 then Inr RR_SIG
      else if v = 26 then Inr RR_PX
      else if v = 28 then Inr RR_AAAA
      else if v = 30 then Inr RR_NXT
      else if v = 33 then Inr RR_SRV
      else if v = 35 then Inr RR_NAPTR
      else if v = 36 then Inr RR_KX
      else if v = 39 then Inr RR_DNAME
      else if v = 41 then Inr RR_OPT
      else if v = 43 then Inr RR_DS
      else if v = 46 then Inr RR_RRSIG
      else if v = 47 then Inr RR_NSEC
      else if v = 48 then Inr RR_DNSKEY
      else if v = 50 then Inr RR_NSEC3
      else if v = 249 then Inr RR_TKEY
      else if v = 250 then Inr RR_TSIG
      else if v = 252 then Inr RR_AXFR
      else if v = 253 then Inr RR_MAILB
      else if v = 255 then Inr RR_ANY
      else if v = 257 then Inr RR_CAA
      else Inl (InvalidWireValue v))"

definition rrtype_from_u16 :: "u16 \<Rightarrow> rrtype option" where
  "rrtype_from_u16 v = (case rrtype_try_from v of Inl _ \<Rightarrow> None | Inr t \<Rightarrow> Some t)"

text \<open>
  What a code/decode pair of an enumeration promises: decoding is the exact partial inverse
  of the cast, and a refused value is reported back unchanged.
\<close>

locale wire_enum =
  fixes code :: "'e \<Rightarrow> 'w::len word" and try_from :: "'w word \<Rightarrow> invalid_wire_value + 'e"
  assumes try_from_code: "try_from (code e) = Inr e"
    and code_of_try_from: "try_from v = Inr e \<Longrightarrow> code e = v"
    and try_from_error: "try_from v = Inl w \<Longrightarrow> w = InvalidWireValue (ucast v)"
begin

lemma try_from_iff: "try_from v = Inr e \<longleftrightarrow> v = code e"
  using try_from_code code_of_try_from by metis

lemma code_inj: "code e = code e' \<longleftrightarrow> e = e'"
  using try_from_code by (metis sum.inject(2))

lemma try_from_Inl_iff: "try_from v = Inl w \<longleftrightarrow> w = InvalidWireValue (ucast v) \<and> v \<notin> range code"
proof
  assume *: "try_from v = Inl w"
  then show "w = InvalidWireValue (ucast v) \<and> v \<notin> range code"
    using try_from_error [OF *] try_from_code by auto
next
  assume *: "w = InvalidWireValue (ucast v) \<and> v \<notin> range code"
  then show "try_from v = Inl w"
    using code_of_try_from [of v] try_from_error [of v]
    by (cases "try_from v") auto
qed

end

interpretation rcode_wire: wire_enum rcode_code rcode_try_from
proof
  show "rcode_try_from (rcode_code e) = Inr e" for e
    by (cases e) (simp_all add: rcode_try_from_def)
qed (auto simp: rcode_try_from_def split: if_splits)

interpretation opcode_wire: wire_enum opcode_code opcode_try_from
proof
  show "opcode_try_from (opcode_code e) = Inr e" for e
    by (cases e) (simp_all add: opcode_try_from_def)
qed (auto simp: opcode_try_from_def split: if_splits)

interpretation class_wire: wire_enum class_code class_try_from
proof
  show "class_try_from (class_code e) = Inr e" for e
    by (cases e) (simp_all add: class_try_from_def)
qed (auto simp: class_try_from_def split: if_splits)

interpretation rrtype_wire: wire_enum rrtype_code rrtype_try_from
proof
  show "rrtype_try_from (rrtype_code e) = Inr e" for e
    by (cases e) (simp_all add: rrtype_try_from_def)
qed (auto simp: rrtype_try_from_def split: if_splits)

lemma rrtype_from_u16_Some_iff: "rrtype_from_u16 v = Some t \<longleftrightarrow> v = rrtype_code t"
  by (simp add: rrtype_from_u16_def rrtype_wire.try_from_iff split: sum.split)
     (metis rrtype_wire.try_from_iff sum.distinct(1) sum.inject(2))

section \<open>The header\<close>

named_theorems hb_defs \<open>the flag masks of the header's third and fourth octet\<close>

definition HB3_QR :: u8 where [hb_defs]: "HB3_QR = 0x80"
definition HB3_OPCODE :: u8 where [hb_defs]: "HB3_OPCODE = 0x78"
definition HB3_AA :: u8 where [hb_defs]: "HB3_AA = 0x04"
definition HB3_TC :: u8 where [hb_defs]: "HB3_TC = 0x02"
definition HB3_RD :: u8 where [hb_defs]: "HB3_RD = 0x01"
definition HB4_RA :: u8 where [hb_defs]: "HB4_RA = 0x80"
definition HB4_AD :: u8 where [hb_defs]: "HB4_AD = 0x20"
definition HB4_CD :: u8 where [hb_defs]: "HB4_CD = 0x10"
definition HB4_RCODE :: u8 where [hb_defs]: "HB4_RCODE = 0x0f"

record dns_header =
  hdr_id :: u16
  hb3 :: u8
  hb4 :: u8
  qdcount :: u16
  ancount :: u16
  nscount :: u16
  arcount :: u16

definition hdr_opcode :: "dns_header \<Rightarrow> u8" where
  "hdr_opcode h = drop_bit 3 (hb3 h AND HB3_OPCODE)"

definition set_opcode :: "u8 \<Rightarrow> dns_header \<Rightarrow> dns_header" where
  "set_opcode code h = h\<lparr>hb3 := (hb3 h AND NOT HB3_OPCODE) OR push_bit 3 code\<rparr>"

definition hdr_rcode :: "dns_header \<Rightarrow> u8" where
  "hdr_rcode h = hb4 h AND HB4_RCODE"

definition set_rcode :: "u8 \<Rightarrow> dns_header \<Rightarrow> dns_header" where
  "set_rcode code h = h\<lparr>hb4 := (hb4 h AND NOT HB4_RCODE) OR code\<rparr>"

definition is_query :: "dns_header \<Rightarrow> bool" where
  "is_query h \<longleftrightarrow> hb3 h AND HB3_QR = 0"

definition is_response :: "dns_header \<Rightarrow> bool" where
  "is_response h \<longleftrightarrow> hb3 h AND HB3_QR \<noteq> 0"

definition is_aa :: "dns_header \<Rightarrow> bool" where "is_aa h \<longleftrightarrow> hb3 h AND HB3_AA \<noteq> 0"
definition is_tc :: "dns_header \<Rightarrow> bool" where "is_tc h \<longleftrightarrow> hb3 h AND HB3_TC \<noteq> 0"
definition is_rd :: "dns_header \<Rightarrow> bool" where "is_rd h \<longleftrightarrow> hb3 h AND HB3_RD \<noteq> 0"
definition is_ra :: "dns_header \<Rightarrow> bool" where "is_ra h \<longleftrightarrow> hb4 h AND HB4_RA \<noteq> 0"
definition is_ad :: "dns_header \<Rightarrow> bool" where "is_ad h \<longleftrightarrow> hb4 h AND HB4_AD \<noteq> 0"
definition is_cd :: "dns_header \<Rightarrow> bool" where "is_cd h \<longleftrightarrow> hb4 h AND HB4_CD \<noteq> 0"

lemmas flag_defs = is_query_def is_response_def is_aa_def is_tc_def is_rd_def is_ra_def
  is_ad_def is_cd_def

definition header_from_bytes :: "u8 list \<Rightarrow> dns_header option" where
  "header_from_bytes buf =
     (if length buf < 12 then None
      else Some \<lparr>hdr_id = from_be16 (buf ! 0) (buf ! 1), hb3 = buf ! 2, hb4 = buf ! 3,
                 qdcount = from_be16 (buf ! 4) (buf ! 5),
                 ancount = from_be16 (buf ! 6) (buf ! 7),
                 nscount = from_be16 (buf ! 8) (buf ! 9),
                 arcount = from_be16 (buf ! 10) (buf ! 11)\<rparr>)"

definition header_to_bytes :: "dns_header \<Rightarrow> u8 list" where
  "header_to_bytes h =
     to_be16 (hdr_id h) @ [hb3 h, hb4 h] @ to_be16 (qdcount h) @ to_be16 (ancount h)
       @ to_be16 (nscount h) @ to_be16 (arcount h)"

lemma length_header_to_bytes [simp, wire]: "length (header_to_bytes h) = 12"
  by (simp add: header_to_bytes_def)

lemma header_from_to_bytes [wire]: "header_from_bytes (header_to_bytes h @ rest) = Some h"
  by (simp add: header_from_bytes_def header_to_bytes_def to_be16_def)

lemma take_eq_map_nth: "n \<le> length xs \<Longrightarrow> take n xs = map (nth xs) [0..<n]"
  by (rule nth_equalityI) auto

lemma header_to_from_bytes:
  assumes "header_from_bytes buf = Some h"
  shows "header_to_bytes h = take 12 buf"
proof -
  from assms have "12 \<le> length buf" by (simp add: header_from_bytes_def split: if_splits)
  then have "take 12 buf = map (nth buf) [0..<12]" by (rule take_eq_map_nth)
  with assms show ?thesis
    by (auto simp: header_from_bytes_def header_to_bytes_def upt_rec eval_nat_numeral
        split: if_splits)
qed

subsection \<open>Flag updates touch only their own bits\<close>

lemma and_mask_absorb:
  fixes x m c :: "'a::len word"
  shows "c AND m = c \<Longrightarrow> (x AND NOT m OR c) AND m = c"
    and "c AND m = c \<Longrightarrow> n AND m = 0 \<Longrightarrow> (x AND NOT m OR c) AND n = x AND n"
  by (simp_all add: bit_eq_iff bit_simps) blast+

lemma small_rcode_masked: "c < 16 \<Longrightarrow> c AND HB4_RCODE = (c :: u8)"
proof -
  assume "c < 16"
  then have "unat c < 2 ^ 4" by (simp add: word_less_nat_alt)
  then have "take_bit 4 c = c"
    by (simp add: word_unat_eq_iff unsigned_take_bit_eq take_bit_nat_eq_self)
  then show ?thesis by (simp add: HB4_RCODE_def take_bit_eq_mask mask_numeral)
qed

lemma hdr_rcode_set_rcode [simp]: "c < 16 \<Longrightarrow> hdr_rcode (set_rcode c h) = c"
  by (simp add: hdr_rcode_def set_rcode_def and_mask_absorb(1) small_rcode_masked)

lemma rcode_mask_disjoint:
  "HB4_RA AND HB4_RCODE = 0" "HB4_AD AND HB4_RCODE = 0" "HB4_CD AND HB4_RCODE = 0"
  by (simp_all add: hb_defs)

lemma set_rcode_flags:
  assumes "c < 16"
  shows "is_ra (set_rcode c h) = is_ra h" "is_ad (set_rcode c h) = is_ad h"
    "is_cd (set_rcode c h) = is_cd h" "hb3 (set_rcode c h) = hb3 h"
  by (simp_all add: set_rcode_def flag_defs rcode_mask_disjoint
      and_mask_absorb(2) [OF small_rcode_masked [OF assms]])

end
