(* ===== verification/Dns_Packet.thy ===== *)
theory Dns_Packet
  imports Dns_Name Dns_Protocol
begin

text \<open>
  Questions, resource records and whole messages of \<open>src/rfc1035.rs\<close>: \<open>parse_question\<close>,
  \<open>parse_rr\<close> with its decompression of names inside RDATA, \<open>DnsPacket::parse\<close> and
  \<open>DnsPacket::write\<close>, \<open>extract_request\<close> and \<open>resize_packet\<close>. A function with an \<open>&mut offset\<close>
  returns the new offset; where the source leaves an error through \<open>?\<close> no caller looks at the
  offset again.

  The main results are the round trip of a whole message through the writer and the parser,
  and that \<open>resize_packet\<close> finds the exact end of a message.
\<close>

section \<open>Questions\<close>

record dns_question =
  q_name :: rstr
  q_type :: u16
  q_class :: u16

definition parse_question :: "u8 list \<Rightarrow> nat \<Rightarrow> dns_error + (dns_question \<times> nat)" where
  "parse_question pkt offset =
     and_then (extract_name pkt offset) (\<lambda>(name, off1).
     and_then (ok_or PacketTooShort (read_u16_be (bc_at pkt off1))) (\<lambda>(qtype, c1).
     and_then (ok_or PacketTooShort (read_u16_be c1)) (\<lambda>(qclass, c2).
     Inr (\<lparr>q_name = name, q_type = qtype, q_class = qclass\<rparr>, bc_pos c2))))"

definition write_question :: "'b bytes_mut \<Rightarrow> 'b \<Rightarrow> dns_question \<Rightarrow> 'b" where
  "write_question B buf q =
     bm_put_u16 B (bm_put_u16 B (write_name B buf (q_name q)) (q_type q)) (q_class q)"

section \<open>Resource records\<close>

record dns_rr =
  rr_name :: rstr
  rr_type :: u16
  rr_class :: u16
  rr_ttl :: u32
  rr_data :: "u8 list"

text \<open>
  Decompression of the names inside NS, CNAME, PTR, MX and SOA data; every other type, and
  every name that does not parse, keeps the raw octets.
\<close>

definition parse_rdata :: "'b bytes_mut \<Rightarrow> u8 list \<Rightarrow> u16 \<Rightarrow> nat \<Rightarrow> u8 list \<Rightarrow> u8 list" where
  "parse_rdata B pkt rtype rdata_start raw_rdata =
     (if rtype = 2 \<or> rtype = 5 \<or> rtype = 12 then
        (case extract_name pkt rdata_start of
           Inr (n, _) \<Rightarrow> bm_to_vec B (write_name B (bm_new B) n)
         | Inl _ \<Rightarrow> raw_rdata)
      else if rtype = 15 then
        (if length raw_rdata \<ge> 2 then
           (case extract_name pkt (rdata_start + 2) of
              Inr (n, _) \<Rightarrow>
                bm_to_vec B (write_name B
                  (bm_put_u16 B (bm_new B) (from_be16 (raw_rdata ! 0) (raw_rdata ! 1))) n)
            | Inl _ \<Rightarrow> raw_rdata)
         else raw_rdata)
      else if rtype = 6 then
        (case and_then (extract_name pkt rdata_start) (\<lambda>(mname, pos1).
              and_then (extract_name pkt pos1) (\<lambda>(rname, pos2). Inr (mname, rname, pos2))) of
           Inr (mname, rname, pos) \<Rightarrow>
             if pos + 20 \<le> length pkt then
               bm_to_vec B (bm_put_slice B
                 (write_name B (write_name B (bm_new B) mname) rname)
                 (take 20 (drop pos pkt)))
             else raw_rdata
         | Inl _ \<Rightarrow> raw_rdata)
      else raw_rdata)"

definition parse_rr :: "'b bytes_mut \<Rightarrow> u8 list \<Rightarrow> nat \<Rightarrow> dns_error + (dns_rr \<times> nat)" where
  "parse_rr B pkt offset =
     and_then (extract_name pkt offset) (\<lambda>(name, off1).
     and_then (ok_or PacketTooShort (read_u16_be (bc_at pkt off1))) (\<lambda>(rtype, c1).
     and_then (ok_or PacketTooShort (read_u16_be c1)) (\<lambda>(class, c2).
     and_then (ok_or PacketTooShort (read_u32_be c2)) (\<lambda>(ttl, c3).
     and_then (ok_or PacketTooShort (read_u16_be c3)) (\<lambda>(rdlen, c4).
     and_then (ok_or UnexpectedEof (read_slice (unat rdlen) c4)) (\<lambda>(raw_rdata, c5).
     Inr (\<lparr>rr_name = name, rr_type = rtype, rr_class = class, rr_ttl = ttl,
           rr_data = parse_rdata B pkt rtype (bc_pos c4) raw_rdata\<rparr>, bc_pos c5)))))))"

definition write_rr :: "'b bytes_mut \<Rightarrow> 'b \<Rightarrow> dns_rr \<Rightarrow> 'b" where
  "write_rr B buf rr =
     (let buf = write_name B buf (rr_name rr);
          buf = bm_put_u16 B buf (rr_type rr);
          buf = bm_put_u16 B buf (rr_class rr);
          buf = bm_put_u32 B buf (rr_ttl rr);
          buf = bm_put_u16 B buf (word_of_nat (length (rr_data rr)))
      in bm_put_slice B buf (rr_data rr))"

section \<open>Messages\<close>

record dns_packet =
  pk_header :: dns_header
  questions :: "dns_question list"
  answers :: "dns_rr list"
  authority :: "dns_rr list"
  additional :: "dns_rr list"

text \<open>A counted section: \<open>for _ in 0..count { out.push(parse_one(pkt, &mut offset)?) }\<close>.\<close>

primrec parse_many :: "(nat \<Rightarrow> dns_error + ('a \<times> nat)) \<Rightarrow> nat \<Rightarrow> nat \<Rightarrow> dns_error + ('a list \<times> nat)" where
  "parse_many p 0 offset = Inr ([], offset)"
| "parse_many p (Suc n) offset =
     and_then (p offset) (\<lambda>(x, off1).
     and_then (parse_many p n off1) (\<lambda>(xs, off2). Inr (x # xs, off2)))"

definition packet_parse :: "'b bytes_mut \<Rightarrow> u8 list \<Rightarrow> dns_error + dns_packet" where
  "packet_parse B pkt =
     and_then (ok_or PacketTooShort (header_from_bytes pkt)) (\<lambda>header.
     and_then (parse_many (parse_question pkt) (unat (qdcount header)) 12) (\<lambda>(qs, o1).
     and_then (parse_many (parse_rr B pkt) (unat (ancount header)) o1) (\<lambda>(an, o2).
     and_then (parse_many (parse_rr B pkt) (unat (nscount header)) o2) (\<lambda>(ns, o3).
     and_then (parse_many (parse_rr B pkt) (unat (arcount header)) o3) (\<lambda>(ar, o4).
     Inr \<lparr>pk_header = header, questions = qs, answers = an, authority = ns, additional = ar\<rparr>)))))"

definition packet_write :: "'b bytes_mut \<Rightarrow> dns_packet \<Rightarrow> 'b" where
  "packet_write B p =
     (let hdr = (pk_header p)\<lparr>qdcount := word_of_nat (length (questions p)),
                              ancount := word_of_nat (length (answers p)),
                              nscount := word_of_nat (length (authority p)),
                              arcount := word_of_nat (length (additional p))\<rparr>;
          buf = bm_put_slice B (bm_new B) (header_to_bytes hdr);
          buf = foldl (write_question B) buf (questions p);
          buf = foldl (write_rr B) buf (answers p);
          buf = foldl (write_rr B) buf (authority p)
      in foldl (write_rr B) buf (additional p))"

definition extract_request :: "u8 list \<Rightarrow> (rstr \<times> rrtype) option" where
  "extract_request pkt =
     (case header_from_bytes pkt of
        None \<Rightarrow> None
      | Some header \<Rightarrow>
          if qdcount header = 0 then None
          else (case parse_question pkt 12 of
                  Inl _ \<Rightarrow> None
                | Inr (q, _) \<Rightarrow>
                    (case rrtype_from_u16 (q_type q) of
                       None \<Rightarrow> None
                     | Some rtype \<Rightarrow> Some (q_name q, rtype))))"

section \<open>Trimming a raw message\<close>

text \<open>The two skip loops of \<open>resize_packet\<close>; \<open>None\<close> where it returns the packet unchanged.\<close>

primrec resize_skip_questions :: "u8 list \<Rightarrow> nat \<Rightarrow> nat \<Rightarrow> nat option" where
  "resize_skip_questions pkt 0 off = Some off"
| "resize_skip_questions pkt (Suc n) off =
     (case skip_name pkt off of
        Inl _ \<Rightarrow> None
      | Inr off1 \<Rightarrow>
          if off1 + 4 > length pkt then None else resize_skip_questions pkt n (off1 + 4))"

primrec resize_skip_rrs :: "u8 list \<Rightarrow> nat \<Rightarrow> nat \<Rightarrow> nat option" where
  "resize_skip_rrs pkt 0 off = Some off"
| "resize_skip_rrs pkt (Suc n) off =
     (case skip_name pkt off of
        Inl _ \<Rightarrow> None
      | Inr off1 \<Rightarrow>
          if off1 + 10 > length pkt then None
          else let rdlen = unat (from_be16 (pkt ! (off1 + 8)) (pkt ! (off1 + 9)));
                   off2 = off1 + (10 + rdlen)
               in if off2 > length pkt then None else resize_skip_rrs pkt n off2)"

definition resize_packet :: "u8 list \<Rightarrow> u8 list option \<Rightarrow> u8 list" where
  "resize_packet pkt edns_opt =
     (if length pkt < 12 then pkt
      else let qd = unat (from_be16 (pkt ! 4) (pkt ! 5));
               an = unat (from_be16 (pkt ! 6) (pkt ! 7));
               ns = unat (from_be16 (pkt ! 8) (pkt ! 9));
               ar = unat (from_be16 (pkt ! 10) (pkt ! 11))
           in case resize_skip_questions pkt qd 12 of
                None \<Rightarrow> pkt
              | Some off1 \<Rightarrow>
                  (case resize_skip_rrs pkt (an + ns + ar) off1 of
                     None \<Rightarrow> pkt
                   | Some off \<Rightarrow>
                       let result = take off pkt
                       in case edns_opt of
                            None \<Rightarrow> result
                          | Some opt \<Rightarrow>
                              if ar = 0 then copy_at (result @ opt) 10 [0x00, 0x01] else result))"

section \<open>What the writer produces\<close>

definition question_wire :: "dns_question \<Rightarrow> u8 list" where
  "question_wire q = name_wire (q_name q) @ to_be16 (q_type q) @ to_be16 (q_class q)"

definition rr_wire :: "dns_rr \<Rightarrow> u8 list" where
  "rr_wire r = name_wire (rr_name r) @ to_be16 (rr_type r) @ to_be16 (rr_class r)
     @ to_be32 (rr_ttl r) @ to_be16 (word_of_nat (length (rr_data r))) @ rr_data r"

definition written_header :: "dns_packet \<Rightarrow> dns_header" where
  "written_header p =
     (pk_header p)\<lparr>qdcount := word_of_nat (length (questions p)),
                   ancount := word_of_nat (length (answers p)),
                   nscount := word_of_nat (length (authority p)),
                   arcount := word_of_nat (length (additional p))\<rparr>"

definition packet_wire :: "dns_packet \<Rightarrow> u8 list" where
  "packet_wire p = header_to_bytes (written_header p) @ concat (map question_wire (questions p))
     @ concat (map rr_wire (answers p)) @ concat (map rr_wire (authority p))
     @ concat (map rr_wire (additional p))"

context bytes_mut_laws begin

lemma to_vec_write_question:
  "bm_to_vec B (write_question B buf q) = bm_to_vec B buf @ question_wire q"
  by (simp add: write_question_def question_wire_def to_vec_simps to_vec_write_name)

lemma to_vec_write_rr: "bm_to_vec B (write_rr B buf r) = bm_to_vec B buf @ rr_wire r"
  by (simp add: write_rr_def rr_wire_def to_vec_simps to_vec_write_name Let_def)

lemma to_vec_foldl:
  assumes "\<And>b x. bm_to_vec B (w b x) = bm_to_vec B b @ wire x"
  shows "bm_to_vec B (foldl w buf xs) = bm_to_vec B buf @ concat (map wire xs)"
  by (induction xs arbitrary: buf) (simp_all add: assms)

lemma to_vec_packet_write: "bm_to_vec B (packet_write B p) = packet_wire p"
  by (simp add: packet_write_def packet_wire_def written_header_def Let_def to_vec_simps
      to_vec_foldl [OF to_vec_write_question] to_vec_foldl [OF to_vec_write_rr])

end

section \<open>Round trip of a message\<close>

text \<open>
  A parser and an encoder of one item agree when the parser, started in front of an encoded
  item anywhere inside a buffer, returns the item and the offset behind it. Counted sections
  inherit this.
\<close>

locale item_codec =
  fixes parse :: "u8 list \<Rightarrow> nat \<Rightarrow> dns_error + ('a \<times> nat)"
    and wire :: "'a \<Rightarrow> u8 list" and ok :: "'a \<Rightarrow> bool"
  assumes parse_wire: "ok x \<Longrightarrow> fits (pre @ wire x @ post) \<Longrightarrow>
      parse (pre @ wire x @ post) (length pre) = Inr (x, length pre + length (wire x))"
begin

lemma parse_many_wire:
  "list_all ok xs \<Longrightarrow> fits (pre @ concat (map wire xs) @ post) \<Longrightarrow>
     parse_many (parse (pre @ concat (map wire xs) @ post)) (length xs) (length pre)
       = Inr (xs, length pre + length (concat (map wire xs)))"
proof (induction xs arbitrary: pre)
  case (Cons x xs)
  let ?pkt = "pre @ wire x @ concat (map wire xs) @ post"
  have "parse ?pkt (length pre) = Inr (x, length pre + length (wire x))"
    using Cons.prems by (intro parse_wire) simp_all
  moreover have "parse_many (parse ?pkt) (length xs) (length pre + length (wire x))
      = Inr (xs, length pre + length (wire x) + length (concat (map wire xs)))"
    using Cons.IH [of "pre @ wire x"] Cons.prems by simp
  ultimately show ?case by (simp add: add.assoc)
qed simp

end

definition question_ok :: "dns_question \<Rightarrow> bool" where
  "question_ok q \<longleftrightarrow> name_ok (q_name q)"

text \<open>RDATA whose embedded names are stored uncompressed, as \<open>parse_rr\<close> leaves them.\<close>

definition is_name_wire :: "u8 list \<Rightarrow> bool" where
  "is_name_wire d \<longleftrightarrow>
     (case extract_name d 0 of Inl _ \<Rightarrow> False | Inr (n, _) \<Rightarrow> name_ok n \<and> d = name_wire n)"

definition rdata_ok :: "u16 \<Rightarrow> u8 list \<Rightarrow> bool" where
  "rdata_ok rtype d \<longleftrightarrow>
     (if rtype = 2 \<or> rtype = 5 \<or> rtype = 12 then is_name_wire d
      else if rtype = 15 then 2 \<le> length d \<and> is_name_wire (drop 2 d)
      else if rtype = 6 then
        (case extract_name d 0 of
           Inl _ \<Rightarrow> False
         | Inr (_, k) \<Rightarrow> is_name_wire (take k d) \<and> k \<le> length d \<and> 20 \<le> length (drop k d)
             \<and> is_name_wire (take (length d - 20 - k) (drop k d)))
      else True)"

definition rr_ok :: "dns_rr \<Rightarrow> bool" where
  "rr_ok r \<longleftrightarrow> name_ok (rr_name r) \<and> length (rr_data r) \<le> 65535 \<and> rdata_ok (rr_type r) (rr_data r)"

definition packet_ok :: "dns_packet \<Rightarrow> bool" where
  "packet_ok p \<longleftrightarrow>
     length (questions p) \<le> 65535 \<and> length (answers p) \<le> 65535 \<and>
     length (authority p) \<le> 65535 \<and> length (additional p) \<le> 65535 \<and>
     list_all question_ok (questions p) \<and> list_all rr_ok (answers p) \<and>
     list_all rr_ok (authority p) \<and> list_all rr_ok (additional p)"

lemma is_name_wireD: "is_name_wire d \<Longrightarrow> \<exists>n. name_ok n \<and> d = name_wire n"
  by (auto simp: is_name_wire_def split: sum.splits)

lemma rdata_ok_cases:
  assumes "rdata_ok t d"
  obtains (name) n where "t = 2 \<or> t = 5 \<or> t = 12" "name_ok n" "d = name_wire n"
  | (mx) a b n where "t = 15" "name_ok n" "d = a # b # name_wire n"
  | (soa) m r f where "t = 6" "name_ok m" "name_ok r" "length f = 20" "d = name_wire m @ name_wire r @ f"
  | (other) "t \<notin> {2, 5, 6, 12, 15}"
proof -
  consider "t = 2 \<or> t = 5 \<or> t = 12" | "t = 15" | "t = 6" | "t \<notin> {2, 5, 6, 12, 15}" by auto
  then show ?thesis
  proof cases
    case 1
    with assms have "is_name_wire d" by (auto simp: rdata_ok_def)
    with 1 show ?thesis using name is_name_wireD by blast
  next
    case 2
    with assms obtain n where "2 \<le> length d" "name_ok n" "drop 2 d = name_wire n"
      by (auto simp: rdata_ok_def dest: is_name_wireD)
    moreover from \<open>2 \<le> length d\<close> obtain a b r where "d = a # b # r"
      by (auto simp: Suc_le_length_iff numeral_2_eq_2)
    ultimately show ?thesis using 2 mx by simp
  next
    case 3
    with assms obtain k where "is_name_wire (take k d)" "k \<le> length d" "20 \<le> length (drop k d)"
      "is_name_wire (take (length d - 20 - k) (drop k d))"
      by (auto simp: rdata_ok_def split: sum.splits)
    moreover from this obtain m r where "name_ok m" "take k d = name_wire m" "name_ok r"
      "take (length d - 20 - k) (drop k d) = name_wire r"
      by (blast dest: is_name_wireD)
    moreover have "d = take k d @ take (length d - 20 - k) (drop k d)
        @ drop (length d - 20 - k) (drop k d)"
      by (simp only: append_take_drop_id)
    ultimately show ?thesis using 3
      by (intro soa [of m r "drop (length d - 20 - k) (drop k d)"]) auto
  qed (rule other)
qed

lemma to_from_be16_list: "to_be16 (from_be16 a b) = [a, b]"
  by (simp add: to_from_be16)

lemma fits_append: "fits (a @ b) \<Longrightarrow> fits a \<and> fits b"
  by (simp add: fits_def)

lemma parse_question_wire:
  assumes "question_ok q" and "fits (pre @ question_wire q @ post)"
  shows "parse_question (pre @ question_wire q @ post) (length pre)
           = Inr (q, length pre + length (question_wire q))"
proof -
  let ?n = "name_wire (q_name q)" and ?t = "to_be16 (q_type q)" and ?c = "to_be16 (q_class q)"
  let ?pkt = "pre @ ?n @ ?t @ ?c @ post"
  have fits: "fits ?pkt" using assms(2) by (simp add: question_wire_def)
  have 1: "extract_name ?pkt (length pre) = Inr (q_name q, length pre + length ?n)"
    using extract_name_wire [of "q_name q" pre "?t @ ?c @ post"] assms(1) fits
    by (simp add: question_ok_def)
  have 2: "read_u16_be (bc_at ?pkt (length pre + length ?n))
      = Some (q_type q, bc_at ?pkt (length pre + length ?n + 2))"
    using read_u16_be_mid [of "pre @ ?n" "q_type q" "?c @ post"] fits by simp
  have 3: "read_u16_be (bc_at ?pkt (length pre + length ?n + 2))
      = Some (q_class q, bc_at ?pkt (length pre + length ?n + 4))"
    using read_u16_be_mid [of "pre @ ?n @ ?t" "q_class q" post] fits by (simp add: eval_nat_numeral)
  have "parse_question ?pkt (length pre) = Inr (q, length pre + length ?n + 4)"
    by (simp only: parse_question_def 1 2 3 and_then.simps ok_or.simps prod.case) (simp add: bc_at_def)
  then show ?thesis by (simp add: question_wire_def add.assoc)
qed

interpretation question: item_codec parse_question question_wire question_ok
  by unfold_locales (rule parse_question_wire)

context bytes_mut_laws begin

lemma parse_rdata_wire:
  assumes "rdata_ok t d" and "fits (pre @ d @ post)"
  shows "parse_rdata B (pre @ d @ post) t (length pre) d = d"
  using assms(1)
proof (cases rule: rdata_ok_cases)
  case (name n)
  then show ?thesis
    using extract_name_wire [of n pre post] assms(2)
    by (simp add: parse_rdata_def to_vec_write_name to_vec_simps)
next
  case (mx a b n)
  then show ?thesis
    using extract_name_wire [of n "pre @ [a, b]" post] assms(2)
    by (simp add: parse_rdata_def to_vec_write_name to_vec_simps to_from_be16)
next
  case (soa m r f)
  let ?pkt = "pre @ name_wire m @ name_wire r @ f @ post"
  have 1: "extract_name ?pkt (length pre) = Inr (m, length pre + length (name_wire m))"
    using extract_name_wire [of m pre "name_wire r @ f @ post"] assms(2) soa by simp
  have 2: "extract_name ?pkt (length pre + length (name_wire m))
      = Inr (r, length pre + length (name_wire m) + length (name_wire r))"
    using extract_name_wire [of r "pre @ name_wire m" "f @ post"] assms(2) soa by simp
  show ?thesis
    using soa(1,4) unfolding soa(5) parse_rdata_def append_assoc 1 2
    by (simp add: to_vec_write_name to_vec_simps 1 2)
next
  case other
  then show ?thesis by (simp add: parse_rdata_def)
qed

lemma parse_rr_wire:
  assumes "rr_ok r" and "fits (pre @ rr_wire r @ post)"
  shows "parse_rr B (pre @ rr_wire r @ post) (length pre)
           = Inr (r, length pre + length (rr_wire r))"
proof -
  let ?n = "name_wire (rr_name r)" and ?t = "to_be16 (rr_type r)" and ?c = "to_be16 (rr_class r)"
    and ?l = "to_be32 (rr_ttl r)" and ?k = "word_of_nat (length (rr_data r)) :: u16"
    and ?d = "rr_data r"
  let ?pkt = "pre @ ?n @ ?t @ ?c @ ?l @ to_be16 ?k @ ?d @ post" and ?off = "length pre + length ?n"
  have fits: "fits ?pkt" using assms(2) by (simp add: rr_wire_def)
  have len: "unat ?k = length ?d"
    using assms(1) by (simp add: rr_ok_def unat_u16_of_nat)
  have 1: "extract_name ?pkt (length pre) = Inr (rr_name r, ?off)"
    using extract_name_wire [of "rr_name r" pre "?t @ ?c @ ?l @ to_be16 ?k @ ?d @ post"] assms(1) fits
    by (simp add: rr_ok_def)
  have 2: "read_u16_be (bc_at ?pkt ?off) = Some (rr_type r, bc_at ?pkt (?off + 2))"
    using read_u16_be_mid [of "pre @ ?n" "rr_type r" "?c @ ?l @ to_be16 ?k @ ?d @ post"] fits by simp
  have 3: "read_u16_be (bc_at ?pkt (?off + 2)) = Some (rr_class r, bc_at ?pkt (?off + 4))"
    using read_u16_be_mid [of "pre @ ?n @ ?t" "rr_class r" "?l @ to_be16 ?k @ ?d @ post"] fits
    by (simp add: eval_nat_numeral)
  have 4: "read_u32_be (bc_at ?pkt (?off + 4)) = Some (rr_ttl r, bc_at ?pkt (?off + 8))"
    using read_u32_be_mid [of "pre @ ?n @ ?t @ ?c" "rr_ttl r" "to_be16 ?k @ ?d @ post"] fits
    by (simp add: eval_nat_numeral)
  have 5: "read_u16_be (bc_at ?pkt (?off + 8)) = Some (?k, bc_at ?pkt (?off + 10))"
    using read_u16_be_mid [of "pre @ ?n @ ?t @ ?c @ ?l" ?k "?d @ post"] fits
    by (simp add: eval_nat_numeral)
  have 6: "read_slice (length ?d) (bc_at ?pkt (?off + 10))
      = Some (?d, bc_at ?pkt (?off + 10 + length ?d))"
    using read_slice_mid [of "pre @ ?n @ ?t @ ?c @ ?l @ to_be16 ?k" ?d post] fits
    by (simp add: eval_nat_numeral)
  have "rdata_ok (rr_type r) ?d" using assms(1) by (simp add: rr_ok_def)
  then have 7: "parse_rdata B ?pkt (rr_type r) (?off + 10) ?d = ?d"
    using parse_rdata_wire [of "rr_type r" ?d "pre @ ?n @ ?t @ ?c @ ?l @ to_be16 ?k" post]
      fits by (simp add: eval_nat_numeral)
  have pos: "bc_pos (bc_at ?pkt k) = k" for k by (simp add: bc_at_def)
  have "parse_rr B ?pkt (length pre) = Inr (r, ?off + 10 + length ?d)"
    by (simp only: parse_rr_def 1 2 3 4 5 len 6 7 pos and_then.simps ok_or.simps prod.case)
      simp
  then show ?thesis by (simp add: rr_wire_def add.assoc)
qed

end

sublocale bytes_mut_laws \<subseteq> rr: item_codec "parse_rr B" rr_wire rr_ok
  by unfold_locales (rule parse_rr_wire)

text \<open>A well-formed message is far smaller than the address space.\<close>

lemma length_concat_le:
  "(\<And>x. x \<in> set xs \<Longrightarrow> length (f x) \<le> k) \<Longrightarrow> length (concat (map f xs)) \<le> length xs * k"
proof (induction xs)
  case (Cons x xs)
  have "length (f x) \<le> k" and "length (concat (map f xs)) \<le> length xs * k"
    using Cons by simp_all
  then show ?case by simp
qed simp

lemma length_name_wire_ok: "name_ok n \<Longrightarrow> length (name_wire n) \<le> 255"
  by (auto simp: length_name_wire name_ok_def)

lemma length_question_wire: "question_ok q \<Longrightarrow> length (question_wire q) \<le> 66000"
  using length_name_wire_ok [of "q_name q"] by (simp add: question_wire_def question_ok_def)

lemma length_rr_wire: "rr_ok r \<Longrightarrow> length (rr_wire r) \<le> 66000"
  using length_name_wire_ok [of "rr_name r"] by (simp add: rr_wire_def rr_ok_def)

lemma length_section_le:
  assumes "list_all ok xs" and "\<And>x. ok x \<Longrightarrow> length (f x) \<le> 66000" and "length xs \<le> 65535"
  shows "length (concat (map f xs)) \<le> 65535 * 66000"
proof -
  have "length (concat (map f xs)) \<le> length xs * 66000"
    using assms(1,2) by (intro length_concat_le) (simp add: list_all_iff)
  also have "\<dots> \<le> 65535 * 66000" using assms(3) by (rule mult_le_mono1)
  finally show ?thesis .
qed

lemma length_packet_wire:
  assumes "packet_ok p"
  shows "length (packet_wire p) \<le> 12 + 4 * (65535 * 66000)"
  using assms
    length_section_le [of question_ok "questions p" question_wire] length_question_wire
    length_section_le [of rr_ok "answers p" rr_wire] length_section_le [of rr_ok "authority p" rr_wire]
    length_section_le [of rr_ok "additional p" rr_wire] length_rr_wire
  by (simp add: packet_ok_def packet_wire_def)

lemma fits_packet_wire: "packet_ok p \<Longrightarrow> fits (packet_wire p)"
  using length_packet_wire [of p] by (simp add: fits_def USIZE_MAX_def)

lemma written_header_counts:
  assumes "packet_ok p"
  shows "unat (qdcount (written_header p)) = length (questions p)"
    and "unat (ancount (written_header p)) = length (answers p)"
    and "unat (nscount (written_header p)) = length (authority p)"
    and "unat (arcount (written_header p)) = length (additional p)"
  using assms by (simp_all add: packet_ok_def written_header_def unat_u16_of_nat)

context bytes_mut_laws begin

lemma packet_parse_wire:
  assumes "packet_ok p"
  shows "packet_parse B (packet_wire p) = Inr (p\<lparr>pk_header := written_header p\<rparr>)"
proof -
  let ?h = "header_to_bytes (written_header p)" and ?q = "concat (map question_wire (questions p))"
    and ?an = "concat (map rr_wire (answers p))" and ?ns = "concat (map rr_wire (authority p))"
    and ?ar = "concat (map rr_wire (additional p))"
  let ?pkt = "?h @ ?q @ ?an @ ?ns @ ?ar"
  note ok = assms [unfolded packet_ok_def] and counts = written_header_counts [OF assms]
  have fits: "fits ?pkt" using fits_packet_wire [OF assms] by (simp add: packet_wire_def)
  have 0: "header_from_bytes ?pkt = Some (written_header p)" by (rule header_from_to_bytes)
  have 1: "parse_many (parse_question ?pkt) (length (questions p)) 12
      = Inr (questions p, 12 + length ?q)"
    using question.parse_many_wire [of "questions p" ?h "?an @ ?ns @ ?ar"] ok fits by simp
  have 2: "parse_many (parse_rr B ?pkt) (length (answers p)) (12 + length ?q)
      = Inr (answers p, 12 + length ?q + length ?an)"
    using rr.parse_many_wire [of "answers p" "?h @ ?q" "?ns @ ?ar"] ok fits by simp
  have 3: "parse_many (parse_rr B ?pkt) (length (authority p)) (12 + length ?q + length ?an)
      = Inr (authority p, 12 + length ?q + length ?an + length ?ns)"
    using rr.parse_many_wire [of "authority p" "?h @ ?q @ ?an" ?ar] ok fits by (simp add: add.assoc)
  have 4: "parse_many (parse_rr B ?pkt) (length (additional p)) (12 + length ?q + length ?an + length ?ns)
      = Inr (additional p, 12 + length ?q + length ?an + length ?ns + length ?ar)"
    using rr.parse_many_wire [of "additional p" "?h @ ?q @ ?an @ ?ns" "[]"] ok fits
    by (simp add: add.assoc)
  show ?thesis
    unfolding packet_parse_def packet_wire_def
    by (simp only: 0 1 2 3 4 counts and_then.simps ok_or.simps prod.case) simp
qed

end

section \<open>The end of a message\<close>

lemma resize_skip_question:
  assumes "parse_question pkt off = Inr (q, off')"
  shows "\<exists>off1. skip_name pkt off = Inr off1 \<and> off1 + 4 \<le> length pkt \<and> off' = off1 + 4"
  using assms
  by (auto simp: parse_question_def bc_at_def dest!: extract_name_skip rd_u16.rd_Some)

lemma resize_skip_questions_parse:
  "parse_many (parse_question pkt) n off = Inr (qs, off') \<Longrightarrow> resize_skip_questions pkt n off = Some off'"
proof (induction n arbitrary: off qs)
  case (Suc n)
  then obtain q off1 qs' where 1: "parse_question pkt off = Inr (q, off1)"
    and 2: "parse_many (parse_question pkt) n off1 = Inr (qs', off')"
    by auto
  from resize_skip_question [OF 1] Suc.IH [OF 2] show ?case by auto
qed simp

lemma read_u16_be_value:
  "read_u16_be c = Some (w, c') \<Longrightarrow>
     w = from_be16 (bc_buf c ! bc_pos c) (bc_buf c ! (bc_pos c + 1)) \<and> c' = c\<lparr>bc_pos := bc_pos c + 2\<rparr>
     \<and> bc_pos c + 2 \<le> length (bc_buf c)"
  by (auto simp: read_u16_be_def split: option.splits dest!: read_slice_SomeD)

lemma resize_skip_rr:
  assumes "parse_rr B pkt off = Inr (r, off')"
  shows "\<exists>off1. skip_name pkt off = Inr off1 \<and> off1 + 10 \<le> length pkt \<and>
           off' = off1 + (10 + unat (from_be16 (pkt ! (off1 + 8)) (pkt ! (off1 + 9)))) \<and>
           off' \<le> length pkt"
proof -
  from assms obtain n off1 t c1 k c2 l c3 rdlen c4 d c5 where
    n: "extract_name pkt off = Inr (n, off1)" and 1: "read_u16_be (bc_at pkt off1) = Some (t, c1)"
    and 2: "read_u16_be c1 = Some (k, c2)" and 3: "read_u32_be c2 = Some (l, c3)"
    and 4: "read_u16_be c3 = Some (rdlen, c4)" and 5: "read_slice (unat rdlen) c4 = Some (d, c5)"
    and off': "off' = bc_pos c5"
    by (auto simp: parse_rr_def)
  have "c3 = bc_at pkt (off1 + 8)"
    using rd_u16.rd_Some [OF 1] rd_u16.rd_Some [OF 2] rd_u32.rd_Some [OF 3]
    by (simp add: bc_at_def)
  with read_u16_be_value [OF 4] rd_slice.rd_Some [OF 5] off' extract_name_skip [OF n]
  show ?thesis by (simp add: bc_at_def add.commute)
qed

lemma resize_skip_rrs_parse:
  "parse_many (parse_rr B pkt) n off = Inr (rs, off') \<Longrightarrow> resize_skip_rrs pkt n off = Some off'"
proof (induction n arbitrary: off rs)
  case (Suc n)
  then obtain r off1 rs' where 1: "parse_rr B pkt off = Inr (r, off1)"
    and 2: "parse_many (parse_rr B pkt) n off1 = Inr (rs', off')"
    by auto
  from resize_skip_rr [OF 1] Suc.IH [OF 2] show ?case by (auto simp: Let_def not_less)
qed simp

lemma resize_skip_rrs_add:
  "resize_skip_rrs pkt (m + n) off
     = (case resize_skip_rrs pkt m off of None \<Rightarrow> None | Some off1 \<Rightarrow> resize_skip_rrs pkt n off1)"
  by (induction m arbitrary: off) (simp_all add: Let_def split: sum.split)

lemma header_to_bytes_counts:
  "from_be16 ((header_to_bytes h @ rest) ! 4) ((header_to_bytes h @ rest) ! 5) = qdcount h"
  "from_be16 ((header_to_bytes h @ rest) ! 6) ((header_to_bytes h @ rest) ! 7) = ancount h"
  "from_be16 ((header_to_bytes h @ rest) ! 8) ((header_to_bytes h @ rest) ! 9) = nscount h"
  "from_be16 ((header_to_bytes h @ rest) ! 10) ((header_to_bytes h @ rest) ! 11) = arcount h"
  by (simp_all add: header_to_bytes_def to_be16_def)

lemma resize_packet_wire:
  assumes "packet_ok p" and "fits (packet_wire p @ junk)"
  shows "resize_packet (packet_wire p @ junk) edns =
    (case edns of None \<Rightarrow> packet_wire p
     | Some opt \<Rightarrow> if additional p = [] then copy_at (packet_wire p @ opt) 10 [0x00, 0x01]
                   else packet_wire p)"
proof -
  let ?h = "header_to_bytes (written_header p)" and ?q = "concat (map question_wire (questions p))"
    and ?an = "concat (map rr_wire (answers p))" and ?ns = "concat (map rr_wire (authority p))"
    and ?ar = "concat (map rr_wire (additional p))"
  let ?pkt = "?h @ ?q @ ?an @ ?ns @ ?ar @ junk"
  let ?rrs = "answers p @ authority p @ additional p"
  note ok = assms(1) [unfolded packet_ok_def]
  have pkt: "packet_wire p @ junk = ?pkt" by (simp add: packet_wire_def)
  have fits: "fits ?pkt" using assms(2) pkt by simp
  have long: "\<not> length (packet_wire p @ junk) < 12" by (simp add: packet_wire_def)
  have "parse_many (parse_question ?pkt) (length (questions p)) 12 = Inr (questions p, 12 + length ?q)"
    using question.parse_many_wire [of "questions p" ?h "?an @ ?ns @ ?ar @ junk"] ok fits by simp
  then have 1: "resize_skip_questions ?pkt (length (questions p)) 12 = Some (12 + length ?q)"
    by (rule resize_skip_questions_parse)
  have "parse_many (parse_rr vec_bytes_mut ?pkt) (length ?rrs) (12 + length ?q)
      = Inr (?rrs, 12 + length ?q + length (concat (map rr_wire ?rrs)))"
    using vec.rr.parse_many_wire [of ?rrs "?h @ ?q" junk] ok fits by simp
  then have 2: "resize_skip_rrs ?pkt
        (length (answers p) + length (authority p) + length (additional p)) (12 + length ?q)
      = Some (length (packet_wire p))"
    by (simp add: resize_skip_rrs_parse packet_wire_def add.assoc)
  show ?thesis
    unfolding pkt resize_packet_def Let_def header_to_bytes_counts
      written_header_counts [OF assms(1)] 1 option.case 2
    unfolding pkt [symmetric]
    using long by (simp split: option.split)
qed

lemma copy_arcount:
  "copy_at (header_to_bytes h @ rest) 10 [0, 1] = header_to_bytes (h\<lparr>arcount := 1\<rparr>) @ rest"
  by (simp add: copy_at_def header_to_bytes_def to_be16_def)

lemma packet_wire_add_opt:
  "additional p = [] \<Longrightarrow>
     copy_at (packet_wire p @ rr_wire r) 10 [0, 1] = packet_wire (p\<lparr>additional := [r]\<rparr>)"
  by (simp add: packet_wire_def copy_arcount written_header_def)

section \<open>Records inside a raw message\<close>

text \<open>
  What code that walks raw records sees in front of an encoded record: the owner name skipped,
  the ten fixed octets behind it, then the data.
\<close>

definition rr_fixed :: "dns_rr \<Rightarrow> u8 list" where
  "rr_fixed r = to_be16 (rr_type r) @ to_be16 (rr_class r) @ to_be32 (rr_ttl r)
     @ to_be16 (word_of_nat (length (rr_data r)))"

abbreviation rr_owner_len :: "dns_rr \<Rightarrow> nat" where
  "rr_owner_len r \<equiv> length (name_wire (rr_name r))"

lemma length_rr_fixed [simp]: "length (rr_fixed r) = 10"
  by (simp add: rr_fixed_def)

lemma rr_wire_split: "rr_wire r = name_wire (rr_name r) @ rr_fixed r @ rr_data r"
  by (simp add: rr_wire_def rr_fixed_def)

lemma length_rr_wire_eq: "length (rr_wire r) = rr_owner_len r + 10 + length (rr_data r)"
  by (simp add: rr_wire_split)

lemma skip_name_rr:
  assumes "rr_ok r" and "fits (pre @ rr_wire r @ post)"
  shows "skip_name (pre @ rr_wire r @ post) (length pre) = Inr (length pre + rr_owner_len r)"
  using extract_name_skip [OF extract_name_wire, of "rr_name r" pre "rr_fixed r @ rr_data r @ post"] assms
  by (simp add: rr_ok_def rr_wire_split)

lemma nth_rr_wire:
  "k < 10 \<Longrightarrow> (pre @ rr_wire r @ post) ! (length pre + rr_owner_len r + k) = rr_fixed r ! k"
  by (simp add: rr_wire_split nth_append)

lemma nth_rr_wire_0: "(pre @ rr_wire r @ post) ! (length pre + rr_owner_len r) = rr_fixed r ! 0"
  using nth_rr_wire [of 0 pre r post] by simp

lemma take_rr_data:
  "take (length (rr_data r)) (drop (length pre + rr_owner_len r + 10) (pre @ rr_wire r @ post)) = rr_data r"
  by (simp add: rr_wire_split)

lemma rr_fixed_fields:
  assumes "rr_ok r"
  shows "from_be16 (rr_fixed r ! 0) (rr_fixed r ! 1) = rr_type r"
    and "from_be16 (rr_fixed r ! 2) (rr_fixed r ! 3) = rr_class r"
    and "[rr_fixed r ! 4, rr_fixed r ! 5, rr_fixed r ! 6, rr_fixed r ! 7] = to_be32 (rr_ttl r)"
    and "unat (from_be16 (rr_fixed r ! 8) (rr_fixed r ! 9)) = length (rr_data r)"
proof -
  have "from_be16 (rr_fixed r ! 8) (rr_fixed r ! 9) = word_of_nat (length (rr_data r))"
    by (simp add: rr_fixed_def to_be16_def to_be32_def)
  then show "unat (from_be16 (rr_fixed r ! 8) (rr_fixed r ! 9)) = length (rr_data r)"
    using assms by (simp only: unat_u16_of_nat) (simp add: rr_ok_def)
qed (simp_all add: rr_fixed_def to_be16_def to_be32_def)

lemmas raw_rr = skip_name_rr nth_rr_wire nth_rr_wire_0 take_rr_data rr_fixed_fields

section \<open>Properties\<close>

text \<open>C2: a well-formed message survives the wire: what \<open>DnsPacket::write\<close> produces is parsed by
  \<open>DnsPacket::parse\<close> into the same message, with the counts of the header set to the lengths
  of the sections.\<close>

theorem packet_round_trip:
  assumes "bytes_mut_laws B" and "packet_ok p"
  shows "packet_parse B (bm_to_vec B (packet_write B p)) = Inr (p\<lparr>pk_header := written_header p\<rparr>)"
  using assms bytes_mut_laws.packet_parse_wire bytes_mut_laws.to_vec_packet_write by metis

definition sample_packet :: dns_packet where
  "sample_packet =
     \<lparr>pk_header = \<lparr>hdr_id = 0x1234, hb3 = 0x81, hb4 = 0x80, qdcount = 1, ancount = 1, nscount = 0, arcount = 0\<rparr>,
      questions = [\<lparr>q_name = [97, DOT, 98], q_type = 15, q_class = 1\<rparr>],
      answers = [\<lparr>rr_name = [97, DOT, 98], rr_type = 15, rr_class = 1, rr_ttl = 300,
                  rr_data = [0, 10, 1, 109, 0]\<rparr>],
      authority = [], additional = []\<rparr>"

lemma sample_packet_ok: "packet_ok sample_packet"
proof -
  have "name_ok [97, DOT, 98]" and "is_name_wire [1, 109, 0]" by code_simp+
  then show ?thesis
    by (simp add: packet_ok_def sample_packet_def question_ok_def rr_ok_def rdata_ok_def)
qed

theorem packet_round_trip_witness:
  "packet_parse vec_bytes_mut (bm_to_vec vec_bytes_mut (packet_write vec_bytes_mut sample_packet))
     = Inr sample_packet"
proof -
  have "sample_packet\<lparr>pk_header := written_header sample_packet\<rparr> = sample_packet"
    by (simp add: sample_packet_def written_header_def)
  with packet_round_trip [OF vec.bytes_mut_laws_axioms sample_packet_ok] show ?thesis by simp
qed

text \<open>On a well-formed message followed by any junk, \<open>resize_packet\<close> cuts exactly the junk; given an
  encoded pseudo-record for a message with no additional section, the result is the encoding
  of the message with that record as its additional section.\<close>

lemma resize_packet_exact:
  assumes "packet_ok p" and "fits (packet_wire p @ junk)" and "additional p = []"
  shows "resize_packet (packet_wire p @ junk) None = packet_wire p
       \<and> resize_packet (packet_wire p @ junk) (Some (rr_wire r)) = packet_wire (p\<lparr>additional := [r]\<rparr>)"
  using resize_packet_wire [OF assms(1,2)] assms(3) by (simp add: packet_wire_add_opt)

end
