(* ===== verification/Addr_Net.thy ===== *)
theory Addr_Net
  imports Rust_Base
begin

text \<open>
  Addresses: \<open>src/types/addr.rs\<close> (the sum \<open>AllAddr\<close> and the subnet helpers), the reverse-lookup
  names of \<open>src/rfc1035.rs\<close> (\<open>in_arpa_name_2_addr\<close>) and \<open>src/cache.rs\<close> (\<open>ipv4_ptr_name\<close>,
  \<open>ipv6_ptr_name\<close>), the private-range tests \<open>private_net\<close> and \<open>private_net6\<close>, and the prefix test
  of the bogus-address lists (\<open>addr_in_bogus_range\<close>).

  An \<open>Ipv4Addr\<close> is a 32-bit word and an \<open>Ipv6Addr\<close> a 128-bit word; \<open>octets\<close> is the list of octets,
  most significant first. The locale \<open>prefix_relation\<close> says what it means to compare addresses
  up to a prefix length; the four prefix tests of the code, octet-wise and mask-wise, are
  instances of it.
\<close>

unbundle bit_operations_syntax

type_synonym ipv4 = u32
type_synonym ipv6 = "128 word"

section \<open>Octets\<close>

fun be_nat :: "u8 list \<Rightarrow> nat" where
  "be_nat [] = 0"
| "be_nat (b # bs) = unat b * 256 ^ length bs + be_nat bs"

primrec nat_be :: "nat \<Rightarrow> nat \<Rightarrow> u8 list" where
  "nat_be 0 n = []"
| "nat_be (Suc k) n = word_of_nat (n div 256 ^ k) # nat_be k n"

definition octets4 :: "ipv4 \<Rightarrow> u8 list" where
  "octets4 a = to_be32 a"

definition octets6 :: "ipv6 \<Rightarrow> u8 list" where
  "octets6 a = nat_be 16 (unat a)"

definition ipv4_of :: "u8 list \<Rightarrow> ipv4" where
  "ipv4_of bs = from_be32 (bs ! 0) (bs ! 1) (bs ! 2) (bs ! 3)"

definition ipv6_of :: "u8 list \<Rightarrow> ipv6" where
  "ipv6_of bs = word_of_nat (be_nat bs)"

lemma length_nat_be [simp]: "length (nat_be k n) = k"
  by (induction k) simp_all

lemma length_octets4 [simp]: "length (octets4 a) = 4"
  by (simp add: octets4_def)

lemma length_octets6 [simp]: "length (octets6 a) = 16"
  by (simp add: octets6_def)

lemma be_nat_less: "be_nat bs < 256 ^ length bs"
proof (induction bs)
  case (Cons b bs)
  have "unat b + 1 \<le> 256" using unat_u8 [of b] by linarith
  then have "(unat b + 1) * 256 ^ length bs \<le> 256 * 256 ^ length bs" by (rule mult_le_mono1)
  with Cons show ?case unfolding be_nat.simps length_Cons power_Suc by (simp only: distrib_right)
qed simp

lemma be_nat_nat_be: "be_nat (nat_be k n) = n mod 256 ^ k"
proof (induction k)
  case (Suc k)
  have "n mod 256 ^ Suc k = n div 256 ^ k mod 256 * 256 ^ k + n mod 256 ^ k"
    using mod_mult2_eq [of n "256 ^ k" 256] by (simp add: mult.commute)
  with Suc show ?case by (simp only: nat_be.simps be_nat.simps unat_u8_of_nat length_nat_be)
qed simp

lemma nat_be_mult_add: "nat_be k (m * 256 ^ k + n) = nat_be k n"
proof -
  have "nat_be j (m * 256 ^ k + n) = nat_be j n" if "j \<le> k" for j
    using that
  proof (induction j)
    case (Suc j)
    let ?c = "m * 256 ^ (k - Suc j)"
    have "256 ^ k = (256 :: nat) ^ j * 256 ^ Suc (k - Suc j)"
      using Suc.prems by (simp only: power_add [symmetric]) simp
    then have "m * 256 ^ k + n = n + 256 * ?c * 256 ^ j"
      by (simp add: mult.assoc mult.left_commute)
    then have "(m * 256 ^ k + n) div 256 ^ j = 256 * ?c + n div 256 ^ j"
      by (simp only: div_mult_self1 power_not_zero numeral_neq_zero not_False_eq_True)
    then have "(m * 256 ^ k + n) div 256 ^ j mod 256 = n div 256 ^ j mod 256"
      by (simp only: mod_mult_self4)
    then have "(word_of_nat ((m * 256 ^ k + n) div 256 ^ j) :: u8) = word_of_nat (n div 256 ^ j)"
      by (simp only: word_unat_eq_iff unat_u8_of_nat)
    with Suc show ?case by simp
  qed simp
  from this [of k] show ?thesis by simp
qed

lemma nat_be_be_nat: "nat_be (length bs) (be_nat bs) = bs"
proof (induction bs)
  case (Cons b bs)
  have "(unat b * 256 ^ length bs + be_nat bs) div 256 ^ length bs = unat b"
    using be_nat_less [of bs] by simp
  then have "(word_of_nat ((unat b * 256 ^ length bs + be_nat bs) div 256 ^ length bs) :: u8) = b"
    by simp
  with Cons show ?case by (simp add: nat_be_mult_add del: of_nat_add)
qed simp

lemma unat_ipv6 [simp]: "unat (a :: ipv6) < 256 ^ 16"
  using unsigned_less [of a] by simp

lemma ipv6_of_octets [simp]: "ipv6_of (octets6 a) = a"
  by (simp only: ipv6_of_def octets6_def be_nat_nat_be mod_less unat_ipv6) simp

lemma octets_ipv6_of [simp]: "length bs = 16 \<Longrightarrow> octets6 (ipv6_of bs) = bs"
proof -
  assume len: "length bs = 16"
  have "unat (ipv6_of bs) = be_nat bs"
    using be_nat_less [of bs] len by (simp add: ipv6_of_def unat_of_nat)
  with nat_be_be_nat [of bs] len show ?thesis by (simp add: octets6_def)
qed

lemma ipv4_of_octets [simp]: "ipv4_of (octets4 a) = a"
  by (simp add: ipv4_of_def octets4_def to_be32_def)

section \<open>Address values\<close>

datatype ip_addr = IpV4 ipv4 | IpV6 ipv6

record cname_addr =
  is_name_ptr :: bool
  target_name :: "rstr option"
  cname_uid :: u32

record key_addr =
  key_keydata :: "u8 list"
  key_keylen :: u16
  key_flags :: u16
  key_keytag :: u16
  key_algo :: u8

record ds_addr =
  ds_keydata :: "u8 list"
  ds_keylen :: u16
  ds_keytag :: u16
  ds_algo :: u8
  ds_digest :: u8

record log_addr =
  log_keytag :: u16
  log_algo :: u16
  log_digest :: u16
  log_rcode :: u16
  log_ede :: "32 word"

record rr_block_addr =
  rb_rrtype :: u16
  rb_rrdata :: "u8 list"

record rr_data_addr =
  rd_rrtype :: u16
  rd_data :: "u8 list"

datatype all_addr =
    Addr4 ipv4
  | Addr6 ipv6
  | Cname cname_addr
  | Key key_addr
  | Ds ds_addr
  | Log log_addr
  | RrBlock rr_block_addr
  | RrData rr_data_addr

fun as_ipv4 :: "all_addr \<Rightarrow> ipv4 option" where
  "as_ipv4 (Addr4 a) = Some a"
| "as_ipv4 _ = None"

fun as_ipv6 :: "all_addr \<Rightarrow> ipv6 option" where
  "as_ipv6 (Addr6 a) = Some a"
| "as_ipv6 _ = None"

fun as_ip :: "all_addr \<Rightarrow> ip_addr option" where
  "as_ip (Addr4 a) = Some (IpV4 a)"
| "as_ip (Addr6 a) = Some (IpV6 a)"
| "as_ip _ = None"

section \<open>Subnets\<close>

definition netmask_length :: "ipv4 \<Rightarrow> nat" where
  "netmask_length m = length (filter (bit m) [0..<32])"

definition is_same_net :: "ipv4 \<Rightarrow> ipv4 \<Rightarrow> ipv4 \<Rightarrow> bool" where
  "is_same_net a b m \<longleftrightarrow> a AND m = b AND m"

definition is_same_net_prefix :: "ipv4 \<Rightarrow> ipv4 \<Rightarrow> nat \<Rightarrow> bool" where
  "is_same_net_prefix a b prefix =
     (if prefix = 0 then True
      else if prefix \<ge> 32 then a = b
      else let m = NOT (push_bit (32 - prefix) 1 - 1) in a AND m = b AND m)"

text \<open>\<open>ab[..pfbytes]\<close> panics when the prefix is longer than the address.\<close>

definition is_same_net6 :: "ipv6 \<Rightarrow> ipv6 \<Rightarrow> nat \<Rightarrow> bool exec" where
  "is_same_net6 a b prefixlen =
     (let ab = octets6 a; bb = octets6 b; pfbytes = prefixlen div 8; pfbits = prefixlen mod 8
      in if pfbytes > 16 then Panic
         else if take pfbytes ab \<noteq> take pfbytes bb then Done False
         else if pfbits = 0 \<or> pfbytes \<ge> 16 then Done True
         else Done (drop_bit (8 - pfbits) (ab ! pfbytes) = drop_bit (8 - pfbits) (bb ! pfbytes)))"

definition addr6part :: "ipv6 \<Rightarrow> u64" where
  "addr6part a = word_of_nat (be_nat (drop 8 (octets6 a)))"

definition setaddr6part :: "ipv6 \<Rightarrow> u64 \<Rightarrow> ipv6" where
  "setaddr6part a host = ipv6_of (copy_at (octets6 a) 8 (nat_be 8 (unat host)))"

section \<open>Reverse-lookup names\<close>

definition in_addr_arpa :: rstr where
  "in_addr_arpa = str_lit ''.in-addr.arpa''"

definition ip6_arpa :: rstr where
  "ip6_arpa = str_lit ''.ip6.arpa''"

definition parse_nibble :: "rstr \<Rightarrow> u8 option" where
  "parse_nibble s = (if length s = 1 then map_option word_of_nat (hex_value (s ! 0)) else None)"

definition in_arpa_name_2_addr :: "(rstr \<Rightarrow> rstr) \<Rightarrow> rstr \<Rightarrow> all_addr option" where
  "in_arpa_name_2_addr lower name =
     (let lname = lower name;
          lname = (case strip_suffix lname [DOT] of None \<Rightarrow> lname | Some r \<Rightarrow> r)
      in case strip_suffix lname in_addr_arpa of
           Some rest \<Rightarrow>
             let parts = split_on DOT rest
             in if length parts \<noteq> 4 then None
                else (case those (map parse_u8 (rev parts)) of
                        None \<Rightarrow> None
                      | Some octets \<Rightarrow> Some (Addr4 (ipv4_of octets)))
         | None \<Rightarrow>
             (case strip_suffix lname ip6_arpa of
                None \<Rightarrow> None
              | Some rest \<Rightarrow>
                  (case those (map parse_nibble (split_on DOT rest)) of
                     None \<Rightarrow> None
                   | Some nibbles \<Rightarrow>
                       if length nibbles \<noteq> 32 then None
                       else Some (Addr6 (ipv6_of
                              (map (\<lambda>i. push_bit 4 (nibbles ! (31 - i * 2)) OR nibbles ! (30 - i * 2))
                                 [0..<16]))))))"

definition ipv4_ptr_name :: "ipv4 \<Rightarrow> rstr" where
  "ipv4_ptr_name addr =
     (let oc = octets4 addr
      in dec_digits (unat (oc ! 3)) @ [DOT] @ dec_digits (unat (oc ! 2)) @ [DOT]
         @ dec_digits (unat (oc ! 1)) @ [DOT] @ dec_digits (unat (oc ! 0)) @ in_addr_arpa)"

definition ipv6_ptr_name :: "ipv6 \<Rightarrow> rstr" where
  "ipv6_ptr_name addr =
     concat (map (\<lambda>byte. let lo = byte AND 0x0F; hi = drop_bit 4 byte AND 0x0F
                         in [hex_digit (unat lo), DOT, hex_digit (unat hi), DOT])
               (rev (octets6 addr)))
     @ str_lit ''ip6.arpa''"

section \<open>Special-use ranges\<close>

definition private_net :: "ipv4 \<Rightarrow> bool \<Rightarrow> bool" where
  "private_net addr ban_localhost =
     (let oc = octets4 addr
      in if oc ! 0 = 10 then True
         else if oc ! 0 = 172 \<and> oc ! 1 AND 0xF0 = 0x10 then True
         else if oc ! 0 = 192 \<and> oc ! 1 = 168 then True
         else if oc ! 0 = 169 \<and> oc ! 1 = 254 then True
         else if ban_localhost \<and> oc ! 0 = 127 then True
         else False)"

definition private_net6 :: "ipv6 \<Rightarrow> bool \<Rightarrow> bool" where
  "private_net6 addr ban_localhost =
     (let b = octets6 addr
      in if b ! 0 AND 0xFE = 0xFC then True
         else if b ! 0 = 0xFE \<and> b ! 1 AND 0xC0 = 0x80 then True
         else if ban_localhost \<and> addr = 1 then True
         else False)"

record bogus_addr =
  ba_is6 :: bool
  ba_prefix :: int
  ba_addr :: all_addr

definition addr_in_bogus_range :: "all_addr \<Rightarrow> bogus_addr \<Rightarrow> bool" where
  "addr_in_bogus_range addr ba =
     (case addr of
        Addr4 ip \<Rightarrow>
          if ba_is6 ba then False
          else (case ba_addr ba of
                  Addr4 ba_ip \<Rightarrow>
                    let prefix = nat (max 0 (min 32 (ba_prefix ba)));
                        m = (if prefix = 0 then 0 else if prefix \<ge> 32 then - 1
                             else NOT (push_bit (32 - prefix) 1 - 1))
                    in ip AND m = ba_ip AND m
                | _ \<Rightarrow> False)
      | Addr6 ip \<Rightarrow>
          if \<not> ba_is6 ba then False
          else (case ba_addr ba of
                  Addr6 ba_ip \<Rightarrow>
                    let prefix = nat (max 0 (min 128 (ba_prefix ba)));
                        full = prefix div 8; rem = prefix mod 8;
                        ib = octets6 ip; bb = octets6 ba_ip
                    in if take full ib \<noteq> take full bb then False
                       else if rem > 0 \<and> full < 16
                       then let m = NOT (push_bit (8 - rem) 1 - 1)
                            in ib ! full AND m = bb ! full AND m
                       else True
                | _ \<Rightarrow> False)
      | _ \<Rightarrow> False)"

section \<open>Comparing prefixes\<close>

locale prefix_relation =
  fixes same :: "'a::len word \<Rightarrow> 'a word \<Rightarrow> nat \<Rightarrow> bool"
  assumes same_iff: "p \<le> LENGTH('a) \<Longrightarrow>
      same a b p \<longleftrightarrow> drop_bit (LENGTH('a) - p) a = drop_bit (LENGTH('a) - p) b"
begin

lemma same_refl: "p \<le> LENGTH('a) \<Longrightarrow> same a a p"
  by (simp add: same_iff)

lemma same_sym: "p \<le> LENGTH('a) \<Longrightarrow> same a b p \<Longrightarrow> same b a p"
  by (simp add: same_iff)

lemma same_trans: "p \<le> LENGTH('a) \<Longrightarrow> same a b p \<Longrightarrow> same b c p \<Longrightarrow> same a c p"
  by (simp add: same_iff)

lemma same_shorter:
  assumes "q \<le> p" and "p \<le> LENGTH('a)" and "same a b p"
  shows "same a b q"
proof -
  let ?n = "LENGTH('a)"
  have "drop_bit (?n - q) x = drop_bit (p - q) (drop_bit (?n - p) x)" for x :: "'a word"
    using assms(1,2) by simp
  with assms show ?thesis by (simp only: same_iff le_trans)
qed

lemma same_full: "same a b LENGTH('a) \<longleftrightarrow> a = b"
  by (simp add: same_iff)

lemma same_empty: "same a b 0"
  by (simp add: same_iff drop_bit_word_beyond)

end

lemma and_not_mask_eq_iff:
  fixes a b :: "'a::len word"
  shows "a AND NOT (mask k) = b AND NOT (mask k) \<longleftrightarrow> drop_bit k a = drop_bit k b"
proof -
  have "x AND NOT (mask k) = push_bit k (drop_bit k x)" for x :: "'a word"
    by (rule bit_word_eqI) (auto simp: bit_simps)
  moreover have "drop_bit k (push_bit k (drop_bit k x)) = drop_bit k x" for x :: "'a word"
    by (rule bit_word_eqI) (auto simp: bit_simps dest: bit_imp_le_length)
  ultimately show ?thesis by metis
qed

lemma mask_as_minus: "push_bit k 1 - 1 = (mask k :: 'a::len word)"
  by (simp add: mask_eq_exp_minus_1 push_bit_eq_mult)

lemma and_not_exp_eq_iff:
  fixes a b :: "'a::len word"
  shows "a AND NOT (2 ^ k - 1) = b AND NOT (2 ^ k - 1) \<longleftrightarrow> drop_bit k a = drop_bit k b"
  by (simp only: mask_eq_exp_minus_1 [symmetric] and_not_mask_eq_iff)

interpretation net4: prefix_relation is_same_net_prefix
proof
  fix p :: nat and a b :: ipv4
  assume "p \<le> LENGTH(32)"
  then consider "p = 0" | "p = 32" | "0 < p" "p < 32" by force
  then show "is_same_net_prefix a b p \<longleftrightarrow>
      drop_bit (LENGTH(32) - p) a = drop_bit (LENGTH(32) - p) b"
  proof cases
    case 1
    then show ?thesis by (simp add: is_same_net_prefix_def drop_bit_word_beyond)
  next
    case 3
    then show ?thesis
      by (simp only: is_same_net_prefix_def Let_def mask_as_minus and_not_mask_eq_iff) simp
  qed (simp add: is_same_net_prefix_def)
qed

text \<open>Octet-wise comparison of a prefix, in arithmetic.\<close>

lemma take_nat_be: "j \<le> k \<Longrightarrow> take j (nat_be k n) = nat_be j (n div 256 ^ (k - j))"
proof (induction j arbitrary: k)
  case (Suc j)
  then obtain k' where k: "k = Suc k'" "j \<le> k'" by (cases k) auto
  have "n div 256 ^ (k' - j) div 256 ^ j = n div 256 ^ k'"
    using k(2) by (simp add: div_mult2_eq [symmetric] power_add [symmetric])
  with k Suc.IH [of k'] show ?case by simp
qed simp

lemma nth_nat_be: "i < k \<Longrightarrow> nat_be k n ! i = word_of_nat (n div 256 ^ (k - Suc i))"
  by (induction k arbitrary: i) (auto simp: nth_Cons split: nat.splits)

lemma nat_be_inject: "m < 256 ^ k \<Longrightarrow> n < 256 ^ k \<Longrightarrow> nat_be k m = nat_be k n \<longleftrightarrow> m = n"
  by (metis be_nat_nat_be mod_less)

lemma digit_iff: "s < d \<Longrightarrow> z div d = q \<and> z mod d = s \<longleftrightarrow> z = q * d + (s :: nat)"
  by auto

lemma octet_split:
  fixes z :: nat
  assumes "c * d = 256"
  shows "z div 256 = z div c div d" and "z mod 256 div c = z div c mod d"
proof -
  from assms have "0 < c" by (cases c) auto
  then show "z mod 256 div c = z div c mod d"
    using mod_mult2_eq [of z c d] assms by simp
  show "z div 256 = z div c div d"
    using assms by (simp add: div_mult2_eq [symmetric])
qed

lemma div_split_eq_iff:
  fixes x y :: nat
  assumes "c * d = 256"
  shows "x div 256 = y div 256 \<and> x mod 256 div c = y mod 256 div c \<longleftrightarrow> x div c = y div c"
  unfolding octet_split [OF assms] by (metis div_mult_mod_eq)

lemma drop_bit_eq_unat_div:
  fixes a b :: "'a::len word"
  shows "drop_bit n a = drop_bit n b \<longleftrightarrow> unat a div 2 ^ n = unat b div 2 ^ n"
  by (simp only: word_unat_eq_iff unat_drop_bit_eq) (simp add: drop_bit_eq_div)

lemma take_octets6_eq_iff:
  assumes "k \<le> 16"
  shows "take k (octets6 a) = take k (octets6 b)
           \<longleftrightarrow> unat a div 256 ^ (16 - k) = unat b div 256 ^ (16 - k)"
proof -
  have "256 ^ 16 = (256 :: nat) ^ k * 256 ^ (16 - k)"
    using assms by (simp only: power_add [symmetric]) simp
  then have "unat x div 256 ^ (16 - k) < 256 ^ k" for x :: ipv6
    using unat_ipv6 [of x] by (intro less_mult_imp_div_less) simp
  then show ?thesis
    using assms by (simp only: octets6_def take_nat_be nat_be_inject)
qed

lemma nth_octets6: "i < 16 \<Longrightarrow> unat (octets6 a ! i) = unat a div 256 ^ (15 - i) mod 256"
  by (simp only: octets6_def nth_nat_be unat_u8_of_nat) simp

lemma prefix6_eq_iff:
  assumes "p \<le> 128"
  defines "k \<equiv> p div 8" and "r \<equiv> p mod 8"
  shows "drop_bit (128 - p) a = drop_bit (128 - p) (b :: ipv6) \<longleftrightarrow>
    take k (octets6 a) = take k (octets6 b) \<and>
    (r \<noteq> 0 \<longrightarrow> drop_bit (8 - r) (octets6 a ! k) = drop_bit (8 - r) (octets6 b ! k))"
proof (cases "r = 0")
  case True
  have p: "p = 8 * k + r" "r < 8" by (simp_all add: k_def r_def)
  with True assms(1) have "128 - p = 8 * (16 - k)" "k \<le> 16" by auto
  then have "(2 :: nat) ^ (128 - p) = 256 ^ (16 - k)" by (simp add: power_mult)
  with True \<open>k \<le> 16\<close> show ?thesis
    by (simp only: drop_bit_eq_unat_div take_octets6_eq_iff) simp
next
  case False
  have p: "p = 8 * k + r" and r: "r < 8" by (simp_all add: k_def r_def)
  with False assms(1) have k: "k < 16" by auto
  with p r assms(1) have e: "128 - p = 8 * (15 - k) + (8 - r)" by simp
  let ?X = "\<lambda>x :: ipv6. unat x div 256 ^ (15 - k)"
  have "(2 :: nat) ^ (128 - p) = 256 ^ (15 - k) * 2 ^ (8 - r)"
    unfolding e by (simp add: power_add power_mult)
  then have 1: "unat x div 2 ^ (128 - p) = ?X x div 2 ^ (8 - r)" for x :: ipv6
    by (simp add: div_mult2_eq)
  have "16 - k = Suc (15 - k)" using k by simp
  then have 2: "unat x div 256 ^ (16 - k) = ?X x div 256" for x :: ipv6
    by (simp only: power_Suc2 div_mult2_eq)
  have "2 ^ (8 - r) * 2 ^ r = (256 :: nat)"
    using r by (simp only: power_add [symmetric]) simp
  from div_split_eq_iff [OF this, of "?X a" "?X b"] k False show ?thesis
    by (simp only: drop_bit_eq_unat_div 1 2 take_octets6_eq_iff less_imp_le nth_octets6) simp
qed

interpretation net6: prefix_relation "\<lambda>a b p. is_same_net6 a b p = Done True"
proof
  fix p :: nat and a b :: ipv6
  assume p: "p \<le> LENGTH(128)"
  then have "p \<le> 128" by simp
  then have "p div 8 \<le> 16" and "p div 8 \<ge> 16 \<Longrightarrow> p mod 8 = 0"
    using div_mult_mod_eq [of p 8] by linarith+
  with prefix6_eq_iff [of p a b] p
  show "is_same_net6 a b p = Done True \<longleftrightarrow>
      drop_bit (LENGTH(128) - p) a = drop_bit (LENGTH(128) - p) b"
    by (auto simp: is_same_net6_def Let_def)
qed

text \<open>The bogus-address test compares the same prefixes.\<close>

definition bogus4 :: "ipv4 \<Rightarrow> ipv4 \<Rightarrow> nat \<Rightarrow> bool" where
  "bogus4 a b p = addr_in_bogus_range (Addr4 a) \<lparr>ba_is6 = False, ba_prefix = int p, ba_addr = Addr4 b\<rparr>"

definition bogus6 :: "ipv6 \<Rightarrow> ipv6 \<Rightarrow> nat \<Rightarrow> bool" where
  "bogus6 a b p = addr_in_bogus_range (Addr6 a) \<lparr>ba_is6 = True, ba_prefix = int p, ba_addr = Addr6 b\<rparr>"

lemma bogus4_same_net: "p \<le> 32 \<Longrightarrow> bogus4 a b p = is_same_net_prefix a b p"
  by (auto simp: bogus4_def addr_in_bogus_range_def is_same_net_prefix_def Let_def)

interpretation bogus4: prefix_relation bogus4
  by unfold_locales (simp add: bogus4_same_net net4.same_iff)

interpretation bogus6: prefix_relation bogus6
proof
  fix p :: nat and a b :: ipv6
  assume p: "p \<le> LENGTH(128)"
  have "nat (max 0 (min 128 (int p))) = p" using p by simp
  moreover have "p \<le> 128" using p by simp
  then have "p mod 8 \<noteq> 0 \<Longrightarrow> p div 8 < 16"
    using div_mult_mod_eq [of p 8] by linarith
  ultimately show "bogus6 a b p \<longleftrightarrow> drop_bit (LENGTH(128) - p) a = drop_bit (LENGTH(128) - p) b"
    using prefix6_eq_iff [of p a b] p
    by (auto simp: bogus6_def addr_in_bogus_range_def Let_def and_not_exp_eq_iff)
qed

section \<open>Special-use ranges as prefixes\<close>

lemma octets4_nth:
  "unat (octets4 a ! 0) = unat a div 16777216" "unat (octets4 a ! 1) = unat a div 65536 mod 256"
proof -
  have "unat a div 16777216 < 256"
    using unat_u32 [of a] by (intro less_mult_imp_div_less) simp
  then show "unat (octets4 a ! 0) = unat a div 16777216"
    by (simp add: octets4_def to_be32_def unat_u8_of_nat)
qed (simp add: octets4_def to_be32_def unat_u8_of_nat)

lemma drop_bit_eq_iff_div:
  fixes a c :: "'a::len word"
  shows "drop_bit n a = c \<longleftrightarrow> unat a div 2 ^ n = unat c"
  by (simp only: word_unat_eq_iff unat_drop_bit_eq) (simp add: drop_bit_eq_div)

lemma and_high_mask_iff:
  fixes b v :: u8
  assumes "m = NOT (mask k)" and "v AND m = v"
  shows "b AND m = v \<longleftrightarrow> unat b div 2 ^ k = unat v div 2 ^ k"
  using and_not_mask_eq_iff [of b k v] assms by (simp only: drop_bit_eq_unat_div)

lemma high_mask_iffs:
  fixes b :: u8
  shows "b AND 0xF0 = 0x10 \<longleftrightarrow> unat b div 16 = 1"
    and "b AND 0xFE = 0xFC \<longleftrightarrow> unat b div 2 = 126"
    and "b AND 0xC0 = 0x80 \<longleftrightarrow> unat b div 64 = 2"
proof -
  have "(0xF0 :: u8) = NOT (mask 4)" "(0xFE :: u8) = NOT (mask 1)" "(0xC0 :: u8) = NOT (mask 6)"
    by code_simp+
  then show "b AND 0xF0 = 0x10 \<longleftrightarrow> unat b div 16 = 1" "b AND 0xFE = 0xFC \<longleftrightarrow> unat b div 2 = 126"
    "b AND 0xC0 = 0x80 \<longleftrightarrow> unat b div 64 = 2"
    using and_high_mask_iff [of "0xF0" 4 "0x10" b] and_high_mask_iff [of "0xFE" 1 "0xFC" b]
      and_high_mask_iff [of "0xC0" 6 "0x80" b]
    by simp_all
qed

lemma u8_eq_iff: "(b :: u8) = numeral n \<longleftrightarrow> unat b = numeral n mod 256"
  using unat_u8_of_nat [of "numeral n"] by (simp only: word_unat_eq_iff of_nat_numeral)

lemma private_net_ranges:
  "private_net a ban_localhost \<longleftrightarrow>
     drop_bit 24 a = 10 \<or> drop_bit 20 a = 0xAC1 \<or> drop_bit 16 a = 0xC0A8 \<or> drop_bit 16 a = 0xA9FE
     \<or> ban_localhost \<and> drop_bit 24 a = 127"
proof -
  define y where "y = unat a div 65536"
  have o: "unat (octets4 a ! 0) = y div 256" "unat (octets4 a ! 1) = y mod 256"
    by (simp_all only: octets4_nth y_def div_mult2_eq [symmetric]) simp_all
  have d: "unat a div 2 ^ 24 = y div 256" "unat a div 2 ^ 20 = y div 16" "unat a div 2 ^ 16 = y"
    by (simp_all add: y_def div_mult2_eq [symmetric])
  have "y div 256 = 172 \<and> y mod 256 div 16 = 1 \<longleftrightarrow> y div 16 = 2753"
    using octet_split [of 16 16 y] digit_iff [of 1 16 "y div 16" 172] by simp
  moreover have "y div 256 = 192 \<and> y mod 256 = 168 \<longleftrightarrow> y = 49320"
    using digit_iff [of 168 256 y 192] by simp
  moreover have "y div 256 = 169 \<and> y mod 256 = 254 \<longleftrightarrow> y = 43518"
    using digit_iff [of 254 256 y 169] by simp
  ultimately show ?thesis
    unfolding private_net_def Let_def high_mask_iffs
    by (simp only: u8_eq_iff o drop_bit_eq_iff_div d) auto
qed

lemma private_net6_ranges:
  "private_net6 a ban_localhost \<longleftrightarrow>
     drop_bit 121 a = 0x7E \<or> drop_bit 118 a = 0x3FA \<or> ban_localhost \<and> a = 1"
proof -
  define y where "y = unat a div 2 ^ 112"
  have "unat a div 2 ^ 120 < 256"
    using unsigned_less [of a] by (intro less_mult_imp_div_less) simp
  then have o: "unat (octets6 a ! 0) = y div 256" "unat (octets6 a ! 1) = y mod 256"
    by (simp_all add: nth_octets6 y_def div_mult2_eq [symmetric])
  have d: "unat a div 2 ^ 121 = y div 512" "unat a div 2 ^ 118 = y div 64"
    by (simp_all add: y_def div_mult2_eq [symmetric])
  have "y div 256 div 2 = 126 \<longleftrightarrow> y div 512 = 126" by (simp add: div_mult2_eq [symmetric])
  moreover have "y div 256 = 254 \<and> y mod 256 div 64 = 2 \<longleftrightarrow> y div 64 = 1018"
    using octet_split [of 64 4 y] digit_iff [of 2 4 "y div 64" 254] by simp
  ultimately show ?thesis
    unfolding private_net6_def Let_def high_mask_iffs
    by (simp only: u8_eq_iff o drop_bit_eq_iff_div d) auto
qed

section \<open>Reverse-lookup names of addresses\<close>

lemma arpa_octets:
  "in_addr_arpa = [46, 105, 110, 45, 97, 100, 100, 114, 46, 97, 114, 112, 97]"
  "ip6_arpa = [46, 105, 112, 54, 46, 97, 114, 112, 97]"
  "str_lit ''ip6.arpa'' = [105, 112, 54, 46, 97, 114, 112, 97]"
  by (simp_all add: in_addr_arpa_def ip6_arpa_def str_lit_def)

text \<open>The optional final dot of a fully qualified name.\<close>

lemma strip_final_dot:
  assumes "n = r @ [97]" and "s = n \<or> s = n @ [DOT]"
  shows "(case strip_suffix s [DOT] of None \<Rightarrow> s | Some r \<Rightarrow> r) = n"
proof -
  have "strip_suffix n [DOT] = None"
    using assms(1) by (simp add: strip_suffix_def ends_with_def)
  moreover have "strip_suffix (n @ [DOT]) [DOT] = Some n" by (simp add: strip_suffix_Some)
  ultimately show ?thesis using assms(2) by auto
qed

lemma split_digits:
  assumes "\<forall>l \<in> set ls. DOT \<notin> set l" and "ls \<noteq> []"
  shows "split_on DOT (join [DOT] ls) = ls"
  using assms by (simp add: split_on_join)

lemma those_map_Some [simp]: "those (map Some xs) = Some xs"
  by (induction xs) simp_all

lemma in_arpa_v4:
  assumes "lower s = ipv4_ptr_name a \<or> lower s = ipv4_ptr_name a @ [DOT]"
  shows "in_arpa_name_2_addr lower s = Some (Addr4 a)"
proof -
  let ?d = "\<lambda>i. dec_digits (unat (octets4 a ! i))"
  let ?rest = "join [DOT] [?d 3, ?d 2, ?d 1, ?d 0]"
  have name: "ipv4_ptr_name a = ?rest @ in_addr_arpa"
    by (simp add: ipv4_ptr_name_def Let_def)
  then have "ipv4_ptr_name a = (?rest @ butlast in_addr_arpa) @ [97]" by (simp add: arpa_octets)
  note dot = strip_final_dot [OF this assms]
  have "DOT \<notin> set (dec_digits n)" for n
    by (auto dest!: dec_digits_set simp: is_ascii_digit_def)
  then have parts: "split_on DOT ?rest = [?d 3, ?d 2, ?d 1, ?d 0]"
    by (intro split_digits) auto
  have "map parse_u8 (rev [?d 3, ?d 2, ?d 1, ?d 0])
      = map Some [octets4 a ! 0, octets4 a ! 1, octets4 a ! 2, octets4 a ! 3]"
    using unat_u8 by (simp add: parse_u8_digits less_Suc_eq_le [symmetric])
  also have "[octets4 a ! 0, octets4 a ! 1, octets4 a ! 2, octets4 a ! 3] = octets4 a"
    by (simp add: octets4_def to_be32_def)
  finally have octets: "those (map parse_u8 (rev [?d 3, ?d 2, ?d 1, ?d 0])) = Some (octets4 a)"
    by (simp only: those_map_Some)
  have "strip_suffix (ipv4_ptr_name a) in_addr_arpa = Some ?rest"
    by (simp only: strip_suffix_Some name)
  then show ?thesis
    unfolding in_arpa_name_2_addr_def Let_def dot by (simp only: option.case parts octets) simp
qed

lemma concat_dotted:
  "ns \<noteq> [] \<Longrightarrow> concat (map (\<lambda>x. [x, DOT]) ns) = join [DOT] (map (\<lambda>x. [x]) ns) @ [DOT]"
  by (induction ns rule: induct_list012) auto

definition nibbles_of :: "u8 list \<Rightarrow> u8 list" where
  "nibbles_of bs = concat (map (\<lambda>b. [b AND 0x0F, drop_bit 4 b AND 0x0F]) bs)"

lemma nibbles_of_simps [simp]:
  "nibbles_of [] = []"
  "nibbles_of (b # bs) = (b AND 0x0F) # (drop_bit 4 b AND 0x0F) # nibbles_of bs"
  by (simp_all add: nibbles_of_def)

lemma length_nibbles_of [simp]: "length (nibbles_of bs) = 2 * length bs"
  by (induction bs) simp_all

lemma nth_nibbles_of:
  "j < length bs \<Longrightarrow> nibbles_of bs ! (2 * j) = bs ! j AND 0x0F"
  "j < length bs \<Longrightarrow> nibbles_of bs ! Suc (2 * j) = drop_bit 4 (bs ! j) AND 0x0F"
  by (induction bs arbitrary: j) (auto simp: nth_Cons split: nat.splits)

lemma nibble_mask: "(b :: u8) AND 0x0F = take_bit 4 b"
  by (simp add: take_bit_eq_mask mask_numeral)

lemma nibbles_join: "push_bit 4 (drop_bit 4 b AND 0x0F) OR (b AND 0x0F) = (b :: u8)"
  unfolding nibble_mask by (rule bit_word_eqI) (auto simp: bit_simps)

lemma nibble_less: "unat (b AND 0x0F :: u8) < 16"
  unfolding nibble_mask unsigned_take_bit_eq using take_bit_nat_less_exp [of 4 "unat b"] by simp

lemma nibbles_less: "x \<in> set (nibbles_of bs) \<Longrightarrow> unat x < 16"
  by (auto simp: nibbles_of_def nibble_less)

lemma parse_nibble_digit: "unat x < 16 \<Longrightarrow> parse_nibble [hex_digit (unat x)] = Some x"
  by (simp add: parse_nibble_def)

lemma ipv6_ptr_name_join:
  "ipv6_ptr_name a
     = join [DOT] (map (\<lambda>x. [hex_digit (unat x)]) (nibbles_of (rev (octets6 a)))) @ ip6_arpa"
proof -
  let ?ns = "nibbles_of (rev (octets6 a))"
  have "length ?ns \<noteq> 0" by simp
  then have "?ns \<noteq> []" by (metis list.size(3))
  moreover have "concat (map (\<lambda>b. let lo = b AND 0x0F; hi = drop_bit 4 b AND 0x0F
      in [hex_digit (unat lo), DOT, hex_digit (unat hi), DOT]) bs)
    = concat (map (\<lambda>x. [x, DOT]) (map (\<lambda>x. hex_digit (unat x)) (nibbles_of bs)))" for bs
    by (induction bs) (simp_all add: Let_def)
  ultimately show ?thesis
    by (simp add: ipv6_ptr_name_def concat_dotted arpa_octets comp_def del: map_map) (simp add: comp_def)
qed

lemma not_in_addr_suffix: "strip_suffix (r @ ip6_arpa) in_addr_arpa = None"
proof (rule ccontr)
  assume "strip_suffix (r @ ip6_arpa) in_addr_arpa \<noteq> None"
  then obtain r' where "r @ ip6_arpa = (r' @ take 4 in_addr_arpa) @ drop 4 in_addr_arpa"
    by (auto simp: strip_suffix_Some)
  then have "ip6_arpa = drop 4 in_addr_arpa"
    by (subst (asm) append_eq_append_conv) (simp_all add: arpa_octets)
  then show False by (simp add: arpa_octets)
qed

lemma in_arpa_v6:
  assumes "lower s = ipv6_ptr_name a \<or> lower s = ipv6_ptr_name a @ [DOT]"
  shows "in_arpa_name_2_addr lower s = Some (Addr6 a)"
proof -
  let ?ns = "nibbles_of (rev (octets6 a))"
  let ?ls = "map (\<lambda>x. [hex_digit (unat x)]) ?ns"
  have ls: "?ls \<noteq> []" using length_nibbles_of [of "rev (octets6 a)"] by (auto simp del: length_nibbles_of)
  have "ipv6_ptr_name a = (join [DOT] ?ls @ butlast ip6_arpa) @ [97]"
    by (simp add: ipv6_ptr_name_join arpa_octets)
  note dot = strip_final_dot [OF this assms]
  have "\<forall>l \<in> set ?ls. DOT \<notin> set l"
    using nibbles_less by (auto simp: word_unat_eq_iff unat_hex_digit split: if_splits)
  with ls have parts: "split_on DOT (join [DOT] ?ls) = ?ls" by (intro split_digits) auto
  have "map parse_nibble ?ls = map Some ?ns"
    using nibbles_less by (simp add: parse_nibble_digit comp_def)
  then have nibs: "those (map parse_nibble ?ls) = Some ?ns" by (simp only: those_map_Some)
  have "map (\<lambda>i. push_bit 4 (?ns ! (31 - i * 2)) OR ?ns ! (30 - i * 2)) [0..<16] = octets6 a"
  proof (rule nth_equalityI)
    fix i
    assume "i < length (map (\<lambda>i. push_bit 4 (?ns ! (31 - i * 2)) OR ?ns ! (30 - i * 2)) [0..<16])"
    then have i: "i < 16" by simp
    then have e: "31 - i * 2 = Suc (2 * (15 - i))" "30 - i * 2 = 2 * (15 - i)" by auto
    have nib: "?ns ! Suc (2 * (15 - i)) = drop_bit 4 (octets6 a ! i) AND 0x0F"
      "?ns ! (2 * (15 - i)) = octets6 a ! i AND 0x0F"
      using i by (simp_all add: nth_nibbles_of rev_nth)
    from i show "map (\<lambda>i. push_bit 4 (?ns ! (31 - i * 2)) OR ?ns ! (30 - i * 2)) [0..<16] ! i
        = octets6 a ! i"
      by (simp only: nth_map_upt diff_zero add_0 e nib nibbles_join)
  qed simp
  moreover have "strip_suffix (ipv6_ptr_name a) ip6_arpa = Some (join [DOT] ?ls)"
    by (simp only: strip_suffix_Some ipv6_ptr_name_join)
  moreover have "strip_suffix (ipv6_ptr_name a) in_addr_arpa = None"
    by (simp only: ipv6_ptr_name_join not_in_addr_suffix)
  ultimately show ?thesis
    unfolding in_arpa_name_2_addr_def Let_def dot by (simp only: option.case parts nibs) simp
qed

section \<open>Properties\<close>

text \<open>An address is recovered from its reverse-lookup name, in any letter case and with or without the
  final dot, for both address families.\<close>

lemma ptr_name_round_trip:
  assumes "str_lower lower" and "is_ascii s" and "dot = [] \<or> dot = [DOT]"
  shows "(to_ascii_lowercase s = ipv4_ptr_name a @ dot \<longrightarrow> in_arpa_name_2_addr lower s = Some (Addr4 a))
       \<and> (to_ascii_lowercase s = ipv6_ptr_name b @ dot \<longrightarrow> in_arpa_name_2_addr lower s = Some (Addr6 b))"
  using assms in_arpa_v4 [of lower s a] in_arpa_v6 [of lower s b] str_lower.lower_ascii [of lower s]
  by auto

text \<open>A bogus-address entry matches an address exactly when the two agree on the first \<open>prefix\<close> bits,
  a prefix longer than the address being cut to its width; the octet-wise comparison of IPv6
  and the mask of IPv4 decide the same relation.\<close>

lemma bogus_range_is_prefix:
  "(addr_in_bogus_range (Addr4 a) \<lparr>ba_is6 = False, ba_prefix = int p, ba_addr = Addr4 b\<rparr> \<longleftrightarrow>
      drop_bit (32 - min p 32) a = drop_bit (32 - min p 32) b)
   \<and> (addr_in_bogus_range (Addr6 c) \<lparr>ba_is6 = True, ba_prefix = int q, ba_addr = Addr6 d\<rparr> \<longleftrightarrow>
      drop_bit (128 - min q 128) c = drop_bit (128 - min q 128) d)"
proof -
  have clamp: "nat (max 0 (min w (int n))) = nat (max 0 (min w (int (min n (nat w)))))"
    if "0 \<le> w" for w n
    using that by (auto simp: min_def)
  have "addr_in_bogus_range (Addr4 a) \<lparr>ba_is6 = False, ba_prefix = int p, ba_addr = Addr4 b\<rparr>
      = bogus4 a b (min p 32)"
    using clamp [of 32 p] by (simp add: bogus4_def addr_in_bogus_range_def del: of_nat_min)
  moreover have "addr_in_bogus_range (Addr6 c) \<lparr>ba_is6 = True, ba_prefix = int q, ba_addr = Addr6 d\<rparr>
      = bogus6 c d (min q 128)"
    using clamp [of 128 q] by (simp add: bogus6_def addr_in_bogus_range_def del: of_nat_min)
  ultimately show ?thesis
    using bogus4.same_iff [of "min p 32" a b] bogus6.same_iff [of "min q 128" c d] by simp
qed

end
