(* ===== verification/Edns0.thy ===== *)
theory Edns0
  imports Dns_Packet Addr_Net
begin

text \<open>
  EDNS0 processing of \<open>src/edns0.rs\<close>: finding, removing and appending the OPT pseudo-record of a
  raw message, the option list inside it, the client-subnet option with its verification, and
  \<open>add_edns0_config\<close>, which builds the options of an outgoing query.

  Main results: the option list round-trips; on a well-formed message \<open>find_pseudoheader\<close> reports
  the first OPT record and \<open>add_pseudoheader\<close> yields the message with its OPT record replaced; the
  client-subnet option carries exactly the configured number of address bits.
\<close>

section \<open>Options and the pseudo-record\<close>

record edns0_option =
  opt_code :: u16
  opt_data :: "u8 list"

record edns0_info =
  ei_offset :: nat
  ei_udp_size :: u16
  ei_ext_rcode :: u8
  ei_version :: u8
  ei_flags :: u16
  ei_options :: "edns0_option list"

primrec skip_questions :: "u8 list \<Rightarrow> nat \<Rightarrow> nat \<Rightarrow> dns_error + nat" where
  "skip_questions pkt 0 offset = Inr offset"
| "skip_questions pkt (Suc n) offset =
     and_then (skip_name pkt offset) (\<lambda>off1.
       if off1 + 4 > length pkt then Inl PacketTooShort else skip_questions pkt n (off1 + 4))"

primrec skip_rrs :: "u8 list \<Rightarrow> nat \<Rightarrow> nat \<Rightarrow> dns_error + nat" where
  "skip_rrs pkt 0 offset = Inr offset"
| "skip_rrs pkt (Suc n) offset =
     and_then (skip_name pkt offset) (\<lambda>off1.
       if off1 + 10 > length pkt then Inl PacketTooShort
       else let rdlen = unat (from_be16 (pkt ! (off1 + 8)) (pkt ! (off1 + 9)));
                off2 = off1 + (10 + rdlen)
            in if off2 > length pkt then Inl UnexpectedEof else skip_rrs pkt n off2)"

function parse_opt_options_from :: "u8 list \<Rightarrow> nat \<Rightarrow> dns_error + edns0_option list" where
  "parse_opt_options_from data pos =
     (if pos < length data then
        if pos + 4 > length data then Inl UnexpectedEof
        else let code = from_be16 (data ! pos) (data ! (pos + 1));
                 len = unat (from_be16 (data ! (pos + 2)) (data ! (pos + 3)));
                 pos1 = pos + 4
             in if pos1 + len > length data then Inl UnexpectedEof
                else and_then (parse_opt_options_from data (pos1 + len)) (\<lambda>opts.
                  Inr (\<lparr>opt_code = code, opt_data = take len (drop pos1 data)\<rparr> # opts))
      else Inr [])"
  by pat_completeness auto
termination
  by (relation "measure (\<lambda>(data, pos). length data - pos)") auto

declare parse_opt_options_from.simps [simp del]

definition parse_opt_options :: "u8 list \<Rightarrow> dns_error + edns0_option list" where
  "parse_opt_options data = parse_opt_options_from data 0"

definition build_opt_rdata :: "edns0_option list \<Rightarrow> u8 list" where
  "build_opt_rdata options =
     concat (map (\<lambda>opt. to_be16 (opt_code opt) @ to_be16 (word_of_nat (length (opt_data opt)))
                        @ opt_data opt) options)"

primrec find_opt_rr :: "u8 list \<Rightarrow> nat \<Rightarrow> nat \<Rightarrow> edns0_info option" where
  "find_opt_rr pkt 0 offset = None"
| "find_opt_rr pkt (Suc n) offset =
     (case skip_name pkt offset of
        Inl _ \<Rightarrow> None
      | Inr off1 \<Rightarrow>
          if off1 + 10 > length pkt then None
          else let rtype = from_be16 (pkt ! off1) (pkt ! (off1 + 1));
                   udp_size = from_be16 (pkt ! (off1 + 2)) (pkt ! (off1 + 3));
                   flags = from_be16 (pkt ! (off1 + 6)) (pkt ! (off1 + 7));
                   rdlen = unat (from_be16 (pkt ! (off1 + 8)) (pkt ! (off1 + 9)));
                   off2 = off1 + 10
               in if off2 + rdlen > length pkt then None
                  else if rtype = rrtype_code RR_OPT then
                    (case parse_opt_options (take rdlen (drop off2 pkt)) of
                       Inl _ \<Rightarrow> None
                     | Inr options \<Rightarrow>
                         Some \<lparr>ei_offset = offset, ei_udp_size = udp_size,
                               ei_ext_rcode = pkt ! (off1 + 4), ei_version = pkt ! (off1 + 5),
                               ei_flags = flags, ei_options = options\<rparr>)
                  else find_opt_rr pkt n (off2 + rdlen))"

definition find_pseudoheader :: "u8 list \<Rightarrow> edns0_info option" where
  "find_pseudoheader pkt =
     (case header_from_bytes pkt of
        None \<Rightarrow> None
      | Some hdr \<Rightarrow>
          (case and_then (skip_questions pkt (unat (qdcount hdr)) 12) (\<lambda>o1.
                and_then (skip_rrs pkt (unat (ancount hdr)) o1) (\<lambda>o2.
                skip_rrs pkt (unat (nscount hdr)) o2)) of
             Inl _ \<Rightarrow> None
           | Inr o3 \<Rightarrow> find_opt_rr pkt (unat (arcount hdr)) o3))"

text \<open>\<open>buf[10] = (n >> 8) as u8; buf[11] = (n & 0xFF) as u8\<close>\<close>

definition put_arcount :: "u8 list \<Rightarrow> u16 \<Rightarrow> u8 list" where
  "put_arcount buf n = buf[10 := ucast (drop_bit 8 n), 11 := ucast (n AND 0xFF)]"

text \<open>The message without its OPT record, its additional count lowered.\<close>

definition strip_opt :: "u8 list \<Rightarrow> dns_error + u8 list" where
  "strip_opt pkt =
     (case find_pseudoheader pkt of
        None \<Rightarrow> Inr pkt
      | Some info \<Rightarrow>
          and_then (skip_name pkt (ei_offset info)) (\<lambda>end_offset.
            if end_offset + 10 > length pkt then Inl PacketTooShort
            else let rdlen = unat (from_be16 (pkt ! (end_offset + 8)) (pkt ! (end_offset + 9)));
                     opt_end = end_offset + 10 + rdlen
                 in if opt_end > length pkt then Inl UnexpectedEof
                    else and_then (ok_or PacketTooShort (header_from_bytes pkt)) (\<lambda>hdr.
                      let new_ar = (if arcount hdr = 0 then 0 else arcount hdr - 1)
                      in Inr (put_arcount (take (ei_offset info) pkt @ drop opt_end pkt) new_ar))))"

definition opt_rr_bytes :: "u16 \<Rightarrow> u16 \<Rightarrow> edns0_option list \<Rightarrow> u8 list" where
  "opt_rr_bytes udp_size flags options =
     (let rdata = build_opt_rdata options
      in [0x00] @ to_be16 (rrtype_code RR_OPT) @ to_be16 udp_size @ [0, 0] @ to_be16 flags
         @ to_be16 (word_of_nat (length rdata)) @ rdata)"

text \<open>The additional count is a \<open>u16\<close>; incrementing 65535 overflows.\<close>

definition add_pseudoheader ::
    "u8 list \<Rightarrow> u16 \<Rightarrow> u16 \<Rightarrow> edns0_option list \<Rightarrow> (dns_error + u8 list) exec" where
  "add_pseudoheader pkt udp_size flags options =
     (case and_then (ok_or PacketTooShort (header_from_bytes pkt)) (\<lambda>_.
           and_then (strip_opt pkt) (\<lambda>base.
           let result = base @ opt_rr_bytes udp_size flags options
           in and_then (ok_or PacketTooShort (header_from_bytes result)) (\<lambda>hdr.
                Inr (result, arcount hdr)))) of
        Inl e \<Rightarrow> Done (Inl e)
      | Inr (result, ar) \<Rightarrow>
          if ar = 0xFFFF then Panic else Done (Inr (put_arcount result (ar + 1))))"

definition add_do_bit :: "u8 list \<Rightarrow> u16 \<Rightarrow> (dns_error + u8 list) exec" where
  "add_do_bit pkt udp_size = add_pseudoheader pkt udp_size 0x8000 []"

section \<open>The client-subnet option\<close>

definition EDNS0_OPTION_MAC :: u16 where "EDNS0_OPTION_MAC = 65001"
definition EDNS0_OPTION_CLIENT_SUBNET :: u16 where "EDNS0_OPTION_CLIENT_SUBNET = 8"
definition EDNS0_OPTION_NOMDEVICEID :: u16 where "EDNS0_OPTION_NOMDEVICEID = 65073"
definition EDNS0_OPTION_NOMCPEID :: u16 where "EDNS0_OPTION_NOMCPEID = 65074"
definition EDNS0_OPTION_UMBRELLA :: u16 where "EDNS0_OPTION_UMBRELLA = 20292"

lemmas option_codes = EDNS0_OPTION_MAC_def EDNS0_OPTION_CLIENT_SUBNET_def
  EDNS0_OPTION_NOMDEVICEID_def EDNS0_OPTION_NOMCPEID_def EDNS0_OPTION_UMBRELLA_def

text \<open>\<open>octets[..copy].copy_from_slice(&addr_bytes[..copy])\<close> into \<open>n\<close> zero octets.\<close>

definition pad_octets :: "nat \<Rightarrow> u8 list \<Rightarrow> u8 list" where
  "pad_octets n bs = take n bs @ replicate (n - length bs) 0"

definition parse_ecs_addr :: "u8 list \<Rightarrow> ip_addr option" where
  "parse_ecs_addr data =
     (if length data < 4 then None
      else let family = from_be16 (data ! 0) (data ! 1); addr_bytes = drop 4 data
           in if family = 1 then Some (IpV4 (ipv4_of (pad_octets 4 addr_bytes)))
              else if family = 2 then Some (IpV6 (ipv6_of (pad_octets 16 addr_bytes)))
              else None)"

definition check_source_subnet :: "u8 list \<Rightarrow> ip_addr option" where
  "check_source_subnet pkt =
     (case find_pseudoheader pkt of
        None \<Rightarrow> None
      | Some info \<Rightarrow>
          (case List.find (\<lambda>opt. opt_code opt = EDNS0_OPTION_CLIENT_SUBNET) (ei_options info) of
             None \<Rightarrow> None
           | Some opt \<Rightarrow> parse_ecs_addr (opt_data opt)))"

record subnet_opt =
  so_family :: u16
  so_source_netmask :: u8
  so_scope_netmask :: u8
  so_addr :: "u8 list"

definition subnet_to_wire :: "subnet_opt \<Rightarrow> nat \<Rightarrow> u8 list" where
  "subnet_to_wire so addr_len =
     to_be16 (so_family so) @ [so_source_netmask so, so_scope_netmask so]
     @ take (min addr_len (length (so_addr so))) (so_addr so)"

record add_subnet_opt =
  as_mask :: u8
  as_const_addr :: "ip_addr option"

fun is_v6 :: "ip_addr \<Rightarrow> bool" where
  "is_v6 (IpV6 _) = True"
| "is_v6 (IpV4 _) = False"

fun full_octets :: "ip_addr \<Rightarrow> u8 list" where
  "full_octets (IpV4 v4) = octets4 v4 @ replicate 12 0"
| "full_octets (IpV6 v6) = octets6 v6"

text \<open>
  \<open>calc_subnet_opt\<close> first settles \<open>(source_netmask, addrp, is_v6, cacheable)\<close> from the
  configuration of the source's family, then fills in the octets.
\<close>

definition subnet_choice ::
    "ip_addr \<Rightarrow> add_subnet_opt option \<Rightarrow> add_subnet_opt option \<Rightarrow> u8 \<times> ip_addr option \<times> bool \<times> bool" where
  "subnet_choice source add_subnet4 add_subnet6 =
     (let use = (\<lambda>sub. case as_const_addr sub of
                   Some a \<Rightarrow> (as_mask sub, Some a, is_v6 a, True)
                 | None \<Rightarrow> (as_mask sub, Some source, is_v6 source, False))
      in case source of
           IpV6 _ \<Rightarrow> (case add_subnet6 of Some sub \<Rightarrow> use sub | None \<Rightarrow> (0, None, True, False))
         | IpV4 _ \<Rightarrow> (case add_subnet4 of Some sub \<Rightarrow> use sub | None \<Rightarrow> (0, None, False, False)))"

definition masked_octets :: "u8 \<Rightarrow> u8 list \<Rightarrow> nat \<Rightarrow> u8 list" where
  "masked_octets source_netmask full l =
     (let addr = take l full @ replicate (16 - l) 0
      in if source_netmask AND 7 \<noteq> 0
         then addr[l - 1 := addr ! (l - 1) AND push_bit (8 - unat (source_netmask AND 7)) 0xFF]
         else addr)"

definition calc_subnet_opt ::
    "ip_addr \<Rightarrow> add_subnet_opt option \<Rightarrow> add_subnet_opt option \<Rightarrow> subnet_opt \<times> bool \<times> nat" where
  "calc_subnet_opt source add_subnet4 add_subnet6 =
     (case subnet_choice source add_subnet4 add_subnet6 of (source_netmask, addrp, v6, cacheable) \<Rightarrow>
        let family = (if v6 then 2 else 1)
        in case addrp of
             Some a \<Rightarrow>
               if source_netmask \<noteq> 0 then
                 let l = min (drop_bit 3 (unat source_netmask - 1) + 1) 16
                 in (\<lparr>so_family = family, so_source_netmask = source_netmask, so_scope_netmask = 0,
                      so_addr = masked_octets source_netmask (full_octets a) l\<rparr>, cacheable, l)
               else (\<lparr>so_family = family, so_source_netmask = source_netmask, so_scope_netmask = 0,
                      so_addr = replicate 16 0\<rparr>, True, 0)
           | None \<Rightarrow> (\<lparr>so_family = family, so_source_netmask = source_netmask, so_scope_netmask = 0,
                      so_addr = replicate 16 0\<rparr>, True, 0))"

definition build_ecs_payload :: "ip_addr \<Rightarrow> u8 \<Rightarrow> u8 list" where
  "build_ecs_payload addr prefix =
     (let sub = \<lparr>as_mask = prefix, as_const_addr = None\<rparr>
      in case calc_subnet_opt addr (Some sub) (Some sub) of (opt, _, len) \<Rightarrow> subnet_to_wire opt len)"

definition add_source_addr :: "u8 list \<Rightarrow> ip_addr \<Rightarrow> u8 \<Rightarrow> (dns_error + u8 list) exec" where
  "add_source_addr pkt addr prefix =
     (let ecs_opt = \<lparr>opt_code = EDNS0_OPTION_CLIENT_SUBNET, opt_data = build_ecs_payload addr prefix\<rparr>
      in case find_pseudoheader pkt of
           Some info \<Rightarrow>
             add_pseudoheader pkt (ei_udp_size info) (ei_flags info)
               (filter (\<lambda>x. opt_code x \<noteq> EDNS0_OPTION_CLIENT_SUBNET) (ei_options info) @ [ecs_opt])
         | None \<Rightarrow> add_pseudoheader pkt 512 0 [ecs_opt])"

definition ecs_echo_ok :: "(subnet_opt \<times> bool \<times> nat) option \<Rightarrow> u8 list \<Rightarrow> bool" where
  "ecs_echo_ok expected data =
     (case expected of
        Some (ex, _, exp_len) \<Rightarrow>
          if length data \<noteq> exp_len + 4 \<or> length data < 4 then False
          else take 2 data = to_be16 (so_family ex) \<and> data ! 2 = so_source_netmask ex
               \<and> drop 4 data = take exp_len (so_addr ex)
      | None \<Rightarrow> \<not> (length data \<ge> 3 \<and> data ! 2 \<noteq> 0))"

definition check_source ::
    "u8 list \<Rightarrow> ip_addr option \<Rightarrow> add_subnet_opt option \<Rightarrow> add_subnet_opt option \<Rightarrow> bool" where
  "check_source pkt peer add_subnet4 add_subnet6 =
     (case find_pseudoheader pkt of
        None \<Rightarrow> True
      | Some info \<Rightarrow>
          let expected = map_option (\<lambda>p. calc_subnet_opt p add_subnet4 add_subnet6) peer
          in list_all (\<lambda>opt. opt_code opt \<noteq> EDNS0_OPTION_CLIENT_SUBNET \<or> ecs_echo_ok expected (opt_data opt))
               (ei_options info))"

section \<open>Options of an outgoing query\<close>

definition edns0_needs_mac :: "bool \<Rightarrow> bool \<Rightarrow> bool \<Rightarrow> bool" where
  "edns0_needs_mac mac_b64 mac_hex add_mac \<longleftrightarrow> mac_b64 \<or> mac_hex \<or> add_mac"

datatype upsert_mode = AddIfAbsent | Replace | ReplaceOnly

fun upsert_option :: "edns0_option list \<Rightarrow> u16 \<Rightarrow> u8 list option \<Rightarrow> upsert_mode \<Rightarrow> edns0_option list" where
  "upsert_option options code data AddIfAbsent =
     (if \<not> list_ex (\<lambda>x. opt_code x = code) options
      then (case data of Some d \<Rightarrow> options @ [\<lparr>opt_code = code, opt_data = d\<rparr>] | None \<Rightarrow> options)
      else options)"
| "upsert_option options code data Replace =
     (let kept = filter (\<lambda>x. opt_code x \<noteq> code) options
      in case data of Some d \<Rightarrow> kept @ [\<lparr>opt_code = code, opt_data = d\<rparr>] | None \<Rightarrow> kept)"
| "upsert_option options code data ReplaceOnly = filter (\<lambda>x. opt_code x \<noteq> code) options"

definition char64 :: "u8 \<Rightarrow> u8" where
  "char64 c = str_lit ''ABCDEFGHIJKLMNOPQRSTUVWXYZabcdefghijklmnopqrstuvwxyz0123456789+/'' ! unat (c AND 0x3F)"

definition encoder :: "u8 \<Rightarrow> u8 \<Rightarrow> u8 \<Rightarrow> u8 list" where
  "encoder i0 i1 i2 =
     [char64 (drop_bit 2 i0), char64 (push_bit 4 i0 OR drop_bit 4 i1),
      char64 (push_bit 2 i1 OR drop_bit 6 i2), char64 i2]"

definition mac_to_base64 :: "u8 list \<Rightarrow> rstr" where
  "mac_to_base64 mac =
     encoder (mac ! 0) (mac ! 1) (mac ! 2) @ encoder (mac ! 3) (mac ! 4) (mac ! 5)"

definition print_mac :: "u8 list \<Rightarrow> rstr" where
  "print_mac mac =
     (if mac = [] then str_lit ''<null>''
      else join (str_lit '':'') (map (\<lambda>b. [hex_digit (unat b div 16), hex_digit (unat b mod 16)]) mac))"

text \<open>
  The three steps that depend on the hardware address and the client share the choice of
  \<open>UpsertMode\<close>; each returns the option list and whether the answer may still be cached.
\<close>

definition mac_upsert ::
    "edns0_option list \<Rightarrow> u16 \<Rightarrow> u8 list option \<Rightarrow> bool \<Rightarrow> edns0_option list" where
  "mac_upsert options code found strip_mac =
     (if found \<noteq> None
      then upsert_option options code found (if strip_mac then Replace else AddIfAbsent)
      else if strip_mac then upsert_option options code found ReplaceOnly
      else options)"

definition add_mac ::
    "edns0_option list \<Rightarrow> u8 list option \<Rightarrow> bool \<Rightarrow> bool \<Rightarrow> bool \<Rightarrow> edns0_option list \<times> bool" where
  "add_mac options mac enabled strip_mac cacheable =
     (let found = (if enabled then (case mac of Some m \<Rightarrow> if m \<noteq> [] then Some m else None | None \<Rightarrow> None)
                   else None)
      in (mac_upsert options EDNS0_OPTION_MAC found strip_mac,
          if found \<noteq> None then False else cacheable))"

definition add_dns_client ::
    "edns0_option list \<Rightarrow> u8 list option \<Rightarrow> bool \<Rightarrow> bool \<Rightarrow> bool \<Rightarrow> bool \<Rightarrow> edns0_option list \<times> bool" where
  "add_dns_client options mac mac_b64 mac_hex strip_mac cacheable =
     (let mac6 = (if mac_b64 \<or> mac_hex
                  then (case mac of Some m \<Rightarrow> if length m = 6 then Some m else None | None \<Rightarrow> None)
                  else None);
          encoded = map_option (\<lambda>m. if mac_hex then print_mac m else mac_to_base64 m) mac6
      in (mac_upsert options EDNS0_OPTION_NOMDEVICEID encoded strip_mac,
          if encoded \<noteq> None then False else cacheable))"

definition add_client_subnet ::
    "edns0_option list \<Rightarrow> ip_addr \<Rightarrow> bool \<Rightarrow> bool \<Rightarrow> add_subnet_opt option \<Rightarrow> add_subnet_opt option
       \<Rightarrow> bool \<Rightarrow> edns0_option list \<times> bool" where
  "add_client_subnet options source client_subnet strip_ecs add_subnet4 add_subnet6 cacheable =
     (if client_subnet then
        (case calc_subnet_opt source add_subnet4 add_subnet6 of (opt, cache, len) \<Rightarrow>
           (upsert_option options EDNS0_OPTION_CLIENT_SUBNET (Some (subnet_to_wire opt len))
              (if strip_ecs then Replace else AddIfAbsent), cache))
      else if strip_ecs then
        (upsert_option options EDNS0_OPTION_CLIENT_SUBNET None ReplaceOnly, cacheable)
      else if cacheable then
        (options, \<not> list_ex (\<lambda>x. opt_code x = EDNS0_OPTION_CLIENT_SUBNET \<and> length (opt_data x) \<ge> 3
                               \<and> opt_data x ! 2 \<noteq> 0) options)
      else (options, cacheable))"

definition umbrella_payload :: "ip_addr \<Rightarrow> bool \<Rightarrow> u32 \<Rightarrow> u32 \<Rightarrow> u8 list \<Rightarrow> u8 list" where
  "umbrella_payload source umbrella_devid umbrella_org umbrella_asset umbrella_device =
     str_lit ''ODNS'' @ [1, 0]
     @ (if umbrella_org \<noteq> 0 then to_be16 0x0008 @ to_be32 umbrella_org else [])
     @ (case source of IpV4 v4 \<Rightarrow> to_be16 0x0010 @ octets4 v4 | IpV6 v6 \<Rightarrow> to_be16 0x0020 @ octets6 v6)
     @ (if umbrella_devid then to_be16 0x0040 @ umbrella_device else [])
     @ (if umbrella_asset \<noteq> 0 then to_be16 0x0004 @ to_be32 umbrella_asset else [])"

definition add_umbrella_opt ::
    "edns0_option list \<Rightarrow> ip_addr \<Rightarrow> bool \<Rightarrow> u32 \<Rightarrow> u32 \<Rightarrow> u8 list \<Rightarrow> edns0_option list \<times> bool" where
  "add_umbrella_opt options source umbrella_devid umbrella_org umbrella_asset umbrella_device =
     (upsert_option options EDNS0_OPTION_UMBRELLA
        (Some (umbrella_payload source umbrella_devid umbrella_org umbrella_asset umbrella_device))
        Replace, False)"

record edns0_query_config =
  cf_add_mac :: bool
  cf_strip_mac :: bool
  cf_mac_b64 :: bool
  cf_mac_hex :: bool
  cf_client_subnet :: bool
  cf_strip_ecs :: bool
  cf_add_subnet4 :: "add_subnet_opt option"
  cf_add_subnet6 :: "add_subnet_opt option"
  cf_dns_client_id :: "rstr option"
  cf_umbrella :: bool
  cf_umbrella_devid :: bool
  cf_umbrella_org :: u32
  cf_umbrella_asset :: u32
  cf_umbrella_device :: "u8 list"

definition add_edns0_config ::
    "edns0_option list \<Rightarrow> ip_addr \<Rightarrow> u8 list option \<Rightarrow> edns0_query_config \<Rightarrow> edns0_option list \<times> bool" where
  "add_edns0_config existing source mac cfg =
     (case add_mac existing mac (cf_add_mac cfg) (cf_strip_mac cfg) True of (o1, c1) \<Rightarrow>
      case add_dns_client o1 mac (cf_mac_b64 cfg) (cf_mac_hex cfg) (cf_strip_mac cfg) c1 of (o2, c2) \<Rightarrow>
      let o3 = (case cf_dns_client_id cfg of
                  Some cid \<Rightarrow> upsert_option o2 EDNS0_OPTION_NOMCPEID (Some cid) Replace
                | None \<Rightarrow> o2);
          (o4, c4) = (if cf_umbrella cfg
                      then add_umbrella_opt o3 source (cf_umbrella_devid cfg) (cf_umbrella_org cfg)
                             (cf_umbrella_asset cfg) (cf_umbrella_device cfg)
                      else (o3, c2))
      in add_client_subnet o4 source (cf_client_subnet cfg) (cf_strip_ecs cfg)
           (cf_add_subnet4 cfg) (cf_add_subnet6 cfg) c4)"

section \<open>The option list\<close>

lemma build_opt_rdata_simps [simp]:
  "build_opt_rdata [] = []"
  "build_opt_rdata (x # xs) = to_be16 (opt_code x) @ to_be16 (word_of_nat (length (opt_data x)))
     @ opt_data x @ build_opt_rdata xs"
  by (simp_all add: build_opt_rdata_def)

definition options_ok :: "edns0_option list \<Rightarrow> bool" where
  "options_ok opts \<longleftrightarrow> list_all (\<lambda>x. length (opt_data x) \<le> 65535) opts"

lemma be16_at:
  "from_be16 ((pre @ to_be16 w @ post) ! length pre) ((pre @ to_be16 w @ post) ! Suc (length pre)) = w"
  by (simp add: nth_append to_be16_def)

lemma parse_build_opt_from:
  "options_ok opts \<Longrightarrow> parse_opt_options_from (pre @ build_opt_rdata opts) (length pre) = Inr opts"
proof (induction opts arbitrary: pre)
  case Nil
  then show ?case by (simp add: parse_opt_options_from.simps)
next
  case (Cons x opts)
  let ?c = "to_be16 (opt_code x)" and ?k = "word_of_nat (length (opt_data x)) :: u16"
  let ?d = "pre @ ?c @ to_be16 ?k @ opt_data x @ build_opt_rdata opts"
  have len: "unat ?k = length (opt_data x)"
    using Cons.prems by (simp add: options_ok_def unat_u16_of_nat)
  have code: "from_be16 (?d ! length pre) (?d ! (length pre + 1)) = opt_code x"
    using be16_at [of pre "opt_code x"] by simp
  have dlen: "from_be16 (?d ! (length pre + 2)) (?d ! (length pre + 3)) = ?k"
    using be16_at [of "pre @ ?c" ?k "opt_data x @ build_opt_rdata opts"]
    by (simp add: eval_nat_numeral)
  have "options_ok opts" using Cons.prems by (simp add: options_ok_def)
  then have rest: "parse_opt_options_from ?d (length pre + 4 + length (opt_data x)) = Inr opts"
    using Cons.IH [of "pre @ ?c @ to_be16 ?k @ opt_data x"] by (simp add: eval_nat_numeral)
  have take: "take (length (opt_data x)) (drop (length pre + 4) ?d) = opt_data x"
    by simp
  have "parse_opt_options_from ?d (length pre) = Inr (x # opts)"
    unfolding parse_opt_options_from.simps [of ?d "length pre"]
    by (simp only: code dlen len rest take Let_def and_then.simps) simp
  then show ?case by simp
qed

lemma parse_build_opt: "options_ok opts \<Longrightarrow> parse_opt_options (build_opt_rdata opts) = Inr opts"
  using parse_build_opt_from [of opts "[]"] by (simp add: parse_opt_options_def)

section \<open>The pseudo-record of a well-formed message\<close>

lemma skip_questions_parse:
  "parse_many (parse_question pkt) n off = Inr (qs, off') \<Longrightarrow> skip_questions pkt n off = Inr off'"
proof (induction n arbitrary: off qs)
  case (Suc n)
  then obtain q off1 qs' where 1: "parse_question pkt off = Inr (q, off1)"
    and 2: "parse_many (parse_question pkt) n off1 = Inr (qs', off')"
    by auto
  from resize_skip_question [OF 1] Suc.IH [OF 2] show ?case by (auto simp del: and_then_Inr_iff)
qed simp

lemma skip_rrs_parse:
  "parse_many (parse_rr B pkt) n off = Inr (rs, off') \<Longrightarrow> skip_rrs pkt n off = Inr off'"
proof (induction n arbitrary: off rs)
  case (Suc n)
  then obtain r off1 rs' where 1: "parse_rr B pkt off = Inr (r, off1)"
    and 2: "parse_many (parse_rr B pkt) n off1 = Inr (rs', off')"
    by auto
  from resize_skip_rr [OF 1] obtain o2 where
    o2: "skip_name pkt off = Inr o2" "o2 + 10 \<le> length pkt" "off1 \<le> length pkt"
      "off1 = o2 + (10 + unat (from_be16 (pkt ! (o2 + 8)) (pkt ! (o2 + 9))))"
    by auto
  from o2(1-3) Suc.IH [OF 2] show ?case
    unfolding o2(4) by (auto simp: Let_def not_less)
qed simp

definition is_opt :: "dns_rr \<Rightarrow> bool" where
  "is_opt r \<longleftrightarrow> rr_type r = rrtype_code RR_OPT"

text \<open>What \<open>find_pseudoheader\<close> reports of an OPT record standing at an offset.\<close>

definition info_of :: "nat \<Rightarrow> dns_rr \<Rightarrow> edns0_info option" where
  "info_of off r =
     (case parse_opt_options (rr_data r) of
        Inl _ \<Rightarrow> None
      | Inr options \<Rightarrow>
          let t = to_be32 (rr_ttl r)
          in Some \<lparr>ei_offset = off, ei_udp_size = rr_class r, ei_ext_rcode = t ! 0, ei_version = t ! 1,
                   ei_flags = from_be16 (t ! 2) (t ! 3), ei_options = options\<rparr>)"

lemma find_opt_rr_step:
  assumes "rr_ok r" and "fits (pre @ rr_wire r @ post)"
  shows "find_opt_rr (pre @ rr_wire r @ post) (Suc n) (length pre)
     = (if is_opt r then info_of (length pre) r
        else find_opt_rr (pre @ rr_wire r @ post) n (length pre + length (rr_wire r)))"
proof -
  let ?pkt = "pre @ rr_wire r @ post" and ?off = "length pre + rr_owner_len r"
  note f = rr_fixed_fields [OF assms(1)]
  have skip: "skip_name ?pkt (length pre) = Inr ?off" by (rule skip_name_rr [OF assms])
  have b: "\<And>k. k < 10 \<Longrightarrow> ?pkt ! (?off + k) = rr_fixed r ! k" by (rule nth_rr_wire)
  have b0: "?pkt ! ?off = rr_fixed r ! 0" by (rule nth_rr_wire_0)
  have nth: "?pkt ! (?off + 1) = rr_fixed r ! 1" "?pkt ! (?off + 2) = rr_fixed r ! 2"
    "?pkt ! (?off + 3) = rr_fixed r ! 3" "?pkt ! (?off + 4) = rr_fixed r ! 4"
    "?pkt ! (?off + 5) = rr_fixed r ! 5" "?pkt ! (?off + 6) = rr_fixed r ! 6"
    "?pkt ! (?off + 7) = rr_fixed r ! 7" "?pkt ! (?off + 8) = rr_fixed r ! 8"
    "?pkt ! (?off + 9) = rr_fixed r ! 9"
    by (intro b; simp)+
  have t: "to_be32 (rr_ttl r) ! 0 = rr_fixed r ! 4" "to_be32 (rr_ttl r) ! 1 = rr_fixed r ! 5"
    "to_be32 (rr_ttl r) ! 2 = rr_fixed r ! 6" "to_be32 (rr_ttl r) ! 3 = rr_fixed r ! 7"
    unfolding f(3) [symmetric] by simp_all
  have len: "\<not> ?off + 10 > length ?pkt" "\<not> ?off + 10 + length (rr_data r) > length ?pkt"
    by (simp_all add: length_rr_wire_eq)
  show ?thesis
    unfolding find_opt_rr.simps(2) skip sum.case Let_def b0 nth f(1,2,4) take_rr_data info_of_def t is_opt_def
    using len by (simp add: length_rr_wire_eq add.assoc)
qed

lemma find_opt_rr_wire:
  assumes "list_all rr_ok rs" and "fits (pre @ concat (map rr_wire rs) @ post)"
  shows "find_opt_rr (pre @ concat (map rr_wire rs) @ post) (length rs) (length pre)
     = (case dropWhile (\<lambda>r. \<not> is_opt r) rs of
          [] \<Rightarrow> None
        | r # _ \<Rightarrow> info_of (length pre + length (concat (map rr_wire (takeWhile (\<lambda>r. \<not> is_opt r) rs)))) r)"
  using assms
proof (induction rs arbitrary: pre)
  case (Cons r rs)
  have "find_opt_rr (pre @ rr_wire r @ concat (map rr_wire rs) @ post) (Suc (length rs)) (length pre)
    = (if is_opt r then info_of (length pre) r
       else find_opt_rr (pre @ rr_wire r @ concat (map rr_wire rs) @ post) (length rs)
         (length pre + length (rr_wire r)))"
    using Cons.prems by (intro find_opt_rr_step) simp_all
  with Cons.IH [of "pre @ rr_wire r"] Cons.prems show ?case
    by (cases "dropWhile (\<lambda>r. \<not> is_opt r) rs")
       (simp_all add: add.assoc del: find_opt_rr.simps dropWhile_eq_Nil_conv)
qed simp

text \<open>The raw message, seen as the part in front of the additional section and that section.\<close>

definition packet_front :: "dns_packet \<Rightarrow> u8 list" where
  "packet_front p = header_to_bytes (written_header p) @ concat (map question_wire (questions p))
     @ concat (map rr_wire (answers p)) @ concat (map rr_wire (authority p))"

lemma packet_wire_front: "packet_wire p = packet_front p @ concat (map rr_wire (additional p))"
  by (simp add: packet_wire_def packet_front_def)

lemma find_pseudoheader_wire:
  assumes "packet_ok p"
  shows "find_pseudoheader (packet_wire p)
     = (case dropWhile (\<lambda>r. \<not> is_opt r) (additional p) of
          [] \<Rightarrow> None
        | r # _ \<Rightarrow> info_of (length (packet_front p)
              + length (concat (map rr_wire (takeWhile (\<lambda>r. \<not> is_opt r) (additional p))))) r)"
proof -
  let ?h = "header_to_bytes (written_header p)" and ?q = "concat (map question_wire (questions p))"
    and ?an = "concat (map rr_wire (answers p))" and ?ns = "concat (map rr_wire (authority p))"
    and ?ar = "concat (map rr_wire (additional p))"
  let ?pkt = "?h @ ?q @ ?an @ ?ns @ ?ar"
  note ok = assms [unfolded packet_ok_def] and counts = written_header_counts [OF assms]
  have pkt: "packet_wire p = ?pkt" by (simp add: packet_wire_def)
  have fits: "fits ?pkt" using fits_packet_wire [OF assms] pkt by simp
  have 0: "header_from_bytes ?pkt = Some (written_header p)" by (rule header_from_to_bytes)
  have 1: "skip_questions ?pkt (length (questions p)) 12 = Inr (12 + length ?q)"
    using skip_questions_parse [OF question.parse_many_wire [of "questions p" ?h "?an @ ?ns @ ?ar"]]
      ok fits by simp
  have 2: "skip_rrs ?pkt (length (answers p)) (12 + length ?q) = Inr (12 + length ?q + length ?an)"
    using skip_rrs_parse [OF vec.rr.parse_many_wire [of "answers p" "?h @ ?q" "?ns @ ?ar"]] ok fits by simp
  have 3: "skip_rrs ?pkt (length (authority p)) (12 + length ?q + length ?an)
      = Inr (12 + length ?q + length ?an + length ?ns)"
    using skip_rrs_parse [OF vec.rr.parse_many_wire [of "authority p" "?h @ ?q @ ?an" ?ar]] ok fits
    by (simp add: add.assoc)
  have front: "length (packet_front p) = 12 + length ?q + length ?an + length ?ns"
    by (simp add: packet_front_def)
  have "find_pseudoheader ?pkt = find_opt_rr ?pkt (length (additional p)) (length (packet_front p))"
    unfolding find_pseudoheader_def 0 option.case
    by (simp only: counts 1 2 3 and_then.simps sum.case front)
  with find_opt_rr_wire [of "additional p" "packet_front p" "[]"] ok fits
  show ?thesis unfolding pkt by (simp add: packet_front_def)
qed

lemma u16_be_octets: "[ucast (drop_bit 8 n), ucast (n AND 0xFF)] = to_be16 (n :: u16)"
proof -
  have "unat (drop_bit 8 n) = unat n div 256" by (simp only: unat_drop_bit_eq) (simp add: drop_bit_eq_div)
  then have "(ucast (drop_bit 8 n) :: u8) = word_of_nat (unat n div 256)"
    by (metis word_of_nat_eq_iff unsigned_ucast_eq of_nat_unat)
  moreover have "n AND 0xFF = take_bit 8 n" by (simp add: take_bit_eq_mask mask_numeral)
  then have "(ucast (n AND 0xFF) :: u8) = ucast n"
    by (simp only:) (rule bit_word_eqI, auto simp: bit_simps)
  ultimately show ?thesis by (simp add: to_be16_def)
qed

lemma put_arcount_header:
  "put_arcount (header_to_bytes h @ rest) n = header_to_bytes (h\<lparr>arcount := n\<rparr>) @ rest"
  using u16_be_octets [of n] by (simp add: put_arcount_def header_to_bytes_def to_be16_def)

text \<open>The record \<open>add_pseudoheader\<close> appends.\<close>

definition opt_rr :: "u16 \<Rightarrow> u16 \<Rightarrow> edns0_option list \<Rightarrow> dns_rr" where
  "opt_rr udp_size flags options =
     \<lparr>rr_name = [], rr_type = rrtype_code RR_OPT, rr_class = udp_size,
      rr_ttl = from_be32 0 0 (to_be16 flags ! 0) (to_be16 flags ! 1), rr_data = build_opt_rdata options\<rparr>"

lemma opt_rr_wire: "rr_wire (opt_rr udp_size flags options) = opt_rr_bytes udp_size flags options"
proof -
  have "[to_be16 flags ! 0, to_be16 flags ! 1] = to_be16 flags" by (simp add: to_be16_def)
  then show ?thesis
    by (simp add: rr_wire_def opt_rr_def opt_rr_bytes_def to_from_be32 name_wire_def Let_def)
qed

lemma packet_wire_append:
  "put_arcount (packet_wire p @ rr_wire r) (arcount (written_header p) + 1)
     = packet_wire (p\<lparr>additional := additional p @ [r]\<rparr>)"
  by (simp add: packet_wire_def put_arcount_header written_header_def add.commute)

definition remove_opt :: "dns_rr list \<Rightarrow> dns_rr list" where
  "remove_opt rs = takeWhile (\<lambda>r. \<not> is_opt r) rs @ tl (dropWhile (\<lambda>r. \<not> is_opt r) rs)"

definition opts_parse :: "dns_rr list \<Rightarrow> bool" where
  "opts_parse rs \<longleftrightarrow> list_all (\<lambda>r. \<not> is_opt r \<or> (\<exists>os. parse_opt_options (rr_data r) = Inr os)) rs"

lemma word_of_nat_pred: "0 < n \<Longrightarrow> n < 65536 \<Longrightarrow>
    (if (word_of_nat n :: u16) = 0 then 0 else word_of_nat n - 1) = (word_of_nat (n - 1) :: u16)"
  by (simp add: of_nat_diff word_unat_eq_iff unat_u16_of_nat)

lemma strip_opt_wire:
  assumes "packet_ok p" and "opts_parse (additional p)"
  shows "strip_opt (packet_wire p) = Inr (packet_wire (p\<lparr>additional := remove_opt (additional p)\<rparr>))"
proof (cases "dropWhile (\<lambda>r. \<not> is_opt r) (additional p)")
  case Nil
  then have tw: "takeWhile (\<lambda>r. \<not> is_opt r) (additional p) = additional p"
    by (simp add: takeWhile_eq_all_conv)
  have "find_pseudoheader (packet_wire p) = None"
    unfolding find_pseudoheader_wire [OF assms(1)] Nil by simp
  then show ?thesis unfolding strip_opt_def remove_opt_def tw Nil by simp
next
  case (Cons r rest)
  let ?xs = "takeWhile (\<lambda>r. \<not> is_opt r) (additional p)"
  have ar: "additional p = ?xs @ r # rest"
    using takeWhile_dropWhile_id [of "\<lambda>r. \<not> is_opt r" "additional p"] Cons by simp
  have opt: "is_opt r" using hd_dropWhile [of "\<lambda>r. \<not> is_opt r" "additional p"] Cons by simp
  then obtain os where os: "parse_opt_options (rr_data r) = Inr os"
    using assms(2) by (subst (asm) ar) (auto simp: opts_parse_def)
  let ?pre = "packet_front p @ concat (map rr_wire ?xs)" and ?post = "concat (map rr_wire rest)"
  have pkt: "packet_wire p = ?pre @ rr_wire r @ ?post"
    by (subst packet_wire_front, subst ar) simp
  have find: "\<exists>info. find_pseudoheader (packet_wire p) = Some info \<and> ei_offset info = length ?pre"
    using find_pseudoheader_wire [OF assms(1)] Cons os by (simp add: info_of_def Let_def)
  have r: "rr_ok r" using assms(1) by (simp add: packet_ok_def) (subst (asm) ar, simp)
  have fits: "fits (?pre @ rr_wire r @ ?post)" using fits_packet_wire [OF assms(1)] pkt by simp
  have hdr: "header_from_bytes (packet_wire p) = Some (written_header p)"
    by (simp add: packet_wire_def header_from_to_bytes)
  have n: "0 < length (additional p)" "length (additional p) < 65536"
    using assms(1) ar by (auto simp: packet_ok_def)
  let ?off = "length ?pre + rr_owner_len r"
  have skip: "skip_name (packet_wire p) (length ?pre) = Inr ?off"
    unfolding pkt by (rule skip_name_rr [OF r fits])
  have rdlen: "unat (from_be16 (packet_wire p ! (?off + 8)) (packet_wire p ! (?off + 9))) = length (rr_data r)"
    unfolding pkt using nth_rr_wire [of 8 ?pre r ?post] nth_rr_wire [of 9 ?pre r ?post]
      rr_fixed_fields(4) [OF r] by simp
  have len: "\<not> ?off + 10 > length (packet_wire p)" "\<not> ?off + 10 + length (rr_data r) > length (packet_wire p)"
    unfolding pkt by (simp_all add: length_rr_wire_eq)
  have cut: "take (length ?pre) (packet_wire p) @ drop (?off + 10 + length (rr_data r)) (packet_wire p)
      = ?pre @ ?post"
    unfolding pkt by (simp add: length_rr_wire_eq add.assoc)
  have rem: "remove_opt (additional p) = ?xs @ rest" using Cons by (simp add: remove_opt_def)
  have "length (additional p) - 1 = length (?xs @ rest)"
    by (subst ar) simp
  then have "put_arcount (?pre @ ?post) (word_of_nat (length (additional p) - 1))
      = packet_wire (p\<lparr>additional := remove_opt (additional p)\<rparr>)"
    by (simp add: packet_front_def packet_wire_def put_arcount_header written_header_def rem)
  moreover have "(if arcount (written_header p) = 0 then 0 else arcount (written_header p) - 1)
      = word_of_nat (length (additional p) - 1)"
    using word_of_nat_pred [OF n] by (auto simp: written_header_def split: if_splits)
  moreover obtain info where "find_pseudoheader (packet_wire p) = Some info" "ei_offset info = length ?pre"
    using find by blast
  ultimately show ?thesis
    unfolding strip_opt_def
    by (simp only: option.case skip and_then.simps Let_def rdlen len if_False cut hdr ok_or.simps)
qed

lemma add_pseudoheader_wire:
  assumes "packet_ok p" and "opts_parse (additional p)" and "length (additional p) < 65535"
  shows "add_pseudoheader (packet_wire p) udp_size flags options
     = Done (Inr (packet_wire (p\<lparr>additional := remove_opt (additional p) @ [opt_rr udp_size flags options]\<rparr>)))"
proof -
  let ?p = "p\<lparr>additional := remove_opt (additional p)\<rparr>" and ?r = "opt_rr udp_size flags options"
  have hdr: "header_from_bytes (packet_wire q @ rest) = Some (written_header q)" for q rest
    by (simp add: packet_wire_def header_from_to_bytes)
  have "length (remove_opt (additional p)) \<le> length (additional p)"
    using arg_cong [OF takeWhile_dropWhile_id [of "\<lambda>r. \<not> is_opt r" "additional p"], of length]
    by (simp add: remove_opt_def del: takeWhile_dropWhile_id)
  then have "unat (arcount (written_header ?p)) < 65535"
    using assms(3) by (simp add: written_header_def unat_u16_of_nat)
  then have "arcount (written_header ?p) \<noteq> 0xFFFF" by auto
  then show ?thesis
    using packet_wire_append [of ?p ?r] hdr [of p "[]"]
    by (simp add: add_pseudoheader_def strip_opt_wire [OF assms(1,2)] hdr opt_rr_wire Let_def)
qed

section \<open>How much of an address the client-subnet option carries\<close>

lemma nth_octets6_ucast: "i < 16 \<Longrightarrow> octets6 a ! i = ucast (drop_bit (8 * (15 - i)) a)"
proof -
  assume i: "i < 16"
  have "unat (drop_bit (8 * (15 - i)) a) = unat a div 256 ^ (15 - i)"
    by (simp only: unat_drop_bit_eq) (simp add: drop_bit_eq_div power_mult)
  then have "unat (ucast (drop_bit (8 * (15 - i)) a) :: u8) = unat a div 256 ^ (15 - i) mod 256"
    by (simp add: unsigned_ucast_eq take_bit_eq_mod)
  with i show ?thesis by (simp only: word_unat_eq_iff nth_octets6)
qed

lemma bit_octets6: "i < 16 \<Longrightarrow> bit (octets6 a ! i) n \<longleftrightarrow> n < 8 \<and> bit a (8 * (15 - i) + n)"
  by (simp only: nth_octets6_ucast) (auto simp: bit_simps dest: bit_imp_le_length)

lemma length_masked_octets: "l \<le> 16 \<Longrightarrow> length full = 16 \<Longrightarrow> length (masked_octets m full l) = 16"
  by (simp add: masked_octets_def Let_def)

lemma nth_masked_octets:
  assumes "1 \<le> l" and "l \<le> 16" and "length full = 16" and "i < 16"
  shows "masked_octets m full l ! i
     = (if i < l then if i = l - 1 \<and> m AND 7 \<noteq> 0 then full ! i AND push_bit (8 - unat (m AND 7)) 0xFF
                      else full ! i
        else 0)"
  using assms by (simp add: masked_octets_def Let_def nth_list_update nth_append)

lemma unat_and_7: "unat (m AND 7 :: u8) = unat m mod 8"
proof -
  have "m AND 7 = take_bit 3 m" by (simp add: take_bit_eq_mask mask_numeral)
  then show ?thesis by (simp only: unsigned_take_bit_eq) (simp add: take_bit_eq_mod)
qed

lemma subnet_len:
  assumes "1 \<le> m" and "m \<le> 128" and "m = 8 * q + r" and "r < (8 :: nat)"
  shows "min (drop_bit 3 (m - 1) + 1) 16 = (if r = 0 then q else q + 1)"
proof (cases "r = 0")
  case True
  with assms obtain q' where q: "q = Suc q'" by (cases q) auto
  then have "(m - 1) div 8 = q'" using assms(3) True by simp
  with q True assms(2,3) show ?thesis by (simp add: drop_bit_eq_div)
next
  case False
  then have "(m - 1) div 8 = q" using assms(3,4) by simp
  with False assms(2,3) show ?thesis by (simp add: drop_bit_eq_div)
qed

lemma masked_octets6:
  assumes "1 \<le> unat m" and "unat m \<le> 128"
  shows "masked_octets m (octets6 a) (min (drop_bit 3 (unat m - 1) + 1) 16)
           = octets6 (a AND NOT (mask (128 - unat m)))"
proof -
  define q r where "q = unat m div 8" and "r = unat m mod 8"
  define l where "l = (if r = 0 then q else q + 1)"
  have m: "unat m = 8 * q + r" "r < 8" by (simp_all add: q_def r_def)
  have len: "min (drop_bit 3 (unat m - 1) + 1) 16 = l"
    using subnet_len [OF assms m] by (simp add: l_def)
  have l: "1 \<le> l" "l \<le> 16" using assms m by (auto simp: l_def)
  have r: "unat (m AND 7) = r" by (simp add: unat_and_7 r_def)
  then have r0: "m AND 7 = 0 \<longleftrightarrow> r = 0" by (auto simp: word_unat_eq_iff)
  have ff: "bit (push_bit (8 - r) 0xFF :: u8) n \<longleftrightarrow> n < 8 \<and> 8 - r \<le> n" for n
  proof -
    have e: "(0xFF :: u8) = - 1" by simp
    show ?thesis unfolding e by (auto simp: bit_simps)
  qed
  have "masked_octets m (octets6 a) l ! i = octets6 (a AND NOT (mask (128 - unat m))) ! i"
    if i: "i < 16" for i
  proof (rule bit_word_eqI)
    fix n assume "n < LENGTH(8)"
    then have n: "n < 8" by simp
    have "bit (octets6 (a AND NOT (mask (128 - unat m))) ! i) n
        \<longleftrightarrow> bit a (8 * (15 - i) + n) \<and> 128 - unat m \<le> 8 * (15 - i) + n"
      using i n by (auto simp: bit_octets6 bit_simps)
    moreover have "bit (masked_octets m (octets6 a) l ! i) n
        \<longleftrightarrow> i < l \<and> bit a (8 * (15 - i) + n) \<and> (i = l - 1 \<and> r \<noteq> 0 \<longrightarrow> 8 - r \<le> n)"
      using i n l by (auto simp: nth_masked_octets r r0 bit_octets6 bit_and_iff ff)
    moreover have "128 - unat m \<le> 8 * (15 - i) + n \<longleftrightarrow> i < l \<and> (i = l - 1 \<and> r \<noteq> 0 \<longrightarrow> 8 - r \<le> n)"
      using i n m l assms by (auto simp: l_def split: if_splits)
    ultimately show "bit (masked_octets m (octets6 a) l ! i) n
        \<longleftrightarrow> bit (octets6 (a AND NOT (mask (128 - unat m))) ! i) n"
      by blast
  qed
  with l show ?thesis
    unfolding len by (intro nth_equalityI) (simp_all add: length_masked_octets)
qed

lemma nat_be_shift: "nat_be (k + j) (x * 256 ^ j) = nat_be k x @ replicate j 0"
proof (induction k)
  case 0
  have "nat_be i (x * 256 ^ j) = replicate i 0" if "i \<le> j" for i
    using that
  proof (induction i)
    case (Suc i)
    then have "(256 :: nat) ^ j = 256 ^ i * (256 * 256 ^ (j - Suc i))"
      by (simp only: power_Suc [symmetric] power_add [symmetric]) simp
    then have e: "x * 256 ^ j = 256 ^ i * (256 * (x * 256 ^ (j - Suc i)))" by (simp only: mult.left_commute)
    have "256 ^ i * y div 256 ^ i = y" for y :: nat by simp
    then have "x * 256 ^ j div 256 ^ i mod 256 = 0" unfolding e by simp
    then have "(word_of_nat (x * 256 ^ j div 256 ^ i) :: u8) = 0"
      by (simp only: word_unat_eq_iff unat_u8_of_nat unsigned_0)
    with Suc show ?case by simp
  qed simp
  then show ?case by simp
next
  case (Suc k)
  have "x * 256 ^ j div 256 ^ (k + j) = x div 256 ^ k"
    by (simp add: power_add)
  with Suc show ?case by simp
qed

lemma octets4_nat_be: "octets4 v = nat_be 4 (unat v)"
proof -
  have "(4 :: nat) = Suc (Suc (Suc (Suc 0)))" by simp
  then show ?thesis by (simp only: nat_be.simps) (simp add: octets4_def to_be32_def)
qed

lemma full_octets_v4: "full_octets (IpV4 v) = octets6 (push_bit 96 (ucast v))"
proof -
  have b: "unat v < 340282366920938463463374607431768211456"
    "unat v * 79228162514264337593543950336 < 340282366920938463463374607431768211456"
    using unat_u32 [of v] by linarith+
  have "unat (push_bit 96 (ucast v) :: ipv6) = unat v * 256 ^ 12"
    by (simp only: unsigned_push_bit_eq unsigned_ucast_eq)
       (simp add: push_bit_eq_mult take_bit_eq_mod mod_less [OF b(1)] mod_less [OF b(2)])
  then show ?thesis
    using nat_be_shift [of 4 12 "unat v"] by (simp add: octets6_def octets4_nat_be)
qed

lemma push_ucast_mask:
  "m \<le> 32 \<Longrightarrow> push_bit 96 (ucast v) AND NOT (mask (128 - m))
     = (push_bit 96 (ucast (v AND NOT (mask (32 - m)))) :: ipv6)" for v :: ipv4
  by (rule bit_word_eqI) (auto simp: bit_simps dest: bit_imp_le_length)

lemma masked_octets_v4:
  assumes "1 \<le> unat m" and "unat m \<le> 32"
  shows "masked_octets m (full_octets (IpV4 v)) (min (drop_bit 3 (unat m - 1) + 1) 16)
           = full_octets (IpV4 (v AND NOT (mask (32 - unat m))))"
  using masked_octets6 [of m "push_bit 96 (ucast v)"] assms push_ucast_mask [of "unat m" v]
  by (simp only: full_octets_v4)

section \<open>Verifying an echoed client subnet\<close>

lemma calc_subnet_lens:
  assumes "calc_subnet_opt source s4 s6 = (ex, cache, len)"
  shows "length (so_addr ex) = 16 \<and> len \<le> 16"
proof -
  have "length (full_octets x) = 16" for x by (cases x) simp_all
  with assms show ?thesis
    by (auto simp: calc_subnet_opt_def Let_def length_masked_octets split: prod.splits option.splits if_splits)
qed

lemma ecs_echo_ok_iff:
  assumes "length (so_addr ex) = 16" and "len \<le> 16"
  shows "ecs_echo_ok (Some (ex, cache, len)) data
     \<longleftrightarrow> (\<exists>scope. data = subnet_to_wire (ex\<lparr>so_scope_netmask := scope\<rparr>) len)"
proof
  assume ok: "ecs_echo_ok (Some (ex, cache, len)) data"
  then have "4 \<le> length data" by (simp add: ecs_echo_ok_def split: if_splits)
  then have "data = take 2 data @ [data ! 2, data ! 3] @ drop 4 data"
    using id_take_nth_drop [of 2 data] Cons_nth_drop_Suc [of 3 data] by simp
  with ok assms have "data = subnet_to_wire (ex\<lparr>so_scope_netmask := data ! 3\<rparr>) len"
    by (simp add: ecs_echo_ok_def subnet_to_wire_def split: if_splits)
  then show "\<exists>scope. data = subnet_to_wire (ex\<lparr>so_scope_netmask := scope\<rparr>) len" ..
next
  assume "\<exists>scope. data = subnet_to_wire (ex\<lparr>so_scope_netmask := scope\<rparr>) len"
  then show "ecs_echo_ok (Some (ex, cache, len)) data"
    using assms by (auto simp: ecs_echo_ok_def subnet_to_wire_def to_be16_def)
qed

lemma info_of_opt_rr:
  "options_ok options \<Longrightarrow> info_of off (opt_rr udp_size flags options)
     = Some \<lparr>ei_offset = off, ei_udp_size = udp_size, ei_ext_rcode = 0, ei_version = 0,
             ei_flags = flags, ei_options = options\<rparr>"
  by (simp add: info_of_def opt_rr_def parse_build_opt Let_def) (simp add: to_be16_def)

lemma opt_rr_ok: "length (build_opt_rdata options) \<le> 65535 \<Longrightarrow> rr_ok (opt_rr udp_size flags options)"
  by (simp add: rr_ok_def opt_rr_def name_ok_def rdata_ok_def)

lemma is_opt_opt_rr: "is_opt (opt_rr udp_size flags options)"
  by (simp add: is_opt_def opt_rr_def)

lemma remove_opt_length: "length (remove_opt rs) \<le> length rs"
  using arg_cong [OF takeWhile_dropWhile_id [of "\<lambda>r. \<not> is_opt r" rs], of length]
  by (simp add: remove_opt_def del: takeWhile_dropWhile_id)

lemma set_remove_opt: "set (remove_opt rs) \<subseteq> set rs"
proof -
  have "set (tl xs) \<subseteq> set xs" for xs :: "dns_rr list" by (cases xs) auto
  from this [of "dropWhile (\<lambda>r. \<not> is_opt r) rs"] show ?thesis
    by (auto simp: remove_opt_def dest: set_takeWhileD set_dropWhileD)
qed

section \<open>Properties\<close>

text \<open>C14: on a well-formed message with at most one OPT record, \<open>add_pseudoheader\<close> returns the encoding of the
  message with its OPT record replaced by the new one, and \<open>find_pseudoheader\<close> then reports exactly
  the payload size, flags and options that were put in.\<close>

theorem add_then_find_pseudoheader:
  assumes "packet_ok p" and "opts_parse (additional p)" and "length (additional p) < 65535"
    and "list_all (\<lambda>r. \<not> is_opt r) (remove_opt (additional p))"
    and "options_ok options" and "length (build_opt_rdata options) \<le> 65535"
    and "p' = p\<lparr>additional := remove_opt (additional p) @ [opt_rr udp_size flags options]\<rparr>"
  shows "add_pseudoheader (packet_wire p) udp_size flags options = Done (Inr (packet_wire p'))
       \<and> (\<exists>off. find_pseudoheader (packet_wire p')
             = Some \<lparr>ei_offset = off, ei_udp_size = udp_size, ei_ext_rcode = 0, ei_version = 0,
                     ei_flags = flags, ei_options = options\<rparr>)"
proof
  show "add_pseudoheader (packet_wire p) udp_size flags options = Done (Inr (packet_wire p'))"
    using add_pseudoheader_wire [OF assms(1-3)] assms(7) by simp
  let ?r = "opt_rr udp_size flags options" and ?xs = "remove_opt (additional p)"
  have "list_all rr_ok ?xs"
    using assms(1) set_remove_opt [of "additional p"] by (auto simp: packet_ok_def list_all_iff)
  then have ok: "packet_ok p'"
    using assms(1,3,7) opt_rr_ok [OF assms(6)] remove_opt_length [of "additional p"]
    by (simp add: packet_ok_def)
  have "takeWhile (\<lambda>r. \<not> is_opt r) (?xs @ [?r]) = ?xs" "dropWhile (\<lambda>r. \<not> is_opt r) (?xs @ [?r]) = [?r]"
    using assms(4) is_opt_opt_rr [of udp_size flags options]
    by (simp_all add: list_all_iff takeWhile_append2 dropWhile_append2)
  with find_pseudoheader_wire [OF ok] assms(5,7) info_of_opt_rr [of options]
  show "\<exists>off. find_pseudoheader (packet_wire p')
      = Some \<lparr>ei_offset = off, ei_udp_size = udp_size, ei_ext_rcode = 0, ei_version = 0,
              ei_flags = flags, ei_options = options\<rparr>"
    by simp
qed

theorem add_then_find_pseudoheader_witness:
  "\<exists>off. find_pseudoheader (packet_wire (sample_packet\<lparr>additional :=
       [opt_rr 1232 0x8000 [\<lparr>opt_code = 10, opt_data = [1, 2]\<rparr>]]\<rparr>))
     = Some \<lparr>ei_offset = off, ei_udp_size = 1232, ei_ext_rcode = 0, ei_version = 0,
             ei_flags = 0x8000, ei_options = [\<lparr>opt_code = 10, opt_data = [1, 2]\<rparr>]\<rparr>"
proof -
  have "additional sample_packet = []" by (simp add: sample_packet_def)
  then show ?thesis
    using add_then_find_pseudoheader [OF sample_packet_ok, where options = "[\<lparr>opt_code = 10, opt_data = [1, 2]\<rparr>]"
        and udp_size = 1232 and flags = "0x8000"]
    by (simp add: opts_parse_def options_ok_def remove_opt_def)
qed

text \<open>The client-subnet option for a client carries exactly the configured number of leading address
  bits: every further bit of the transmitted address is zero, the number of address octets is
  the smallest that holds the prefix, and the answer is not cacheable.\<close>

lemma subnet_option_masks_address:
  assumes "1 \<le> unat m" and "sub = \<lparr>as_mask = m, as_const_addr = None\<rparr>"
  shows "(unat m \<le> 32 \<longrightarrow> calc_subnet_opt (IpV4 v) (Some sub) s6
            = (\<lparr>so_family = 1, so_source_netmask = m, so_scope_netmask = 0,
                so_addr = full_octets (IpV4 (v AND NOT (mask (32 - unat m))))\<rparr>, False, (unat m + 7) div 8))
       \<and> (unat m \<le> 128 \<longrightarrow> calc_subnet_opt (IpV6 a) s4 (Some sub)
            = (\<lparr>so_family = 2, so_source_netmask = m, so_scope_netmask = 0,
                so_addr = octets6 (a AND NOT (mask (128 - unat m)))\<rparr>, False, (unat m + 7) div 8))"
proof -
  have nz: "m \<noteq> 0" using assms(1) by auto
  have len: "min (drop_bit 3 (unat m - 1) + 1) 16 = (unat m + 7) div 8" if "unat m \<le> 128"
    using that assms(1) by (simp add: drop_bit_eq_div div_if)
  show ?thesis
    using masked_octets_v4 [OF assms(1), of v] masked_octets6 [OF assms(1), of a] len nz assms(2)
    by (auto simp: calc_subnet_opt_def subnet_choice_def Let_def simp del: full_octets.simps(1))
qed

text \<open>With a peer given, \<open>check_source\<close> accepts a reply exactly when every client-subnet option in it is the
  octet string that was sent for that peer, up to the scope octet.\<close>

lemma check_source_exact:
  assumes "find_pseudoheader pkt = Some info" and "calc_subnet_opt peer s4 s6 = (ex, cache, len)"
  shows "check_source pkt (Some peer) s4 s6 \<longleftrightarrow>
     (\<forall>opt \<in> set (ei_options info). opt_code opt = EDNS0_OPTION_CLIENT_SUBNET \<longrightarrow>
        (\<exists>scope. opt_data opt = subnet_to_wire (ex\<lparr>so_scope_netmask := scope\<rparr>) len))"
  using assms ecs_echo_ok_iff [of ex len cache] calc_subnet_lens [OF assms(2)]
  by (auto simp: check_source_def list_all_iff)

text \<open>When the client-subnet option is switched on, the cacheability reported by \<open>add_edns0_config\<close> is the one
  of the subnet option alone: it does not depend on whether a hardware-address or Umbrella
  option was added before.\<close>

lemma config_cacheable_is_subnet_cacheable:
  assumes "cf_client_subnet cfg"
  shows "snd (add_edns0_config existing source mac cfg)
     = fst (snd (calc_subnet_opt source (cf_add_subnet4 cfg) (cf_add_subnet6 cfg)))"
  using assms by (simp add: add_edns0_config_def add_client_subnet_def Let_def split: prod.split)

end
