(* ===== verification/Rr_Filter.thy ===== *)
theory Rr_Filter
  imports Edns0
begin

text \<open>
  Removal of records from a raw message (\<open>src/rrfilter.rs\<close>). \<open>filter_with\<close> works in four passes:
  choose the records to elide, check that no surviving compression pointer points into one of
  them, rewrite the surviving pointers, and move the kept octets down. The public filters
  \<open>filter_rr_types\<close>, \<open>strip_dnssec_if_not_requested\<close> and \<open>filter_configured_rr_types\<close> differ in the
  decision taken per record.

  \<open>check_name\<close> and \<open>check_rrs\<close> write to the packet only when they fix pointers; a result of
  \<open>None\<close> stands for \<open>false\<close>, after which the caller drops its working copy.

  Main results: a rewritten pointer addresses the same octet as before; on a message written
  without compression the filters return the encoding of the message with exactly the chosen
  records removed; and whatever the packet, nothing is changed unless at least one record goes.
\<close>

section \<open>Pointers\<close>

primrec skip_questions_to :: "u8 list \<Rightarrow> nat \<Rightarrow> nat \<Rightarrow> dns_error + nat" where
  "skip_questions_to pkt 0 offset = Inr offset"
| "skip_questions_to pkt (Suc n) offset =
     and_then (skip_name pkt offset) (\<lambda>off1.
       if off1 + 4 > length pkt then Inl PacketTooShort else skip_questions_to pkt n (off1 + 4))"

fun shift_offset_by :: "nat \<Rightarrow> (nat \<times> nat) list \<Rightarrow> nat \<Rightarrow> nat option" where
  "shift_offset_by delta [] off = Some (off - delta)"
| "shift_offset_by delta ((s, e) # elided) off =
     (if off < s then Some (off - delta)
      else if off < e then None
      else shift_offset_by (delta + (e - s)) elided off)"

definition shift_offset :: "(nat \<times> nat) list \<Rightarrow> nat \<Rightarrow> nat option" where
  "shift_offset elided off = shift_offset_by 0 elided off"

text \<open>\<open>pkt[pos] = ((shifted >> 8) as u8) | 0xC0; pkt[pos + 1] = (shifted & 0xFF) as u8\<close>\<close>

definition put_pointer :: "u8 list \<Rightarrow> nat \<Rightarrow> nat \<Rightarrow> u8 list" where
  "put_pointer pkt pos shifted =
     pkt[pos := word_of_nat (drop_bit 8 shifted) OR 0xC0, pos + 1 := word_of_nat (shifted AND 0xFF)]"

function check_name ::
    "u8 list \<Rightarrow> nat \<Rightarrow> (nat \<times> nat) list \<Rightarrow> bool \<Rightarrow> (u8 list \<times> nat) option" where
  "check_name pkt pos elided fixup =
     (if pos \<ge> length pkt then None
      else let b = pkt ! pos
           in if b AND 0xC0 = 0xC0 then
                if pos + 2 > length pkt then None
                else (case shift_offset elided (ptr_target b (pkt ! (pos + 1))) of
                        None \<Rightarrow> None
                      | Some shifted \<Rightarrow>
                          Some (if fixup then put_pointer pkt pos shifted else pkt, pos + 2))
              else if b AND 0xC0 = 0x80 then None
              else if b AND 0xC0 = 0x40 then
                if pos + 2 > length pkt \<or> b AND 0x3F \<noteq> 1 then None
                else let count = unat (pkt ! (pos + 1));
                         bytes = (if count = 0 then 32 else drop_bit 3 (count - 1) + 1)
                     in if pos + 2 + bytes > length pkt then None
                        else check_name pkt (pos + 2 + bytes) elided fixup
              else let len = unat (b AND 0x3F)
                   in if pos + 1 + len > length pkt then None
                      else if len = 0 then Some (pkt, pos + 1)
                      else check_name pkt (pos + 1 + len) elided fixup)"
  by pat_completeness auto
termination
  by (relation "measure (\<lambda>(pkt, pos, elided, fixup). length pkt - pos)") auto

declare check_name.simps [simp del]

section \<open>Records\<close>

definition rrfilter_desc :: "u16 \<Rightarrow> nat list" where
  "rrfilter_desc rtype =
     (if rtype \<in> {2, 3, 4, 5, 7, 8, 9, 12, 30, 39} then [0]
      else if rtype = 6 then [0, 0]
      else if rtype = 14 then [0, 0]
      else if rtype = 15 then [2, 0]
      else if rtype = 17 then [0, 0]
      else if rtype = 18 then [2, 0]
      else if rtype = 21 then [2, 0]
      else if rtype = 24 then [18, 0]
      else if rtype = 26 then [2, 0, 0]
      else if rtype = 33 then [6, 0]
      else if rtype = 36 then [2, 0]
      else [])"

fun check_rdata ::
    "u8 list \<Rightarrow> nat \<Rightarrow> nat list \<Rightarrow> (nat \<times> nat) list \<Rightarrow> bool \<Rightarrow> u8 list option" where
  "check_rdata pkt rdata_pos [] elided fixup = Some pkt"
| "check_rdata pkt rdata_pos (step # steps) elided fixup =
     (if step \<noteq> 0 then
        if rdata_pos + step > length pkt then None
        else check_rdata pkt (rdata_pos + step) steps elided fixup
      else (case check_name pkt rdata_pos elided fixup of
              None \<Rightarrow> None
            | Some (pkt', rdata_pos') \<Rightarrow> check_rdata pkt' rdata_pos' steps elided fixup))"

text \<open>One surviving record: its owner name, then the names in its data when the class is IN.\<close>

definition check_rr ::
    "u8 list \<Rightarrow> nat \<Rightarrow> nat \<Rightarrow> u16 \<Rightarrow> u16 \<Rightarrow> (nat \<times> nat) list \<Rightarrow> bool \<Rightarrow> u8 list option" where
  "check_rr pkt rr_start rdata_pos rtype class elided fixup =
     (case check_name pkt rr_start elided fixup of
        None \<Rightarrow> None
      | Some (pkt', _) \<Rightarrow>
          if class = 1 then check_rdata pkt' rdata_pos (rrfilter_desc rtype) elided fixup else Some pkt')"

primrec check_rrs ::
    "nat \<Rightarrow> u8 list \<Rightarrow> nat \<Rightarrow> (nat \<times> nat) list \<Rightarrow> bool \<Rightarrow> u8 list option" where
  "check_rrs 0 pkt pos elided fixup = Some pkt"
| "check_rrs (Suc n) pkt rr_start elided fixup =
     (case skip_name pkt rr_start of
        Inl _ \<Rightarrow> None
      | Inr pos0 \<Rightarrow>
          if pos0 + 10 > length pkt then None
          else let rtype = from_be16 (pkt ! pos0) (pkt ! (pos0 + 1));
                   class = from_be16 (pkt ! (pos0 + 2)) (pkt ! (pos0 + 3));
                   rdlen = unat (from_be16 (pkt ! (pos0 + 8)) (pkt ! (pos0 + 9)));
                   pos = pos0 + 10
               in case (if list_ex (\<lambda>(s, _). s = rr_start) elided then Some pkt
                        else check_rr pkt rr_start pos rtype class elided fixup) of
                    None \<Rightarrow> None
                  | Some pkt' \<Rightarrow>
                      if pos + rdlen > length pkt' then None
                      else check_rrs n pkt' (pos + rdlen) elided fixup)"

section \<open>The shared core\<close>

datatype verdict = Keep | Remove | Stop

record question_key =
  qk_qtype :: u16
  qk_qclass :: u16

type_synonym decider = "nat \<Rightarrow> u16 \<Rightarrow> u16 \<Rightarrow> question_key \<Rightarrow> verdict"

record chops =
  chop_an :: u16
  chop_ns :: u16
  chop_ar :: u16

definition chop_at :: "nat \<Rightarrow> nat \<Rightarrow> nat \<Rightarrow> chops \<Rightarrow> chops" where
  "chop_at an ns i c =
     (if i < an then c\<lparr>chop_an := chop_an c + 1\<rparr>
      else if i < an + ns then c\<lparr>chop_ns := chop_ns c + 1\<rparr>
      else c\<lparr>chop_ar := chop_ar c + 1\<rparr>)"

text \<open>Pass 1, with \<open>n\<close> records left to visit, the next one having index \<open>i\<close>.\<close>

primrec find_elided ::
    "nat \<Rightarrow> u8 list \<Rightarrow> nat \<Rightarrow> nat \<Rightarrow> decider \<Rightarrow> question_key \<Rightarrow> nat \<Rightarrow> nat \<Rightarrow> chops
       \<Rightarrow> dns_error + ((nat \<times> nat) list \<times> chops)" where
  "find_elided 0 pkt an ns decide q i pos c = Inr ([], c)"
| "find_elided (Suc n) pkt an ns decide q i start c =
     and_then (skip_name pkt start) (\<lambda>pos0.
       if pos0 + 10 > length pkt then Inl PacketTooShort
       else let rtype = from_be16 (pkt ! pos0) (pkt ! (pos0 + 1));
                class = from_be16 (pkt ! (pos0 + 2)) (pkt ! (pos0 + 3));
                rdlen = unat (from_be16 (pkt ! (pos0 + 8)) (pkt ! (pos0 + 9)));
                pos = pos0 + (10 + rdlen)
            in if pos > length pkt then Inl UnexpectedEof
               else (case decide i rtype class q of
                       Keep \<Rightarrow> find_elided n pkt an ns decide q (i + 1) pos c
                     | Stop \<Rightarrow> Inr ([], c)
                     | Remove \<Rightarrow>
                         and_then (find_elided n pkt an ns decide q (i + 1) pos (chop_at an ns i c))
                           (\<lambda>(elided, c'). Inr ((start, pos) # elided, c'))))"

primrec check_questions ::
    "nat \<Rightarrow> u8 list \<Rightarrow> nat \<Rightarrow> (nat \<times> nat) list \<Rightarrow> bool \<Rightarrow> (u8 list \<times> nat) option" where
  "check_questions 0 work p elided fixup = Some (work, p)"
| "check_questions (Suc n) work p elided fixup =
     (case check_name work p elided fixup of
        None \<Rightarrow> None
      | Some (work', p') \<Rightarrow> check_questions n work' (p' + 4) elided fixup)"

definition check_packet ::
    "nat \<Rightarrow> nat \<Rightarrow> u8 list \<Rightarrow> (nat \<times> nat) list \<Rightarrow> bool \<Rightarrow> u8 list option" where
  "check_packet qd n_rrs work elided fixup =
     (case check_questions qd work 12 elided fixup of
        None \<Rightarrow> None
      | Some (work', p) \<Rightarrow> check_rrs n_rrs work' p elided fixup)"

text \<open>Pass 4.\<close>

fun compact :: "u8 list \<Rightarrow> nat \<Rightarrow> (nat \<times> nat) list \<Rightarrow> u8 list" where
  "compact work cursor [] = drop cursor work"
| "compact work cursor ((s, e) # elided) = take (s - cursor) (drop cursor work) @ compact work e elided"

definition put_counts :: "u8 list \<Rightarrow> u16 \<Rightarrow> u16 \<Rightarrow> u16 \<Rightarrow> u8 list" where
  "put_counts out new_an new_ns new_ar =
     copy_at (copy_at (copy_at out 6 (to_be16 new_an)) 8 (to_be16 new_ns)) 10 (to_be16 new_ar)"

definition elide :: "u8 list \<Rightarrow> dns_header \<Rightarrow> (nat \<times> nat) list \<Rightarrow> chops \<Rightarrow> u8 list \<times> nat" where
  "elide pkt hdr elided c =
     (let n_rrs = unat (ancount hdr) + unat (nscount hdr) + unat (arcount hdr);
          qd = unat (qdcount hdr)
      in case check_packet qd n_rrs pkt elided False of
           None \<Rightarrow> (pkt, 0)
         | Some work \<Rightarrow>
             (case check_packet qd n_rrs work elided True of
                None \<Rightarrow> (pkt, 0)
              | Some work' \<Rightarrow>
                  (put_counts (compact work' 0 elided) (ancount hdr - chop_an c)
                     (nscount hdr - chop_ns c) (arcount hdr - chop_ar c), length elided)))"

definition filter_with :: "u8 list \<Rightarrow> decider \<Rightarrow> dns_error + (u8 list \<times> nat)" where
  "filter_with pkt decide =
     and_then (ok_or PacketTooShort (header_from_bytes pkt)) (\<lambda>hdr.
       if qdcount hdr \<noteq> 1 then Inr (pkt, 0)
       else and_then (skip_questions_to pkt (unat (qdcount hdr)) 12) (\<lambda>pos.
            and_then (skip_name pkt 12) (\<lambda>qpos.
            if qpos + 4 > length pkt then Inl PacketTooShort
            else let q = \<lparr>qk_qtype = from_be16 (pkt ! qpos) (pkt ! (qpos + 1)),
                          qk_qclass = from_be16 (pkt ! (qpos + 2)) (pkt ! (qpos + 3))\<rparr>;
                     an = unat (ancount hdr); ns = unat (nscount hdr);
                     n_rrs = an + ns + unat (arcount hdr)
                 in and_then (find_elided n_rrs pkt an ns decide q 0 pos
                                \<lparr>chop_an = 0, chop_ns = 0, chop_ar = 0\<rparr>) (\<lambda>(elided, c).
                    if elided = [] then Inr (pkt, 0) else Inr (elide pkt hdr elided c)))))"

section \<open>The filters\<close>

definition filter_rr_types :: "u8 list \<Rightarrow> u16 list \<Rightarrow> dns_error + u8 list" where
  "filter_rr_types pkt remove_types =
     (if length pkt < 12 then Inl PacketTooShort
      else if remove_types = [] then Inr pkt
      else and_then (ok_or PacketTooShort (header_from_bytes pkt)) (\<lambda>hdr.
        let additional_start = unat (ancount hdr) + unat (nscount hdr)
        in and_then (filter_with pkt (\<lambda>i rtype _ _.
             if i < additional_start \<or> rtype \<notin> set remove_types then Keep else Remove))
           (\<lambda>(out, _). Inr out)))"

definition is_dnssec_type :: "u16 \<Rightarrow> bool" where
  "is_dnssec_type rtype \<longleftrightarrow>
     rtype = rrtype_code RR_RRSIG \<or> rtype = rrtype_code RR_NSEC \<or> rtype = rrtype_code RR_NSEC3"

definition strip_dnssec_if_not_requested :: "u8 list \<Rightarrow> dns_error + u8 list" where
  "strip_dnssec_if_not_requested pkt =
     (if (case find_pseudoheader pkt of Some info \<Rightarrow> ei_flags info AND 0x8000 \<noteq> 0 | None \<Rightarrow> False)
      then Inr pkt
      else and_then (ok_or PacketTooShort (header_from_bytes pkt)) (\<lambda>hdr.
        and_then (filter_with pkt (\<lambda>i rtype class q.
            if \<not> is_dnssec_type rtype then Keep
            else if i < unat (ancount hdr) \<and> rtype = qk_qtype q \<and> class = qk_qclass q then Keep
            else Remove))
          (\<lambda>(out, _). Inr out)))"


section \<open>Where the kept octets go\<close>

text \<open>Ranges in ascending order, disjoint, from \<open>lo\<close> to the end of a buffer of length \<open>n\<close>.\<close>

fun ranges_ok :: "nat \<Rightarrow> (nat \<times> nat) list \<Rightarrow> nat \<Rightarrow> bool" where
  "ranges_ok lo [] n \<longleftrightarrow> lo \<le> n"
| "ranges_ok lo ((s, e) # rs) n \<longleftrightarrow> lo \<le> s \<and> s \<le> e \<and> ranges_ok e rs n"

lemma ranges_ok_le: "ranges_ok lo rs n \<Longrightarrow> lo \<le> n"
  by (induction lo rs n rule: ranges_ok.induct) auto

lemma ranges_ok_mono: "ranges_ok lo rs n \<Longrightarrow> lo' \<le> lo \<Longrightarrow> ranges_ok lo' rs n"
  by (cases rs) auto

definition elided_octets :: "(nat \<times> nat) list \<Rightarrow> nat" where
  "elided_octets rs = sum_list (map (\<lambda>(s, e). e - s) rs)"

lemma length_compact:
  "ranges_ok cur rs (length w) \<Longrightarrow> length (compact w cur rs) + elided_octets rs = length w - cur"
proof (induction cur rs "length w" rule: ranges_ok.induct)
  case (2 lo s e rs)
  then have "e \<le> length w" using ranges_ok_le [of e rs "length w"] by simp
  with 2 have "length (take (s - lo) (drop lo w)) = s - lo" by auto
  moreover have "elided_octets ((s, e) # rs) = (e - s) + elided_octets rs"
    by (simp add: elided_octets_def)
  ultimately show ?case using 2 \<open>e \<le> length w\<close> by simp
qed (simp add: elided_octets_def)

lemma shift_offset_by_nth:
  assumes "ranges_ok cur rs (length w)" and "delta \<le> cur" and "cur \<le> off" and "off < length w"
    and "shift_offset_by delta rs off = Some off'"
  shows "cur - delta \<le> off' \<and> off' - (cur - delta) < length (compact w cur rs)
       \<and> compact w cur rs ! (off' - (cur - delta)) = w ! off"
  using assms
proof (induction delta rs off arbitrary: cur rule: shift_offset_by.induct)
  case (1 delta off)
  then show ?case by (auto simp: diff_diff_eq2)
next
  case (2 delta s e rs off)
  have r: "cur \<le> s" "s \<le> e" "ranges_ok e rs (length w)" using "2.prems"(1) by simp_all
  then have e: "e \<le> length w" by (simp add: ranges_ok_le)
  show ?case
  proof (cases "off < s")
    case True
    with "2.prems" r e show ?thesis by (auto simp: nth_append)
  next
    case False
    with "2.prems"(5) have off: "e \<le> off" and rest: "shift_offset_by (delta + (e - s)) rs off = Some off'"
      by (auto split: if_splits)
    have "e - (delta + (e - s)) = s - delta" using r "2.prems"(2) by simp
    moreover have "delta + (e - s) \<le> e" using r "2.prems"(2) by simp
    ultimately have IH: "s - delta \<le> off'" "off' - (s - delta) < length (compact w e rs)"
      "compact w e rs ! (off' - (s - delta)) = w ! off"
      using "2.IH" [OF False _ r(3) _ off "2.prems"(4) rest] off by simp_all
    have "off' - (cur - delta) = (s - cur) + (off' - (s - delta))"
      using IH(1) r "2.prems"(2) by simp
    with IH r e "2.prems"(2) show ?thesis by (auto simp: nth_append)
  qed
qed

text \<open>The subtraction in \<open>shift_offset\<close> never underflows.\<close>

lemma shift_offset_by_le:
  "ranges_ok cur rs n \<Longrightarrow> delta \<le> cur \<Longrightarrow> cur \<le> off \<Longrightarrow> shift_offset_by delta rs off = Some off' \<Longrightarrow>
     off' \<le> off"
  by (induction delta rs off arbitrary: cur rule: shift_offset_by.induct) (auto split: if_splits)

section \<open>What the passes leave alone\<close>

lemma find_elided_ranges:
  "find_elided n pkt an ns decide q i pos c = Inr (rs, c') \<Longrightarrow> pos \<le> length pkt \<Longrightarrow>
     ranges_ok pos rs (length pkt) \<and> (\<forall>(s, e) \<in> set rs. s + 10 \<le> e)"
proof (induction n arbitrary: i pos c rs)
  case (Suc n)
  then obtain pos0 where skip: "skip_name pkt pos = Inr pos0" by (cases "skip_name pkt pos") auto
  note b = skip_name_bounds [OF skip]
  define pos' where "pos' = pos0 + (10 + unat (from_be16 (pkt ! (pos0 + 8)) (pkt ! (pos0 + 9))))"
  let ?t = "from_be16 (pkt ! pos0) (pkt ! (pos0 + 1))"
    and ?k = "from_be16 (pkt ! (pos0 + 2)) (pkt ! (pos0 + 3))"
  have pos': "pos + 10 \<le> pos'" using b by (simp add: pos'_def)
  from Suc.prems(1) have le: "pos' \<le> length pkt" and
    step: "(case decide i ?t ?k q of
       Keep \<Rightarrow> find_elided n pkt an ns decide q (i + 1) pos' c
     | Stop \<Rightarrow> Inr ([], c)
     | Remove \<Rightarrow> and_then (find_elided n pkt an ns decide q (i + 1) pos' (chop_at an ns i c))
                  (\<lambda>(rs, c'). Inr ((pos, pos') # rs, c'))) = Inr (rs, c')"
    by (simp_all only: find_elided.simps skip and_then.simps Let_def pos'_def not_less sum.distinct split: if_splits)
  show ?case
  proof (cases "decide i ?t ?k q")
    case Keep
    with step Suc.IH [of "i + 1" pos' c rs] le pos' show ?thesis by (auto intro: ranges_ok_mono)
  next
    case Remove
    with step obtain rs' where
      "find_elided n pkt an ns decide q (i + 1) pos' (chop_at an ns i c) = Inr (rs', c')"
      "rs = (pos, pos') # rs'" by auto
    with Suc.IH [of "i + 1" pos' "chop_at an ns i c" rs'] le pos' show ?thesis by auto
  next
    case Stop
    with step Suc.prems(2) show ?thesis by simp
  qed
qed simp

lemma length_put_pointer [simp]: "length (put_pointer pkt pos x) = length pkt"
  by (simp add: put_pointer_def)

lemma take_put_pointer: "k \<le> pos \<Longrightarrow> take k (put_pointer pkt pos x) = take k pkt"
  by (simp add: put_pointer_def)

text \<open>A name walk keeps the length and every octet in front of it.\<close>

lemma check_name_frame:
  "check_name pkt pos rs fixup = Some (pkt', pos') \<Longrightarrow>
     length pkt' = length pkt \<and> pos < pos' \<and> pos' \<le> length pkt \<and> (\<forall>k \<le> pos. take k pkt' = take k pkt)"
proof (induction pkt pos rs fixup rule: check_name.induct)
  case (1 pkt pos rs fixup)
  let ?b = "pkt ! pos"
  note eq = "1.prems" [unfolded check_name.simps [of pkt pos rs fixup] Let_def]
  from eq have in_pkt: "\<not> pos \<ge> length pkt" by (simp split: if_splits)
  consider "?b AND 0xC0 = 0xC0" | "?b AND 0xC0 = 0x80" | "?b AND 0xC0 \<noteq> 0xC0" "?b AND 0xC0 \<noteq> 0x80" "?b AND 0xC0 = 0x40"
    | "?b AND 0xC0 \<noteq> 0xC0" "?b AND 0xC0 \<noteq> 0x80" "?b AND 0xC0 \<noteq> 0x40"
    by blast
  then show ?case
  proof cases
    case 1
    with eq in_pkt show ?thesis
      by (auto split: if_splits option.splits simp: take_put_pointer)
  next
    case 2
    with eq in_pkt show ?thesis by simp
  next
    case 3
    define bytes where "bytes = (if unat (pkt ! (pos + 1)) = 0 then 32 else drop_bit 3 (unat (pkt ! (pos + 1)) - 1) + 1)"
    from eq in_pkt 3 have g: "\<not> (pos + 2 > length pkt \<or> ?b AND 0x3F \<noteq> 1)" "\<not> pos + 2 + bytes > length pkt"
      and rest: "check_name pkt (pos + 2 + bytes) rs fixup = Some (pkt', pos')"
      by (auto simp: bytes_def split: if_splits)
    from "1.IH"(1) [OF in_pkt refl 3 g(1) refl bytes_def g(2) rest] show ?thesis by auto
  next
    case 4
    from eq in_pkt 4 have g: "\<not> pos + 1 + unat (?b AND 0x3F) > length pkt" by (auto split: if_splits)
    show ?thesis
    proof (cases "unat (?b AND 0x3F) = 0")
      case True
      with eq in_pkt 4 g show ?thesis by (auto split: if_splits)
    next
      case False
      with eq in_pkt 4 g have rest: "check_name pkt (pos + 1 + unat (?b AND 0x3F)) rs fixup = Some (pkt', pos')"
        by (auto split: if_splits)
      from "1.IH"(2) [OF in_pkt refl 4 refl g False rest] show ?thesis by auto
    qed
  qed
qed

definition frame :: "nat \<Rightarrow> u8 list \<Rightarrow> u8 list \<Rightarrow> bool" where
  "frame k pkt pkt' \<longleftrightarrow> length pkt' = length pkt \<and> take k pkt' = take k pkt"

lemma frame_refl [simp]: "frame k pkt pkt"
  by (simp add: frame_def)

lemma frame_trans: "frame k a b \<Longrightarrow> frame k b c \<Longrightarrow> frame k a c"
  by (simp add: frame_def)

lemma check_name_frameD:
  "check_name pkt pos rs fixup = Some (pkt', pos') \<Longrightarrow> k \<le> pos \<Longrightarrow> frame k pkt pkt' \<and> pos < pos'"
  using check_name_frame [of pkt pos rs fixup pkt' pos'] by (auto simp: frame_def)

lemma check_rdata_frame:
  "check_rdata pkt pos steps rs fixup = Some pkt' \<Longrightarrow> k \<le> pos \<Longrightarrow> frame k pkt pkt'"
proof (induction pkt pos steps rs fixup rule: check_rdata.induct)
  case (2 pkt pos step steps rs fixup)
  show ?case
  proof (cases "step = 0")
    case True
    with "2.prems" obtain p q where n: "check_name pkt pos rs fixup = Some (p, q)"
      and rest: "check_rdata p q steps rs fixup = Some pkt'"
      by (auto split: option.splits)
    have "frame k pkt p" "k \<le> q" using check_name_frameD [OF n, of k] "2.prems"(2) by auto
    moreover have "frame k p pkt'" using "2.IH"(2) [OF _ n refl rest] True \<open>k \<le> q\<close> by simp
    ultimately show ?thesis by (blast intro: frame_trans)
  next
    case False
    with "2.prems" "2.IH"(1) show ?thesis by (auto split: if_splits)
  qed
qed simp

lemma check_rr_frame:
  assumes "check_rr pkt s p t c rs fixup = Some pkt'" and "k \<le> s" and "k \<le> p"
  shows "frame k pkt pkt'"
  using assms check_name_frameD [of pkt s rs fixup _ _ k] check_rdata_frame [of _ p "rrfilter_desc t" rs fixup pkt' k]
  by (auto simp: check_rr_def split: option.splits if_splits intro: frame_trans)

lemma check_rrs_frame:
  "check_rrs n pkt pos rs fixup = Some pkt' \<Longrightarrow> k \<le> pos \<Longrightarrow> frame k pkt pkt'"
proof (induction n arbitrary: pkt pos)
  case (Suc n)
  from Suc.prems(1) obtain pos0 where skip: "skip_name pkt pos = Inr pos0"
    by (auto split: sum.splits)
  note b = skip_name_bounds [OF skip]
  let ?t = "from_be16 (pkt ! pos0) (pkt ! (pos0 + 1))"
    and ?c = "from_be16 (pkt ! (pos0 + 2)) (pkt ! (pos0 + 3))"
    and ?l = "unat (from_be16 (pkt ! (pos0 + 8)) (pkt ! (pos0 + 9)))"
  note eq = Suc.prems(1) [unfolded check_rrs.simps skip sum.case Let_def]
  let ?one = "if list_ex (\<lambda>(s, _). s = pos) rs then Some pkt
    else check_rr pkt pos (pos0 + 10) ?t ?c rs fixup"
  have "?one \<noteq> None"
  proof
    assume none: "?one = None"
    show False using eq unfolding none by (simp split: if_splits)
  qed
  then obtain p where one: "?one = Some p" by blast
  from eq have rest: "check_rrs n p (pos0 + 10 + ?l) rs fixup = Some pkt'"
    unfolding one option.case by (simp only: option.distinct split: if_splits)
  have "frame k pkt p"
    using one check_rr_frame [of pkt pos "pos0 + 10" _ _ rs fixup p k] Suc.prems(2) b
    by (auto split: if_splits)
  moreover have "frame k p pkt'"
    using Suc.IH [OF rest] Suc.prems(2) b by simp
  ultimately show ?case by (rule frame_trans)
qed simp

lemma check_questions_frame:
  "check_questions n pkt pos rs fixup = Some (pkt', pos') \<Longrightarrow> k \<le> pos \<Longrightarrow> frame k pkt pkt' \<and> k \<le> pos'"
proof (induction n arbitrary: pkt pos)
  case (Suc n)
  then obtain p q where n: "check_name pkt pos rs fixup = Some (p, q)"
    and rest: "check_questions n p (q + 4) rs fixup = Some (pkt', pos')"
    by (auto split: option.splits)
  have "frame k pkt p" "k \<le> q" using check_name_frameD [OF n, of k] Suc.prems(2) by auto
  with Suc.IH [OF rest] show ?case by (auto intro: frame_trans)
qed simp

lemma check_packet_frame: "check_packet qd n pkt rs fixup = Some pkt' \<Longrightarrow> frame 12 pkt pkt'"
  using check_questions_frame [of qd pkt 12 rs fixup _ _ 12] check_rrs_frame [of n _ _ rs fixup pkt' 12]
  by (fastforce simp: check_packet_def split: option.splits intro: frame_trans)

section \<open>Counts\<close>

definition chops_ok :: "nat \<Rightarrow> nat \<Rightarrow> nat \<Rightarrow> nat \<Rightarrow> chops \<Rightarrow> bool" where
  "chops_ok an ns ar i c \<longleftrightarrow>
     unat (chop_an c) \<le> min i an \<and> unat (chop_ns c) \<le> min (i - an) ns
     \<and> unat (chop_ar c) \<le> min (i - an - ns) ar"

definition chop_sum :: "chops \<Rightarrow> nat" where
  "chop_sum c = unat (chop_an c) + unat (chop_ns c) + unat (chop_ar c)"

lemma unat_Suc_u16: "unat (x :: u16) < 65535 \<Longrightarrow> unat (x + 1) = unat x + 1"
  using unat_add_lem [of x 1] by simp

lemma chops_ok_later: "chops_ok an ns ar i c \<Longrightarrow> i \<le> j \<Longrightarrow> chops_ok an ns ar j c"
  by (auto simp: chops_ok_def)

lemma chop_at_ok:
  assumes "chops_ok an ns ar i c" and "i < an + ns + ar" and "an \<le> 65535" "ns \<le> 65535" "ar \<le> 65535"
  shows "chops_ok an ns ar (i + 1) (chop_at an ns i c) \<and> chop_sum (chop_at an ns i c) = chop_sum c + 1"
  using assms unat_Suc_u16 [of "chop_an c"] unat_Suc_u16 [of "chop_ns c"] unat_Suc_u16 [of "chop_ar c"]
  by (auto simp: chops_ok_def chop_at_def chop_sum_def)

lemma find_elided_chops:
  assumes "an \<le> 65535" "ns \<le> 65535" "ar \<le> 65535"
  shows "find_elided n pkt an ns decide q i pos c = Inr (rs, c') \<Longrightarrow> chops_ok an ns ar i c \<Longrightarrow>
     i + n = an + ns + ar \<Longrightarrow> chops_ok an ns ar (i + n) c' \<and> chop_sum c' = chop_sum c + length rs"
proof (induction n arbitrary: i pos c rs)
  case (Suc n)
  from Suc.prems(1) obtain pos0 where skip: "skip_name pkt pos = Inr pos0" by (cases "skip_name pkt pos") auto
  let ?t = "from_be16 (pkt ! pos0) (pkt ! (pos0 + 1))"
    and ?k = "from_be16 (pkt ! (pos0 + 2)) (pkt ! (pos0 + 3))"
    and ?pos = "pos0 + (10 + unat (from_be16 (pkt ! (pos0 + 8)) (pkt ! (pos0 + 9))))"
  from Suc.prems(1) have step: "(case decide i ?t ?k q of
       Keep \<Rightarrow> find_elided n pkt an ns decide q (i + 1) ?pos c
     | Stop \<Rightarrow> Inr ([], c)
     | Remove \<Rightarrow> and_then (find_elided n pkt an ns decide q (i + 1) ?pos (chop_at an ns i c))
                  (\<lambda>(rs, c'). Inr ((pos, ?pos) # rs, c'))) = Inr (rs, c')"
    by (simp only: find_elided.simps skip and_then.simps Let_def sum.distinct split: if_splits)
  have i: "i < an + ns + ar" "i + 1 + n = an + ns + ar" using Suc.prems(3) by simp_all
  show ?case
  proof (cases "decide i ?t ?k q")
    case Keep
    with step Suc.IH [of "i + 1" ?pos c rs] i chops_ok_later [OF Suc.prems(2), of "i + 1"]
    show ?thesis by simp
  next
    case Remove
    with step obtain rs' where
      "find_elided n pkt an ns decide q (i + 1) ?pos (chop_at an ns i c) = Inr (rs', c')"
      "rs = (pos, ?pos) # rs'" by auto
    with Suc.IH [of "i + 1" ?pos "chop_at an ns i c" rs'] chop_at_ok [OF Suc.prems(2) i(1) assms] i(2)
    show ?thesis by simp
  next
    case Stop
    with step Suc.prems(2) show ?thesis by (auto intro: chops_ok_later)
  qed
qed simp

section \<open>The effect on any packet\<close>

lemma header_from_bytes_take: "12 \<le> length pkt \<Longrightarrow> header_from_bytes pkt = header_from_bytes (take 12 pkt)"
  by (simp add: header_from_bytes_def)

lemma header_split: "header_from_bytes pkt = Some h \<Longrightarrow> pkt = header_to_bytes h @ drop 12 pkt"
  using header_to_from_bytes [of pkt h] by simp

lemma put_counts_header:
  "put_counts (header_to_bytes h @ rest) a b c = header_to_bytes (h\<lparr>ancount := a, nscount := b, arcount := c\<rparr>) @ rest"
  by (simp add: put_counts_def copy_at_def header_to_bytes_def to_be16_def)

lemma compact_take:
  assumes "ranges_ok k rs (length w)"
  shows "take k (compact w 0 rs) = take k w"
  using assms ranges_ok_le [OF assms] by (cases rs) (auto simp: min_def dest: ranges_ok_le)

lemma compact_header:
  assumes "ranges_ok 12 rs (length w)" and "header_from_bytes pkt = Some h" and "frame 12 pkt w"
  shows "\<exists>rest. compact w 0 rs = header_to_bytes h @ rest"
proof -
  have "take 12 (compact w 0 rs) = header_to_bytes h"
    using compact_take [OF assms(1)] assms(3) header_to_from_bytes [OF assms(2)] by (simp add: frame_def)
  then show ?thesis using append_take_drop_id [of 12 "compact w 0 rs"] by metis
qed

lemma skip_questions_to_bounds:
  "skip_questions_to pkt n off = Inr off' \<Longrightarrow> off \<le> length pkt \<Longrightarrow> off \<le> off' \<and> off' \<le> length pkt"
proof (induction n arbitrary: off)
  case (Suc n)
  then obtain o1 where skip: "skip_name pkt off = Inr o1" by (cases "skip_name pkt off") auto
  from Suc.prems(1) skip have "o1 + 4 \<le> length pkt" "skip_questions_to pkt n (o1 + 4) = Inr off'"
    by (auto split: if_splits)
  with Suc.IH [of "o1 + 4"] skip_name_bounds [OF skip] show ?case by simp
qed simp

lemma elided_octets_ge: "\<forall>(s, e) \<in> set rs. s + k \<le> e \<Longrightarrow> k * length rs \<le> elided_octets rs"
  by (induction rs) (auto simp: elided_octets_def)

lemma elide_shape:
  assumes hdr: "header_from_bytes pkt = Some h" and rs: "ranges_ok 12 rs (length pkt)"
    "\<forall>(s, e) \<in> set rs. s + 10 \<le> e"
  shows "elide pkt h rs c = (pkt, 0)
     \<or> (\<exists>rest. elide pkt h rs c
           = (header_to_bytes (h\<lparr>ancount := ancount h - chop_an c, nscount := nscount h - chop_ns c,
                                 arcount := arcount h - chop_ar c\<rparr>) @ rest, length rs)
         \<and> 12 + length rest + 10 * length rs \<le> length pkt)"
proof (cases "snd (elide pkt h rs c) = 0 \<and> fst (elide pkt h rs c) = pkt")
  case False
  let ?qd = "unat (qdcount h)" and ?n = "unat (ancount h) + unat (nscount h) + unat (arcount h)"
  from False obtain w w' where w: "check_packet ?qd ?n pkt rs False = Some w"
    and w': "check_packet ?qd ?n w rs True = Some w'"
    by (auto simp: elide_def Let_def split: option.splits)
  have f: "frame 12 pkt w'" using check_packet_frame [OF w] check_packet_frame [OF w'] by (rule frame_trans)
  then have rs': "ranges_ok 12 rs (length w')" using rs(1) by (simp add: frame_def)
  obtain rest where rest: "compact w' 0 rs = header_to_bytes h @ rest"
    using compact_header [OF rs' hdr f] by blast
  have "length (compact w' 0 rs) + elided_octets rs = length pkt"
    using length_compact [OF ranges_ok_mono [OF rs', of 0]] f by (simp add: frame_def)
  with elided_octets_ge [OF rs(2)] rest have "12 + length rest + 10 * length rs \<le> length pkt" by simp
  then show ?thesis
    using w w' rest put_counts_header [of h rest] by (simp add: elide_def Let_def)
qed (metis prod.collapse)

lemma filter_with_cases:
  assumes "filter_with pkt decide = Inr (out, removed)" and "header_from_bytes pkt = Some h"
  shows "out = pkt \<and> removed = 0 \<or>
    (\<exists>pos q rs c. find_elided (unat (ancount h) + unat (nscount h) + unat (arcount h)) pkt
        (unat (ancount h)) (unat (nscount h)) decide q 0 pos \<lparr>chop_an = 0, chop_ns = 0, chop_ar = 0\<rparr>
        = Inr (rs, c) \<and> 12 \<le> pos \<and> pos \<le> length pkt \<and> rs \<noteq> [] \<and> elide pkt h rs c = (out, removed))"
proof -
  have "12 \<le> length pkt" using assms(2) by (simp add: header_from_bytes_def split: if_splits)
  then have b: "skip_questions_to pkt n 12 = Inr pos \<Longrightarrow> 12 \<le> pos \<and> pos \<le> length pkt" for n pos
    using skip_questions_to_bounds [of pkt n 12 pos] by simp
  show ?thesis
  proof (cases "qdcount h = 1")
    case False
    with assms show ?thesis by (simp add: filter_with_def)
  next
    case True
    with assms obtain pos qpos where pos: "skip_questions_to pkt (unat (qdcount h)) 12 = Inr pos"
      and qpos: "skip_name pkt 12 = Inr qpos"
      by (simp add: filter_with_def) blast
    from assms pos qpos True show ?thesis
      using b [OF pos]
      by (simp add: filter_with_def Let_def del: skip_questions_to.simps split: if_splits) blast+
  qed
qed

lemma unat_sub_le: "unat b \<le> unat (a :: u16) \<Longrightarrow> unat (a - b) = unat a - unat b"
  by (simp add: unat_sub word_le_nat_alt)

lemma filter_with_shape:
  assumes "filter_with pkt decide = Inr (out, removed)" and "header_from_bytes pkt = Some h"
  shows "out = pkt \<and> removed = 0 \<or>
    (\<exists>h' rest. out = header_to_bytes h' @ rest \<and> hdr_id h' = hdr_id h \<and> hb3 h' = hb3 h \<and> hb4 h' = hb4 h
       \<and> qdcount h' = qdcount h
       \<and> unat (ancount h') + unat (nscount h') + unat (arcount h') + removed
           = unat (ancount h) + unat (nscount h) + unat (arcount h)
       \<and> 0 < removed \<and> length out + 10 * removed \<le> length pkt)"
  using filter_with_cases [OF assms]
proof (elim disjE exE conjE)
  fix pos q rs c
  let ?an = "unat (ancount h)" and ?ns = "unat (nscount h)" and ?ar = "unat (arcount h)"
  assume find: "find_elided (?an + ?ns + ?ar) pkt ?an ?ns decide q 0 pos
      \<lparr>chop_an = 0, chop_ns = 0, chop_ar = 0\<rparr> = Inr (rs, c)"
    and pos: "12 \<le> pos" "pos \<le> length pkt" and "rs \<noteq> []" and elide: "elide pkt h rs c = (out, removed)"
  have bounds: "?an \<le> 65535" "?ns \<le> 65535" "?ar \<le> 65535"
    using unat_u16 [of "ancount h"] unat_u16 [of "nscount h"] unat_u16 [of "arcount h"] by linarith+
  have "ranges_ok 12 rs (length pkt)" "\<forall>(s, e) \<in> set rs. s + 10 \<le> e"
    using find_elided_ranges [OF find pos(2)] pos(1) by (auto intro: ranges_ok_mono)
  note shape = elide_shape [OF assms(2) this, of c]
  have "chops_ok ?an ?ns ?ar (?an + ?ns + ?ar) c" and sum: "chop_sum c = length rs"
    using find_elided_chops [OF bounds find] by (simp_all add: chops_ok_def chop_sum_def)
  then have "unat (chop_an c) \<le> ?an" "unat (chop_ns c) \<le> ?ns" "unat (chop_ar c) \<le> ?ar"
    by (simp_all add: chops_ok_def)
  then have "unat (ancount h - chop_an c) + unat (nscount h - chop_ns c) + unat (arcount h - chop_ar c)
      + length rs = ?an + ?ns + ?ar"
    using sum by (simp add: unat_sub_le chop_sum_def)
  with shape elide \<open>rs \<noteq> []\<close> show ?thesis by auto
qed blast

section \<open>Messages without compression\<close>

text \<open>What is behind a name made of plain labels only.\<close>

function plain_rest :: "u8 list \<Rightarrow> u8 list option" where
  "plain_rest [] = None"
| "plain_rest (b # bs) =
     (if b = 0 then Some bs
      else if unat b < 64 \<and> unat b \<le> length bs then plain_rest (drop (unat b) bs)
      else None)"
  by pat_completeness auto
termination
  by (relation "measure length") auto

declare plain_rest.simps(2) [simp del]

lemma plain_octet:
  fixes b :: u8
  assumes "unat b < 64"
  shows "b AND 0xC0 = 0" "b AND 0x3F = b"
proof -
  have "unat b < 2 ^ 6" using assms by simp
  then have t: "take_bit 6 b = b"
    by (simp only: word_unat_eq_iff unsigned_take_bit_eq take_bit_nat_eq_self)
  then have m: "b AND mask 6 = b" by (simp add: take_bit_eq_mask)
  then show "b AND 0x3F = b" by (simp add: mask_numeral)
  have "b AND 0xC0 = (b AND mask 6) AND 0xC0" by (simp only: m)
  also have "\<dots> = b AND (mask 6 AND 0xC0)" by (simp only: and.assoc)
  finally show "b AND 0xC0 = 0" by (simp add: mask_numeral)
qed

lemma take_drop_append [simp]: "take n xs @ drop n xs @ ys = xs @ ys"
  by (simp add: append_assoc [symmetric] del: append_assoc)

lemma check_name_plain:
  "plain_rest d = Some rest \<Longrightarrow>
     check_name (pre @ d @ post) (length pre) rs fixup = Some (pre @ d @ post, length pre + (length d - length rest))
     \<and> (\<exists>n. d = n @ rest)"
proof (induction d arbitrary: pre rule: plain_rest.induct)
  case (2 b bs)
  show ?case
  proof (cases "b = 0")
    case True
    with "2.prems" show ?thesis by (simp add: plain_rest.simps check_name.simps)
  next
    case False
    with "2.prems" have g: "unat b < 64 \<and> unat b \<le> length bs" and rest: "plain_rest (drop (unat b) bs) = Some rest"
      by (auto simp: plain_rest.simps split: if_splits)
    have bs: "bs = take (unat b) bs @ drop (unat b) bs" by simp
    have IH: "check_name (pre @ (b # bs) @ post) (length pre + 1 + unat b) rs fixup
        = Some (pre @ (b # bs) @ post, length pre + 1 + unat b + (length bs - unat b - length rest))"
      and "\<exists>n. drop (unat b) bs = n @ rest"
      using "2.IH" [OF False g rest, of "pre @ b # take (unat b) bs"] g by simp_all
    then obtain n where n: "drop (unat b) bs = n @ rest" by blast
    have len: "length bs = unat b + length n + length rest" using arg_cong [OF n, of length] g by auto
    have b: "b AND 0xC0 = 0" "b AND 0x3F = b" using g by (simp_all add: plain_octet)
    have "check_name (pre @ (b # bs) @ post) (length pre) rs fixup
        = Some (pre @ (b # bs) @ post, length pre + 1 + unat b + (length bs - unat b - length rest))"
      unfolding check_name.simps [of "pre @ (b # bs) @ post" "length pre"]
      using IH b g False by (simp add: Let_def unat_eq_0)
    moreover have "length pre + 1 + unat b + (length bs - unat b - length rest)
        = length pre + (length (b # bs) - length rest)" using len by simp
    moreover have "\<exists>n'. b # bs = n' @ rest" using n bs by (metis append_Cons append_assoc)
    ultimately show ?thesis by metis
  qed
qed simp

lemma plain_rest_labels: "list_all label_ok ls \<Longrightarrow> plain_rest (labels_wire ls @ 0 # rest) = Some rest"
proof (induction ls)
  case (Cons l ls)
  then have "label_ok l" by simp
  with label_octet [OF this] Cons show ?case by (simp add: plain_rest.simps label_ok_def)
qed (simp add: plain_rest.simps)

lemma plain_rest_name: "name_ok n \<Longrightarrow> plain_rest (name_wire n @ rest) = Some rest"
  using plain_rest_labels [of "split_on DOT n" rest] plain_rest_labels [of "[]" rest]
  by (auto simp: name_ok_def name_wire_def)

fun desc_ok :: "nat list \<Rightarrow> u8 list \<Rightarrow> bool" where
  "desc_ok [] d \<longleftrightarrow> True"
| "desc_ok (s # ss) d \<longleftrightarrow>
     (if s \<noteq> 0 then s \<le> length d \<and> desc_ok ss (drop s d)
      else (case plain_rest d of None \<Rightarrow> False | Some r \<Rightarrow> desc_ok ss r))"

lemma check_rdata_plain:
  "desc_ok ss d \<Longrightarrow> check_rdata (pre @ d @ post) (length pre) ss rs fixup = Some (pre @ d @ post)"
proof (induction ss d arbitrary: pre rule: desc_ok.induct)
  case (2 s ss d)
  show ?case
  proof (cases "s = 0")
    case True
    with "2.prems" obtain r where r: "plain_rest d = Some r" "desc_ok ss r" by (auto split: option.splits)
    from check_name_plain [OF r(1)] obtain n where n: "d = n @ r" by blast
    with check_name_plain [OF r(1), of pre post rs fixup] "2.IH"(2) [of r "pre @ n"] True r show ?thesis
      by simp
  next
    case False
    with "2.prems" have "s \<le> length d" "desc_ok ss (drop s d)" by auto
    with "2.IH"(1) [of "pre @ take s d"] False show ?thesis by simp
  qed
qed simp

definition rr_plain :: "dns_rr \<Rightarrow> bool" where
  "rr_plain r \<longleftrightarrow> rr_ok r \<and> (rr_class r = 1 \<longrightarrow> desc_ok (rrfilter_desc (rr_type r)) (rr_data r))"

definition packet_plain :: "dns_packet \<Rightarrow> bool" where
  "packet_plain p \<longleftrightarrow> packet_ok p \<and> length (questions p) = 1
     \<and> list_all rr_plain (answers p @ authority p @ additional p)"

lemma check_rrs_plain:
  "list_all rr_plain rs \<Longrightarrow> fits (pre @ concat (map rr_wire rs) @ post) \<Longrightarrow>
     check_rrs (length rs) (pre @ concat (map rr_wire rs) @ post) (length pre) el fixup
       = Some (pre @ concat (map rr_wire rs) @ post)"
proof (induction rs arbitrary: pre)
  case (Cons r rs)
  let ?post = "concat (map rr_wire rs) @ post"
  let ?pkt = "pre @ rr_wire r @ ?post" and ?off = "length pre + rr_owner_len r"
  have ok: "rr_ok r" and plain: "rr_plain r" using Cons.prems by (simp_all add: rr_plain_def)
  have fits: "fits ?pkt" using Cons.prems by simp
  note f = rr_fixed_fields [OF ok]
  have nth: "?pkt ! ?off = rr_fixed r ! 0" "?pkt ! (?off + 1) = rr_fixed r ! 1"
    "?pkt ! (?off + 2) = rr_fixed r ! 2" "?pkt ! (?off + 3) = rr_fixed r ! 3"
    "?pkt ! (?off + 8) = rr_fixed r ! 8" "?pkt ! (?off + 9) = rr_fixed r ! 9"
    by (rule nth_rr_wire_0, (rule nth_rr_wire, simp)+)
  have skip: "skip_name ?pkt (length pre) = Inr ?off" by (rule skip_name_rr [OF ok fits])
  have "\<exists>x. check_name ?pkt (length pre) el fixup = Some (?pkt, x)"
    using check_name_plain [OF plain_rest_name [of "rr_name r" "rr_fixed r @ rr_data r"], of pre ?post] ok
    by (simp add: rr_ok_def rr_wire_split)
  moreover have "rr_class r = 1 \<Longrightarrow> check_rdata ?pkt (?off + 10) (rrfilter_desc (rr_type r)) el fixup = Some ?pkt"
    using check_rdata_plain [of "rrfilter_desc (rr_type r)" "rr_data r" "pre @ name_wire (rr_name r) @ rr_fixed r" ?post]
      plain by (simp add: rr_plain_def rr_wire_split add.assoc)
  ultimately have one: "check_rr ?pkt (length pre) (?off + 10) (rr_type r) (rr_class r) el fixup = Some ?pkt"
    by (auto simp: check_rr_def)
  have len: "\<not> ?off + 10 > length ?pkt" "\<not> ?off + 10 + length (rr_data r) > length ?pkt"
    by (simp_all add: length_rr_wire_eq)
  have "check_rrs (Suc (length rs)) ?pkt (length pre) el fixup
      = check_rrs (length rs) ?pkt (?off + 10 + length (rr_data r)) el fixup"
    unfolding check_rrs.simps(2) skip sum.case Let_def nth f(1,2,4)
    using len by (simp add: one)
  also have "\<dots> = Some ?pkt"
    using Cons.IH [of "pre @ rr_wire r"] Cons.prems by (simp add: length_rr_wire_eq add.assoc)
  finally show ?case by (simp del: check_rrs.simps)
qed simp

lemma check_packet_plain:
  assumes "packet_plain p"
  shows "check_packet 1 (length (answers p) + length (authority p) + length (additional p)) (packet_wire p) el fixup
           = Some (packet_wire p)"
proof -
  let ?rrs = "answers p @ authority p @ additional p"
  obtain q where q: "questions p = [q]" using assms by (auto simp: packet_plain_def length_Suc_conv)
  let ?h = "header_to_bytes (written_header p)" and ?post = "concat (map rr_wire ?rrs)"
  have ok: "packet_ok p" using assms by (simp add: packet_plain_def)
  have pkt: "packet_wire p = ?h @ question_wire q @ ?post" by (simp add: packet_wire_def q)
  have fits: "fits (packet_wire p)" using ok by (rule fits_packet_wire)
  have "name_ok (q_name q)" using ok q by (simp add: packet_ok_def question_ok_def)
  then have "check_name (packet_wire p) 12 el fixup = Some (packet_wire p, 12 + length (name_wire (q_name q)))"
    using check_name_plain [OF plain_rest_name [of "q_name q" "to_be16 (q_type q) @ to_be16 (q_class q)"], of ?h ?post]
    by (simp add: pkt question_wire_def)
  then have 1: "check_questions 1 (packet_wire p) 12 el fixup = Some (packet_wire p, 12 + length (question_wire q))"
    by (simp add: question_wire_def)
  have 2: "check_rrs (length ?rrs) (packet_wire p) (12 + length (question_wire q)) el fixup = Some (packet_wire p)"
    using check_rrs_plain [of ?rrs "?h @ question_wire q" "[]"] assms fits pkt by (simp add: packet_plain_def)
  show ?thesis using 2 unfolding check_packet_def 1 by (simp add: add.assoc)
qed

subsection \<open>Which records stay\<close>

fun marks :: "decider \<Rightarrow> question_key \<Rightarrow> nat \<Rightarrow> dns_rr list \<Rightarrow> bool list" where
  "marks d q i [] = []"
| "marks d q i (r # rs) =
     (case d i (rr_type r) (rr_class r) q of
        Keep \<Rightarrow> True # marks d q (i + 1) rs
      | Remove \<Rightarrow> False # marks d q (i + 1) rs
      | Stop \<Rightarrow> replicate (length (r # rs)) True)"

fun mark_ranges :: "bool list \<Rightarrow> u8 list list \<Rightarrow> nat \<Rightarrow> (nat \<times> nat) list" where
  "mark_ranges (m # ms) (w # ws) off =
     (if m then [] else [(off, off + length w)]) @ mark_ranges ms ws (off + length w)"
| "mark_ranges _ _ off = []"

fun mark_chops :: "nat \<Rightarrow> nat \<Rightarrow> nat \<Rightarrow> bool list \<Rightarrow> chops \<Rightarrow> chops" where
  "mark_chops an ns i [] c = c"
| "mark_chops an ns i (m # ms) c = mark_chops an ns (i + 1) ms (if m then c else chop_at an ns i c)"

fun kept :: "bool list \<Rightarrow> 'a list \<Rightarrow> 'a list" where
  "kept (m # ms) (x # xs) = (if m then x # kept ms xs else kept ms xs)"
| "kept _ _ = []"

definition falses :: "bool list \<Rightarrow> nat" where
  "falses ms = length (filter Not ms)"

lemma length_marks [simp]: "length (marks d q i rs) = length rs"
  by (induction d q i rs rule: marks.induct) (auto split: verdict.split)

lemma mark_ranges_True [simp]: "mark_ranges (replicate n True) ws off = []"
proof (induction n arbitrary: ws off)
  case (Suc n)
  then show ?case by (cases ws) simp_all
qed simp

lemma mark_chops_True [simp]: "mark_chops an ns i (replicate n True) c = c"
  by (induction n arbitrary: i) simp_all

lemma kept_True [simp]: "n = length xs \<Longrightarrow> kept (replicate n True) xs = xs"
  by (induction xs arbitrary: n) simp_all

lemma kept_append:
  "length ms = length xs \<Longrightarrow> kept (ms @ ms') (xs @ ys) = kept ms xs @ kept ms' ys"
  by (induction ms xs rule: list_induct2) simp_all

lemma kept_map: "kept ms (map f xs) = map f (kept ms xs)"
  by (induction ms xs rule: kept.induct) simp_all

lemma length_kept: "length ms = length xs \<Longrightarrow> length (kept ms xs) + falses ms = length xs"
  by (induction ms xs rule: list_induct2) (simp_all add: falses_def)

lemma find_elided_wire:
  "list_all rr_ok rs \<Longrightarrow> fits (pre @ concat (map rr_wire rs) @ post) \<Longrightarrow>
     find_elided (length rs) (pre @ concat (map rr_wire rs) @ post) an ns d q i (length pre) c
       = Inr (mark_ranges (marks d q i rs) (map rr_wire rs) (length pre), mark_chops an ns i (marks d q i rs) c)"
proof (induction rs arbitrary: pre i c)
  case (Cons r rs)
  let ?post = "concat (map rr_wire rs) @ post"
  let ?pkt = "pre @ rr_wire r @ ?post" and ?off = "length pre + rr_owner_len r"
  have ok: "rr_ok r" using Cons.prems by simp
  have fits: "fits ?pkt" using Cons.prems by simp
  note f = rr_fixed_fields [OF ok]
  have nth: "?pkt ! ?off = rr_fixed r ! 0" "?pkt ! (?off + 1) = rr_fixed r ! 1"
    "?pkt ! (?off + 2) = rr_fixed r ! 2" "?pkt ! (?off + 3) = rr_fixed r ! 3"
    "?pkt ! (?off + 8) = rr_fixed r ! 8" "?pkt ! (?off + 9) = rr_fixed r ! 9"
    by (rule nth_rr_wire_0, (rule nth_rr_wire, simp)+)
  have skip: "skip_name ?pkt (length pre) = Inr ?off" by (rule skip_name_rr [OF ok fits])
  have pos: "?off + (10 + length (rr_data r)) = length pre + length (rr_wire r)"
    by (simp add: length_rr_wire_eq)
  have len: "\<not> ?off + 10 > length ?pkt" "\<not> length pre + length (rr_wire r) > length ?pkt"
    by (simp_all add: length_rr_wire_eq)
  have IH: "find_elided (length rs) ?pkt an ns d q (i + 1) (length pre + length (rr_wire r)) c'
      = Inr (mark_ranges (marks d q (i + 1) rs) (map rr_wire rs) (length pre + length (rr_wire r)),
             mark_chops an ns (i + 1) (marks d q (i + 1) rs) c')" for c'
    using Cons.IH [of "pre @ rr_wire r" "i + 1" c'] Cons.prems by simp
  have "find_elided (Suc (length rs)) ?pkt an ns d q i (length pre) c
      = Inr (mark_ranges (marks d q i (r # rs)) (map rr_wire (r # rs)) (length pre),
             mark_chops an ns i (marks d q i (r # rs)) c)"
    unfolding find_elided.simps(2) skip and_then.simps Let_def nth f(1,2,4) pos if_not_P [OF len(1)] if_not_P [OF len(2)] IH
    by (simp del: replicate_Suc split: verdict.split)
  then show ?case by (simp del: find_elided.simps marks.simps)
qed simp

lemma compact_mark_ranges:
  "length ms = length ws \<Longrightarrow>
     compact (a @ b @ concat ws @ post) (length a) (mark_ranges ms ws (length a + length b))
       = b @ concat (kept ms ws) @ post"
proof (induction ms ws arbitrary: a b rule: list_induct2)
  case (Cons m ms w ws)
  show ?case
  proof (cases m)
    case True
    with Cons.IH [of a "b @ w"] show ?thesis by (simp add: add.assoc)
  next
    case False
    with Cons.IH [of "a @ b @ w" "[]"] show ?thesis by (simp add: add.assoc)
  qed
qed simp

lemma length_mark_ranges: "length ms = length ws \<Longrightarrow> length (mark_ranges ms ws off) = falses ms"
  by (induction ms ws arbitrary: off rule: list_induct2) (simp_all add: falses_def)

lemma falses_append: "falses (a @ b) = falses a + falses b"
  by (simp add: falses_def)

lemma mark_chops_append:
  "mark_chops an ns i (a @ b) c = mark_chops an ns (i + length a) b (mark_chops an ns i a c)"
  by (induction a arbitrary: i c) simp_all

lemma mark_chops_an:
  "i + length ms \<le> an \<Longrightarrow> mark_chops an ns i ms c = c\<lparr>chop_an := chop_an c + word_of_nat (falses ms)\<rparr>"
  by (induction ms arbitrary: i c) (simp_all add: falses_def chop_at_def)

lemma mark_chops_ns:
  "an \<le> i \<Longrightarrow> i + length ms \<le> an + ns \<Longrightarrow>
     mark_chops an ns i ms c = c\<lparr>chop_ns := chop_ns c + word_of_nat (falses ms)\<rparr>"
  by (induction ms arbitrary: i c) (simp_all add: falses_def chop_at_def)

lemma mark_chops_ar:
  "an + ns \<le> i \<Longrightarrow> mark_chops an ns i ms c = c\<lparr>chop_ar := chop_ar c + word_of_nat (falses ms)\<rparr>"
  by (induction ms arbitrary: i c) (simp_all add: falses_def chop_at_def)

lemma kept_count: "length ms = length xs \<Longrightarrow>
    word_of_nat (length xs) - word_of_nat (falses ms) = (word_of_nat (length (kept ms xs)) :: u16)"
  using length_kept [of ms xs] by (metis add_diff_cancel_right' of_nat_add)

definition key_of :: "dns_packet \<Rightarrow> question_key" where
  "key_of p = \<lparr>qk_qtype = q_type (hd (questions p)), qk_qclass = q_class (hd (questions p))\<rparr>"

lemma question_fields:
  "from_be16 ((pre @ question_wire q @ post) ! (length pre + length (name_wire (q_name q))))
     ((pre @ question_wire q @ post) ! (length pre + length (name_wire (q_name q)) + 1)) = q_type q"
  "from_be16 ((pre @ question_wire q @ post) ! (length pre + length (name_wire (q_name q)) + 2))
     ((pre @ question_wire q @ post) ! (length pre + length (name_wire (q_name q)) + 3)) = q_class q"
  by (simp_all add: question_wire_def nth_append to_be16_def)

text \<open>On a message without compression \<open>filter_with\<close> removes exactly the chosen records.\<close>

lemma marked_wire:
  fixes p :: dns_packet
  assumes "length ma = length (answers p)" "length mn = length (authority p)" "length mr = length (additional p)"
    and "c = mark_chops (length (answers p)) (length (authority p)) 0 (ma @ mn @ mr) \<lparr>chop_an = 0, chop_ns = 0, chop_ar = 0\<rparr>"
    and "front = header_to_bytes (written_header p) @ concat (map question_wire (questions p))"
  shows "put_counts (compact (packet_wire p) 0 (mark_ranges (ma @ mn @ mr)
        (map rr_wire (answers p @ authority p @ additional p)) (length front)))
      (ancount (written_header p) - chop_an c) (nscount (written_header p) - chop_ns c)
      (arcount (written_header p) - chop_ar c)
    = packet_wire (p\<lparr>answers := kept ma (answers p), authority := kept mn (authority p),
                     additional := kept mr (additional p)\<rparr>)"
proof -
  have "packet_wire p = [] @ front @ concat (map rr_wire (answers p @ authority p @ additional p)) @ []"
    by (simp add: packet_wire_def assms(5))
  then have compact: "compact (packet_wire p) 0 (mark_ranges (ma @ mn @ mr)
        (map rr_wire (answers p @ authority p @ additional p)) (length front))
      = front @ concat (map rr_wire (kept ma (answers p) @ kept mn (authority p) @ kept mr (additional p)))"
    using compact_mark_ranges [of "ma @ mn @ mr" "map rr_wire (answers p @ authority p @ additional p)" "[]" front "[]"]
      assms(1-3) by (simp add: kept_append kept_map)
  have c: "chop_an c = word_of_nat (falses ma)" "chop_ns c = word_of_nat (falses mn)"
    "chop_ar c = word_of_nat (falses mr)"
    using assms(1-4) by (simp_all add: mark_chops_append mark_chops_an mark_chops_ns mark_chops_ar)
  show ?thesis
    unfolding compact c unfolding assms(5)
    by (simp add: put_counts_header packet_wire_def written_header_def kept_count [OF assms(1)]
        kept_count [OF assms(2)] kept_count [OF assms(3)])
qed

lemma filter_with_plain:
  assumes plain: "packet_plain p"
    and ms: "marks d (key_of p) 0 (answers p @ authority p @ additional p) = ma @ mn @ mr"
    and lens: "length ma = length (answers p)" "length mn = length (authority p)" "length mr = length (additional p)"
  shows "filter_with (packet_wire p) d
     = Inr (packet_wire (p\<lparr>answers := kept ma (answers p), authority := kept mn (authority p),
                           additional := kept mr (additional p)\<rparr>), falses (ma @ mn @ mr))"
proof -
  let ?rrs = "answers p @ authority p @ additional p" and ?h = "header_to_bytes (written_header p)"
  obtain qu where qu: "questions p = [qu]" using plain by (auto simp: packet_plain_def length_Suc_conv)
  have ok: "packet_ok p" using plain by (simp add: packet_plain_def)
  note counts = written_header_counts [OF ok]
  let ?front = "?h @ question_wire qu" and ?off = "12 + length (name_wire (q_name qu))"
  have pkt: "packet_wire p = ?front @ concat (map rr_wire ?rrs)" by (simp add: packet_wire_def qu)
  have fits: "fits (packet_wire p)" using ok by (rule fits_packet_wire)
  have hdr: "header_from_bytes (packet_wire p) = Some (written_header p)"
    by (simp add: packet_wire_def header_from_to_bytes)
  have qd: "qdcount (written_header p) = 1" by (simp add: written_header_def qu)
  have "parse_question (packet_wire p) 12 = Inr (qu, 12 + length (question_wire qu))"
    using parse_question_wire [of qu ?h "concat (map rr_wire ?rrs)"] ok fits pkt qu
    by (simp add: packet_ok_def)
  from resize_skip_question [OF this]
  have skip: "skip_name (packet_wire p) 12 = Inr ?off" and long: "\<not> ?off + 4 > length (packet_wire p)"
    by (auto simp: question_wire_def)
  have skipq: "skip_questions_to (packet_wire p) 1 12 = Inr (length ?front)"
    using skip long by (simp add: question_wire_def)
  have key: "\<lparr>qk_qtype = from_be16 (packet_wire p ! ?off) (packet_wire p ! (?off + 1)),
      qk_qclass = from_be16 (packet_wire p ! (?off + 2)) (packet_wire p ! (?off + 3))\<rparr> = key_of p"
    using question_fields [of ?h qu "concat (map rr_wire ?rrs)"] pkt by (simp add: key_of_def qu)
  define rs where "rs = mark_ranges (ma @ mn @ mr) (map rr_wire ?rrs) (length ?front)"
  define c where "c = mark_chops (length (answers p)) (length (authority p)) 0 (ma @ mn @ mr)
      \<lparr>chop_an = 0, chop_ns = 0, chop_ar = 0\<rparr>"
  have "list_all rr_ok ?rrs" using ok by (simp add: packet_ok_def)
  then have find: "find_elided (length (answers p) + length (authority p) + length (additional p)) (packet_wire p)
      (length (answers p)) (length (authority p)) d (key_of p) 0 (length ?front)
      \<lparr>chop_an = 0, chop_ns = 0, chop_ar = 0\<rparr> = Inr (rs, c)"
    using find_elided_wire [of ?rrs ?front "[]" "length (answers p)" "length (authority p)" d "key_of p" 0] fits ms
    by (simp add: pkt rs_def c_def add.assoc)
  have wire: "put_counts (compact (packet_wire p) 0 rs) (ancount (written_header p) - chop_an c)
      (nscount (written_header p) - chop_ns c) (arcount (written_header p) - chop_ar c)
    = packet_wire (p\<lparr>answers := kept ma (answers p), authority := kept mn (authority p),
                     additional := kept mr (additional p)\<rparr>)"
    unfolding rs_def by (rule marked_wire [OF lens c_def]) (simp add: qu)
  have n: "length rs = falses (ma @ mn @ mr)"
    using lens by (simp add: rs_def length_mark_ranges)
  have el: "elide (packet_wire p) (written_header p) rs c
      = (packet_wire (p\<lparr>answers := kept ma (answers p), authority := kept mn (authority p),
                       additional := kept mr (additional p)\<rparr>), falses (ma @ mn @ mr))"
    using check_packet_plain [OF plain, of rs] wire n
    by (simp add: elide_def counts qu qd Let_def)
  have none: "p\<lparr>answers := kept ma (answers p), authority := kept mn (authority p),
      additional := kept mr (additional p)\<rparr> = p" if "falses (ma @ mn @ mr) = 0"
  proof -
    have "kept m xs = xs" if "falses m = 0" "length m = length xs" for m and xs :: "dns_rr list"
      using that(2,1) by (induction m xs rule: list_induct2) (auto simp: falses_def split: if_splits)
    with that lens show ?thesis by (simp add: falses_append)
  qed
  show ?thesis
    unfolding filter_with_def hdr ok_or.simps and_then.simps qd Let_def
    using skipq find el none n key long skip counts
    by (simp del: skip_questions_to.simps) (auto simp: Let_def)
qed

subsection \<open>Decisions that are uniform over a section\<close>

definition uniform :: "decider \<Rightarrow> question_key \<Rightarrow> nat \<Rightarrow> nat \<Rightarrow> (dns_rr \<Rightarrow> bool) \<Rightarrow> bool" where
  "uniform d q i j P \<longleftrightarrow>
     (\<forall>k r. i \<le> k \<longrightarrow> k < j \<longrightarrow> d k (rr_type r) (rr_class r) q = (if P r then Keep else Remove))"

lemma uniform_weaken: "uniform d q i j P \<Longrightarrow> i \<le> i' \<Longrightarrow> j' \<le> j \<Longrightarrow> uniform d q i' j' P"
  by (auto simp: uniform_def)

lemma marks_uniform_append:
  "uniform d q i (i + length xs) P \<Longrightarrow> marks d q i (xs @ ys) = map P xs @ marks d q (i + length xs) ys"
proof (induction xs arbitrary: i)
  case (Cons x xs)
  have "d i (rr_type x) (rr_class x) q = (if P x then Keep else Remove)"
    using Cons.prems by (simp add: uniform_def)
  moreover have "marks d q (i + 1) (xs @ ys) = map P xs @ marks d q (i + 1 + length xs) ys"
    using Cons.prems by (intro Cons.IH) (auto elim: uniform_weaken)
  ultimately show ?case by simp
qed simp

lemma marks_uniform: "uniform d q i (i + length xs) P \<Longrightarrow> marks d q i xs = map P xs"
  using marks_uniform_append [of d q i xs P "[]"] by simp

lemma kept_filter: "kept (map P xs) xs = filter P xs"
  by (induction xs) simp_all

lemma filter_with_sections:
  assumes "packet_plain p" and "an = length (answers p)" and "ns = length (authority p)"
    and "uniform d (key_of p) 0 an P" and "uniform d (key_of p) an (an + ns) Q"
    and "uniform d (key_of p) (an + ns) (an + ns + length (additional p)) R"
  shows "filter_with (packet_wire p) d
     = Inr (packet_wire (p\<lparr>answers := filter P (answers p), authority := filter Q (authority p),
                           additional := filter R (additional p)\<rparr>),
            falses (map P (answers p) @ map Q (authority p) @ map R (additional p)))"
proof -
  have "marks d (key_of p) 0 (answers p @ authority p @ additional p)
      = map P (answers p) @ map Q (authority p) @ map R (additional p)"
    using assms marks_uniform_append [of d "key_of p" 0 "answers p" P "authority p @ additional p"]
      marks_uniform_append [of d "key_of p" an "authority p" Q "additional p"]
      marks_uniform [of d "key_of p" "an + ns" "additional p" R]
    by simp
  from filter_with_plain [OF assms(1) this] show ?thesis by (simp add: kept_filter)
qed

lemma header_of_wire: "header_from_bytes (packet_wire p) = Some (written_header p)"
  by (simp add: packet_wire_def header_from_to_bytes)

lemma packet_wire_long: "\<not> length (packet_wire p) < 12"
  by (simp add: packet_wire_def)


section \<open>Properties\<close>

text \<open>A compression pointer that survives a removal is rewritten to the new position of the octet it pointed
  at: \<open>shift_offset\<close> refuses a target inside a removed record and otherwise names the place to which
  the compaction moves the target.\<close>

lemma shift_offset_tracks_octet:
  assumes "ranges_ok 0 elided (length work)" and "off < length work"
    and "shift_offset elided off = Some off'"
  shows "off' < length (compact work 0 elided) \<and> compact work 0 elided ! off' = work ! off"
  using shift_offset_by_nth [of 0 elided work 0 off off'] assms by (simp add: shift_offset_def)

text \<open>Whatever the packet and the decision, \<open>filter_with\<close> either returns the packet unchanged and reports
  no removal, or returns a shorter packet whose header differs only in the record counts, which
  drop by exactly the number of removals reported.\<close>

lemma filter_with_counts:
  assumes "filter_with pkt decide = Inr (out, removed)" and "header_from_bytes pkt = Some h"
  shows "out = pkt \<and> removed = 0 \<or>
    (\<exists>h'. header_from_bytes out = Some h' \<and> hdr_id h' = hdr_id h \<and> hb3 h' = hb3 h \<and> hb4 h' = hb4 h
       \<and> qdcount h' = qdcount h
       \<and> unat (ancount h') + unat (nscount h') + unat (arcount h') + removed
           = unat (ancount h) + unat (nscount h) + unat (arcount h)
       \<and> 0 < removed \<and> length out + 10 * removed \<le> length pkt)"
  using filter_with_shape [OF assms] header_from_to_bytes by metis

text \<open>On a message written without compression, \<open>filter_rr_types\<close> returns the encoding of the message with
  the records of the given types gone from the additional section and everything else in
  place.\<close>

lemma filter_rr_types_exact:
  assumes "packet_plain p"
  shows "filter_rr_types (packet_wire p) types
     = Inr (packet_wire (p\<lparr>additional := filter (\<lambda>r. rr_type r \<notin> set types) (additional p)\<rparr>))"
proof -
  have ok: "packet_ok p" using assms by (simp add: packet_plain_def)
  let ?k = "length (answers p) + length (authority p)"
  let ?d = "\<lambda>i rtype (_ :: u16) (_ :: question_key). if i < ?k \<or> rtype \<notin> set types then Keep else Remove"
  have "filter_with (packet_wire p) ?d = Inr (packet_wire (p\<lparr>answers := filter (\<lambda>_. True) (answers p),
      authority := filter (\<lambda>_. True) (authority p),
      additional := filter (\<lambda>r. rr_type r \<notin> set types) (additional p)\<rparr>),
      falses (map (\<lambda>_. True) (answers p) @ map (\<lambda>_. True) (authority p)
        @ map (\<lambda>r. rr_type r \<notin> set types) (additional p)))"
    by (rule filter_with_sections [OF assms refl refl]) (auto simp: uniform_def)
  then show ?thesis
    by (simp add: filter_rr_types_def packet_wire_long header_of_wire written_header_counts [OF ok] Let_def)
qed

text \<open>On a message written without compression whose OPT record does not set the DO bit,
  \<open>strip_dnssec_if_not_requested\<close> removes the RRSIG, NSEC and NSEC3 records of all sections, except
  answers of the very type and class that was asked for.\<close>

lemma strip_dnssec_exact:
  assumes "packet_plain p"
    and "\<And>info. find_pseudoheader (packet_wire p) = Some info \<Longrightarrow> ei_flags info AND 0x8000 = 0"
    and "asked = (\<lambda>r. rr_type r = q_type (hd (questions p)) \<and> rr_class r = q_class (hd (questions p)))"
  shows "strip_dnssec_if_not_requested (packet_wire p)
     = Inr (packet_wire (p\<lparr>answers := filter (\<lambda>r. \<not> is_dnssec_type (rr_type r) \<or> asked r) (answers p),
         authority := filter (\<lambda>r. \<not> is_dnssec_type (rr_type r)) (authority p),
         additional := filter (\<lambda>r. \<not> is_dnssec_type (rr_type r)) (additional p)\<rparr>))"
proof -
  have ok: "packet_ok p" using assms(1) by (simp add: packet_plain_def)
  let ?d = "\<lambda>i rtype class q. if \<not> is_dnssec_type rtype then Keep
      else if i < length (answers p) \<and> rtype = qk_qtype q \<and> class = qk_qclass q then Keep else Remove"
  let ?P = "\<lambda>r. \<not> is_dnssec_type (rr_type r) \<or> asked r" and ?Q = "\<lambda>r. \<not> is_dnssec_type (rr_type r)"
  have "filter_with (packet_wire p) ?d = Inr (packet_wire (p\<lparr>answers := filter ?P (answers p),
      authority := filter ?Q (authority p), additional := filter ?Q (additional p)\<rparr>),
      falses (map ?P (answers p) @ map ?Q (authority p) @ map ?Q (additional p)))"
    by (rule filter_with_sections [OF assms(1) refl refl]) (auto simp: uniform_def key_of_def assms(3))
  moreover have "\<not> (case find_pseudoheader (packet_wire p) of
      Some info \<Rightarrow> ei_flags info AND 0x8000 \<noteq> 0 | None \<Rightarrow> False)"
    using assms(2) by (auto split: option.split)
  ultimately show ?thesis
    unfolding strip_dnssec_if_not_requested_def header_of_wire ok_or.simps and_then.simps
      written_header_counts [OF ok]
    by simp
qed





end
