(* ===== verification/Pattern.thy ===== *)
theory Pattern
  imports Rust_Base
begin

text \<open>
  Name patterns (\<open>src/pattern.rs\<close>) and the allow-list check built on them
  (\<open>is_query_allowed_for_mark\<close> of \<open>src/rfc1035.rs\<close>).

  The loop of \<open>glob_match\<close> backtracks, and from an arbitrary state it need not end, so it is a
  partial function whose value \<open>None\<close> means that it runs forever. It is proved to return from its
  initial state, with the answer of the declarative matcher \<open>glob\<close>.
\<close>

unbundle bit_operations_syntax

section \<open>Characters\<close>

definition STAR :: nat where "STAR = 42"
definition HYPHEN :: nat where "HYPHEN = 45"

section \<open>Glob matching\<close>

partial_function (option) glob_loop ::
    "nat list \<Rightarrow> nat list \<Rightarrow> nat \<Rightarrow> nat \<Rightarrow> nat \<Rightarrow> nat \<Rightarrow> bool option" where
  "glob_loop v p vi pi next_vi next_pi =
     (if vi < length v \<or> pi < length p then
        if pi < length p \<and> p ! pi = STAR then
          glob_loop v p vi (pi + 1) (if vi < length v then vi + 1 else 0) pi
        else if pi < length p \<and> vi < length v \<and> v ! vi = p ! pi then
          glob_loop v p (vi + 1) (pi + 1) next_vi next_pi
        else if next_vi \<noteq> 0 then glob_loop v p next_vi next_pi next_vi next_pi
        else Some False
      else Some True)"

definition glob_match :: "rstr \<Rightarrow> rstr \<Rightarrow> bool option" where
  "glob_match value pattern =
     (let v = map char_to_ascii_uppercase (str_chars value);
          p = map char_to_ascii_uppercase (str_chars pattern)
      in glob_loop v p 0 0 0 0)"

text \<open>What a pattern means: a star stands for any sequence of characters, every other character for itself.\<close>

fun glob :: "nat list \<Rightarrow> nat list \<Rightarrow> bool" where
  "glob [] v \<longleftrightarrow> v = []"
| "glob (c # p) [] \<longleftrightarrow> c = STAR \<and> glob p []"
| "glob (c # p) (x # v) \<longleftrightarrow>
     (if c = STAR then glob p (x # v) \<or> glob (c # p) v else c = x \<and> glob p v)"

lemma glob_star_iff: "glob (STAR # p) v \<longleftrightarrow> (\<exists>k \<le> length v. glob p (drop k v))"
proof (induction v)
  case (Cons x v)
  have "(\<exists>k \<le> length (x # v). glob p (drop k (x # v))) \<longleftrightarrow> glob p (x # v) \<or> (\<exists>k \<le> length v. glob p (drop k v))"
    by (auto simp: Suc_le_length_iff intro: exI [of _ 0]) (metis Suc_le_mono drop_Suc_Cons length_Cons not0_implies_Suc drop0)+
  with Cons show ?case by simp
qed simp

lemma glob_star_drop: "glob (STAR # p) (drop m v) \<Longrightarrow> n \<le> m \<Longrightarrow> m \<le> length v \<Longrightarrow> glob (STAR # p) (drop n v)"
  unfolding glob_star_iff
proof (elim exE conjE)
  fix k
  assume "n \<le> m" "m \<le> length v" "k \<le> length (drop m v)" "glob p (drop k (drop m v))"
  then show "\<exists>k \<le> length (drop n v). glob p (drop k (drop n v))"
    by (intro exI [of _ "k + (m - n)"]) (simp add: add.commute add.left_commute)
qed

lemma glob_literal:
  "STAR \<notin> set seg \<Longrightarrow> glob (seg @ q) v \<longleftrightarrow> take (length seg) v = seg \<and> glob q (drop (length seg) v)"
proof (induction seg arbitrary: v)
  case (Cons c seg)
  then show ?case by (cases v) auto
qed simp

section \<open>The loop decides the declarative matcher\<close>

text \<open>
  A state is \<open>(vi, pi, next_vi, next_pi)\<close>. After a star at \<open>next_pi\<close> the characters since then
  are literal and have matched; right after a backtrack the loop stands on the star again.
\<close>

type_synonym glob_state = "nat \<times> nat \<times> nat \<times> nat"

abbreviation seg :: "nat list \<Rightarrow> nat \<Rightarrow> nat \<Rightarrow> nat list" where
  "seg p np pi \<equiv> take (pi - Suc np) (drop (Suc np) p)"

fun glob_inv :: "nat list \<Rightarrow> nat list \<Rightarrow> glob_state \<Rightarrow> bool" where
  "glob_inv v p (vi, pi, nv, np) \<longleftrightarrow>
     vi \<le> length v \<and> pi \<le> length p \<and>
     (nv \<noteq> 0 \<longrightarrow> nv \<le> length v \<and> np < length p \<and> p ! np = STAR \<and>
        (pi = np \<and> vi = nv \<or>
         np < pi \<and> nv \<le> vi + 1 \<and> pi - Suc np = vi + 1 - nv \<and> STAR \<notin> set (seg p np pi) \<and>
         seg p np pi = take (pi - Suc np) (drop (nv - 1) v)))"

fun glob_goal :: "nat list \<Rightarrow> nat list \<Rightarrow> glob_state \<Rightarrow> bool" where
  "glob_goal v p (vi, pi, nv, np) \<longleftrightarrow>
     glob (drop pi p) (drop vi v) \<or> nv \<noteq> 0 \<and> glob (drop np p) (drop nv v)"

fun on_star :: "glob_state \<Rightarrow> bool" where
  "on_star (vi, pi, nv, np) \<longleftrightarrow> nv \<noteq> 0 \<and> pi = np"

definition stars :: "nat list \<Rightarrow> nat" where
  "stars p = length (filter (\<lambda>c. c = STAR) p)"

fun stars_ahead :: "nat list \<Rightarrow> glob_state \<Rightarrow> nat" where
  "stars_ahead p (vi, pi, nv, np) = stars (drop (if nv \<noteq> 0 \<and> pi = np then Suc pi else pi) p)"

fun retries :: "nat list \<Rightarrow> glob_state \<Rightarrow> nat" where
  "retries v (vi, pi, nv, np) = (if nv = 0 then 0 else length v + 1 - nv)"

fun literals_ahead :: "nat list \<Rightarrow> glob_state \<Rightarrow> nat" where
  "literals_ahead p (vi, pi, nv, np) = (if nv \<noteq> 0 \<and> pi = np then 0 else 1 + length p - pi)"

abbreviation glob_order :: "nat list \<Rightarrow> nat list \<Rightarrow> (glob_state \<times> glob_state) set" where
  "glob_order v p \<equiv> measures [stars_ahead p, retries v, literals_ahead p]"

lemma stars_drop: "i < length p \<Longrightarrow> stars (drop i p) = (if p ! i = STAR then 1 else 0) + stars (drop (Suc i) p)"
  by (simp add: Cons_nth_drop_Suc [symmetric] stars_def)

lemma stars_literal: "STAR \<notin> set xs \<Longrightarrow> stars (xs @ ys) = stars ys"
  by (induction xs) (auto simp: stars_def)

lemma drop_split: "np < pi \<Longrightarrow> pi \<le> length p \<Longrightarrow> drop (Suc np) p = seg p np pi @ drop pi p"
  by (metis Suc_leI append_take_drop_id drop_drop le_add_diff_inverse2)

lemma seg_Suc: "np < pi \<Longrightarrow> pi < length p \<Longrightarrow> seg p np (Suc pi) = seg p np pi @ [p ! pi]"
proof -
  assume "np < pi" "pi < length p"
  then have "Suc pi - Suc np = Suc (pi - Suc np)" "drop (Suc np) p ! (pi - Suc np) = p ! pi"
    "pi - Suc np < length (drop (Suc np) p)" by simp_all
  then show ?thesis by (simp only: take_Suc_conv_app_nth)
qed

text \<open>An earlier star may be forgotten once a later one is reached.\<close>

lemma forget_star:
  assumes "glob_inv v p (vi, pi, nv, np)" and "nv \<noteq> 0" and "np < pi" and "pi < length p" and "p ! pi = STAR"
    and "glob (drop np p) (drop nv v)"
  shows "glob (drop pi p) (drop vi v)"
proof -
  let ?s = "seg p np pi" and ?q = "drop (Suc pi) p"
  have inv: "nv \<le> length v" "np < length p" "p ! np = STAR" "nv \<le> vi + 1" "pi - Suc np = vi + 1 - nv"
    "STAR \<notin> set ?s" "vi \<le> length v"
    using assms(1-3) by auto
  have pi: "drop pi p = STAR # ?q" using assms(4,5) by (metis Cons_nth_drop_Suc)
  have "drop np p = STAR # drop (Suc np) p" using inv(2,3) by (metis Cons_nth_drop_Suc)
  then have "drop np p = STAR # ?s @ STAR # ?q"
    using drop_split [OF assms(3), of p] assms(4) pi by simp
  with assms(6) obtain k where k: "k \<le> length v - nv" "glob (?s @ STAR # ?q) (drop (k + nv) v)"
    by (auto simp: glob_star_iff)
  then have seg: "take (length ?s) (drop (k + nv) v) = ?s" "glob (STAR # ?q) (drop (length ?s + (k + nv)) v)"
    by (simp_all add: glob_literal [OF inv(6)])
  have len: "length ?s = vi + 1 - nv" using inv assms(4) by simp
  have fit: "length ?s \<le> length v - (k + nv)"
    using seg(1) by (metis length_drop length_take min.cobounded1)
  have "vi \<le> length ?s + (k + nv)" "length ?s + (k + nv) \<le> length v"
    using len inv(1,4) k(1) fit by auto
  with glob_star_drop [OF seg(2)] pi show ?thesis by simp
qed

lemma star_step:
  assumes inv: "glob_inv v p (vi, pi, nv, np)" and pi: "pi < length p" "p ! pi = STAR"
  defines "nv' \<equiv> if vi < length v then vi + 1 else 0"
  shows "glob_inv v p (vi, pi + 1, nv', pi)"
    and "glob_goal v p (vi, pi + 1, nv', pi) = glob_goal v p (vi, pi, nv, np)"
    and "((vi, pi + 1, nv', pi), (vi, pi, nv, np)) \<in> glob_order v p"
proof -
  have vi: "vi \<le> length v" using inv by simp
  show "glob_inv v p (vi, pi + 1, nv', pi)"
    using inv pi by (auto simp: nv'_def)
  have "drop pi p = STAR # drop (Suc pi) p" using pi by (metis Cons_nth_drop_Suc)
  moreover have "glob (STAR # q) (drop vi v) \<longleftrightarrow> glob q (drop vi v) \<or> vi < length v \<and> glob (STAR # q) (drop (Suc vi) v)" for q
    using vi by (cases "vi < length v") (simp_all add: Cons_nth_drop_Suc [symmetric])
  moreover have "nv \<noteq> 0 \<Longrightarrow> glob (drop np p) (drop nv v) \<Longrightarrow> glob (drop pi p) (drop vi v)"
    using forget_star [OF inv] inv pi by (cases "np = pi") auto
  ultimately show "glob_goal v p (vi, pi + 1, nv', pi) = glob_goal v p (vi, pi, nv, np)"
    by (auto simp: nv'_def)
  show "((vi, pi + 1, nv', pi), (vi, pi, nv, np)) \<in> glob_order v p"
    using stars_drop [OF pi(1)] pi(2) inv by (auto simp: nv'_def)
qed

lemma match_step:
  assumes inv: "glob_inv v p (vi, pi, nv, np)" and pi: "pi < length p" "p ! pi \<noteq> STAR"
    and vi: "vi < length v" "v ! vi = p ! pi"
  shows "glob_inv v p (vi + 1, pi + 1, nv, np)"
    and "glob_goal v p (vi + 1, pi + 1, nv, np) = glob_goal v p (vi, pi, nv, np)"
    and "((vi + 1, pi + 1, nv, np), (vi, pi, nv, np)) \<in> glob_order v p"
proof -
  have np: "nv \<noteq> 0 \<Longrightarrow> np < pi" using inv pi by auto
  show "glob_inv v p (vi + 1, pi + 1, nv, np)"
  proof (cases "nv = 0")
    case False
    with inv np have seg: "seg p np pi = take (pi - Suc np) (drop (nv - 1) v)" "STAR \<notin> set (seg p np pi)"
      and len: "nv \<le> vi + 1" "pi - Suc np = vi + 1 - nv"
      by auto
    have "drop (nv - 1) v ! (pi - Suc np) = v ! vi" "pi - Suc np < length (drop (nv - 1) v)"
      using len vi(1) False by auto
    then have "take (Suc (pi - Suc np)) (drop (nv - 1) v) = seg p np (Suc pi)"
      unfolding seg_Suc [OF np [OF False] pi(1)] using seg(1) vi(2) by (simp add: take_Suc_conv_app_nth)
    moreover have "Suc pi - Suc np = Suc (pi - Suc np)" using np [OF False] by simp
    ultimately show ?thesis
      using inv False np [OF False] seg(2) len pi vi seg_Suc [OF np [OF False] pi(1)] by auto
  qed (use inv pi vi in auto)
  show "glob_goal v p (vi + 1, pi + 1, nv, np) = glob_goal v p (vi, pi, nv, np)"
    using pi vi by (simp add: Cons_nth_drop_Suc [symmetric])
  show "((vi + 1, pi + 1, nv, np), (vi, pi, nv, np)) \<in> glob_order v p"
    using stars_drop [OF pi(1)] pi np by auto
qed

lemma back_step:
  assumes inv: "glob_inv v p (vi, pi, nv, np)" and nv: "nv \<noteq> 0" and nostar: "\<not> (pi < length p \<and> p ! pi = STAR)"
    and stuck: "\<not> glob (drop pi p) (drop vi v)"
  shows "glob_inv v p (nv, np, nv, np)"
    and "glob_goal v p (nv, np, nv, np) = glob_goal v p (vi, pi, nv, np)"
    and "((nv, np, nv, np), (vi, pi, nv, np)) \<in> glob_order v p"
proof -
  have np: "np < pi" using inv nv nostar by auto
  show "glob_inv v p (nv, np, nv, np)" using inv nv by auto
  show "glob_goal v p (nv, np, nv, np) = glob_goal v p (vi, pi, nv, np)" using stuck nv by auto
  have "stars (drop (Suc np) p) = stars (drop pi p)"
    using inv nv np drop_split [of np pi p] stars_literal [of "seg p np pi" "drop pi p"] by auto
  then show "((nv, np, nv, np), (vi, pi, nv, np)) \<in> glob_order v p"
    using nv np inv by auto
qed

lemma glob_loop_decides:
  "glob_inv v p s \<Longrightarrow> (case s of (vi, pi, nv, np) \<Rightarrow> glob_loop v p vi pi nv np) = Some (glob_goal v p s)"
proof (induction s rule: wf_induct_rule [OF wf_measures [of "[stars_ahead p, retries v, literals_ahead p]"]])
  case (1 s)
  obtain vi pi nv np where s: "s = (vi, pi, nv, np)" by (cases s)
  note inv = "1.prems" [unfolded s]
  have IH: "glob_loop v p vi' pi' nv' np' = Some (glob_goal v p (vi, pi, nv, np))"
    if "glob_inv v p (vi', pi', nv', np')" "glob_goal v p (vi', pi', nv', np') = glob_goal v p (vi, pi, nv, np)"
      "((vi', pi', nv', np'), (vi, pi, nv, np)) \<in> glob_order v p" for vi' pi' nv' np'
    using "1.IH" [of "(vi', pi', nv', np')"] that s by simp
  consider (star) "pi < length p" "p ! pi = STAR" | (match) "pi < length p" "p ! pi \<noteq> STAR" "vi < length v" "v ! vi = p ! pi"
    | (finished) "\<not> pi < length p" "\<not> vi < length v"
    | (stuck) "\<not> (pi < length p \<and> p ! pi = STAR)" "\<not> (pi < length p \<and> vi < length v \<and> v ! vi = p ! pi)"
        "vi < length v \<or> pi < length p"
    by blast
  then have "glob_loop v p vi pi nv np = Some (glob_goal v p (vi, pi, nv, np))"
  proof cases
    case star
    with IH [OF star_step [OF inv star]] show ?thesis by (subst glob_loop.simps) simp
  next
    case match
    with IH [OF match_step [OF inv match]] show ?thesis by (subst glob_loop.simps) simp
  next
    case finished
    with inv have "pi = length p" "vi = length v" by auto
    then show ?thesis by (subst glob_loop.simps) simp
  next
    case stuck
    have no: "\<not> glob (drop pi p) (drop vi v)"
    proof (cases "pi < length p")
      case True
      then have p: "drop pi p = p ! pi # drop (Suc pi) p" by (simp add: Cons_nth_drop_Suc)
      show ?thesis
      proof (cases "vi < length v")
        case True
        then have "drop vi v = v ! vi # drop (Suc vi) v" by (simp add: Cons_nth_drop_Suc)
        with p stuck \<open>pi < length p\<close> True show ?thesis by simp
      next
        case False
        with p stuck \<open>pi < length p\<close> show ?thesis by simp
      qed
    next
      case False
      with stuck show ?thesis by simp
    qed
    show ?thesis
    proof (cases "nv = 0")
      case True
      with stuck no show ?thesis by (subst glob_loop.simps) auto
    next
      case False
      with IH [OF back_step [OF inv False stuck(1) no]] stuck show ?thesis by (subst glob_loop.simps) auto
    qed
  qed
  then show ?case by (simp add: s)
qed

lemma glob_match_eq:
  "glob_match value pattern
     = Some (glob (map char_to_ascii_uppercase (str_chars pattern)) (map char_to_ascii_uppercase (str_chars value)))"
  using glob_loop_decides [of _ _ "(0, 0, 0, 0)"] by (simp add: glob_match_def Let_def)

section \<open>Names and name patterns\<close>

definition starts_with_hyphen :: "rstr \<Rightarrow> bool" where
  "starts_with_hyphen l \<longleftrightarrow> l \<noteq> [] \<and> hd l = 45"

definition ends_with_hyphen :: "rstr \<Rightarrow> bool" where
  "ends_with_hyphen l \<longleftrightarrow> l \<noteq> [] \<and> last l = 45"

definition is_valid_dns_name :: "rstr \<Rightarrow> bool" where
  "is_valid_dns_name name =
     (if name = [] \<or> length name > 253 then False
      else let labels = split_on DOT name
           in if length labels < 2 then False
              else list_all (\<lambda>(i, label).
                if label = [] \<or> length label > 63 then False
                else if starts_with_hyphen label \<or> ends_with_hyphen label then False
                else if \<not> list_all (\<lambda>c. char_is_ascii_alphanumeric c \<or> c = HYPHEN) (str_chars label) then False
                else if i = length labels - 1 then
                  if list_all char_is_ascii_digit (str_chars label) then False
                  else \<not> eq_ignore_ascii_case label (str_lit ''local'')
                else True) (List.enumerate 0 labels))"

definition is_valid_dns_name_pattern :: "rstr \<Rightarrow> bool" where
  "is_valid_dns_name_pattern pattern =
     (let non_wc_len = length (filter (\<lambda>c. c \<noteq> STAR) (str_chars pattern))
      in if non_wc_len = 0 \<or> non_wc_len > 253 then False
         else let labels = split_on DOT pattern
              in if length labels < 2 then False
                 else list_all (\<lambda>(i, label).
                   let wildcard_count = length (filter (\<lambda>c. c = STAR) (str_chars label));
                       non_wc_label_len = length label - wildcard_count
                   in if label = [] \<or> non_wc_label_len > 63 then False
                      else if starts_with_hyphen label \<or> ends_with_hyphen label then False
                      else if \<not> list_all (\<lambda>c. c = STAR \<or> char_is_ascii_alphanumeric c \<or> c = HYPHEN)
                                  (str_chars label) then False
                      else if i \<ge> length labels - 2 \<and> wildcard_count > 0 then False
                      else if wildcard_count > 2 then False
                      else if i = length labels - 1 then
                        if wildcard_count = 0
                           \<and> list_all char_is_ascii_digit (filter (\<lambda>c. c \<noteq> STAR) (str_chars label)) then False
                        else \<not> eq_ignore_ascii_case (filter (\<lambda>b. b \<noteq> 42) label) (str_lit ''local'')
                      else True) (List.enumerate 0 labels))"

fun all_labels_match :: "(rstr \<times> rstr) list \<Rightarrow> bool option" where
  "all_labels_match [] = Some True"
| "all_labels_match ((n, p) # rest) =
     (case glob_match n p of
        None \<Rightarrow> None
      | Some m \<Rightarrow> if m then all_labels_match rest else Some False)"

definition is_dns_name_matching_pattern :: "rstr \<Rightarrow> rstr \<Rightarrow> bool option" where
  "is_dns_name_matching_pattern name pattern =
     (let nl = split_on DOT name; pl = split_on DOT pattern
      in if length nl \<noteq> length pl then Some False else all_labels_match (zip nl pl))"

section \<open>The connection-mark allow list\<close>

record allowlist =
  al_mark :: u32
  al_mask :: u32
  al_patterns :: "rstr list"

text \<open>
  The two loops carry \<open>(did_validate_name, is_allowable_name)\<close>, the memo of the name check; the
  first component of a result says that a pattern admitted the query.
\<close>

fun scan_patterns :: "rstr \<Rightarrow> rstr list \<Rightarrow> bool \<times> bool \<Rightarrow> (bool \<times> bool \<times> bool) option" where
  "scan_patterns name [] memo = Some (False, memo)"
| "scan_patterns name (pattern # ps) (did, allowable) =
     (if pattern = str_lit ''*'' then Some (True, did, allowable)
      else let allowable' = (if \<not> did then is_valid_dns_name name else allowable)
           in if allowable' then
                (case is_dns_name_matching_pattern name pattern of
                   None \<Rightarrow> None
                 | Some m \<Rightarrow> if m then Some (True, True, allowable')
                             else scan_patterns name ps (True, allowable'))
              else scan_patterns name ps (True, allowable'))"

fun scan_allowlists :: "u32 \<Rightarrow> rstr \<Rightarrow> allowlist list \<Rightarrow> u32 \<Rightarrow> bool \<times> bool \<Rightarrow> bool option" where
  "scan_allowlists mark name [] allowlist_mask memo = Some False"
| "scan_allowlists mark name (al # als) allowlist_mask memo =
     (if al_mark al \<noteq> (mark AND allowlist_mask AND al_mask al)
      then scan_allowlists mark name als allowlist_mask memo
      else (case scan_patterns name (al_patterns al) memo of
              None \<Rightarrow> None
            | Some (found, memo') \<Rightarrow>
                if found then Some True else scan_allowlists mark name als allowlist_mask memo'))"

definition is_query_allowed_for_mark :: "u32 \<Rightarrow> rstr \<Rightarrow> allowlist list \<Rightarrow> u32 \<Rightarrow> bool option" where
  "is_query_allowed_for_mark mark name allowlists allowlist_mask =
     scan_allowlists mark name allowlists allowlist_mask (False, False)"

text \<open>The same two functions as specifications.\<close>

definition name_matches :: "rstr \<Rightarrow> rstr \<Rightarrow> bool" where
  "name_matches name pattern \<longleftrightarrow>
     list_all2 (\<lambda>n p. glob (map char_to_ascii_uppercase (str_chars p)) (map char_to_ascii_uppercase (str_chars n)))
       (split_on DOT name) (split_on DOT pattern)"

definition pattern_admits :: "rstr \<Rightarrow> rstr \<Rightarrow> bool" where
  "pattern_admits name pattern \<longleftrightarrow>
     pattern = str_lit ''*'' \<or> is_valid_dns_name name \<and> name_matches name pattern"

lemma all_labels_match_eq:
  "all_labels_match nps = Some (list_all (\<lambda>(n, p).
     glob (map char_to_ascii_uppercase (str_chars p)) (map char_to_ascii_uppercase (str_chars n))) nps)"
  by (induction nps rule: all_labels_match.induct) (simp_all add: glob_match_eq)

lemma matching_pattern_eq: "is_dns_name_matching_pattern name pattern = Some (name_matches name pattern)"
  by (auto simp: is_dns_name_matching_pattern_def Let_def all_labels_match_eq name_matches_def
      list_all2_iff list_all_iff)

definition memo_ok :: "rstr \<Rightarrow> bool \<times> bool \<Rightarrow> bool" where
  "memo_ok name memo \<longleftrightarrow> (fst memo \<longrightarrow> snd memo = is_valid_dns_name name)"

lemma scan_patterns_eq:
  "memo_ok name memo \<Longrightarrow>
     \<exists>memo'. memo_ok name memo' \<and> scan_patterns name ps memo = Some (list_ex (pattern_admits name) ps, memo')"
proof (induction name ps memo rule: scan_patterns.induct)
  case (2 name pattern ps did allowable)
  have allowable: "(if \<not> did then is_valid_dns_name name else allowable) = is_valid_dns_name name"
    using "2.prems" by (simp add: memo_ok_def)
  have m: "memo_ok name (True, is_valid_dns_name name)" by (simp add: memo_ok_def)
  show ?case
  proof (cases "pattern = str_lit ''*''")
    case True
    with "2.prems" show ?thesis by (auto simp: pattern_admits_def)
  next
    case False
    with "2.IH" [OF False allowable [symmetric]] m allowable show ?thesis
      by (auto simp: pattern_admits_def matching_pattern_eq Let_def)
  qed
qed auto

lemma scan_allowlists_eq:
  "memo_ok name memo \<Longrightarrow> scan_allowlists mark name als allowlist_mask memo
     = Some (list_ex (\<lambda>al. al_mark al = (mark AND allowlist_mask AND al_mask al) \<and> list_ex (pattern_admits name) (al_patterns al)) als)"
proof (induction als arbitrary: memo)
  case (Cons al als)
  from scan_patterns_eq [OF Cons.prems, of "al_patterns al"] obtain memo' where
    "memo_ok name memo'"
    "scan_patterns name (al_patterns al) memo = Some (list_ex (pattern_admits name) (al_patterns al), memo')"
    by blast
  with Cons show ?case by auto
qed simp

section \<open>Properties\<close>

text \<open>C22: \<open>glob_match\<close> always returns, and its answer is that of the declarative matcher: a star stands for any
  sequence of characters, dots included (the caller splits a name at its dots first), ASCII letters are compared
  without case, and every other character stands for itself.\<close>

theorem glob_match_correct:
  "glob_match value pattern
     = Some (glob (map char_to_ascii_uppercase (str_chars pattern)) (map char_to_ascii_uppercase (str_chars value)))"
  by (rule glob_match_eq)

text \<open>C23: a query is admitted exactly when some allow-list entry whose mark fits the connection has the wildcard
  pattern, or has a pattern matching the name label by label while the name is a valid DNS name;
  the memo of the name check never changes the outcome.\<close>

theorem allowed_for_mark_exact:
  "is_query_allowed_for_mark mark name allowlists allowlist_mask
     = Some (\<exists>al \<in> set allowlists. al_mark al = (mark AND allowlist_mask AND al_mask al)
         \<and> (\<exists>pattern \<in> set (al_patterns al). pattern = str_lit ''*''
              \<or> is_valid_dns_name name \<and> name_matches name pattern))"
  using scan_allowlists_eq [of name "(False, False)" mark allowlists allowlist_mask]
  by (simp add: is_query_allowed_for_mark_def memo_ok_def list_ex_iff pattern_admits_def)

end
