(* ===== verification/Hostname.thy ===== *)
theory Hostname
  imports Rust_Base "HOL-Library.List_Lexorder"
begin

text \<open>
  Comparison and validation of host names, \<open>src/hostname.rs\<close>: the order that ignores case, the test
  whether one name lies below another, canonicalisation, and the checks applied to names that
  come from the configuration or from DHCP clients.
\<close>

section \<open>Comparison\<close>

datatype rust_ordering = OrdLess | OrdEqual | OrdGreater

definition char_cmp :: "nat \<Rightarrow> nat \<Rightarrow> rust_ordering" where
  "char_cmp a b = (if a < b then OrdLess else if a = b then OrdEqual else OrdGreater)"

fun order_loop :: "nat list \<Rightarrow> nat list \<Rightarrow> rust_ordering" where
  "order_loop (ca # ai) (cb # bi) =
     (let ord = char_cmp ca cb in if ord \<noteq> OrdEqual then ord else order_loop ai bi)"
| "order_loop [] [] = OrdEqual"
| "order_loop [] (cb # bi) = OrdLess"
| "order_loop (ca # ai) [] = OrdGreater"

definition hostname_order :: "rstr \<Rightarrow> rstr \<Rightarrow> rust_ordering" where
  "hostname_order a b =
     order_loop (map char_to_ascii_lowercase (str_chars a)) (map char_to_ascii_lowercase (str_chars b))"

definition hostname_isequal :: "rstr \<Rightarrow> rstr \<Rightarrow> bool" where
  "hostname_isequal a b \<longleftrightarrow> length a = length b \<and> hostname_order a b = OrdEqual"

fun issubdomain_loop :: "nat list \<Rightarrow> nat list \<Rightarrow> u8 option" where
  "issubdomain_loop [] [] = Some 2"
| "issubdomain_loop [] (cb # bi) = (if cb = 46 then Some 1 else None)"
| "issubdomain_loop (ca # ai) (cb # bi) = (if ca = cb then issubdomain_loop ai bi else None)"
| "issubdomain_loop (ca # ai) [] = None"

definition hostname_issubdomain :: "rstr \<Rightarrow> rstr \<Rightarrow> u8 option" where
  "hostname_issubdomain a b =
     (let a' = to_ascii_lowercase a; b' = to_ascii_lowercase b
      in if length b' < length a' then None
         else issubdomain_loop (rev (str_chars a')) (rev (str_chars b')))"

section \<open>Validation\<close>

abbreviation MAXLABEL :: nat where
  "MAXLABEL \<equiv> 63"

abbreviation MAXDNAME :: nat where
  "MAXDNAME \<equiv> 1025"

definition first_label :: "rstr \<Rightarrow> rstr" where
  "first_label name = hd (split_on DOT name)"

definition legal_hostname_char :: "nat \<Rightarrow> nat \<Rightarrow> bool" where
  "legal_hostname_char i c =
     (if char_is_ascii_alphanumeric c then True else if c = 45 \<or> c = 95 then i > 0 else False)"

definition legal_hostname :: "rstr \<Rightarrow> bool" where
  "legal_hostname name =
     (if name = [] \<or> length name > 253 then False
      else let label = first_label name
           in if label = [] \<or> length label > MAXLABEL then False
              else list_all (\<lambda>(i, c). legal_hostname_char i c) (List.enumerate 0 (str_chars label)))"

definition trim_end_dots :: "rstr \<Rightarrow> rstr" where
  "trim_end_dots s = rev (dropWhile (\<lambda>b. b = DOT) (rev s))"

definition canonicalise :: "rstr \<Rightarrow> rstr option" where
  "canonicalise input =
     (let s = trim_end_dots input
      in if s = [] \<or> length s > 253 then None
         else if list_ex (\<lambda>label. label = [] \<or> length label > MAXLABEL) (split_on DOT s) then None
         else Some (to_ascii_lowercase s))"

datatype name_check_result = Invalid | Valid | NeedsIdn

text \<open>
  The scan of the labels carries \<open>(has_idn, has_non_space)\<close>; \<open>None\<close> is the early return of
  \<open>Invalid\<close>.
\<close>

fun scan_chars :: "nat list \<Rightarrow> bool \<times> bool \<Rightarrow> (bool \<times> bool) option" where
  "scan_chars [] flags = Some flags"
| "scan_chars (c # cs) (has_idn, has_non_space) =
     (if char_is_ascii_control c then None
      else scan_chars cs (has_idn \<or> \<not> c < 128, has_non_space \<or> c \<noteq> 32))"

fun scan_labels :: "rstr list \<Rightarrow> bool \<times> bool \<Rightarrow> (bool \<times> bool) option" where
  "scan_labels [] flags = Some flags"
| "scan_labels (label # ls) flags =
     (if length label > MAXLABEL then None
      else (case scan_chars (str_chars label) flags of
              None \<Rightarrow> None
            | Some flags' \<Rightarrow> scan_labels ls flags'))"

definition hostname_check_name :: "rstr \<Rightarrow> name_check_result" where
  "hostname_check_name name =
     (let trimmed = trim_end_dots name
      in if trimmed = [] \<or> length trimmed > MAXDNAME then Invalid
         else (case scan_labels (split_on DOT trimmed) (False, ends_with name [DOT]) of
                 None \<Rightarrow> Invalid
               | Some (has_idn, has_non_space) \<Rightarrow>
                   if \<not> has_non_space then Invalid
                   else if has_idn \<or> list_ex char_is_ascii_uppercase (str_chars trimmed) then NeedsIdn
                   else Valid))"

definition check_hostname_label :: "rstr \<Rightarrow> bool" where
  "check_hostname_label name =
     (let label = first_label name
      in if label = [] then False
         else list_all (\<lambda>c. char_is_ascii_alphanumeric c \<or> c = 45 \<or> c = 95) (str_chars label))"

section \<open>The case-insensitive order\<close>

definition name_key :: "rstr \<Rightarrow> nat list" where
  "name_key s = map char_to_ascii_lowercase (str_chars s)"

lemma order_loop_lex:
  "order_loop xs ys = (if xs < ys then OrdLess else if xs = ys then OrdEqual else OrdGreater)"
  by (induction xs ys rule: order_loop.induct) (auto simp: char_cmp_def)

lemma hostname_order_key:
  "hostname_order a b = (if name_key a < name_key b then OrdLess
     else if name_key a = name_key b then OrdEqual else OrdGreater)"
  by (simp add: hostname_order_def order_loop_lex name_key_def)

section \<open>Subdomains\<close>

lemma str_chars_key: "utf8_valid s \<Longrightarrow> str_chars (to_ascii_lowercase s) = name_key s"
  by (auto simp: utf8_valid_def str_chars_def name_key_def to_ascii_lowercase_def utf8_chars_lower)

lemma length_key: "utf8_valid s \<Longrightarrow> length s = sum_list (map utf8_len (name_key s))"
  using utf8_chars_length [of "to_ascii_lowercase s"]
  by (auto simp: utf8_valid_def str_chars_def name_key_def to_ascii_lowercase_def utf8_chars_lower)

lemma issubdomain_loop_iff:
  "issubdomain_loop xs ys = Some 2 \<longleftrightarrow> xs = ys"
  "issubdomain_loop xs ys = Some 1 \<longleftrightarrow> (\<exists>p. ys = xs @ 46 # p)"
  by (induction xs ys rule: issubdomain_loop.induct) auto

lemma issubdomain_loop_range: "issubdomain_loop xs ys \<in> {None, Some 1, Some 2}"
  by (induction xs ys rule: issubdomain_loop.induct) auto

lemma rev_suffix_iff: "(\<exists>p. rev ys = rev xs @ c # p) \<longleftrightarrow> (\<exists>p. ys = p @ [c] @ xs)"
proof
  assume "\<exists>p. rev ys = rev xs @ c # p"
  then obtain p where "rev ys = rev xs @ c # p" ..
  then have "ys = rev p @ [c] @ xs" by (simp add: rev_swap)
  then show "\<exists>p. ys = p @ [c] @ xs" ..
qed auto

lemma hostname_issubdomain_loop:
  assumes "utf8_valid a" "utf8_valid b"
  shows "hostname_issubdomain a b = issubdomain_loop (rev (name_key a)) (rev (name_key b))"
proof (cases "length b < length a")
  case True
  then have "name_key a \<noteq> name_key b" "\<not> (\<exists>p. name_key b = p @ name_key a)"
    using assms by (auto simp: length_key)
  then have "issubdomain_loop (rev (name_key a)) (rev (name_key b)) = None"
    using issubdomain_loop_range [of "rev (name_key a)" "rev (name_key b)"]
    by (auto simp: issubdomain_loop_iff rev_suffix_iff)
  with True show ?thesis by (simp add: hostname_issubdomain_def Let_def)
next
  case False
  with assms show ?thesis by (simp add: hostname_issubdomain_def Let_def str_chars_key)
qed

section \<open>Canonical names and checked names\<close>

lemma trim_end_dots_fixed: "s \<noteq> [] \<Longrightarrow> last s \<noteq> DOT \<Longrightarrow> trim_end_dots s = s"
  by (cases s rule: rev_cases) (auto simp: trim_end_dots_def)

lemma split_on_lower: "split_on DOT (to_ascii_lowercase s) = map to_ascii_lowercase (split_on DOT s)"
  by (induction s) (auto simp: to_ascii_lowercase_def split: list.splits)

lemma last_to_ascii_lowercase: "s \<noteq> [] \<Longrightarrow> last (to_ascii_lowercase s) = DOT \<longleftrightarrow> last s = DOT"
  by (simp add: to_ascii_lowercase_def last_map)

lemma to_ascii_lowercase_Nil [simp]: "to_ascii_lowercase s = [] \<longleftrightarrow> s = []"
  by (simp add: to_ascii_lowercase_def)

definition canonical_name :: "rstr \<Rightarrow> bool" where
  "canonical_name s \<longleftrightarrow> length s \<le> 253 \<and> to_ascii_lowercase s = s
     \<and> list_all (\<lambda>label. label \<noteq> [] \<and> length label \<le> MAXLABEL) (split_on DOT s)"

lemma split_on_snoc: "split_on d (xs @ [d]) = split_on d xs @ [[]]"
  by (induction xs) (auto split: list.splits)

lemma last_split_on: "s \<noteq> [] \<Longrightarrow> last s = d \<Longrightarrow> [] \<in> set (split_on d s)"
  by (cases s rule: rev_cases) (auto simp: split_on_snoc)

lemma canonical_name_lower:
  "canonical_name (to_ascii_lowercase s) \<longleftrightarrow>
     length s \<le> 253 \<and> \<not> list_ex (\<lambda>label. label = [] \<or> length label > MAXLABEL) (split_on DOT s)"
proof -
  have "list_all (\<lambda>label. label \<noteq> [] \<and> length label \<le> MAXLABEL) (map to_ascii_lowercase ls)
      \<longleftrightarrow> \<not> list_ex (\<lambda>label. label = [] \<or> length label > MAXLABEL) ls" for ls
    by (induction ls) (simp_all add: not_less)
  then show ?thesis by (simp add: canonical_name_def split_on_lower)
qed

lemma canonicalise_eq:
  "canonicalise input = (let t = to_ascii_lowercase (trim_end_dots input)
                         in if canonical_name t then Some t else None)"
  by (cases "trim_end_dots input = []") (simp_all add: canonicalise_def Let_def canonical_name_lower not_less)

lemma canonicalise_Some_iff:
  "canonicalise input = Some t \<longleftrightarrow> canonical_name t \<and> t = to_ascii_lowercase (trim_end_dots input)"
  by (auto simp: canonicalise_eq Let_def)

lemma canonicalise_canonical: "canonical_name t \<Longrightarrow> canonicalise t = Some t"
proof -
  assume *: "canonical_name t"
  then have "t \<noteq> []" by (auto simp: canonical_name_def)
  moreover have "[] \<notin> set (split_on DOT t)" using * by (auto simp: canonical_name_def list_all_iff)
  ultimately have "last t \<noteq> DOT" using last_split_on [of t DOT] by (intro notI) simp
  with \<open>t \<noteq> []\<close> have "trim_end_dots t = t" by (rule trim_end_dots_fixed)
  with * show ?thesis by (simp add: canonicalise_Some_iff canonical_name_def)
qed

lemma scan_chars_eq:
  "scan_chars cs (idn, sp) = (if list_ex char_is_ascii_control cs then None
     else Some (idn \<or> list_ex (\<lambda>c. \<not> c < 128) cs, sp \<or> list_ex (\<lambda>c. c \<noteq> 32) cs))"
  by (induction cs arbitrary: idn sp) auto

lemma scan_labels_eq:
  "scan_labels ls (idn, sp) =
     (if list_ex (\<lambda>l. length l > MAXLABEL \<or> list_ex char_is_ascii_control (str_chars l)) ls then None
      else Some (idn \<or> list_ex (\<lambda>l. list_ex (\<lambda>c. \<not> c < 128) (str_chars l)) ls,
                 sp \<or> list_ex (\<lambda>l. list_ex (\<lambda>c. c \<noteq> 32) (str_chars l)) ls))"
  by (induction ls arbitrary: idn sp) (auto simp: scan_chars_eq)

lemma list_all_enumerate: "list_all (\<lambda>(i, x). P i x) (List.enumerate k xs) \<Longrightarrow> (\<And>i x. P i x \<Longrightarrow> Q x) \<Longrightarrow> list_all Q xs"
  by (induction xs arbitrary: k) auto

section \<open>Properties\<close>

text \<open>\<open>hostname_order\<close> is the lexicographic order of the names' lower-cased characters, hence a total order of
  the names up to case, and it agrees with the order of the swapped arguments.\<close>

lemma hostname_order_is_lexicographic:
  "(hostname_order a b = OrdLess \<longleftrightarrow> name_key a < name_key b)
   \<and> (hostname_order a b = OrdEqual \<longleftrightarrow> name_key a = name_key b)
   \<and> (hostname_order a b = OrdGreater \<longleftrightarrow> name_key b < name_key a)"
  by (auto simp: hostname_order_key)

text \<open>\<open>hostname_issubdomain a b\<close> answers \<open>Some(2)\<close> exactly when the names are equal up to case,
  \<open>Some(1)\<close> exactly when \<open>b\<close> ends with a dot followed by \<open>a\<close> up to case, and nothing else.\<close>

lemma hostname_issubdomain_exact:
  assumes "utf8_valid a" "utf8_valid b"
  shows "(hostname_issubdomain a b = Some 2 \<longleftrightarrow> name_key b = name_key a)
    \<and> (hostname_issubdomain a b = Some 1 \<longleftrightarrow> (\<exists>p. name_key b = p @ [46] @ name_key a))
    \<and> hostname_issubdomain a b \<in> {None, Some 1, Some 2}"
  using issubdomain_loop_range [of "rev (name_key a)" "rev (name_key b)"]
  unfolding hostname_issubdomain_loop [OF assms] issubdomain_loop_iff rev_suffix_iff
  by auto

text \<open>\<open>canonicalise\<close> returns the lower-cased name without its trailing dots, exactly when that name is not
  empty, has at most 253 octets and only labels of 1 to 63 octets; a second application
  changes nothing.\<close>

lemma canonicalise_exact:
  "(canonicalise input = Some t \<longleftrightarrow> canonical_name t \<and> t = to_ascii_lowercase (trim_end_dots input))
   \<and> (canonical_name t \<longrightarrow> canonicalise t = Some t)"
  by (simp add: canonicalise_Some_iff canonicalise_canonical)

text \<open>\<open>check_name\<close> accepts a name as plain exactly when, without its trailing dots, it is not empty and not
  longer than 1025 octets, every label has at most 63 octets and only ASCII characters that
  are neither controls nor upper case, and the name has a character other than a space or ends
  with a dot.\<close>

lemma hostname_check_name_valid:
  "hostname_check_name name = Valid \<longleftrightarrow>
     (let trimmed = trim_end_dots name; labels = split_on DOT trimmed in
        trimmed \<noteq> [] \<and> length trimmed \<le> MAXDNAME
        \<and> (ends_with name [DOT] \<or> (\<exists>l \<in> set labels. \<exists>c \<in> set (str_chars l). c \<noteq> 32))
        \<and> list_all (\<lambda>l. length l \<le> MAXLABEL \<and> list_all (\<lambda>c. 32 \<le> c \<and> c < 127) (str_chars l)) labels
        \<and> \<not> list_ex char_is_ascii_uppercase (str_chars trimmed))"
proof -
  have ctl: "\<not> char_is_ascii_control c \<and> c < 128 \<longleftrightarrow> 32 \<le> c \<and> c < 127" for c
    by (auto simp: char_is_ascii_control_def)
  have all: "list_all (\<lambda>l. length l \<le> MAXLABEL \<and> list_all (\<lambda>c. 32 \<le> c \<and> c < 127) (str_chars l)) ls
     \<longleftrightarrow> \<not> list_ex (\<lambda>l. length l > MAXLABEL \<or> list_ex char_is_ascii_control (str_chars l)) ls
         \<and> \<not> list_ex (\<lambda>l. list_ex (\<lambda>c. \<not> c < 128) (str_chars l)) ls" for ls
    unfolding list_all_iff list_ex_iff ctl [symmetric] by (auto simp: not_less) (meson not_less)+
  have some: "(\<exists>l \<in> set ls. \<exists>c \<in> set (str_chars l). c \<noteq> 32)
     \<longleftrightarrow> list_ex (\<lambda>l. list_ex (\<lambda>c. c \<noteq> 32) (str_chars l)) ls" for ls
    by (simp add: list_ex_iff)
  show ?thesis
    unfolding hostname_check_name_def Let_def all some
    unfolding scan_labels_eq not_less [symmetric]
    by (auto simp del: not_less)
qed

end
