(* ===== verification/Flags_Metrics.thy ===== *)
theory Flags_Metrics
  imports Rust_Base
begin

unbundle bit_operations_syntax

text \<open>
  The flag bits of cache records, \<open>src/types/constants.rs\<close>, and the metric counters,
  \<open>src/metrics/mod.rs\<close>. The counters are a static array of the program; they are a function
  from metrics to 64-bit words that the operations which count take and return.
\<close>

section \<open>Record flags\<close>

definition F_IMMORTAL :: u32 where "F_IMMORTAL = push_bit 0 1"
definition F_NAMEP :: u32 where "F_NAMEP = push_bit 1 1"
definition F_REVERSE :: u32 where "F_REVERSE = push_bit 2 1"
definition F_FORWARD :: u32 where "F_FORWARD = push_bit 3 1"
definition F_DHCP :: u32 where "F_DHCP = push_bit 4 1"
definition F_NEG :: u32 where "F_NEG = push_bit 5 1"
definition F_HOSTS :: u32 where "F_HOSTS = push_bit 6 1"
definition F_IPV4 :: u32 where "F_IPV4 = push_bit 7 1"
definition F_IPV6 :: u32 where "F_IPV6 = push_bit 8 1"
definition F_BIGNAME :: u32 where "F_BIGNAME = push_bit 9 1"
definition F_NXDOMAIN :: u32 where "F_NXDOMAIN = push_bit 10 1"
definition F_CNAME :: u32 where "F_CNAME = push_bit 11 1"
definition F_DNSKEY :: u32 where "F_DNSKEY = push_bit 12 1"
definition F_CONFIG :: u32 where "F_CONFIG = push_bit 13 1"
definition F_DS :: u32 where "F_DS = push_bit 14 1"
definition F_DNSSECOK :: u32 where "F_DNSSECOK = push_bit 15 1"
definition F_UPSTREAM :: u32 where "F_UPSTREAM = push_bit 16 1"
definition F_RRNAME :: u32 where "F_RRNAME = push_bit 17 1"
definition F_SERVER :: u32 where "F_SERVER = push_bit 18 1"
definition F_QUERY :: u32 where "F_QUERY = push_bit 19 1"
definition F_NOERR :: u32 where "F_NOERR = push_bit 20 1"
definition F_AUTH :: u32 where "F_AUTH = push_bit 21 1"
definition F_DNSSEC :: u32 where "F_DNSSEC = push_bit 22 1"
definition F_KEYTAG :: u32 where "F_KEYTAG = push_bit 23 1"
definition F_SECSTAT :: u32 where "F_SECSTAT = push_bit 24 1"
definition F_NO_RR :: u32 where "F_NO_RR = push_bit 25 1"
definition F_IPSET :: u32 where "F_IPSET = push_bit 26 1"
definition F_NOEXTRA :: u32 where "F_NOEXTRA = push_bit 27 1"
definition F_DOMAINSRV :: u32 where "F_DOMAINSRV = push_bit 28 1"
definition F_RCODE :: u32 where "F_RCODE = push_bit 29 1"
definition F_RR :: u32 where "F_RR = push_bit 30 1"
definition F_STALE :: u32 where "F_STALE = push_bit 31 1"

lemmas flag_defs = F_IMMORTAL_def F_NAMEP_def F_REVERSE_def F_FORWARD_def F_DHCP_def F_NEG_def F_HOSTS_def
  F_IPV4_def F_IPV6_def F_BIGNAME_def F_NXDOMAIN_def F_CNAME_def F_DNSKEY_def F_CONFIG_def
  F_DS_def F_DNSSECOK_def F_UPSTREAM_def F_RRNAME_def F_SERVER_def F_QUERY_def F_NOERR_def
  F_AUTH_def F_DNSSEC_def F_KEYTAG_def F_SECSTAT_def F_NO_RR_def F_IPSET_def F_NOEXTRA_def
  F_DOMAINSRV_def F_RCODE_def F_RR_def F_STALE_def

abbreviation (input) UID_NONE :: u32 where
  "UID_NONE \<equiv> 0"

definition TYPE_MASK :: u32 where
  "TYPE_MASK = F_IPV4 OR F_IPV6 OR F_CNAME OR F_NEG OR F_NXDOMAIN OR F_REVERSE OR F_DNSKEY OR F_DS
     OR F_RR OR F_DNSSEC"

definition type_flags :: "u32 \<Rightarrow> u32" where
  "type_flags flags = flags AND TYPE_MASK"

lemma type_flags_idem [simp]: "type_flags (type_flags f) = type_flags f"
  by (simp add: type_flags_def and.assoc)

lemma type_flags_or: "type_flags (a OR b) = type_flags a OR type_flags b"
  by (simp add: type_flags_def bit.conj_disj_distrib2)

text \<open>The bits outside \<open>TYPE_MASK\<close> that the cache operations set.\<close>

lemma type_flags_outside [simp]:
  "type_flags F_IMMORTAL = 0" "type_flags F_FORWARD = 0" "type_flags F_HOSTS = 0"
  "type_flags F_DHCP = 0" "type_flags F_CONFIG = 0" "type_flags F_DNSSECOK = 0" "type_flags F_UPSTREAM = 0"
  by (simp_all add: type_flags_def TYPE_MASK_def flag_defs)

lemma type_flags_inside [simp]:
  "type_flags F_IPV4 = F_IPV4" "type_flags F_IPV6 = F_IPV6" "type_flags F_CNAME = F_CNAME"
  "type_flags F_NEG = F_NEG" "type_flags F_NXDOMAIN = F_NXDOMAIN" "type_flags F_REVERSE = F_REVERSE"
  "type_flags F_DNSKEY = F_DNSKEY" "type_flags F_DS = F_DS" "type_flags F_RR = F_RR"
  by (simp_all add: type_flags_def TYPE_MASK_def flag_defs)

section \<open>Metrics\<close>

datatype metric =
    DnsCacheInserted | DnsCacheLiveFreed | DnsQueriesForwarded | DnsAuthAnswered | DnsLocalAnswered
  | DnsStaleAnswered | DnsUnansweredQuery | CryptoHwm | SigFailHwm | WorkHwm | Bootp | Pxe | Dhcpack
  | Dhcpdecline | Dhcpdiscover | Dhcpinform | Dhcpnak | Dhcpoffer | Dhcprelease | Dhcprequest
  | Noanswer | LeasesAllocated4 | LeasesPruned4 | LeasesAllocated6 | LeasesPruned6 | TcpConnections
  | Dhcpleasequery | Dhcpleaseunassigned | Dhcpleaseactive | Dhcpleaseunknown | MetricMax

type_synonym counters = "metric \<Rightarrow> u64"

text \<open>\<open>fetch_add\<close> on an atomic wraps around.\<close>

definition inc_metric :: "metric \<Rightarrow> counters \<Rightarrow> counters" where
  "inc_metric m cs = cs(m := cs m + 1)"

definition get_metric :: "counters \<Rightarrow> metric \<Rightarrow> u64" where
  "get_metric cs m = cs m"

definition ALL_METRICS :: "metric list" where
  "ALL_METRICS =
     [DnsCacheInserted, DnsCacheLiveFreed, DnsQueriesForwarded, DnsAuthAnswered,
      DnsLocalAnswered, DnsStaleAnswered, DnsUnansweredQuery, CryptoHwm, SigFailHwm, WorkHwm,
      Bootp, Pxe, Dhcpack, Dhcpdecline, Dhcpdiscover, Dhcpinform, Dhcpnak, Dhcpoffer,
      Dhcprelease, Dhcprequest, Noanswer, LeasesAllocated4, LeasesPruned4, LeasesAllocated6,
      LeasesPruned6, TcpConnections, Dhcpleasequery, Dhcpleaseunassigned, Dhcpleaseactive,
      Dhcpleaseunknown]"

fun metric_name :: "metric \<Rightarrow> rstr" where
  "metric_name DnsCacheInserted = str_lit ''dns_cache_inserted''"
| "metric_name DnsCacheLiveFreed = str_lit ''dns_cache_live_freed''"
| "metric_name DnsQueriesForwarded = str_lit ''dns_queries_forwarded''"
| "metric_name DnsAuthAnswered = str_lit ''dns_auth_answered''"
| "metric_name DnsLocalAnswered = str_lit ''dns_local_answered''"
| "metric_name DnsStaleAnswered = str_lit ''dns_stale_answered''"
| "metric_name DnsUnansweredQuery = str_lit ''dns_unanswered''"
| "metric_name CryptoHwm = str_lit ''dnssec_max_crypto_use''"
| "metric_name SigFailHwm = str_lit ''dnssec_max_sig_fail''"
| "metric_name WorkHwm = str_lit ''dnssec_max_work''"
| "metric_name Bootp = str_lit ''bootp''"
| "metric_name Pxe = str_lit ''pxe''"
| "metric_name Dhcpack = str_lit ''dhcp_ack''"
| "metric_name Dhcpdecline = str_lit ''dhcp_decline''"
| "metric_name Dhcpdiscover = str_lit ''dhcp_discover''"
| "metric_name Dhcpinform = str_lit ''dhcp_inform''"
| "metric_name Dhcpnak = str_lit ''dhcp_nak''"
| "metric_name Dhcpoffer = str_lit ''dhcp_offer''"
| "metric_name Dhcprelease = str_lit ''dhcp_release''"
| "metric_name Dhcprequest = str_lit ''dhcp_request''"
| "metric_name Noanswer = str_lit ''noanswer''"
| "metric_name LeasesAllocated4 = str_lit ''leases_allocated_4''"
| "metric_name LeasesPruned4 = str_lit ''leases_pruned_4''"
| "metric_name LeasesAllocated6 = str_lit ''leases_allocated_6''"
| "metric_name LeasesPruned6 = str_lit ''leases_pruned_6''"
| "metric_name TcpConnections = str_lit ''tcp_connections''"
| "metric_name Dhcpleasequery = str_lit ''dhcp_leasequery''"
| "metric_name Dhcpleaseunassigned = str_lit ''dhcp_lease_unassigned''"
| "metric_name Dhcpleaseactive = str_lit ''dhcp_lease_actve''"
| "metric_name Dhcpleaseunknown = str_lit ''dhcp_lease_unknown''"
| "metric_name MetricMax = str_lit ''<invalid>''"

lemma inc_metric_get: "get_metric (inc_metric m cs) m' = get_metric cs m' + (if m' = m then 1 else 0)"
  by (simp add: get_metric_def inc_metric_def)

end
