(* ===== verification/Lru.thy ===== *)
theory Lru
  imports Rust_Base
begin

text \<open>
  The interface of \<open>lru::LruCache\<close>, the bounded map behind the DNS cache. The crate is not part of
  the repository, so its operations are a parameter: a record of functions on an unknown
  representation. The laws describe the documented behaviour through \<open>iter\<close>, which visits the
  entries from the most to the least recently used. The interpretation at the end
  implements the interface by an association list in that order.
\<close>

section \<open>The operations\<close>

record ('k, 'v, 'l) lru =
  lru_new :: "nat \<Rightarrow> 'l"
  lru_len :: "'l \<Rightarrow> nat"
  lru_iter :: "'l \<Rightarrow> ('k \<times> 'v) list"
  lru_peek :: "'l \<Rightarrow> 'k \<Rightarrow> 'v option"
  lru_get :: "'l \<Rightarrow> 'k \<Rightarrow> 'v option \<times> 'l"
  lru_put :: "'k \<Rightarrow> 'v \<Rightarrow> 'l \<Rightarrow> 'l"
  lru_pop :: "'k \<Rightarrow> 'l \<Rightarrow> 'l"
  lru_peek_mut :: "'k \<Rightarrow> ('v \<Rightarrow> 'v) \<Rightarrow> 'l \<Rightarrow> 'l"
  lru_clear :: "'l \<Rightarrow> 'l"

section \<open>Association lists in order of use\<close>

definition without :: "'k \<Rightarrow> ('k \<times> 'v) list \<Rightarrow> ('k \<times> 'v) list" where
  "without k es = filter (\<lambda>e. fst e \<noteq> k) es"

definition touch :: "'k \<Rightarrow> ('k \<times> 'v) list \<Rightarrow> ('k \<times> 'v) list" where
  "touch k es = (case map_of es k of None \<Rightarrow> es | Some v \<Rightarrow> (k, v) # without k es)"

definition make_room :: "nat \<Rightarrow> 'k \<Rightarrow> ('k \<times> 'v) list \<Rightarrow> ('k \<times> 'v) list" where
  "make_room n k es = (if map_of es k = None \<and> length es = n then butlast es else es)"

definition put_front :: "nat \<Rightarrow> 'k \<Rightarrow> 'v \<Rightarrow> ('k \<times> 'v) list \<Rightarrow> ('k \<times> 'v) list" where
  "put_front n k v es = (k, v) # without k (make_room n k es)"

definition modify :: "'k \<Rightarrow> ('v \<Rightarrow> 'v) \<Rightarrow> ('k \<times> 'v) list \<Rightarrow> ('k \<times> 'v) list" where
  "modify k f es = map (\<lambda>(k', v). (k', if k' = k then f v else v)) es"

lemma map_of_without [simp]: "map_of (without k es) = (map_of es)(k := None)"
  by (induction es) (auto simp: without_def)

lemma set_without [simp]: "set (without k es) = {e \<in> set es. fst e \<noteq> k}"
  by (auto simp: without_def)

lemma distinct_without: "distinct (map fst es) \<Longrightarrow> distinct (map fst (without k es))"
  by (simp add: without_def distinct_map_filter)

lemma without_absent: "map_of es k = None \<Longrightarrow> without k es = es"
  by (auto simp: without_def map_of_eq_None_iff filter_id_conv)

lemma length_without:
  "distinct (map fst es) \<Longrightarrow> length (without k es) = length es - (if map_of es k = None then 0 else 1)"
proof (induction es)
  case (Cons e es)
  show ?case
  proof (cases "fst e = k")
    case True
    with Cons.prems have "without k es = es"
      by (intro without_absent) (auto simp: map_of_eq_None_iff)
    with True show ?thesis by (cases e) (simp add: without_def)
  next
    case False
    with Cons show ?thesis by (cases e; cases es) (auto simp: without_def split: if_splits)
  qed
qed (simp add: without_def)

lemma map_of_touch [simp]: "map_of (touch k es) = map_of es"
  by (auto simp: touch_def split: option.splits)

lemma set_touch [simp]: "distinct (map fst es) \<Longrightarrow> set (touch k es) = set es"
  by (auto simp: touch_def split: option.splits dest: map_of_SomeD) (metis map_of_is_SomeI option.inject)

lemma distinct_touch: "distinct (map fst es) \<Longrightarrow> distinct (map fst (touch k es))"
  by (auto simp: touch_def distinct_without split: option.splits)

lemma touch_touch [simp]: "touch k (touch k es) = touch k es"
  by (auto simp: touch_def without_def split: option.splits)

lemma length_touch: "distinct (map fst es) \<Longrightarrow> length (touch k es) = length es"
  by (cases es) (auto simp: touch_def length_without split: option.splits)

lemma distinct_butlast_map: "distinct (map fst es) \<Longrightarrow> distinct (map fst (butlast es))"
  by (simp add: map_butlast distinct_butlast)

lemma distinct_put_front: "distinct (map fst es) \<Longrightarrow> distinct (map fst (put_front n k v es))"
  by (auto simp: put_front_def make_room_def distinct_without distinct_butlast_map)

lemma length_put_front:
  assumes "distinct (map fst es)" "length es \<le> n" "0 < n"
  shows "length (put_front n k v es) \<le> n"
proof (cases "map_of es k = None")
  case True
  then have "map_of (butlast es) k = None"
    by (auto simp: map_of_eq_None_iff dest: in_set_butlastD)
  with True assms show ?thesis
    by (auto simp: put_front_def make_room_def without_absent)
next
  case False
  with assms show ?thesis
    by (cases es) (auto simp: put_front_def make_room_def length_without)
qed

lemma map_of_put_front_self [simp]: "map_of (put_front n k v es) k = Some v"
  by (simp add: put_front_def)

lemma map_of_put_front_other:
  "k' \<noteq> k \<Longrightarrow> map_of (put_front n k v es) k' = map_of (make_room n k es) k'"
  by (simp add: put_front_def)

lemma set_put_front: "set (put_front n k v es) \<subseteq> insert (k, v) (set es)"
  by (auto simp: put_front_def make_room_def dest: in_set_butlastD)

lemma map_fst_modify [simp]: "map fst (modify k f es) = map fst es"
  by (induction es) (auto simp: modify_def)

lemma length_modify [simp]: "length (modify k f es) = length es"
  by (simp add: modify_def)

lemma map_of_modify:
  "map_of (modify k f es) k' = (if k' = k then map_option f (map_of es k) else map_of es k')"
  by (induction es) (auto simp: modify_def)

section \<open>The laws\<close>

locale lru_laws =
  fixes L :: "('k, 'v, 'l) lru"
    and lru_ok :: "'l \<Rightarrow> bool"
    and lru_cap :: "'l \<Rightarrow> nat"
  assumes new_law: "0 < n \<Longrightarrow> lru_ok (lru_new L n) \<and> lru_cap (lru_new L n) = n \<and> lru_iter L (lru_new L n) = []"
    and ok_law: "lru_ok l \<Longrightarrow> distinct (map fst (lru_iter L l)) \<and> length (lru_iter L l) \<le> lru_cap l \<and> 0 < lru_cap l"
    and len_law: "lru_ok l \<Longrightarrow> lru_len L l = length (lru_iter L l)"
    and peek_law: "lru_ok l \<Longrightarrow> lru_peek L l k = map_of (lru_iter L l) k"
    and get_law: "lru_ok l \<Longrightarrow> lru_get L l k = (r, l') \<Longrightarrow>
        r = map_of (lru_iter L l) k \<and> lru_ok l' \<and> lru_cap l' = lru_cap l \<and> lru_iter L l' = touch k (lru_iter L l)"
    and put_law: "lru_ok l \<Longrightarrow> lru_ok (lru_put L k v l) \<and> lru_cap (lru_put L k v l) = lru_cap l
        \<and> lru_iter L (lru_put L k v l) = put_front (lru_cap l) k v (lru_iter L l)"
    and pop_law: "lru_ok l \<Longrightarrow> lru_ok (lru_pop L k l) \<and> lru_cap (lru_pop L k l) = lru_cap l
        \<and> lru_iter L (lru_pop L k l) = without k (lru_iter L l)"
    and peek_mut_law: "lru_ok l \<Longrightarrow> lru_ok (lru_peek_mut L k f l) \<and> lru_cap (lru_peek_mut L k f l) = lru_cap l
        \<and> lru_iter L (lru_peek_mut L k f l) = modify k f (lru_iter L l)"
    and clear_law: "lru_ok l \<Longrightarrow> lru_ok (lru_clear L l) \<and> lru_cap (lru_clear L l) = lru_cap l
        \<and> lru_iter L (lru_clear L l) = []"
begin

lemma get_eq:
  "lru_ok l \<Longrightarrow> \<exists>l'. lru_get L l k = (map_of (lru_iter L l) k, l') \<and> lru_ok l' \<and> lru_cap l' = lru_cap l
     \<and> lru_iter L l' = touch k (lru_iter L l)"
  by (cases "lru_get L l k") (auto dest: get_law)

lemma fold_pop:
  "lru_ok l \<Longrightarrow> lru_ok (fold (lru_pop L) ks l) \<and> lru_cap (fold (lru_pop L) ks l) = lru_cap l
     \<and> lru_iter L (fold (lru_pop L) ks l) = filter (\<lambda>e. fst e \<notin> set ks) (lru_iter L l)"
proof (induction ks arbitrary: l)
  case (Cons k ks)
  then have "lru_ok (lru_pop L k l)" "lru_cap (lru_pop L k l) = lru_cap l"
    "lru_iter L (lru_pop L k l) = without k (lru_iter L l)"
    by (simp_all add: pop_law)
  with Cons.IH [of "lru_pop L k l"] show ?case
    by (auto simp: without_def intro!: filter_cong)
qed simp

end

section \<open>The list implementation\<close>

text \<open>A capacity and the entries, most recently used first.\<close>

type_synonym ('k, 'v) lru_list = "nat \<times> ('k \<times> 'v) list"

definition list_lru :: "('k, 'v, ('k, 'v) lru_list) lru" where
  "list_lru =
     \<lparr>lru_new = (\<lambda>n. (n, [])),
      lru_len = (\<lambda>(n, es). length es),
      lru_iter = snd,
      lru_peek = (\<lambda>(n, es) k. map_of es k),
      lru_get = (\<lambda>(n, es) k. (map_of es k, (n, touch k es))),
      lru_put = (\<lambda>k v (n, es). (n, put_front n k v es)),
      lru_pop = (\<lambda>k (n, es). (n, without k es)),
      lru_peek_mut = (\<lambda>k f (n, es). (n, modify k f es)),
      lru_clear = (\<lambda>(n, es). (n, []))\<rparr>"

definition list_lru_ok :: "('k, 'v) lru_list \<Rightarrow> bool" where
  "list_lru_ok l \<longleftrightarrow> distinct (map fst (snd l)) \<and> length (snd l) \<le> fst l \<and> 0 < fst l"

lemma list_lru_simps [simp]:
  "lru_new list_lru n = (n, [])"
  "lru_len list_lru l = length (snd l)"
  "lru_iter list_lru = snd"
  "lru_peek list_lru l k = map_of (snd l) k"
  "lru_get list_lru l k = (map_of (snd l) k, (fst l, touch k (snd l)))"
  "lru_put list_lru k v l = (fst l, put_front (fst l) k v (snd l))"
  "lru_pop list_lru k l = (fst l, without k (snd l))"
  "lru_peek_mut list_lru k f l = (fst l, modify k f (snd l))"
  "lru_clear list_lru l = (fst l, [])"
  by (simp_all add: list_lru_def split_beta)

interpretation list_lru: lru_laws list_lru list_lru_ok fst
proof
  fix l :: "('a, 'b) lru_list" and k v
  assume "list_lru_ok l"
  moreover have "length (without k es) \<le> length es" for k :: 'a and es :: "('a \<times> 'b) list"
    by (simp add: without_def)
  ultimately show "list_lru_ok (lru_pop list_lru k l) \<and> fst (lru_pop list_lru k l) = fst l
      \<and> lru_iter list_lru (lru_pop list_lru k l) = without k (lru_iter list_lru l)"
    by (auto simp: list_lru_ok_def distinct_without intro: order_trans)
qed (auto simp: list_lru_ok_def distinct_touch length_touch distinct_put_front length_put_front)

end
