(* ===== verification/Dns_Cache.thy ===== *)
theory Dns_Cache
  imports Addr_Net Flags_Metrics Lru
begin

unbundle bit_operations_syntax

text \<open>
  The DNS cache, \<open>src/cache.rs\<close>: a bounded least-recently-used map from lower-cased names and type
  bits to records, with expiry, protection of static records, insert transactions and
  usage counters. An \<open>Instant\<close> is a number of nanoseconds. The LRU map \<open>L\<close> and the Unicode
  lower-casing \<open>lower\<close> are parameters. The counters \<open>inserts\<close>, \<open>evictions\<close>, \<open>hits\<close> and \<open>misses\<close>
  are 64-bit words; the static metric counters are the last component of the state.
\<close>

section \<open>Records and state\<close>

type_synonym instant = nat

definition from_secs :: "nat \<Rightarrow> nat" where
  "from_secs s = s * 1000000000"

definition as_secs :: "nat \<Rightarrow> nat" where
  "as_secs d = d div 1000000000"

record cache_key =
  ck_name :: rstr
  ck_flags :: u32

record cache_record =
  cr_name :: rstr
  cr_flags :: u32
  cr_ttl :: u32
  cr_expires :: instant
  cr_addr :: "all_addr option"
  cr_rdata :: "u8 list option"
  cr_uid :: u32

record cache_stats =
  cs_inserts :: u64
  cs_evictions :: u64
  cs_hits :: u64
  cs_misses :: u64
  cs_size :: nat

datatype insert_outcome = Inserted | ZeroTtlDropped | BlockedSameAddr | BlockedConflict | CachingDisabled

datatype prepared_insert = New cache_record | SameAddr cache_record

record 'l dns_cache =
  max_size :: nat
  records :: 'l
  min_cache_ttl :: u32
  max_cache_ttl :: u32
  inserts :: u64
  evictions :: u64
  hits :: u64
  misses :: u64
  new_chain :: "cache_record list"
  insert_error :: bool
  source_registry :: "u32 \<Rightarrow> rstr option"
  counters :: counters

type_synonym 'l cache_lru = "(cache_key, cache_record, 'l) lru"

section \<open>Helpers\<close>

definition DNSSEC_MIN_TTL :: u32 where
  "DNSSEC_MIN_TTL = 60"

text \<open>The unique-id counter skips \<open>UID_NONE\<close> when it wraps around.\<close>

function next_uid :: "u32 \<Rightarrow> u32 \<times> u32" where
  "next_uid ctr = (if ctr \<noteq> UID_NONE then (ctr, ctr + 1) else next_uid (ctr + 1))"
  by auto
termination
  by (relation "measure (\<lambda>ctr. if ctr = 0 then 1 else 0)") auto

declare next_uid.simps [simp del]

definition record_is_expired :: "cache_record \<Rightarrow> instant \<Rightarrow> bool" where
  "record_is_expired rec now = (if cr_flags rec AND F_IMMORTAL \<noteq> 0 then False else cr_expires rec \<le> now)"

lemma dropWhile_Cons_shorter: "dropWhile P xs = y # ys \<Longrightarrow> length ys < length xs"
  by (metis Suc_le_lessD length_Cons length_dropWhile_le)

function non_terminal_names :: "rstr \<Rightarrow> rstr list" where
  "non_terminal_names name =
     (case dropWhile (\<lambda>b. b \<noteq> DOT) name of
        [] \<Rightarrow> []
      | _ # rest \<Rightarrow> (if DOT \<in> set rest then [rest] else []) @ non_terminal_names rest)"
  by auto
termination
  by (relation "measure length") (auto dest: dropWhile_Cons_shorter)

declare non_terminal_names.simps [simp del]

definition cache_key_for :: "(rstr \<Rightarrow> rstr) \<Rightarrow> rstr \<Rightarrow> u32 \<Rightarrow> cache_key" where
  "cache_key_for lower name flags = \<lparr>ck_name = lower name, ck_flags = type_flags flags\<rparr>"

definition is_static :: "u32 \<Rightarrow> bool" where
  "is_static flags \<longleftrightarrow> flags AND (F_HOSTS OR F_DHCP OR F_CONFIG) \<noteq> 0"

fun addr_matches :: "all_addr option \<Rightarrow> all_addr \<Rightarrow> bool" where
  "addr_matches (Some (Addr4 a)) (Addr4 b) = (a = b)"
| "addr_matches (Some (Addr6 a)) (Addr6 b) = (a = b)"
| "addr_matches _ _ = False"

section \<open>Construction and insertion\<close>

definition cache_new :: "'l cache_lru \<Rightarrow> counters \<Rightarrow> nat \<Rightarrow> 'l dns_cache" where
  "cache_new L cs n =
     \<lparr>max_size = n, records = lru_new L (max n 1), min_cache_ttl = 0, max_cache_ttl = 0,
      inserts = 0, evictions = 0, hits = 0, misses = 0, new_chain = [], insert_error = False,
      source_registry = Map.empty, counters = cs\<rparr>"

definition with_ttl_limits :: "'l cache_lru \<Rightarrow> counters \<Rightarrow> nat \<Rightarrow> u32 \<Rightarrow> u32 \<Rightarrow> 'l dns_cache" where
  "with_ttl_limits L cs n min_ttl max_ttl =
     (cache_new L cs n)\<lparr>min_cache_ttl := min_ttl, max_cache_ttl := max_ttl\<rparr>"

definition register_record_source :: "u32 \<Rightarrow> rstr \<Rightarrow> 'l dns_cache \<Rightarrow> 'l dns_cache" where
  "register_record_source uid source c =
     (if uid = UID_NONE then c else c\<lparr>source_registry := (source_registry c)(uid \<mapsto> source)\<rparr>)"

definition record_source :: "'l dns_cache \<Rightarrow> u32 \<Rightarrow> rstr" where
  "record_source c uid = (case source_registry c uid of Some s \<Rightarrow> s | None \<Rightarrow> str_lit ''<unknown>'')"

definition count_eviction :: "'l dns_cache \<Rightarrow> 'l dns_cache" where
  "count_eviction c = c\<lparr>evictions := evictions c + 1, counters := inc_metric DnsCacheLiveFreed (counters c)\<rparr>"

definition cache_insert :: "'l cache_lru \<Rightarrow> (rstr \<Rightarrow> rstr) \<Rightarrow> cache_record \<Rightarrow> 'l dns_cache \<Rightarrow> 'l dns_cache" where
  "cache_insert L lower rec c =
     (if max_size c = 0 then c
      else let key = cache_key_for lower (cr_name rec) (cr_flags rec);
               was_full = (lru_len L (records c) = max_size c);
               c1 = c\<lparr>records := lru_put L key rec (records c), inserts := inserts c + 1,
                      counters := inc_metric DnsCacheInserted (counters c)\<rparr>
           in if was_full then count_eviction c1 else c1)"

definition clamp_cache_ttl :: "'l dns_cache \<Rightarrow> u32 \<Rightarrow> u32 \<Rightarrow> u32" where
  "clamp_cache_ttl c flags ttl =
     (if flags AND (F_DNSKEY OR F_DS) \<noteq> 0 then (if ttl < DNSSEC_MIN_TTL then DNSSEC_MIN_TTL else ttl)
      else let ttl1 = (if max_cache_ttl c \<noteq> 0 \<and> ttl > max_cache_ttl c then max_cache_ttl c else ttl)
           in if min_cache_ttl c \<noteq> 0 \<and> ttl1 < min_cache_ttl c then min_cache_ttl c else ttl1)"

fun same_static_addr :: "all_addr option \<Rightarrow> all_addr option \<Rightarrow> bool" where
  "same_static_addr (Some (Addr4 ex)) (Some (Addr4 r)) = (ex = r)"
| "same_static_addr (Some (Addr6 ex)) (Some (Addr6 r)) = (ex = r)"
| "same_static_addr _ _ = False"

definition prepare_insert ::
    "'l cache_lru \<Rightarrow> (rstr \<Rightarrow> rstr) \<Rightarrow> cache_record \<Rightarrow> instant \<Rightarrow> 'l dns_cache \<Rightarrow> insert_outcome + prepared_insert" where
  "prepare_insert L lower rec now c =
     and_then
       (if \<not> is_static (cr_flags rec) then
          let rec1 = rec\<lparr>cr_ttl := clamp_cache_ttl c (cr_flags rec) (cr_ttl rec)\<rparr>
          in if cr_ttl rec1 = 0 \<and> cr_flags rec1 AND F_IMMORTAL = 0 then Inl ZeroTtlDropped
             else Inr (rec1\<lparr>cr_expires := now + from_secs (unat (cr_ttl rec1))\<rparr>)
        else Inr rec)
       (\<lambda>rec.
          let key = cache_key_for lower (cr_name rec) (cr_flags rec);
              go = (if max_size c = 0 then Inl CachingDisabled else Inr (New rec))
          in case lru_peek L (records c) key of
               Some existing \<Rightarrow>
                 if is_static (cr_flags existing) then
                   if \<not> is_static (cr_flags rec) then
                     if same_static_addr (cr_addr existing) (cr_addr rec) then Inr (SameAddr rec)
                     else Inl BlockedConflict
                   else go
                 else go
             | None \<Rightarrow> go)"

definition really_insert ::
    "'l cache_lru \<Rightarrow> (rstr \<Rightarrow> rstr) \<Rightarrow> cache_record \<Rightarrow> instant \<Rightarrow> 'l dns_cache \<Rightarrow> insert_outcome \<times> 'l dns_cache" where
  "really_insert L lower rec now c =
     (case prepare_insert L lower rec now c of
        Inr (New r) \<Rightarrow> (Inserted, cache_insert L lower r c)
      | Inr (SameAddr r) \<Rightarrow> (BlockedSameAddr, c)
      | Inl outcome \<Rightarrow> (outcome, c))"

section \<open>Insert transactions\<close>

definition start_insert :: "'l dns_cache \<Rightarrow> 'l dns_cache" where
  "start_insert c = c\<lparr>new_chain := [], insert_error := False\<rparr>"

definition stage_insert ::
    "'l cache_lru \<Rightarrow> (rstr \<Rightarrow> rstr) \<Rightarrow> cache_record \<Rightarrow> instant \<Rightarrow> 'l dns_cache \<Rightarrow> insert_outcome option \<times> 'l dns_cache" where
  "stage_insert L lower rec now c =
     (if insert_error c then (None, c)
      else (case prepare_insert L lower rec now c of
              Inr (New r) \<Rightarrow> (Some Inserted, c\<lparr>new_chain := new_chain c @ [r]\<rparr>)
            | Inr (SameAddr _) \<Rightarrow> (Some BlockedSameAddr, c)
            | Inl outcome \<Rightarrow> (Some outcome, c\<lparr>insert_error := True\<rparr>)))"

definition is_outdated_cname_pointer :: "'l cache_lru \<Rightarrow> (rstr \<Rightarrow> rstr) \<Rightarrow> 'l dns_cache \<Rightarrow> cache_record \<Rightarrow> bool" where
  "is_outdated_cname_pointer L lower c rec =
     (if cr_flags rec AND F_CNAME = 0 then False
      else (case cr_addr rec of
              Some (Cname cn) \<Rightarrow>
                if is_name_ptr cn then False
                else (case target_name cn of
                        None \<Rightarrow> True
                      | Some t \<Rightarrow>
                          \<not> list_ex (\<lambda>(k, r). ck_name k = lower t \<and> cr_flags r AND (F_DNSKEY OR F_DS) = 0
                                            \<and> cr_uid r = cname_uid cn) (lru_iter L (records c)))
            | _ \<Rightarrow> False))"

fun commit_chain ::
    "'l cache_lru \<Rightarrow> (rstr \<Rightarrow> rstr) \<Rightarrow> cache_record list \<Rightarrow> nat \<Rightarrow> 'l dns_cache \<Rightarrow> nat \<times> 'l dns_cache" where
  "commit_chain L lower [] committed c = (committed, c)"
| "commit_chain L lower (rec # staged) committed c =
     (if is_outdated_cname_pointer L lower c rec then commit_chain L lower staged committed c
      else commit_chain L lower staged (committed + 1) (cache_insert L lower rec c))"

definition end_insert :: "'l cache_lru \<Rightarrow> (rstr \<Rightarrow> rstr) \<Rightarrow> 'l dns_cache \<Rightarrow> nat \<times> 'l dns_cache" where
  "end_insert L lower c =
     (if insert_error c then (0, c\<lparr>new_chain := [], insert_error := False\<rparr>)
      else commit_chain L lower (new_chain c) 0 (c\<lparr>new_chain := []\<rparr>))"

section \<open>Expiry\<close>

definition crec_ttl :: "cache_record \<Rightarrow> instant \<Rightarrow> u32" where
  "crec_ttl rec now =
     (if cr_flags rec AND F_IMMORTAL \<noteq> 0 then cr_ttl rec
      else word_of_nat (min (as_secs (cr_expires rec - now)) 4294967295))"

definition keys_where :: "'l cache_lru \<Rightarrow> (cache_record \<Rightarrow> bool) \<Rightarrow> 'l \<Rightarrow> cache_key list" where
  "keys_where L P l = map fst (filter (\<lambda>(_, r). P r) (lru_iter L l))"

definition pop_keys :: "'l cache_lru \<Rightarrow> cache_key list \<Rightarrow> 'l dns_cache \<Rightarrow> 'l dns_cache" where
  "pop_keys L ks c = c\<lparr>records := fold (lru_pop L) ks (records c)\<rparr>"

definition evict_keys :: "'l cache_lru \<Rightarrow> cache_key list \<Rightarrow> 'l dns_cache \<Rightarrow> 'l dns_cache" where
  "evict_keys L ks c = fold (\<lambda>k c. count_eviction (c\<lparr>records := lru_pop L k (records c)\<rparr>)) ks c"

definition evict_expired :: "'l cache_lru \<Rightarrow> instant \<Rightarrow> 'l dns_cache \<Rightarrow> u32 \<times> 'l dns_cache" where
  "evict_expired L now c =
     (let expired_keys = keys_where L (\<lambda>r. record_is_expired r now) (records c)
      in (word_of_nat (length expired_keys), evict_keys L expired_keys c))"

definition expire_old :: "'l cache_lru \<Rightarrow> instant \<Rightarrow> 'l dns_cache \<Rightarrow> 'l dns_cache" where
  "expire_old L now c = pop_keys L (keys_where L (\<lambda>r. record_is_expired r now) (records c)) c"

section \<open>Lookup\<close>

definition count_hit :: "'l dns_cache \<Rightarrow> 'l dns_cache" where
  "count_hit c = c\<lparr>hits := hits c + 1\<rparr>"

definition count_miss :: "'l dns_cache \<Rightarrow> 'l dns_cache" where
  "count_miss c = c\<lparr>misses := misses c + 1\<rparr>"

definition get_record :: "'l cache_lru \<Rightarrow> cache_key \<Rightarrow> 'l dns_cache \<Rightarrow> cache_record option \<times> 'l dns_cache" where
  "get_record L key c = (case lru_get L (records c) key of (r, l) \<Rightarrow> (r, c\<lparr>records := l\<rparr>))"

definition peek_expired :: "'l cache_lru \<Rightarrow> instant \<Rightarrow> cache_key \<Rightarrow> 'l dns_cache \<Rightarrow> bool" where
  "peek_expired L now key c =
     (case lru_peek L (records c) key of None \<Rightarrow> False | Some r \<Rightarrow> record_is_expired r now)"

definition lookup_by_name ::
    "'l cache_lru \<Rightarrow> (rstr \<Rightarrow> rstr) \<Rightarrow> rstr \<Rightarrow> u32 \<Rightarrow> instant \<Rightarrow> 'l dns_cache \<Rightarrow> cache_record option \<times> 'l dns_cache" where
  "lookup_by_name L lower name flags now c =
     (let key = cache_key_for lower name flags
      in if peek_expired L now key c then
           (None, count_miss (c\<lparr>records := lru_pop L key (records c)\<rparr>))
         else (case get_record L key c of
                 (Some _, c1) \<Rightarrow> get_record L key (count_hit c1)
               | (None, c1) \<Rightarrow> (None, count_miss c1)))"

text \<open>The loop of \<open>lookup_forward\<close> over the positive and the negative key.\<close>

fun probe_keys :: "'l cache_lru \<Rightarrow> instant \<Rightarrow> cache_key list \<Rightarrow> 'l dns_cache \<Rightarrow> cache_key option \<times> 'l dns_cache" where
  "probe_keys L now [] c = (None, c)"
| "probe_keys L now (key # keys) c =
     (if peek_expired L now key c then probe_keys L now keys (c\<lparr>records := lru_pop L key (records c)\<rparr>)
      else if lru_peek L (records c) key \<noteq> None then (Some key, c)
      else probe_keys L now keys c)"

definition lookup_forward ::
    "'l cache_lru \<Rightarrow> (rstr \<Rightarrow> rstr) \<Rightarrow> rstr \<Rightarrow> u32 \<Rightarrow> instant \<Rightarrow> 'l dns_cache \<Rightarrow> cache_record option \<times> 'l dns_cache" where
  "lookup_forward L lower name flags now c =
     (let lwr = lower name; type_bits = type_flags flags
      in case probe_keys L now [\<lparr>ck_name = lwr, ck_flags = type_bits\<rparr>,
                                \<lparr>ck_name = lwr, ck_flags = type_bits OR F_NEG\<rparr>] c of
           (Some key, c1) \<Rightarrow> get_record L key (count_hit c1)
         | (None, c1) \<Rightarrow> (None, count_miss c1))"

definition lookup_by_addr ::
    "'l cache_lru \<Rightarrow> all_addr \<Rightarrow> instant \<Rightarrow> 'l dns_cache \<Rightarrow> cache_record option \<times> 'l dns_cache" where
  "lookup_by_addr L addr now c =
     (let c1 = expire_old L now c
      in case List.find (\<lambda>(_, r). addr_matches (cr_addr r) addr) (lru_iter L (records c1)) of
           Some (k, _) \<Rightarrow> get_record L k (count_hit c1)
         | None \<Rightarrow> (None, count_miss c1))"

definition lookup_negative ::
    "'l cache_lru \<Rightarrow> (rstr \<Rightarrow> rstr) \<Rightarrow> rstr \<Rightarrow> bool \<Rightarrow> instant \<Rightarrow> 'l dns_cache \<Rightarrow> cache_record option \<times> 'l dns_cache" where
  "lookup_negative L lower name nxdomain now c =
     lookup_by_name L lower name (if nxdomain then F_NEG OR F_NXDOMAIN else F_NEG) now c"

definition is_nxdomain :: "'l cache_lru \<Rightarrow> (rstr \<Rightarrow> rstr) \<Rightarrow> rstr \<Rightarrow> instant \<Rightarrow> 'l dns_cache \<Rightarrow> bool \<times> 'l dns_cache" where
  "is_nxdomain L lower name now c = (case lookup_negative L lower name True now c of (r, c1) \<Rightarrow> (r \<noteq> None, c1))"

definition is_nodata :: "'l cache_lru \<Rightarrow> (rstr \<Rightarrow> rstr) \<Rightarrow> rstr \<Rightarrow> instant \<Rightarrow> 'l dns_cache \<Rightarrow> bool \<times> 'l dns_cache" where
  "is_nodata L lower name now c = (case lookup_negative L lower name False now c of (r, c1) \<Rightarrow> (r \<noteq> None, c1))"

definition cache_clear :: "'l cache_lru \<Rightarrow> 'l dns_cache \<Rightarrow> 'l dns_cache" where
  "cache_clear L c = c\<lparr>records := lru_clear L (records c)\<rparr>"

definition cache_len :: "'l cache_lru \<Rightarrow> 'l dns_cache \<Rightarrow> nat" where
  "cache_len L c = lru_len L (records c)"

definition cache_is_empty :: "'l cache_lru \<Rightarrow> 'l dns_cache \<Rightarrow> bool" where
  "cache_is_empty L c \<longleftrightarrow> lru_len L (records c) = 0"

definition cache_count :: "'l cache_lru \<Rightarrow> instant \<Rightarrow> 'l dns_cache \<Rightarrow> nat" where
  "cache_count L now c = length (filter (\<lambda>(_, r). \<not> record_is_expired r now) (lru_iter L (records c)))"

definition stats :: "'l cache_lru \<Rightarrow> 'l dns_cache \<Rightarrow> cache_stats" where
  "stats L c = \<lparr>cs_inserts = inserts c, cs_evictions = evictions c, cs_hits = hits c, cs_misses = misses c,
                cs_size = lru_len L (records c)\<rparr>"

definition count_matches :: "'a list \<Rightarrow> 'l dns_cache \<Rightarrow> 'l dns_cache" where
  "count_matches ms c = (if ms = [] then count_miss c else count_hit c)"

definition lookup_all_by_name ::
    "'l cache_lru \<Rightarrow> (rstr \<Rightarrow> rstr) \<Rightarrow> rstr \<Rightarrow> u32 \<Rightarrow> instant \<Rightarrow> 'l dns_cache \<Rightarrow> cache_record list \<times> 'l dns_cache" where
  "lookup_all_by_name L lower name prot_mask now c =
     (let name_lc = lower name;
          prot_typed = type_flags prot_mask;
          c1 = evict_keys L (keys_where L (\<lambda>r. record_is_expired r now) (records c)) c;
          matches = map snd (filter (\<lambda>(_, r). lower (cr_name r) = name_lc \<and> cr_flags r AND F_FORWARD \<noteq> 0
                                            \<and> cr_flags r AND prot_typed \<noteq> 0) (lru_iter L (records c1)))
      in (matches, count_matches matches c1))"

text \<open>\<open>swap_remove(0)\<close> yields the first element.\<close>

definition lookup_prot ::
    "'l cache_lru \<Rightarrow> (rstr \<Rightarrow> rstr) \<Rightarrow> rstr \<Rightarrow> u32 \<Rightarrow> instant \<Rightarrow> 'l dns_cache \<Rightarrow> cache_record option \<times> 'l dns_cache" where
  "lookup_prot L lower name prot_mask now c =
     (case lookup_all_by_name L lower name prot_mask now c of
        ([], c1) \<Rightarrow> (None, c1)
      | (r # _, c1) \<Rightarrow> (Some r, c1))"

definition lookup_all_by_addr ::
    "'l cache_lru \<Rightarrow> all_addr \<Rightarrow> u32 \<Rightarrow> instant \<Rightarrow> 'l dns_cache \<Rightarrow> cache_record list \<times> 'l dns_cache" where
  "lookup_all_by_addr L addr prot_mask now c =
     (let prot_typed = type_flags prot_mask;
          c1 = evict_keys L (keys_where L (\<lambda>r. cr_flags r AND F_REVERSE \<noteq> 0 \<and> record_is_expired r now) (records c)) c;
          matches = map snd (filter (\<lambda>(_, r). cr_flags r AND F_REVERSE \<noteq> 0 \<and> cr_flags r AND prot_typed \<noteq> 0
                                            \<and> addr_matches (cr_addr r) addr) (lru_iter L (records c1)))
      in (matches, count_matches matches c1))"

section \<open>Removal and enumeration\<close>

definition remove_by_uid :: "'l cache_lru \<Rightarrow> u32 \<Rightarrow> 'l dns_cache \<Rightarrow> u32 \<times> 'l dns_cache" where
  "remove_by_uid L uid c =
     (if uid = UID_NONE then (0, c)
      else let removable = keys_where L (\<lambda>r. cr_uid r = uid \<and> is_static (cr_flags r)) (records c)
           in (word_of_nat (length removable), pop_keys L removable c))"

definition iter_live :: "'l cache_lru \<Rightarrow> instant \<Rightarrow> 'l dns_cache \<Rightarrow> cache_record list" where
  "iter_live L now c = filter (\<lambda>r. \<not> record_is_expired r now) (map snd (lru_iter L (records c)))"

definition cache_find_non_terminal :: "'l cache_lru \<Rightarrow> rstr \<Rightarrow> instant \<Rightarrow> 'l dns_cache \<Rightarrow> bool" where
  "cache_find_non_terminal L name now c =
     list_ex (\<lambda>r. cr_flags r AND F_FORWARD \<noteq> 0 \<and> cr_flags r AND F_NXDOMAIN = 0
                  \<and> eq_ignore_ascii_case (cr_name r) name) (iter_live L now c)"

fun remove_uids :: "'l cache_lru \<Rightarrow> u32 list \<Rightarrow> nat \<Rightarrow> 'l dns_cache \<Rightarrow> nat \<times> 'l dns_cache" where
  "remove_uids L [] removed c = (removed, c)"
| "remove_uids L (uid # uids) removed c =
     (case remove_by_uid L uid c of (n, c1) \<Rightarrow> remove_uids L uids (removed + unat n) c1)"

definition cache_unhash_dhcp :: "'l cache_lru \<Rightarrow> instant \<Rightarrow> 'l dns_cache \<Rightarrow> nat \<times> 'l dns_cache" where
  "cache_unhash_dhcp L now c =
     remove_uids L (map cr_uid (filter (\<lambda>r. cr_flags r AND F_DHCP \<noteq> 0) (iter_live L now c))) 0 c"

section \<open>Non-terminal placeholders\<close>

definition refresh_placeholder :: "bool \<Rightarrow> instant \<Rightarrow> cache_record \<Rightarrow> cache_record" where
  "refresh_placeholder source_immortal source_expires existing =
     (if \<not> source_immortal then
        if cr_flags existing AND F_IMMORTAL = 0 \<and> source_expires > cr_expires existing
        then existing\<lparr>cr_expires := source_expires\<rparr> else existing
      else existing\<lparr>cr_flags := cr_flags existing OR F_IMMORTAL\<rparr>)"

definition placeholder :: "cache_record \<Rightarrow> rstr \<Rightarrow> cache_record" where
  "placeholder rec parent =
     \<lparr>cr_name = parent,
      cr_flags = (cr_flags rec OR F_FORWARD)
        AND NOT (F_IPV4 OR F_IPV6 OR F_CNAME OR F_RR OR F_DNSKEY OR F_DS OR F_REVERSE),
      cr_ttl = 0, cr_expires = cr_expires rec, cr_addr = None, cr_rdata = None, cr_uid = cr_uid rec\<rparr>"

definition insert_placeholder ::
    "'l cache_lru \<Rightarrow> (rstr \<Rightarrow> rstr) \<Rightarrow> cache_record \<Rightarrow> rstr \<Rightarrow> 'l dns_cache \<Rightarrow> 'l dns_cache" where
  "insert_placeholder L lower rec parent c =
     (let type_flags_mask = F_HOSTS OR F_CONFIG OR (if cr_flags rec AND F_DHCP \<noteq> 0 then F_DHCP else 0);
          key = \<lparr>ck_name = parent, ck_flags = type_flags (F_FORWARD OR type_flags_mask)\<rparr>
      in if lru_peek L (records c) key \<noteq> None
         then c\<lparr>records := lru_peek_mut L key
                  (refresh_placeholder (cr_flags rec AND F_IMMORTAL \<noteq> 0) (cr_expires rec)) (records c)\<rparr>
         else cache_insert L lower (placeholder rec parent) c)"

definition insert_with_non_terminals ::
    "'l cache_lru \<Rightarrow> (rstr \<Rightarrow> rstr) \<Rightarrow> cache_record \<Rightarrow> 'l dns_cache \<Rightarrow> 'l dns_cache" where
  "insert_with_non_terminals L lower rec c =
     fold (insert_placeholder L lower rec) (non_terminal_names (cr_name rec)) (cache_insert L lower rec c)"

section \<open>Records from the configuration\<close>

record cname_config =
  cc_ttl :: "32 word"
  cc_flag :: "32 word"
  cc_alias :: rstr
  cc_target :: rstr

record host_record =
  hr_ttl :: "32 word"
  hr_flags :: "32 word"
  hr_names :: "rstr list"
  hr_addr4 :: "ipv4 option"
  hr_addr6 :: "ipv6 option"

text \<open>\<open>if ttl < 0 { 0u32 } else { ttl as u32 }\<close> on an \<open>i32\<close>.\<close>

definition config_ttl :: "32 word \<Rightarrow> u32" where
  "config_ttl ttl = (if sint ttl < 0 then 0 else ttl)"

definition config_expires :: "instant \<Rightarrow> u32 \<Rightarrow> instant" where
  "config_expires now ttl = now + from_secs (unat ttl + 3600)"

definition config_cname_record :: "instant \<Rightarrow> cname_config \<Rightarrow> cache_record" where
  "config_cname_record now cc =
     \<lparr>cr_name = cc_alias cc, cr_flags = F_FORWARD OR F_CNAME OR F_IMMORTAL OR F_CONFIG,
      cr_ttl = config_ttl (cc_ttl cc), cr_expires = config_expires now (config_ttl (cc_ttl cc)),
      cr_addr = Some (Cname \<lparr>is_name_ptr = True, target_name = Some (cc_target cc), cname_uid = UID_NONE\<rparr>),
      cr_rdata = None, cr_uid = UID_NONE\<rparr>"

definition insert_config_cnames ::
    "'l cache_lru \<Rightarrow> (rstr \<Rightarrow> rstr) \<Rightarrow> cname_config list \<Rightarrow> instant \<Rightarrow> 'l dns_cache \<Rightarrow> 'l dns_cache" where
  "insert_config_cnames L lower cnames now c =
     fold (\<lambda>cc c. if cc_alias cc \<noteq> [] \<and> hd (cc_alias cc) = 42 then c
                  else cache_insert L lower (config_cname_record now cc) c) cnames c"

definition forward_record :: "u32 \<Rightarrow> u32 \<Rightarrow> instant \<Rightarrow> u32 \<Rightarrow> rstr \<Rightarrow> all_addr \<Rightarrow> cache_record" where
  "forward_record flags ttl expires uid name addr =
     \<lparr>cr_name = name, cr_flags = flags, cr_ttl = ttl, cr_expires = expires,
      cr_addr = Some addr, cr_rdata = None, cr_uid = uid\<rparr>"

definition reverse_record :: "u32 \<Rightarrow> u32 \<Rightarrow> instant \<Rightarrow> u32 \<Rightarrow> rstr \<Rightarrow> rstr \<Rightarrow> all_addr \<Rightarrow> cache_record" where
  "reverse_record flags ttl expires uid ptr_name target addr =
     \<lparr>cr_name = ptr_name, cr_flags = flags, cr_ttl = ttl, cr_expires = expires,
      cr_addr = Some addr, cr_rdata = Some target, cr_uid = uid\<rparr>"

definition host_name_records :: "host_record \<Rightarrow> instant \<Rightarrow> rstr \<Rightarrow> cache_record list" where
  "host_name_records hr now name =
     (let ttl = config_ttl (hr_ttl hr); expires = config_expires now ttl;
          name_lc = to_ascii_lowercase name;
          base = F_HOSTS OR F_IMMORTAL OR F_CONFIG
      in (case hr_addr4 hr of
            None \<Rightarrow> []
          | Some ip4 \<Rightarrow>
              [forward_record (base OR F_FORWARD OR F_IPV4) ttl expires UID_NONE name_lc (Addr4 ip4),
               reverse_record (base OR F_REVERSE OR F_IPV4) ttl expires UID_NONE (ipv4_ptr_name ip4) name_lc (Addr4 ip4)])
         @ (case hr_addr6 hr of
            None \<Rightarrow> []
          | Some ip6 \<Rightarrow>
              [forward_record (base OR F_FORWARD OR F_IPV6) ttl expires UID_NONE name_lc (Addr6 ip6),
               reverse_record (base OR F_REVERSE OR F_IPV6) ttl expires UID_NONE (ipv6_ptr_name ip6) name_lc (Addr6 ip6)]))"

definition insert_host_records ::
    "'l cache_lru \<Rightarrow> (rstr \<Rightarrow> rstr) \<Rightarrow> host_record list \<Rightarrow> instant \<Rightarrow> 'l dns_cache \<Rightarrow> 'l dns_cache" where
  "insert_host_records L lower host_records now c =
     fold (\<lambda>hr. fold (\<lambda>name. fold (cache_insert L lower) (host_name_records hr now name)) (hr_names hr))
       host_records c"

definition a_record_from_hosts ::
    "'l cache_lru \<Rightarrow> (rstr \<Rightarrow> rstr) \<Rightarrow> rstr \<Rightarrow> instant \<Rightarrow> 'l dns_cache \<Rightarrow> ipv4 option \<times> 'l dns_cache" where
  "a_record_from_hosts L lower name now c =
     (case lookup_all_by_name L lower name F_IPV4 now c of
        (recs, c1) \<Rightarrow>
          (case List.find (\<lambda>r. cr_flags r AND F_HOSTS \<noteq> 0) recs of
             Some r \<Rightarrow> (case cr_addr r of Some (Addr4 ip) \<Rightarrow> Some ip | _ \<Rightarrow> None)
           | None \<Rightarrow> None, c1))"

end
