(* ===== verification/Cache_Invariant.thy ===== *)
theory Cache_Invariant
  imports Dns_Cache
begin

text \<open>
  Correctness of the DNS cache. The locale \<open>cache_lru\<close> fixes an LRU map with its laws; inside it
  every operation of the cache is described by its effect on the list of entries, and
  shown to keep the invariant. The properties at the end are stated for every such map and
  interpreted on the list implementation.
\<close>

unbundle bit_operations_syntax

section \<open>Invariant and abstraction\<close>

definition entry_ok :: "(rstr \<Rightarrow> rstr) \<Rightarrow> cache_key \<times> cache_record \<Rightarrow> bool" where
  "entry_ok lower e \<longleftrightarrow> fst e = cache_key_for lower (cr_name (snd e)) (cr_flags (snd e))"

definition cache_ok :: "'l cache_lru \<Rightarrow> ('l \<Rightarrow> bool) \<Rightarrow> ('l \<Rightarrow> nat) \<Rightarrow> (rstr \<Rightarrow> rstr) \<Rightarrow> 'l dns_cache \<Rightarrow> bool" where
  "cache_ok L lru_ok lru_cap lower c \<longleftrightarrow>
     lru_ok (records c) \<and> lru_cap (records c) = max (max_size c) 1
     \<and> (max_size c = 0 \<longrightarrow> lru_iter L (records c) = [])
     \<and> list_all (entry_ok lower) (lru_iter L (records c))"

definition entries :: "'l cache_lru \<Rightarrow> 'l dns_cache \<Rightarrow> (cache_key \<times> cache_record) list" where
  "entries L c = lru_iter L (records c)"

text \<open>The cache as a partial map, the abstraction its clients rely on.\<close>

definition view :: "'l cache_lru \<Rightarrow> 'l dns_cache \<Rightarrow> cache_key \<Rightarrow> cache_record option" where
  "view L c = map_of (entries L c)"

definition live_view :: "'l cache_lru \<Rightarrow> instant \<Rightarrow> 'l dns_cache \<Rightarrow> cache_key \<Rightarrow> cache_record option" where
  "live_view L now c k = (case view L c k of None \<Rightarrow> None | Some r \<Rightarrow> if record_is_expired r now then None else Some r)"

definition nodata_key :: "(rstr \<Rightarrow> rstr) \<Rightarrow> rstr \<Rightarrow> u32 \<Rightarrow> cache_key" where
  "nodata_key lower name flags = \<lparr>ck_name = lower name, ck_flags = type_flags flags OR F_NEG\<rparr>"

text \<open>A dynamic record with its clamped lifetime, counted from \<open>now\<close>.\<close>

definition timed :: "'l dns_cache \<Rightarrow> instant \<Rightarrow> cache_record \<Rightarrow> cache_record" where
  "timed c now r = r\<lparr>cr_ttl := clamp_cache_ttl c (cr_flags r) (cr_ttl r),
                     cr_expires := now + from_secs (unat (clamp_cache_ttl c (cr_flags r) (cr_ttl r)))\<rparr>"

lemma entry_ok_put: "list_all (entry_ok lower) es \<Longrightarrow>
    list_all (entry_ok lower) (put_front n (cache_key_for lower (cr_name r) (cr_flags r)) r es)"
  using set_put_front [of n "cache_key_for lower (cr_name r) (cr_flags r)" r es]
  by (auto simp: list_all_iff entry_ok_def)

lemma entry_ok_filter: "list_all (entry_ok lower) es \<Longrightarrow> list_all (entry_ok lower) (filter P es)"
  by (simp add: list_all_iff)

lemma entry_ok_without: "list_all (entry_ok lower) es \<Longrightarrow> list_all (entry_ok lower) (without k es)"
  by (simp add: list_all_iff)

lemma entry_ok_touch:
  "distinct (map fst es) \<Longrightarrow> list_all (entry_ok lower) es \<Longrightarrow> list_all (entry_ok lower) (touch k es)"
  by (simp add: list_all_iff)

lemma entry_ok_refresh:
  "list_all (entry_ok lower) es \<Longrightarrow> list_all (entry_ok lower) (modify k (refresh_placeholder im ex) es)"
  by (induction es) (auto simp: modify_def entry_ok_def refresh_placeholder_def cache_key_for_def type_flags_or)

section \<open>Every operation on the entries\<close>

locale cache_lru = lru_laws L lru_ok lru_cap
  for L :: "'l cache_lru" and lru_ok :: "'l \<Rightarrow> bool" and lru_cap :: "'l \<Rightarrow> nat" +
  fixes lower :: "rstr \<Rightarrow> rstr"
begin

abbreviation ok :: "'l dns_cache \<Rightarrow> bool" where
  "ok \<equiv> cache_ok L lru_ok lru_cap lower"

lemma okD:
  assumes "ok c"
  shows "lru_ok (records c)" "lru_cap (records c) = max (max_size c) 1"
    "max_size c = 0 \<Longrightarrow> entries L c = []" "list_all (entry_ok lower) (entries L c)"
    "distinct (map fst (entries L c))" "length (entries L c) \<le> max_size c"
proof -
  from assms show a: "lru_ok (records c)" "lru_cap (records c) = max (max_size c) 1"
    "list_all (entry_ok lower) (entries L c)"
    by (simp_all add: cache_ok_def entries_def)
  from assms show b: "max_size c = 0 \<Longrightarrow> entries L c = []" by (simp add: cache_ok_def entries_def)
  from ok_law [OF a(1)] show "distinct (map fst (entries L c))" by (simp add: entries_def)
  from ok_law [OF a(1)] a(2) b show "length (entries L c) \<le> max_size c"
    by (cases "max_size c = 0") (auto simp: entries_def max_def split: if_splits)
qed

lemma new_ok: "ok (cache_new L cs n)" "entries L (cache_new L cs n) = []"
  using new_law [of "max n 1"] by (auto simp: cache_ok_def cache_new_def entries_def max_def split: if_splits)

lemma ok_same:
  "records c' = records c \<Longrightarrow> max_size c' = max_size c \<Longrightarrow> ok c' \<longleftrightarrow> ok c"
  by (simp add: cache_ok_def)

lemma len_entries: "ok c \<Longrightarrow> lru_len L (records c) = length (entries L c)"
  by (simp add: len_law okD entries_def)

lemma peek_view: "ok c \<Longrightarrow> lru_peek L (records c) k = view L c k"
  by (simp add: peek_law okD view_def entries_def)

lemma cap_eq: "ok c \<Longrightarrow> max_size c \<noteq> 0 \<Longrightarrow> lru_cap (records c) = max_size c"
  using okD(2) [of c] by (cases "max_size c") auto

lemma insert_entries:
  assumes "ok c" "max_size c \<noteq> 0"
  shows "entries L (cache_insert L lower r c)
    = put_front (max_size c) (cache_key_for lower (cr_name r) (cr_flags r)) r (entries L c)"
  using put_law [OF okD(1) [OF assms(1)], of "cache_key_for lower (cr_name r) (cr_flags r)" r] assms
  by (simp add: cache_insert_def Let_def entries_def count_eviction_def cap_eq)

lemma insert_max_size [simp]: "max_size (cache_insert L lower r c) = max_size c"
  by (simp add: cache_insert_def Let_def count_eviction_def)

lemma insert_ok:
  assumes "ok c" shows "ok (cache_insert L lower r c)"
proof (cases "max_size c = 0")
  case True
  with assms show ?thesis by (simp add: cache_insert_def)
next
  case False
  let ?k = "cache_key_for lower (cr_name r) (cr_flags r)"
  have "records (cache_insert L lower r c) = lru_put L ?k r (records c)"
    using False by (simp add: cache_insert_def Let_def count_eviction_def)
  with put_law [OF okD(1) [OF assms], of ?k r] False insert_entries [OF assms False]
    okD(2) [OF assms] entry_ok_put [OF okD(4) [OF assms]] show ?thesis
    by (simp add: cache_ok_def entries_def)
qed

lemma records_ok:
  assumes "ok c" "lru_ok l" "lru_cap l = lru_cap (records c)"
    "lru_iter L l = filter P (entries L c) \<or> lru_iter L l = touch k (entries L c)"
  shows "ok (c\<lparr>records := l\<rparr>)"
  using assms okD [OF assms(1)]
  by (auto simp: cache_ok_def entries_def entry_ok_filter entry_ok_touch) (simp add: touch_def)

lemma pop_keys_entries:
  assumes "ok c"
  shows "ok (pop_keys L ks c)" "entries L (pop_keys L ks c) = filter (\<lambda>e. fst e \<notin> set ks) (entries L c)"
  using fold_pop [OF okD(1) [OF assms], of ks] records_ok [OF assms]
  by (auto simp: pop_keys_def entries_def)

lemma pop_entries:
  assumes "ok c"
  shows "ok (c\<lparr>records := lru_pop L k (records c)\<rparr>)"
    "entries L (c\<lparr>records := lru_pop L k (records c)\<rparr>) = without k (entries L c)"
  using pop_keys_entries [OF assms, of "[k]"] by (simp_all add: pop_keys_def without_def)

lemma evict_keys_eq:
  "evict_keys L ks c = (pop_keys L ks c)
     \<lparr>evictions := evictions c + word_of_nat (length ks),
      counters := (counters c)(DnsCacheLiveFreed := counters c DnsCacheLiveFreed + word_of_nat (length ks))\<rparr>"
  by (induction ks arbitrary: c)
    (simp_all add: evict_keys_def pop_keys_def count_eviction_def inc_metric_def ac_simps)

lemma evict_keys_entries:
  assumes "ok c"
  shows "ok (evict_keys L ks c)" "entries L (evict_keys L ks c) = filter (\<lambda>e. fst e \<notin> set ks) (entries L c)"
  using pop_keys_entries [OF assms, of ks]
  by (simp_all add: evict_keys_eq entries_def ok_same [of "pop_keys L ks c\<lparr>evictions := _, counters := _\<rparr>" "pop_keys L ks c"])

lemma filter_keys_where:
  assumes "ok c"
  shows "filter (\<lambda>e. fst e \<notin> set (keys_where L P (records c))) (entries L c) = filter (\<lambda>e. \<not> P (snd e)) (entries L c)"
proof (rule filter_cong [OF refl])
  fix e assume e: "e \<in> set (entries L c)"
  then have "(fst e, r) \<in> set (entries L c) \<Longrightarrow> r = snd e" for r
    using okD(5) [OF assms] by (metis eq_key_imp_eq_value prod.collapse)
  moreover have "fst e \<in> set (keys_where L P (records c)) \<longleftrightarrow> (\<exists>r. (fst e, r) \<in> set (entries L c) \<and> P r)"
    by (auto simp: keys_where_def entries_def image_iff)
  ultimately show "(fst e \<notin> set (keys_where L P (records c))) = (\<not> P (snd e))"
    using e by (metis prod.collapse)
qed

lemma expire_old_entries:
  assumes "ok c"
  shows "ok (expire_old L now c)"
    "entries L (expire_old L now c) = filter (\<lambda>e. \<not> record_is_expired (snd e) now) (entries L c)"
  using pop_keys_entries [OF assms] filter_keys_where [OF assms] by (simp_all add: expire_old_def)

lemma evict_expired_entries:
  assumes "ok c"
  shows "ok (snd (evict_expired L now c))"
    "entries L (snd (evict_expired L now c)) = filter (\<lambda>e. \<not> record_is_expired (snd e) now) (entries L c)"
  using evict_keys_entries [OF assms] filter_keys_where [OF assms]
  by (simp_all add: evict_expired_def Let_def)

lemma get_record_eq:
  assumes "ok c"
  obtains l where "get_record L k c = (view L c k, c\<lparr>records := l\<rparr>)" "ok (c\<lparr>records := l\<rparr>)"
    "entries L (c\<lparr>records := l\<rparr>) = touch k (entries L c)"
proof -
  from get_eq [OF okD(1) [OF assms], of k] obtain l where
    l: "lru_get L (records c) k = (view L c k, l)" "lru_ok l" "lru_cap l = lru_cap (records c)"
      "lru_iter L l = touch k (entries L c)"
    by (auto simp: view_def entries_def)
  with records_ok [OF assms, of l] have "ok (c\<lparr>records := l\<rparr>)" by blast
  with l that [of l] show ?thesis by (simp add: get_record_def entries_def)
qed

lemma get_record_snd:
  assumes "ok c"
  shows "fst (get_record L k c) = view L c k" "ok (snd (get_record L k c))"
    "entries L (snd (get_record L k c)) = touch k (entries L c)"
    "hits (snd (get_record L k c)) = hits c" "misses (snd (get_record L k c)) = misses c"
  by (rule get_record_eq [OF assms, of k]; simp)+

lemma count_ok [simp]: "ok (count_hit c) = ok c" "ok (count_miss c) = ok c"
  by (simp_all add: count_hit_def count_miss_def cache_ok_def)

lemma count_entries [simp]: "entries L (count_hit c) = entries L c" "entries L (count_miss c) = entries L c"
  "view L (count_hit c) = view L c" "view L (count_miss c) = view L c"
  by (simp_all add: count_hit_def count_miss_def entries_def view_def fun_eq_iff)

lemma peek_expired_eq:
  "ok c \<Longrightarrow> peek_expired L now k c = (view L c k \<noteq> None \<and> live_view L now c k = None)"
  by (auto simp: peek_expired_def peek_view live_view_def split: option.splits)

lemma view_pop: "ok c \<Longrightarrow> view L (c\<lparr>records := lru_pop L k (records c)\<rparr>) = (view L c)(k := None)"
  by (simp add: view_def pop_entries)

lemma view_get: "ok c \<Longrightarrow> view L (snd (get_record L k c)) = view L c"
  by (simp add: view_def get_record_snd)

lemma live_view_Some: "live_view L now c k = Some r \<longleftrightarrow> view L c k = Some r \<and> \<not> record_is_expired r now"
  by (auto simp: live_view_def split: option.splits)

lemma lookup_by_name_spec:
  assumes "ok c"
  defines "k \<equiv> \<lambda>name flags. cache_key_for lower name flags"
  shows "fst (lookup_by_name L lower name flags now c) = live_view L now c (k name flags)"
    "ok (snd (lookup_by_name L lower name flags now c))"
    "view L (snd (lookup_by_name L lower name flags now c))
       = (view L c)(k name flags := live_view L now c (k name flags))"
proof -
  let ?k = "k name flags"
  obtain r c1 where g: "get_record L ?k c = (r, c1)" by fastforce
  have c1: "r = view L c ?k" "ok c1" "view L c1 = view L c"
    using get_record_snd [OF assms(1), of ?k] view_get [OF assms(1), of ?k] by (simp_all add: g)
  have g2: "fst (get_record L ?k (count_hit c1)) = view L c ?k" "ok (snd (get_record L ?k (count_hit c1)))"
    "view L (snd (get_record L ?k (count_hit c1))) = view L c"
    using c1 get_record_snd [of "count_hit c1" ?k] view_get [of "count_hit c1" ?k] by simp_all
  have "fst (lookup_by_name L lower name flags now c) = live_view L now c ?k
    \<and> ok (snd (lookup_by_name L lower name flags now c))
    \<and> view L (snd (lookup_by_name L lower name flags now c)) = (view L c)(?k := live_view L now c ?k)"
  proof (cases "peek_expired L now ?k c")
    case True
    with assms(1) show ?thesis
      by (auto simp: lookup_by_name_def Let_def k_def [symmetric] pop_entries view_pop peek_expired_eq)
  next
    case False
    with assms(1) have "live_view L now c ?k = view L c ?k"
      by (auto simp: peek_expired_eq live_view_def split: option.splits if_splits)
    with False c1 g2 g show ?thesis
      by (cases "view L c ?k") (auto simp: lookup_by_name_def Let_def k_def [symmetric] fun_upd_idem)
  qed
  then show "fst (lookup_by_name L lower name flags now c) = live_view L now c (k name flags)"
    "ok (snd (lookup_by_name L lower name flags now c))"
    "view L (snd (lookup_by_name L lower name flags now c))
       = (view L c)(k name flags := live_view L now c (k name flags))"
    by blast+
qed

lemma live_view_pop_other:
  "ok c \<Longrightarrow> k' \<noteq> k \<Longrightarrow> live_view L now (c\<lparr>records := lru_pop L k (records c)\<rparr>) k' = live_view L now c k'"
  by (simp add: live_view_def view_pop)

lemma probe_keys_spec:
  "ok c \<Longrightarrow> distinct keys \<Longrightarrow>
     fst (probe_keys L now keys c) = List.find (\<lambda>k. live_view L now c k \<noteq> None) keys
     \<and> ok (snd (probe_keys L now keys c))
     \<and> (\<forall>k. live_view L now (snd (probe_keys L now keys c)) k = live_view L now c k)"
proof (induction keys arbitrary: c)
  case (Cons key keys)
  let ?c1 = "c\<lparr>records := lru_pop L key (records c)\<rparr>"
  show ?case
  proof (cases "peek_expired L now key c")
    case True
    have ok1: "ok ?c1" using Cons.prems by (simp add: pop_entries)
    have none: "live_view L now c key = None" using True Cons.prems by (simp add: peek_expired_eq)
    moreover have "live_view L now ?c1 key = None" using Cons.prems by (simp add: live_view_def view_pop)
    ultimately have same: "live_view L now ?c1 k = live_view L now c k" for k
      using live_view_pop_other [OF Cons.prems(1), of k key] by (cases "k = key") auto
    show ?thesis using Cons.IH [OF ok1] Cons.prems True none by (simp add: same)
  next
    case False
    with Cons.prems have "live_view L now c key = view L c key"
      by (auto simp: peek_expired_eq live_view_def split: option.splits if_splits)
    with False Cons show ?thesis by (simp add: peek_view)
  qed
qed simp

lemma lookup_forward_spec:
  assumes "ok c" "type_flags flags AND F_NEG = 0"
  shows "fst (lookup_forward L lower name flags now c)
      = (case live_view L now c (cache_key_for lower name flags) of
           Some r \<Rightarrow> Some r | None \<Rightarrow> live_view L now c (nodata_key lower name flags))"
    "ok (snd (lookup_forward L lower name flags now c))"
proof -
  let ?pos = "cache_key_for lower name flags" and ?neg = "nodata_key lower name flags"
  have "bit (type_flags flags OR F_NEG) 5" by (simp add: F_NEG_def bit_simps)
  moreover have "\<not> bit (type_flags flags) 5"
    using assms(2) by (metis F_NEG_def and_exp_eq_0_iff_not_bit push_bit_of_1)
  ultimately have "type_flags flags OR F_NEG \<noteq> type_flags flags" by metis
  then have d: "distinct [?pos, ?neg]" by (auto simp: cache_key_for_def nodata_key_def)
  obtain hit c1 where p: "probe_keys L now [?pos, ?neg] c = (hit, c1)" by fastforce
  have c1: "hit = List.find (\<lambda>k. live_view L now c k \<noteq> None) [?pos, ?neg]" "ok c1"
    "\<And>k. live_view L now c1 k = live_view L now c k"
    using probe_keys_spec [OF assms(1) d, of now] unfolding p by simp_all
  have hit_live: "view L c1 k = live_view L now c k" if "hit = Some k" for k
  proof -
    have "live_view L now c1 k \<noteq> None" using that c1 by (auto split: if_splits)
    then show ?thesis using c1(3) [of k, symmetric] by (auto simp: live_view_def split: option.splits if_splits)
  qed
  show "fst (lookup_forward L lower name flags now c)
      = (case live_view L now c ?pos of Some r \<Rightarrow> Some r | None \<Rightarrow> live_view L now c ?neg)"
    using c1 hit_live get_record_snd [of "count_hit c1"]
    unfolding lookup_forward_def Let_def cache_key_for_def [symmetric] nodata_key_def [symmetric] p
    by (auto split: option.splits if_splits)
  show "ok (snd (lookup_forward L lower name flags now c))"
    using c1 get_record_snd [of "count_hit c1"]
    unfolding lookup_forward_def Let_def cache_key_for_def [symmetric] nodata_key_def [symmetric] p
    by (auto split: option.splits if_splits)
qed

lemma view_insert:
  assumes "ok c" "max_size c \<noteq> 0"
  shows "view L (cache_insert L lower r c) = (\<lambda>k'.
     if k' = cache_key_for lower (cr_name r) (cr_flags r) then Some r
     else if view L c (cache_key_for lower (cr_name r) (cr_flags r)) = None
             \<and> length (entries L c) = max_size c \<and> k' = fst (last (entries L c)) then None
     else view L c k')"
proof -
  let ?k = "cache_key_for lower (cr_name r) (cr_flags r)"
  have "map_of (butlast (entries L c)) = (map_of (entries L c))(fst (last (entries L c)) := None)"
    if full: "length (entries L c) = max_size c"
  proof -
    obtain es e where es: "entries L c = es @ [e]"
      using full assms(2) by (cases "entries L c" rule: rev_cases) auto
    with okD(5) [OF assms(1)] have "map_of es (fst e) = None" by (simp add: map_of_eq_None_iff)
    then show ?thesis by (cases e) (auto simp: es map_add_def fun_eq_iff split: option.splits)
  qed
  then show ?thesis
    by (auto simp: view_def insert_entries [OF assms] put_front_def make_room_def fun_eq_iff)
qed

lemma commit_chain_ok: "ok c \<Longrightarrow> ok (snd (commit_chain L lower recs n c))"
  by (induction recs arbitrary: n c) (simp_all add: insert_ok)

lemma end_insert_ok: "ok c \<Longrightarrow> ok (snd (end_insert L lower c))"
  using commit_chain_ok [of "c\<lparr>new_chain := []\<rparr>"]
  by (simp add: end_insert_def ok_same [of "c\<lparr>new_chain := []\<rparr>" c]
      ok_same [of "c\<lparr>new_chain := [], insert_error := False\<rparr>" c])

lemma stage_insert_ok: "ok (snd (stage_insert L lower r now c)) = ok c"
  by (auto simp: stage_insert_def cache_ok_def split: sum.splits prepared_insert.splits)

lemma really_insert_ok: "ok c \<Longrightarrow> ok (snd (really_insert L lower r now c))"
  by (auto simp: really_insert_def insert_ok split: sum.splits prepared_insert.splits)

lemma lookup_by_addr_ok:
  assumes "ok c" shows "ok (snd (lookup_by_addr L addr now c))"
  using get_record_snd(2) [of "count_hit (expire_old L now c)"] expire_old_entries(1) [OF assms]
  by (auto simp: lookup_by_addr_def Let_def split: option.splits)

lemma lookup_all_ok:
  assumes "ok c"
  shows "ok (snd (lookup_all_by_name L lower name m now c))" "ok (snd (lookup_all_by_addr L addr m now c))"
  using evict_keys_entries(1) [OF assms]
  by (simp_all add: lookup_all_by_name_def lookup_all_by_addr_def Let_def count_matches_def)

lemma clear_ok: assumes "ok c" shows "ok (cache_clear L c)"
  using clear_law [OF okD(1) [OF assms]] okD(2) [OF assms] by (simp add: cache_clear_def cache_ok_def)

lemma remove_by_uid_ok: "ok c \<Longrightarrow> ok (snd (remove_by_uid L uid c))"
  by (simp add: remove_by_uid_def Let_def pop_keys_entries)

lemma insert_placeholder_ok:
  assumes "ok c" shows "ok (insert_placeholder L lower r parent c)"
proof -
  have "ok (c\<lparr>records := lru_peek_mut L k (refresh_placeholder im ex) (records c)\<rparr>)" for k im ex
    using peek_mut_law [OF okD(1) [OF assms], of k "refresh_placeholder im ex"] assms
      entry_ok_refresh [OF okD(4) [OF assms], of k im ex]
    by (auto simp: cache_ok_def entries_def modify_def)
  with assms show ?thesis by (simp add: insert_placeholder_def Let_def insert_ok)
qed

lemma insert_with_non_terminals_ok:
  assumes "ok c" shows "ok (insert_with_non_terminals L lower r c)"
proof -
  have "ok c \<Longrightarrow> ok (fold (insert_placeholder L lower r) ps c)" for ps and c :: "'l dns_cache"
    by (induction ps arbitrary: c) (simp_all add: insert_placeholder_ok)
  with assms show ?thesis by (simp add: insert_with_non_terminals_def insert_ok)
qed

lemma fold_insert_ok: "ok c \<Longrightarrow> ok (fold (cache_insert L lower) rs c)"
  by (induction rs arbitrary: c) (simp_all add: insert_ok)

lemma prepare_insert_static:
  "is_static (cr_flags r) \<Longrightarrow>
     prepare_insert L lower r now c = (if max_size c = 0 then Inl CachingDisabled else Inr (New r))"
  by (simp add: prepare_insert_def Let_def split: option.splits)

lemma prepare_insert_dynamic:
  assumes "ok c" "\<not> is_static (cr_flags r)"
  shows "prepare_insert L lower r now c =
     (if clamp_cache_ttl c (cr_flags r) (cr_ttl r) = 0 \<and> cr_flags r AND F_IMMORTAL = 0 then Inl ZeroTtlDropped
      else (case view L c (cache_key_for lower (cr_name r) (cr_flags r)) of
              Some ex \<Rightarrow>
                if is_static (cr_flags ex) then
                  if same_static_addr (cr_addr ex) (cr_addr r) then Inr (SameAddr (timed c now r)) else Inl BlockedConflict
                else if max_size c = 0 then Inl CachingDisabled else Inr (New (timed c now r))
            | None \<Rightarrow> if max_size c = 0 then Inl CachingDisabled else Inr (New (timed c now r))))"
  using assms by (simp add: prepare_insert_def Let_def peek_view timed_def split: option.splits)

end

interpretation list_cache: cache_lru list_lru list_lru_ok fst to_ascii_lowercase
  by unfold_locales

section \<open>Reachable caches\<close>

text \<open>A cache and the operations of its interface, in any order and with any arguments.\<close>

inductive cache_reachable :: "'l cache_lru \<Rightarrow> (rstr \<Rightarrow> rstr) \<Rightarrow> 'l dns_cache \<Rightarrow> bool"
  for L :: "'l cache_lru" and lower :: "rstr \<Rightarrow> rstr" where
  fresh: "cache_reachable L lower (with_ttl_limits L cs n min_ttl max_ttl)"
| source: "cache_reachable L lower c \<Longrightarrow> cache_reachable L lower (register_record_source uid src c)"
| insertion: "cache_reachable L lower c \<Longrightarrow> cache_reachable L lower (cache_insert L lower r c)"
| checked: "cache_reachable L lower c \<Longrightarrow> cache_reachable L lower (snd (really_insert L lower r now c))"
| start: "cache_reachable L lower c \<Longrightarrow> cache_reachable L lower (start_insert c)"
| stage: "cache_reachable L lower c \<Longrightarrow> cache_reachable L lower (snd (stage_insert L lower r now c))"
| commit: "cache_reachable L lower c \<Longrightarrow> cache_reachable L lower (snd (end_insert L lower c))"
| evict: "cache_reachable L lower c \<Longrightarrow> cache_reachable L lower (snd (evict_expired L now c))"
| expire: "cache_reachable L lower c \<Longrightarrow> cache_reachable L lower (expire_old L now c)"
| by_name: "cache_reachable L lower c \<Longrightarrow> cache_reachable L lower (snd (lookup_by_name L lower name flags now c))"
| forward: "cache_reachable L lower c \<Longrightarrow> cache_reachable L lower (snd (lookup_forward L lower name flags now c))"
| by_addr: "cache_reachable L lower c \<Longrightarrow> cache_reachable L lower (snd (lookup_by_addr L addr now c))"
| all_by_name: "cache_reachable L lower c \<Longrightarrow> cache_reachable L lower (snd (lookup_all_by_name L lower name m now c))"
| all_by_addr: "cache_reachable L lower c \<Longrightarrow> cache_reachable L lower (snd (lookup_all_by_addr L addr m now c))"
| clear: "cache_reachable L lower c \<Longrightarrow> cache_reachable L lower (cache_clear L c)"
| remove_uid: "cache_reachable L lower c \<Longrightarrow> cache_reachable L lower (snd (remove_by_uid L uid c))"
| non_terminals: "cache_reachable L lower c \<Longrightarrow> cache_reachable L lower (insert_with_non_terminals L lower r c)"

context cache_lru
begin

lemma get_forward_ok:
  assumes "ok c" shows "ok (snd (lookup_forward L lower name flags now c))"
proof -
  have probe: "ok c \<Longrightarrow> ok (snd (probe_keys L now ks c))" for ks and c :: "'l dns_cache"
    by (induction ks arbitrary: c) (simp_all add: pop_entries)
  obtain hit c1 where p: "probe_keys L now
      [\<lparr>ck_name = lower name, ck_flags = type_flags flags\<rparr>,
       \<lparr>ck_name = lower name, ck_flags = type_flags flags OR F_NEG\<rparr>] c = (hit, c1)"
    by fastforce
  with probe [OF assms] have "ok c1" by (metis snd_conv)
  then show ?thesis
    unfolding lookup_forward_def Let_def p by (cases hit) (simp_all add: get_record_snd)
qed

lemma reachable_ok: "cache_reachable L lower c \<Longrightarrow> ok c"
proof (induction rule: cache_reachable.induct)
  case (fresh cs n min_ttl max_ttl)
  show ?case using new_ok(1) [of cs n] by (simp add: with_ttl_limits_def cache_ok_def)
next
  case (source c uid src)
  then show ?case by (simp add: register_record_source_def cache_ok_def)
next
  case (start c)
  then show ?case by (simp add: start_insert_def cache_ok_def)
qed (simp_all add: insert_ok really_insert_ok stage_insert_ok end_insert_ok evict_expired_entries
      expire_old_entries lookup_by_name_spec get_forward_ok lookup_by_addr_ok lookup_all_ok clear_ok
      remove_by_uid_ok insert_with_non_terminals_ok)

end

section \<open>Transactions\<close>

definition stage_all ::
    "'l cache_lru \<Rightarrow> (rstr \<Rightarrow> rstr) \<Rightarrow> cache_record list \<Rightarrow> instant \<Rightarrow> 'l dns_cache \<Rightarrow> 'l dns_cache" where
  "stage_all L lower rs now c = fold (\<lambda>r c. snd (stage_insert L lower r now c)) rs c"

definition staged_records ::
    "'l cache_lru \<Rightarrow> (rstr \<Rightarrow> rstr) \<Rightarrow> cache_record list \<Rightarrow> instant \<Rightarrow> 'l dns_cache \<Rightarrow> cache_record list" where
  "staged_records L lower rs now c =
     concat (map (\<lambda>r. case prepare_insert L lower r now c of Inr (New r') \<Rightarrow> [r'] | _ \<Rightarrow> []) rs)"

definition refused :: "'l cache_lru \<Rightarrow> (rstr \<Rightarrow> rstr) \<Rightarrow> instant \<Rightarrow> 'l dns_cache \<Rightarrow> cache_record \<Rightarrow> bool" where
  "refused L lower now c r \<longleftrightarrow> (\<exists>e. prepare_insert L lower r now c = Inl e)"

lemma stage_all_error: "insert_error c \<Longrightarrow> stage_all L lower rs now c = c"
  by (induction rs) (simp_all add: stage_all_def stage_insert_def)

lemma stage_all_spec:
  "\<not> insert_error c \<Longrightarrow>
     (if list_ex (refused L lower now c) rs
      then \<exists>ch. stage_all L lower rs now c = c\<lparr>new_chain := ch, insert_error := True\<rparr>
      else stage_all L lower rs now c = c\<lparr>new_chain := new_chain c @ staged_records L lower rs now c\<rparr>)"
proof (induction rs arbitrary: c)
  case (Cons r rs)
  have step: "stage_all L lower (r # rs) now c = stage_all L lower rs now (snd (stage_insert L lower r now c))" for c
    by (simp add: stage_all_def)
  show ?case
  proof (cases "prepare_insert L lower r now c")
    case (Inl e)
    with Cons.prems have "snd (stage_insert L lower r now c) = c\<lparr>insert_error := True\<rparr>"
      by (simp add: stage_insert_def)
    with Inl Cons.prems have "stage_all L lower (r # rs) now c = c\<lparr>new_chain := new_chain c, insert_error := True\<rparr>"
      by (simp add: step stage_all_error)
    moreover have "list_ex (refused L lower now c) (r # rs)" using Inl by (simp add: refused_def)
    ultimately show ?thesis by metis
  next
    case (Inr q)
    define ch where "ch = new_chain c @ (case q of New r' \<Rightarrow> [r'] | SameAddr _ \<Rightarrow> [])"
    have c1: "snd (stage_insert L lower r now c) = c\<lparr>new_chain := ch\<rparr>"
      using Cons.prems Inr by (auto simp: stage_insert_def ch_def split: prepared_insert.splits)
    have same: "prepare_insert L lower r' now (c\<lparr>new_chain := ch\<rparr>) = prepare_insert L lower r' now c" for r'
      by (simp add: prepare_insert_def clamp_cache_ttl_def cong: if_cong option.case_cong)
    have "\<not> refused L lower now c r" using Inr by (simp add: refused_def)
    moreover have "refused L lower now (c\<lparr>new_chain := ch\<rparr>) = refused L lower now c"
      by (simp add: refused_def same fun_eq_iff)
    moreover have "staged_records L lower rs now (c\<lparr>new_chain := ch\<rparr>) = staged_records L lower rs now c"
      by (simp add: staged_records_def same)
    ultimately show ?thesis
      using Cons.IH [of "c\<lparr>new_chain := ch\<rparr>"] Cons.prems Inr
      by (auto simp: step c1 staged_records_def ch_def split: if_splits prepared_insert.splits)
  qed
qed (simp add: stage_all_def staged_records_def)

lemma transaction_spec:
  "let run = end_insert L lower (stage_all L lower rs now (start_insert c))
   in if list_ex (refused L lower now c) rs
      then fst run = 0 \<and> snd run = start_insert c
      else run = commit_chain L lower (staged_records L lower rs now c) 0 (start_insert c)"
proof -
  let ?d = "start_insert c"
  have same: "prepare_insert L lower r now ?d = prepare_insert L lower r now c" for r
    by (simp add: prepare_insert_def clamp_cache_ttl_def start_insert_def cong: if_cong option.case_cong)
  then have "refused L lower now ?d = refused L lower now c"
    "staged_records L lower rs now ?d = staged_records L lower rs now c"
    by (simp_all add: refused_def staged_records_def fun_eq_iff)
  moreover have d: "\<not> insert_error ?d" "new_chain ?d = []" by (simp_all add: start_insert_def)
  moreover have e: "?d\<lparr>new_chain := []\<rparr> = ?d" "?d\<lparr>new_chain := [], insert_error := False\<rparr> = ?d"
    by (cases c; simp add: start_insert_def)+
  ultimately show ?thesis
    using stage_all_spec [OF d(1), of L lower now rs]
    by (auto simp: end_insert_def Let_def e split: if_splits)
qed

lemma prepare_insert_New:
  "prepare_insert L lower r now c = Inr (New r') \<Longrightarrow>
     cr_name r' = cr_name r \<and> cr_flags r' = cr_flags r \<and> cr_addr r' = cr_addr r"
  by (auto simp: prepare_insert_def Let_def split: if_splits option.splits)

lemma staged_records_from:
  "r' \<in> set (staged_records L lower rs now c) \<Longrightarrow>
     \<exists>r \<in> set rs. cr_name r' = cr_name r \<and> cr_flags r' = cr_flags r \<and> cr_addr r' = cr_addr r"
proof -
  assume "r' \<in> set (staged_records L lower rs now c)"
  then obtain r where "r \<in> set rs" "prepare_insert L lower r now c = Inr (New r')"
    by (auto simp: staged_records_def split: sum.splits prepared_insert.splits)
  with prepare_insert_New show ?thesis by blast
qed

context cache_lru
begin

lemma insert_records:
  assumes "ok c" shows "snd ` set (entries L (cache_insert L lower r c)) \<subseteq> insert r (snd ` set (entries L c))"
proof (cases "max_size c = 0")
  case True
  then show ?thesis by (auto simp: cache_insert_def)
next
  case False
  with set_put_front [of "max_size c" "cache_key_for lower (cr_name r) (cr_flags r)" r "entries L c"]
  show ?thesis by (auto simp: insert_entries [OF assms])
qed

lemma commit_chain_records:
  "ok c \<Longrightarrow> snd ` set (entries L (snd (commit_chain L lower rs n c))) \<subseteq> set rs \<union> snd ` set (entries L c)"
proof (induction rs arbitrary: n c)
  case (Cons r rs)
  have "snd ` set (entries L (snd (commit_chain L lower rs (n + 1) (cache_insert L lower r c))))
      \<subseteq> set rs \<union> insert r (snd ` set (entries L c))"
    using Cons.IH [OF insert_ok [OF Cons.prems], of "n + 1" r] insert_records [OF Cons.prems, of r] by blast
  moreover have "snd ` set (entries L (snd (commit_chain L lower rs n c))) \<subseteq> set rs \<union> snd ` set (entries L c)"
    by (rule Cons.IH [OF Cons.prems])
  ultimately show ?case
    by (cases "is_outdated_cname_pointer L lower c r") (simp_all del: image_subset_iff, blast+)
qed simp

lemma transaction_ok: "ok c \<Longrightarrow> ok (snd (end_insert L lower (stage_all L lower rs now (start_insert c))))"
proof -
  assume "ok c"
  then have "ok (start_insert c)" by (simp add: start_insert_def cache_ok_def)
  moreover have "ok c \<Longrightarrow> ok (stage_all L lower rs now c)" for c :: "'l dns_cache"
    by (induction rs arbitrary: c) (simp_all add: stage_all_def stage_insert_ok)
  ultimately show ?thesis by (simp add: end_insert_ok)
qed

lemma start_entries [simp]: "entries L (start_insert c) = entries L c" "ok (start_insert c) = ok c"
  by (simp_all add: start_insert_def entries_def cache_ok_def)

lemma transaction_records:
  assumes "ok c" "r \<in> snd ` set (entries L (snd (end_insert L lower (stage_all L lower rs now (start_insert c)))))"
  shows "r \<in> snd ` set (entries L c)
    \<or> (\<exists>r0 \<in> set rs. cr_name r = cr_name r0 \<and> cr_flags r = cr_flags r0 \<and> cr_addr r = cr_addr r0)"
proof (cases "list_ex (refused L lower now c) rs")
  case True
  with assms(2) transaction_spec [of L lower rs now c] show ?thesis by (simp add: Let_def)
next
  case False
  with assms(2) transaction_spec [of L lower rs now c]
  have "r \<in> snd ` set (entries L (snd (commit_chain L lower (staged_records L lower rs now c) 0 (start_insert c))))"
    by (simp add: Let_def)
  with commit_chain_records [of "start_insert c" "staged_records L lower rs now c" 0] assms(1)
  have "r \<in> set (staged_records L lower rs now c) \<or> r \<in> snd ` set (entries L c)" by (simp add: subset_iff)
  with staged_records_from show ?thesis by blast
qed

end

section \<open>Lifetimes\<close>

lemma unat_crec_ttl:
  "cr_flags r AND F_IMMORTAL = 0 \<Longrightarrow> unat (crec_ttl r t) = min (as_secs (cr_expires r - t)) 4294967295"
  by (simp add: crec_ttl_def unat_u32_of_nat)

lemma crec_ttl_within:
  assumes "cr_flags r AND F_IMMORTAL = 0" "t \<le> cr_expires r"
  shows "t + from_secs (unat (crec_ttl r t)) \<le> cr_expires r"
proof -
  have "from_secs (unat (crec_ttl r t)) \<le> from_secs (as_secs (cr_expires r - t))"
    using assms(1) by (simp add: unat_crec_ttl from_secs_def)
  also have "\<dots> \<le> cr_expires r - t" by (simp add: from_secs_def as_secs_def)
  finally show ?thesis using assms(2) by linarith
qed

lemma timed_simps [simp]:
  "cr_name (timed c now r) = cr_name r" "cr_flags (timed c now r) = cr_flags r"
  "cr_ttl (timed c now r) = clamp_cache_ttl c (cr_flags r) (cr_ttl r)"
  "cr_expires (timed c now r) = now + from_secs (unat (clamp_cache_ttl c (cr_flags r) (cr_ttl r)))"
  "cr_addr (timed c now r) = cr_addr r"
  by (simp_all add: timed_def)

context cache_lru
begin

lemma really_insert_dynamic:
  assumes "ok c" "\<not> is_static (cr_flags r)" "really_insert L lower r now c = (Inserted, c')"
  shows "c' = cache_insert L lower (timed c now r) c" "max_size c \<noteq> 0"
  using assms(3)
  by (auto simp: really_insert_def prepare_insert_dynamic [OF assms(1,2)] split: if_splits option.splits)

lemma inserted_lookup:
  assumes "ok c" "\<not> is_static (cr_flags r)" "cr_flags r AND F_IMMORTAL = 0"
    "really_insert L lower r now c = (Inserted, c')"
  shows "fst (lookup_by_name L lower (cr_name r) (cr_flags r) t c')
    = (if t < cr_expires (timed c now r) then Some (timed c now r) else None)"
proof -
  note c' = really_insert_dynamic [OF assms(1,2,4)]
  have "ok c'" using assms(1) c' by (simp add: insert_ok)
  then show ?thesis
    using c'(2) assms(3)
    by (simp add: lookup_by_name_spec live_view_def c'(1) view_insert [OF assms(1) c'(2)] record_is_expired_def)
qed

lemma blocked_by_static:
  assumes "ok c" "\<not> is_static (cr_flags r)"
    "view L c (cache_key_for lower (cr_name r) (cr_flags r)) = Some ex" "is_static (cr_flags ex)"
  shows "really_insert L lower r now c
    = (if clamp_cache_ttl c (cr_flags r) (cr_ttl r) = 0 \<and> cr_flags r AND F_IMMORTAL = 0 then ZeroTtlDropped
       else if same_static_addr (cr_addr ex) (cr_addr r) then BlockedSameAddr else BlockedConflict, c)"
  using assms by (simp add: really_insert_def prepare_insert_dynamic)

end

section \<open>Properties\<close>

text \<open>C6: in every cache that the operations can build, the number of entries is within the configured size, no
  key occurs twice, and every entry stands under the lower-cased name and the type bits of its
  own record; a cache of size 0 stays empty.\<close>

theorem cache_reachable_invariant:
  assumes "lru_laws L lru_ok lru_cap" "cache_reachable L lower c"
  shows "cache_len L c \<le> max_size c \<and> distinct (map fst (entries L c))
    \<and> list_all (\<lambda>(k, r). k = cache_key_for lower (cr_name r) (cr_flags r)) (entries L c)"
proof -
  have cl: "cache_lru L lru_ok lru_cap" using assms(1) by (simp add: cache_lru_def)
  note ok = cache_lru.reachable_ok [OF cl assms(2)]
  have "list_all (\<lambda>(k, r). k = cache_key_for lower (cr_name r) (cr_flags r)) (entries L c)"
    using cache_lru.okD(4) [OF cl ok] by (simp add: entry_ok_def list_all_iff split_beta)
  with cache_lru.okD(5,6) [OF cl ok] cache_lru.len_entries [OF cl ok] show ?thesis
    by (simp add: cache_len_def)
qed

definition demo_record :: cache_record where
  "demo_record = \<lparr>cr_name = str_lit ''Www.Example'', cr_flags = F_FORWARD OR F_IPV4, cr_ttl = 60, cr_expires = 0,
     cr_addr = Some (Addr4 0x01020304), cr_rdata = None, cr_uid = UID_NONE\<rparr>"

definition demo_cache :: "(cache_key, cache_record) lru_list dns_cache" where
  "demo_cache = with_ttl_limits list_lru (\<lambda>_. 0) 2 0 0"

lemma demo_reachable: "cache_reachable list_lru to_ascii_lowercase demo_cache"
  by (simp add: demo_cache_def cache_reachable.fresh)

theorem cache_reachable_invariant_witness:
  "let c = cache_insert list_lru to_ascii_lowercase demo_record demo_cache
   in cache_len list_lru c \<le> max_size c \<and> distinct (map fst (entries list_lru c))"
  using cache_reachable_invariant [OF list_lru.lru_laws_axioms cache_reachable.insertion [OF demo_reachable]]
  by (simp add: Let_def)

lemma demo_ok: "cache_ok list_lru list_lru_ok fst to_ascii_lowercase demo_cache"
  by (rule list_cache.reachable_ok [OF demo_reachable])

lemma demo_empty: "entries list_lru demo_cache = []"
  by (simp add: demo_cache_def with_ttl_limits_def cache_new_def entries_def)

lemma demo_dynamic: "\<not> is_static (cr_flags demo_record)" "cr_flags demo_record AND F_IMMORTAL = 0"
  by (simp_all add: demo_record_def is_static_def flag_defs)

lemma demo_ttl: "clamp_cache_ttl demo_cache (cr_flags demo_record) (cr_ttl demo_record) = 60"
  by (simp add: demo_record_def demo_cache_def with_ttl_limits_def cache_new_def clamp_cache_ttl_def flag_defs)

text \<open>C15: seen as a partial map, \<open>insert\<close> binds the key of the record to the record and otherwise changes nothing,
  except that a full cache that has no entry under the key loses its least recently used
  entry.\<close>

theorem cache_insert_refines_map:
  assumes "lru_laws L lru_ok lru_cap" "cache_ok L lru_ok lru_cap lower c" "max_size c \<noteq> 0"
  shows "view L (cache_insert L lower r c) = (\<lambda>k'.
     if k' = cache_key_for lower (cr_name r) (cr_flags r) then Some r
     else if view L c (cache_key_for lower (cr_name r) (cr_flags r)) = None
             \<and> length (entries L c) = max_size c \<and> k' = fst (last (entries L c)) then None
     else view L c k')"
  using assms by (intro cache_lru.view_insert) (simp_all add: cache_lru_def)

theorem cache_insert_refines_map_witness:
  "view list_lru (cache_insert list_lru to_ascii_lowercase demo_record demo_cache)
     (cache_key_for to_ascii_lowercase (str_lit ''WWW.example'') F_IPV4) = Some demo_record"
proof -
  have k: "cache_key_for to_ascii_lowercase (str_lit ''WWW.example'') F_IPV4
      = cache_key_for to_ascii_lowercase (cr_name demo_record) (cr_flags demo_record)"
  proof -
    have "to_ascii_lowercase (str_lit ''WWW.example'') = to_ascii_lowercase (str_lit ''Www.Example'')"
      by code_simp
    then show ?thesis by (simp add: cache_key_for_def demo_record_def type_flags_or)
  qed
  show ?thesis
    unfolding k
    by (subst cache_insert_refines_map [OF list_lru.lru_laws_axioms demo_ok])
      (simp_all add: demo_cache_def with_ttl_limits_def cache_new_def)
qed

text \<open>C16: seen as a partial map, \<open>lookup_by_name\<close> returns the binding of the lower-cased name and the type bits
  unless it has expired, removes exactly that binding when it has expired, and changes no
  other binding.\<close>

theorem lookup_by_name_refines_map:
  assumes "lru_laws L lru_ok lru_cap" "cache_ok L lru_ok lru_cap lower c"
  shows "fst (lookup_by_name L lower name flags now c) = live_view L now c (cache_key_for lower name flags)
    \<and> view L (snd (lookup_by_name L lower name flags now c))
        = (view L c)(cache_key_for lower name flags := live_view L now c (cache_key_for lower name flags))"
  using assms cache_lru.lookup_by_name_spec(1,3) [of L lru_ok lru_cap lower c]
  by (simp add: cache_lru_def)

theorem lookup_by_name_refines_map_witness:
  "fst (lookup_by_name list_lru to_ascii_lowercase (str_lit ''a'') F_IPV4 0 demo_cache) = None"
  using lookup_by_name_refines_map [OF list_lru.lru_laws_axioms demo_ok, of "str_lit ''a''" F_IPV4 0]
  by (simp add: live_view_def view_def demo_empty)

text \<open>C17: an upstream record that \<open>really_insert\<close> accepts is returned by later lookups with its clamped lifetime
  until that lifetime has passed and never after; the lifetime served with it never
  reaches beyond its expiry.\<close>

theorem inserted_record_served_until_expiry:
  assumes "lru_laws L lru_ok lru_cap" "cache_ok L lru_ok lru_cap lower c"
    and "\<not> is_static (cr_flags r)" "cr_flags r AND F_IMMORTAL = 0"
    and "really_insert L lower r now c = (Inserted, c')"
  shows "let ttl = clamp_cache_ttl c (cr_flags r) (cr_ttl r);
             stored = r\<lparr>cr_ttl := ttl, cr_expires := now + from_secs (unat ttl)\<rparr>
         in fst (lookup_by_name L lower (cr_name r) (cr_flags r) t c')
              = (if t < now + from_secs (unat ttl) then Some stored else None)
            \<and> (t \<le> now + from_secs (unat ttl) \<longrightarrow> t + from_secs (unat (crec_ttl stored t)) \<le> now + from_secs (unat ttl))"
proof -
  have cl: "cache_lru L lru_ok lru_cap" using assms(1) by (simp add: cache_lru_def)
  from cache_lru.inserted_lookup [OF cl assms(2-5), of t] crec_ttl_within [of "timed c now r" t] assms(4)
  show ?thesis by (simp add: Let_def timed_def)
qed

theorem inserted_record_served_until_expiry_witness:
  "\<exists>c'. really_insert list_lru to_ascii_lowercase demo_record 5 demo_cache = (Inserted, c')
      \<and> fst (lookup_by_name list_lru to_ascii_lowercase (cr_name demo_record) (cr_flags demo_record) 7 c')
        = Some (demo_record\<lparr>cr_expires := 5 + from_secs 60\<rparr>)"
proof -
  let ?c' = "cache_insert list_lru to_ascii_lowercase (timed demo_cache 5 demo_record) demo_cache"
  have ins: "really_insert list_lru to_ascii_lowercase demo_record 5 demo_cache = (Inserted, ?c')"
    by (simp add: really_insert_def list_cache.prepare_insert_dynamic [OF demo_ok demo_dynamic(1)] demo_ttl
        view_def demo_empty) (simp add: demo_cache_def with_ttl_limits_def cache_new_def)
  have "7 < (5::nat) + from_secs 60" by (simp add: from_secs_def)
  with inserted_record_served_until_expiry [OF list_lru.lru_laws_axioms demo_ok demo_dynamic ins, of 7] ins
  show ?thesis by (simp add: demo_ttl Let_def) (simp add: demo_record_def)
qed

text \<open>C25: an upstream record never replaces a record from the configuration, a hosts file or DHCP: the cache is
  left untouched, and the outcome says whether the addresses agree.\<close>

theorem static_record_protected:
  assumes "lru_laws L lru_ok lru_cap" "cache_ok L lru_ok lru_cap lower c"
    and "\<not> is_static (cr_flags r)"
    and "view L c (cache_key_for lower (cr_name r) (cr_flags r)) = Some ex" "is_static (cr_flags ex)"
  shows "snd (really_insert L lower r now c) = c
    \<and> fst (really_insert L lower r now c) \<in> {ZeroTtlDropped, BlockedSameAddr, BlockedConflict}
    \<and> (fst (really_insert L lower r now c) = BlockedSameAddr \<longrightarrow> same_static_addr (cr_addr ex) (cr_addr r))"
proof -
  have cl: "cache_lru L lru_ok lru_cap" using assms(1) by (simp add: cache_lru_def)
  from cache_lru.blocked_by_static [OF cl assms(2-5)] show ?thesis by simp
qed

definition demo_static :: cache_record where
  "demo_static = demo_record\<lparr>cr_flags := F_FORWARD OR F_IPV4 OR F_HOSTS\<rparr>"

theorem static_record_protected_witness:
  "let c = cache_insert list_lru to_ascii_lowercase demo_static demo_cache
   in snd (really_insert list_lru to_ascii_lowercase demo_record 0 c) = c"
proof -
  let ?c = "cache_insert list_lru to_ascii_lowercase demo_static demo_cache"
  have ok: "cache_ok list_lru list_lru_ok fst to_ascii_lowercase ?c"
    by (rule list_cache.insert_ok [OF demo_ok])
  have k: "cache_key_for to_ascii_lowercase (cr_name demo_record) (cr_flags demo_record)
      = cache_key_for to_ascii_lowercase (cr_name demo_static) (cr_flags demo_static)"
    by (simp add: cache_key_for_def demo_record_def demo_static_def type_flags_or)
  have "max_size demo_cache \<noteq> 0" by (simp add: demo_cache_def with_ttl_limits_def cache_new_def)
  then have v: "view list_lru ?c (cache_key_for to_ascii_lowercase (cr_name demo_record) (cr_flags demo_record)) = Some demo_static"
    unfolding k by (simp add: list_cache.view_insert [OF demo_ok])
  have "is_static (cr_flags demo_static)" by (simp add: demo_static_def is_static_def flag_defs)
  from static_record_protected [OF list_lru.lru_laws_axioms ok demo_dynamic(1) v this, of 0]
  show ?thesis by (simp add: Let_def)
qed

text \<open>The lifetime given to an upstream record is at least the configured minimum, at most the larger of the
  configured bounds when a maximum is set, and at least a minute for DNSKEY and DS
  records.\<close>

lemma clamp_cache_ttl_bounds:
  shows "if flags AND (F_DNSKEY OR F_DS) \<noteq> 0
     then clamp_cache_ttl c flags ttl = max ttl 60
     else min_cache_ttl c \<le> clamp_cache_ttl c flags ttl
          \<and> (max_cache_ttl c = 0 \<or> clamp_cache_ttl c flags ttl \<le> max (max_cache_ttl c) (min_cache_ttl c))
          \<and> (if min_cache_ttl c \<le> ttl \<and> (max_cache_ttl c = 0 \<or> ttl \<le> max_cache_ttl c)
             then clamp_cache_ttl c flags ttl = ttl else True)"
proof (cases "flags AND (F_DNSKEY OR F_DS) = 0")
  case True
  define t1 where "t1 = (if max_cache_ttl c \<noteq> 0 \<and> ttl > max_cache_ttl c then max_cache_ttl c else ttl)"
  have t1: "max_cache_ttl c = 0 \<or> t1 \<le> max_cache_ttl c"
    by (simp add: t1_def not_less)
  have t1_id: "max_cache_ttl c = 0 \<or> ttl \<le> max_cache_ttl c \<Longrightarrow> t1 = ttl"
    unfolding t1_def by (metis leD)
  have clamp: "clamp_cache_ttl c flags ttl = (if min_cache_ttl c \<noteq> 0 \<and> t1 < min_cache_ttl c then min_cache_ttl c else t1)"
    using True by (simp add: clamp_cache_ttl_def t1_def Let_def)
  have lower_bound: "min_cache_ttl c \<le> clamp_cache_ttl c flags ttl"
    by (simp add: clamp not_less)
  have upper_bound: "max_cache_ttl c = 0 \<or> clamp_cache_ttl c flags ttl \<le> max (max_cache_ttl c) (min_cache_ttl c)"
    using t1 by (cases "max_cache_ttl c = 0") (simp_all add: clamp le_max_iff_disj)
  have "clamp_cache_ttl c flags ttl = ttl" if "min_cache_ttl c \<le> ttl" "max_cache_ttl c = 0 \<or> ttl \<le> max_cache_ttl c"
    using t1_id [OF that(2)] that(1) by (simp add: clamp leD)
  with True lower_bound upper_bound show ?thesis by simp
next
  case False
  then show ?thesis by (simp add: clamp_cache_ttl_def DNSSEC_MIN_TTL_def max_def not_less leD)
qed

text \<open>A sweep removes exactly the expired entries and keeps the others in their order of use; the eager sweep
  also reports and counts each of them.\<close>

lemma expiry_sweep_exact:
  assumes "lru_laws L lru_ok lru_cap" "cache_ok L lru_ok lru_cap lower c"
  shows "entries L (expire_old L now c) = filter (\<lambda>(_, r). \<not> record_is_expired r now) (entries L c)
    \<and> entries L (snd (evict_expired L now c)) = entries L (expire_old L now c)
    \<and> cache_count L now c = length (entries L (expire_old L now c))
    \<and> evictions (snd (evict_expired L now c))
        = evictions c + word_of_nat (length (entries L c) - cache_count L now c)"
proof -
  have cl: "cache_lru L lru_ok lru_cap" using assms(1) by (simp add: cache_lru_def)
  have "length (keys_where L (\<lambda>r. record_is_expired r now) (records c))
      = length (entries L c) - cache_count L now c"
    using sum_length_filter_compl [of "\<lambda>e. record_is_expired (snd e) now" "entries L c"]
    by (simp add: keys_where_def cache_count_def entries_def case_prod_unfold)
  then show ?thesis
    using cache_lru.expire_old_entries(2) [OF cl assms(2), of now]
      cache_lru.evict_expired_entries(2) [OF cl assms(2), of now]
    by (simp add: evict_expired_def Let_def cache_lru.evict_keys_eq [OF cl] cache_count_def entries_def case_prod_unfold)
qed

text \<open>\<open>lookup_forward\<close> returns the live record of the queried type, and in its absence the live NODATA entry
  recorded for that type.\<close>

lemma lookup_forward_positive_then_negative:
  assumes "lru_laws L lru_ok lru_cap" "cache_ok L lru_ok lru_cap lower c" "type_flags flags AND F_NEG = 0"
  shows "fst (lookup_forward L lower name flags now c)
      = (case live_view L now c (cache_key_for lower name flags) of
           Some r \<Rightarrow> Some r
         | None \<Rightarrow> live_view L now c \<lparr>ck_name = lower name, ck_flags = type_flags flags OR F_NEG\<rparr>)"
  unfolding nodata_key_def [symmetric]
  using assms cache_lru.lookup_forward_spec(1) [of L lru_ok lru_cap lower c flags name now]
  by (simp add: cache_lru_def)

text \<open>Replacing the record of a key in a full cache is counted as an eviction although no entry is lost.\<close>

lemma replacement_counted_as_eviction:
  assumes "lru_laws L lru_ok lru_cap" "cache_ok L lru_ok lru_cap lower c" "max_size c \<noteq> 0"
    and "length (entries L c) = max_size c" "view L c (cache_key_for lower (cr_name r) (cr_flags r)) \<noteq> None"
  shows "evictions (cache_insert L lower r c) = evictions c + 1
    \<and> dom (view L (cache_insert L lower r c)) = dom (view L c)"
proof -
  have cl: "cache_lru L lru_ok lru_cap" using assms(1) by (simp add: cache_lru_def)
  have "evictions (cache_insert L lower r c) = evictions c + 1"
    using assms(3,4) cache_lru.len_entries [OF cl assms(2)] by (simp add: cache_insert_def Let_def count_eviction_def)
  moreover have "dom (view L (cache_insert L lower r c)) = dom (view L c)"
    using assms(5) by (auto simp: cache_lru.view_insert [OF cl assms(2,3)] split: if_splits)
  ultimately show ?thesis by blast
qed

text \<open>
  The key \<open>is_nodata\<close> consults has no type bit, so it differs from the key of every NODATA record
  that carries the queried type.
\<close>

lemma is_nodata_misses_typed_records:
  assumes "cr_flags r AND (F_IPV4 OR F_IPV6) \<noteq> 0"
  shows "cache_key_for lower name F_NEG \<noteq> cache_key_for lower (cr_name r) (cr_flags r)"
proof
  assume "cache_key_for lower name F_NEG = cache_key_for lower (cr_name r) (cr_flags r)"
  then have "F_NEG = type_flags (cr_flags r)" by (simp add: cache_key_for_def)
  then have "F_NEG AND (F_IPV4 OR F_IPV6) = type_flags (cr_flags r) AND (F_IPV4 OR F_IPV6)" by simp
  also have "\<dots> = cr_flags r AND (TYPE_MASK AND (F_IPV4 OR F_IPV6))" by (simp add: type_flags_def and.assoc)
  also have "TYPE_MASK AND (F_IPV4 OR F_IPV6) = F_IPV4 OR F_IPV6" by (simp add: TYPE_MASK_def flag_defs)
  finally have "F_NEG AND (F_IPV4 OR F_IPV6) \<noteq> 0" using assms by simp
  then show False by (simp add: flag_defs)
qed

end
