(* ===== verification/Extract.thy ===== *)
theory Extract
  imports Dns_Packet Cache_Invariant
begin

unbundle bit_operations_syntax

text \<open>
  Filling the cache from upstream replies, \<open>extract_addresses\<close> and \<open>cache_reply\<close> of \<open>src/rfc1035.rs\<close>
  and \<open>src/cache.rs\<close>: the walk along the CNAME chain of a reply, rebind protection, negative
  caching with the SOA of the authority section, and the commit of everything staged in one
  transaction. Slicing a name at an octet that is not a character boundary panics, so the
  result is an \<open>exec\<close> value.
\<close>

section \<open>Configuration and results\<close>

record ipsets =
  is_sets :: "rstr list"
  is_domain :: rstr

record extract_config =
  ec_max_ttl :: u32
  ec_neg_ttl :: u32
  ec_check_rebind :: bool
  ec_local_rebind_ok :: bool
  ec_no_neg_cache :: bool
  ec_secure :: bool
  ec_cache_rr :: "u16 list"
  ec_ipsets :: "ipsets list"
  ec_nftsets :: "ipsets list"

definition default_extract_config :: extract_config where
  "default_extract_config =
     \<lparr>ec_max_ttl = 0, ec_neg_ttl = 0, ec_check_rebind = False, ec_local_rebind_ok = False,
      ec_no_neg_cache = False, ec_secure = False, ec_cache_rr = [], ec_ipsets = [], ec_nftsets = []\<rparr>"

record ipset_hit =
  ih_set_name :: rstr
  ih_addr :: ip_addr

datatype extract_result = Cached | RebindBlocked | BadPacket

record extract_outcome =
  eo_result :: extract_result
  eo_ipset_hits :: "ipset_hit list"
  eo_nftset_hits :: "ipset_hit list"

definition CNAME_CHAIN_LIMIT :: nat where
  "CNAME_CHAIN_LIMIT = 10"

section \<open>Helpers\<close>

fun find_sets_loop :: "rstr \<Rightarrow> ipsets list \<Rightarrow> nat \<Rightarrow> ipsets option \<Rightarrow> ipsets option exec" where
  "find_sets_loop name [] matchlen result = Done result"
| "find_sets_loop name (entry # setlist) matchlen result =
     (let namelen = length name; domainlen = length (is_domain entry)
      in if namelen \<ge> domainlen then
           let matchstart = namelen - domainlen
           in bind_exec (str_from name matchstart) (\<lambda>suffix.
                let boundary_ok = (domainlen = 0 \<or> namelen = domainlen
                                   \<or> matchstart \<noteq> 0 \<and> name ! (matchstart - 1) = DOT)
                in if eq_ignore_ascii_case suffix (is_domain entry) \<and> boundary_ok \<and> domainlen \<ge> matchlen
                   then find_sets_loop name setlist domainlen (Some entry)
                   else find_sets_loop name setlist matchlen result)
         else find_sets_loop name setlist matchlen result)"

definition domain_find_sets :: "ipsets list \<Rightarrow> rstr \<Rightarrow> ipsets option exec" where
  "domain_find_sets setlist name = find_sets_loop name setlist 0 None"

definition clamp_ttl :: "u32 \<Rightarrow> u32 \<Rightarrow> u32" where
  "clamp_ttl ttl max_ttl = (if max_ttl \<noteq> 0 \<and> ttl > max_ttl then max_ttl else ttl)"

record soa_match =
  sm_neg_ttl :: u32
  sm_owner :: rstr
  sm_rr_ttl :: u32
  sm_rdata :: "u8 list"

definition soa_of_rr :: "'b bytes_mut \<Rightarrow> rstr \<Rightarrow> dns_rr \<Rightarrow> soa_match option" where
  "soa_of_rr B owner rr =
     (case extract_name (rr_data rr) 0 of
        Inl _ \<Rightarrow> None
      | Inr (mname, pos1) \<Rightarrow>
          (case extract_name (rr_data rr) pos1 of
             Inl _ \<Rightarrow> None
           | Inr (rname, pos) \<Rightarrow>
               if pos + 20 > length (rr_data rr) then None
               else let minimum = from_be32 (rr_data rr ! (pos + 16)) (rr_data rr ! (pos + 17))
                                    (rr_data rr ! (pos + 18)) (rr_data rr ! (pos + 19));
                        rdata = bm_put_slice B (write_name B (write_name B (bm_new B) mname) rname)
                                  (take 20 (drop pos (rr_data rr)))
                    in Some \<lparr>sm_neg_ttl = min (rr_ttl rr) minimum, sm_owner = owner,
                             sm_rr_ttl = rr_ttl rr, sm_rdata = bm_to_vec B rdata\<rparr>))"

fun find_soa :: "'b bytes_mut \<Rightarrow> (rstr \<Rightarrow> rstr) \<Rightarrow> rstr \<Rightarrow> dns_rr list \<Rightarrow> soa_match option exec" where
  "find_soa B lower name [] = Done None"
| "find_soa B lower name (rr # rrs) =
     (if rr_type rr \<noteq> 6 \<or> rr_class rr \<noteq> 1 then find_soa B lower name rrs
      else let owner = lower (rr_name rr); soa_len = length owner; name_len = length name
           in if soa_len > name_len then find_soa B lower name rrs
              else bind_exec (str_from name (name_len - soa_len)) (\<lambda>suffix.
                     if \<not> eq_ignore_ascii_case suffix owner then find_soa B lower name rrs
                     else Done (soa_of_rr B owner rr)))"

definition commit_staged ::
    "'l cache_lru \<Rightarrow> (rstr \<Rightarrow> rstr) \<Rightarrow> 'l dns_cache \<Rightarrow> cache_record list \<Rightarrow> dns_header \<Rightarrow> instant \<Rightarrow> 'l dns_cache" where
  "commit_staged L lower cache staged header now =
     (if hb4 header AND HB4_CD \<noteq> 0 \<or> hb4 header AND HB4_RA = 0 then cache
      else snd (end_insert L lower
             (fold (\<lambda>rec c. snd (stage_insert L lower rec now c)) staged (start_insert cache))))"

definition staged_record :: "rstr \<Rightarrow> u32 \<Rightarrow> u32 \<Rightarrow> instant \<Rightarrow> all_addr option \<Rightarrow> cache_record" where
  "staged_record name flags ttl now addr =
     \<lparr>cr_name = name, cr_flags = flags, cr_ttl = ttl, cr_expires = now + from_secs (unat ttl),
      cr_addr = addr, cr_rdata = None, cr_uid = UID_NONE\<rparr>"

section \<open>Reverse lookups\<close>

fun arpa_flag :: "all_addr \<Rightarrow> u32" where
  "arpa_flag (Addr4 _) = F_IPV4"
| "arpa_flag (Addr6 _) = F_IPV6"
| "arpa_flag _ = 0"

text \<open>The loop over the answers; \<open>None\<close> is the return of \<open>BadPacket\<close>.\<close>

fun ptr_records :: "rstr \<Rightarrow> u32 \<Rightarrow> all_addr \<Rightarrow> u32 \<Rightarrow> instant \<Rightarrow> dns_rr list \<Rightarrow> cache_record list option" where
  "ptr_records qname secflag ip_addr max_ttl now [] = Some []"
| "ptr_records qname secflag ip_addr max_ttl now (rr # rrs) =
     (if rr_type rr \<noteq> 12 \<or> rr_class rr \<noteq> 1 then ptr_records qname secflag ip_addr max_ttl now rrs
      else if \<not> eq_ignore_ascii_case (rr_name rr) qname then ptr_records qname secflag ip_addr max_ttl now rrs
      else (case extract_name (rr_data rr) 0 of
              Inl _ \<Rightarrow> None
            | Inr (target, _) \<Rightarrow>
                (let ttl = clamp_ttl (rr_ttl rr) max_ttl
                 in map_option (Cons (staged_record target (arpa_flag ip_addr OR F_REVERSE OR secflag) ttl now (Some ip_addr)))
                      (ptr_records qname secflag ip_addr max_ttl now rrs))))"

definition outcome :: "extract_result \<Rightarrow> ipset_hit list \<Rightarrow> ipset_hit list \<Rightarrow> extract_outcome" where
  "outcome result ips nfts = \<lparr>eo_result = result, eo_ipset_hits = ips, eo_nftset_hits = nfts\<rparr>"

definition extract_ptr_answers ::
    "'l cache_lru \<Rightarrow> (rstr \<Rightarrow> rstr) \<Rightarrow> dns_packet \<Rightarrow> rstr \<Rightarrow> u32 \<Rightarrow> 'l dns_cache \<Rightarrow> instant \<Rightarrow> extract_config
       \<Rightarrow> extract_outcome \<times> 'l dns_cache" where
  "extract_ptr_answers L lower packet qname_lower secflag cache now config =
     (case in_arpa_name_2_addr lower qname_lower of
        None \<Rightarrow> (outcome Cached [] [], cache)
      | Some ip_addr \<Rightarrow>
          (case ptr_records (q_name (questions packet ! 0)) secflag ip_addr (ec_max_ttl config) now (answers packet) of
             None \<Rightarrow> (outcome BadPacket [] [], cache)
           | Some staged \<Rightarrow>
               if staged \<noteq> [] then
                 (outcome Cached [] [], commit_staged L lower cache staged (pk_header packet) now)
               else (outcome Cached [] [], cache)))"

section \<open>Forward lookups\<close>

text \<open>What the walk along the answers reads, fixed for one reply.\<close>

record extract_ctx =
  xc_qtype :: u16
  xc_nxdomain :: bool
  xc_secflag :: u32
  xc_addr_flag :: u32
  xc_insert :: bool
  xc_ipset :: "ipsets option"
  xc_nftset :: "ipsets option"
  xc_now :: instant
  xc_config :: extract_config

text \<open>What the walk changes.\<close>

record scan_state =
  sc_staged :: "cache_record list"
  sc_ipset_hits :: "ipset_hit list"
  sc_nftset_hits :: "ipset_hit list"
  sc_found :: bool

text \<open>
  How one pass over the answers ends: the loop falls through, it breaks out of the CNAME loop
  with the name reached, it restarts for a CNAME target, or the function returns.
\<close>

datatype scan_result =
    FallThrough scan_state
  | BreakLoop rstr scan_state
  | Restart rstr scan_state
  | Return extract_outcome

definition cacheable_type :: "u16 \<Rightarrow> u16 list \<Rightarrow> u32 \<times> bool" where
  "cacheable_type qtype cache_rr =
     (if qtype = 1 then (F_IPV4, True)
      else if qtype = 28 then (F_IPV6, True)
      else if qtype \<noteq> 5 \<and> (qtype = 33 \<or> qtype = 12 \<or> qtype \<in> set cache_rr \<or> 255 \<in> set cache_rr)
      then (F_RR, True)
      else (0, False))"

text \<open>
  The address of one answer: the record is malformed, it is a rebind attempt, or it has a value.
  For a TXT record the code also logs its strings, which changes no state.
\<close>

definition answer_value :: "extract_ctx \<Rightarrow> dns_rr \<Rightarrow> extract_result + all_addr" where
  "answer_value x rr =
     (let cfg = xc_config x; d = rr_data rr
      in if xc_qtype x = 1 then
           if length d < 4 then Inl BadPacket
           else let ip = ipv4_of (take 4 d)
                in if ec_check_rebind cfg \<and> private_net ip (\<not> ec_local_rebind_ok cfg) then Inl RebindBlocked
                   else Inr (Addr4 ip)
         else if xc_qtype x = 28 then
           if length d < 16 then Inl BadPacket
           else let ip = ipv6_of (take 16 d)
                in if ec_check_rebind cfg \<and> private_net6 ip (\<not> ec_local_rebind_ok cfg) then Inl RebindBlocked
                   else Inr (Addr6 ip)
         else Inr (RrData \<lparr>rd_rrtype = rr_type rr, rd_data = d\<rparr>))"

definition set_hits :: "ipsets option \<Rightarrow> all_addr \<Rightarrow> ipset_hit list" where
  "set_hits set_match addr =
     (case (set_match, as_ip addr) of
        (Some s, Some ip) \<Rightarrow> map (\<lambda>n. \<lparr>ih_set_name = n, ih_addr = ip\<rparr>) (is_sets s)
      | _ \<Rightarrow> [])"

definition stage_if :: "bool \<Rightarrow> cache_record \<Rightarrow> scan_state \<Rightarrow> scan_state" where
  "stage_if do_insert rec st = (if do_insert then st\<lparr>sc_staged := sc_staged st @ [rec]\<rparr> else st)"

definition cname_record :: "extract_ctx \<Rightarrow> rstr \<Rightarrow> rstr \<Rightarrow> u32 \<Rightarrow> cache_record" where
  "cname_record x current target ttl =
     staged_record current (F_CNAME OR F_FORWARD OR xc_secflag x) ttl (xc_now x)
       (Some (Cname \<lparr>is_name_ptr = True, target_name = Some target, cname_uid = 0\<rparr>))"

fun scan_answers ::
    "(rstr \<Rightarrow> rstr) \<Rightarrow> extract_ctx \<Rightarrow> rstr \<Rightarrow> nat \<Rightarrow> dns_rr list \<Rightarrow> scan_state \<Rightarrow> scan_result" where
  "scan_answers lower x current hops [] st = FallThrough st"
| "scan_answers lower x current hops (rr # rrs) st =
     (if rr_class rr \<noteq> 1 then scan_answers lower x current hops rrs st
      else if \<not> eq_ignore_ascii_case (rr_name rr) current then scan_answers lower x current hops rrs st
      else let ttl = clamp_ttl (rr_ttl rr) (ec_max_ttl (xc_config x))
           in if rr_type rr = 5 then
                if hops \<ge> CNAME_CHAIN_LIMIT then BreakLoop current st
                else (case extract_name (rr_data rr) 0 of
                        Inl _ \<Rightarrow> Return (outcome BadPacket (sc_ipset_hits st) (sc_nftset_hits st))
                      | Inr (t, _) \<Rightarrow>
                          let target = lower t;
                              st1 = stage_if (xc_insert x) (cname_record x current target ttl) st
                          in if xc_qtype x = 5 then BreakLoop target (st1\<lparr>sc_found := True\<rparr>)
                             else Restart target st1)
              else if rr_type rr \<noteq> xc_qtype x \<or> xc_nxdomain x then scan_answers lower x current hops rrs st
              else (case answer_value x rr of
                      Inl r \<Rightarrow> Return (outcome r (sc_ipset_hits st) (sc_nftset_hits st))
                    | Inr addr \<Rightarrow>
                        let st1 = st\<lparr>sc_ipset_hits := sc_ipset_hits st @ set_hits (xc_ipset x) addr,
                                     sc_nftset_hits := sc_nftset_hits st @ set_hits (xc_nftset x) addr\<rparr>;
                            st2 = stage_if (xc_insert x)
                                    (staged_record current (xc_addr_flag x OR F_FORWARD OR xc_secflag x) ttl
                                       (xc_now x) (Some addr)) st1
                        in scan_answers lower x current hops rrs (st2\<lparr>sc_found := True\<rparr>)))"

lemma scan_answers_restart_bound:
  "scan_answers lower x current hops rrs st = Restart target st' \<Longrightarrow> hops < CNAME_CHAIN_LIMIT"
  by (induction rrs arbitrary: st) (auto simp: Let_def split: if_splits sum.splits prod.splits)

text \<open>The labelled loop \<open>'cname_loop\<close>; it ends because every restart counts a hop.\<close>

function cname_loop ::
    "(rstr \<Rightarrow> rstr) \<Rightarrow> extract_ctx \<Rightarrow> dns_rr list \<Rightarrow> rstr \<Rightarrow> nat \<Rightarrow> scan_state \<Rightarrow> extract_outcome + (rstr \<times> scan_state)" where
  "cname_loop lower x rrs current hops st =
     (case scan_answers lower x current hops rrs st of
        FallThrough st' \<Rightarrow> Inr (current, st')
      | BreakLoop name st' \<Rightarrow> Inr (name, st')
      | Restart target st' \<Rightarrow> cname_loop lower x rrs target (hops + 1) st'
      | Return out \<Rightarrow> Inl out)"
  by auto
termination
  by (relation "measure (\<lambda>(lower, x, rrs, current, hops, st). CNAME_CHAIN_LIMIT - hops)")
    (auto dest!: scan_answers_restart_bound)

declare cname_loop.simps [simp del]

section \<open>Negative answers and the whole reply\<close>

definition negative_records ::
    "extract_ctx \<Rightarrow> rstr \<Rightarrow> soa_match option \<Rightarrow> cache_record list" where
  "negative_records x current soa =
     (let cfg = xc_config x;
          ttl = (case soa of
                   Some s \<Rightarrow> Some (clamp_ttl (sm_neg_ttl s) (ec_max_ttl cfg))
                 | None \<Rightarrow> if ec_neg_ttl cfg > 0 then Some (ec_neg_ttl cfg) else None);
          neg_flags = (if xc_nxdomain x then F_NXDOMAIN OR F_NEG OR F_FORWARD OR xc_secflag x
                       else xc_addr_flag x OR F_NEG OR F_FORWARD OR xc_secflag x)
      in case ttl of
           None \<Rightarrow> []
         | Some t \<Rightarrow>
             (case soa of
                None \<Rightarrow> []
              | Some s \<Rightarrow>
                  [staged_record (sm_owner s) (F_FORWARD OR F_RR OR F_KEYTAG OR xc_secflag x)
                     (clamp_ttl (sm_rr_ttl s) (ec_max_ttl cfg)) (xc_now x)
                     (Some (RrBlock \<lparr>rb_rrtype = 6, rb_rrdata = sm_rdata s\<rparr>))])
             @ [staged_record current neg_flags t (xc_now x) None])"

definition extract_forward ::
    "'b bytes_mut \<Rightarrow> 'l cache_lru \<Rightarrow> (rstr \<Rightarrow> rstr) \<Rightarrow> dns_packet \<Rightarrow> rstr \<Rightarrow> extract_ctx \<Rightarrow> 'l dns_cache
       \<Rightarrow> (extract_outcome \<times> 'l dns_cache) exec" where
  "extract_forward B L lower packet qname_lower x cache =
     (case cname_loop lower x (answers packet) qname_lower 0
             \<lparr>sc_staged = [], sc_ipset_hits = [], sc_nftset_hits = [], sc_found = False\<rparr> of
        Inl out \<Rightarrow> Done (out, cache)
      | Inr (current, st) \<Rightarrow>
          bind_exec
            (if \<not> sc_found st \<and> \<not> ec_no_neg_cache (xc_config x) \<and> (xc_insert x \<or> xc_nxdomain x)
             then bind_exec (find_soa B lower current (authority packet))
                    (\<lambda>soa. Done (sc_staged st @ negative_records x current soa))
             else Done (sc_staged st))
            (\<lambda>staged. Done (outcome Cached (sc_ipset_hits st) (sc_nftset_hits st),
                            commit_staged L lower cache staged (pk_header packet) (xc_now x))))"

definition extract_addresses ::
    "'b bytes_mut \<Rightarrow> 'l cache_lru \<Rightarrow> (rstr \<Rightarrow> rstr) \<Rightarrow> dns_packet \<Rightarrow> 'l dns_cache \<Rightarrow> instant \<Rightarrow> extract_config
       \<Rightarrow> (extract_outcome \<times> 'l dns_cache) exec" where
  "extract_addresses B L lower packet cache now config =
     (if length (questions packet) \<noteq> 1 then Done (outcome BadPacket [] [], cache)
      else let q = questions packet ! 0
           in if q_class q \<noteq> 1 then Done (outcome Cached [] [], cache)
              else let qname_lower = lower (q_name q);
                       secflag = (if ec_secure config then F_DNSSECOK else 0)
                   in if q_type q = 12 then
                        Done (extract_ptr_answers L lower packet qname_lower secflag cache now config)
                      else case cacheable_type (q_type q) (ec_cache_rr config) of
                        (addr_flag, do_insert) \<Rightarrow>
                          bind_exec (domain_find_sets (ec_ipsets config) qname_lower) (\<lambda>ipset_match.
                          bind_exec (domain_find_sets (ec_nftsets config) qname_lower) (\<lambda>nftset_match.
                          extract_forward B L lower packet qname_lower
                            \<lparr>xc_qtype = q_type q, xc_nxdomain = (hdr_rcode (pk_header packet) = 3),
                             xc_secflag = secflag, xc_addr_flag = addr_flag, xc_insert = do_insert,
                             xc_ipset = ipset_match, xc_nftset = nftset_match, xc_now = now,
                             xc_config = config\<rparr> cache)))"

definition cache_reply ::
    "'b bytes_mut \<Rightarrow> 'l cache_lru \<Rightarrow> (rstr \<Rightarrow> rstr) \<Rightarrow> u8 list \<Rightarrow> 'l dns_cache \<Rightarrow> instant \<Rightarrow> extract_config
       \<Rightarrow> (extract_outcome \<times> 'l dns_cache) exec" where
  "cache_reply B L lower wire_octets cache now config =
     (case packet_parse B wire_octets of
        Inl _ \<Rightarrow> Done (outcome BadPacket [] [], cache)
      | Inr packet \<Rightarrow> extract_addresses B L lower packet cache now config)"

section \<open>What is staged\<close>

definition rebind_address :: "extract_config \<Rightarrow> all_addr option \<Rightarrow> bool" where
  "rebind_address cfg addr \<longleftrightarrow> ec_check_rebind cfg \<and>
     (case addr of
        Some (Addr4 ip) \<Rightarrow> private_net ip (\<not> ec_local_rebind_ok cfg)
      | Some (Addr6 ip) \<Rightarrow> private_net6 ip (\<not> ec_local_rebind_ok cfg)
      | _ \<Rightarrow> False)"

definition state_safe :: "extract_ctx \<Rightarrow> scan_state \<Rightarrow> bool" where
  "state_safe x st \<longleftrightarrow> list_all (\<lambda>r. \<not> rebind_address (xc_config x) (cr_addr r)) (sc_staged st)"

fun scan_state_of :: "scan_result \<Rightarrow> scan_state option" where
  "scan_state_of (FallThrough st) = Some st"
| "scan_state_of (BreakLoop _ st) = Some st"
| "scan_state_of (Restart _ st) = Some st"
| "scan_state_of (Return _) = None"

lemma answer_value_safe: "answer_value x rr = Inr addr \<Longrightarrow> \<not> rebind_address (xc_config x) (Some addr)"
  by (auto simp: answer_value_def rebind_address_def Let_def split: if_splits)

lemma answer_value_not_cached: "answer_value x rr = Inl r \<Longrightarrow> r \<noteq> Cached"
  by (auto simp: answer_value_def Let_def split: if_splits)

lemma state_safe_stage:
  "state_safe x st \<Longrightarrow> \<not> rebind_address (xc_config x) (cr_addr r) \<Longrightarrow> state_safe x (stage_if b r st)"
  by (simp add: state_safe_def stage_if_def)

lemma state_safe_update [simp]:
  "state_safe x (st\<lparr>sc_found := f\<rparr>) = state_safe x st"
  "state_safe x (st\<lparr>sc_ipset_hits := a\<rparr>) = state_safe x st"
  "state_safe x (st\<lparr>sc_nftset_hits := a\<rparr>) = state_safe x st"
  by (simp_all add: state_safe_def)

lemma cname_record_safe [simp]: "\<not> rebind_address cfg (cr_addr (cname_record x c t ttl))"
  by (simp add: cname_record_def staged_record_def rebind_address_def)

lemma scan_answers_safe:
  "state_safe x st \<Longrightarrow> scan_state_of (scan_answers lower x current hops rrs st) = Some st' \<Longrightarrow> state_safe x st'"
proof (induction rrs arbitrary: st)
  case (Cons rr rrs)
  show ?case
  proof (cases "answer_value x rr")
    case (Inl r)
    with Cons show ?thesis
      by (auto simp: Let_def state_safe_stage split: if_splits sum.splits prod.splits)
  next
    case (Inr addr)
    have "\<not> rebind_address (xc_config x) (cr_addr (staged_record n f ttl now (Some addr)))" for n f ttl now
      using answer_value_safe [OF Inr] by (simp add: staged_record_def)
    then have "state_safe x (stage_if b (staged_record n f ttl now (Some addr))
        (st\<lparr>sc_ipset_hits := h, sc_nftset_hits := h'\<rparr>)\<lparr>sc_found := True\<rparr>)" for b n f ttl now h h'
      using Cons.prems(1) by (simp add: state_safe_stage)
    note next_state = Cons.IH [OF this]
    from Cons.prems Inr show ?thesis
      by (auto simp: Let_def state_safe_stage split: if_splits sum.splits prod.splits dest: Cons.IH next_state)
  qed
qed simp

lemma scan_answers_return:
  "scan_answers lower x current hops rrs st = Return out \<Longrightarrow> eo_result out \<noteq> Cached"
  by (induction rrs arbitrary: st)
    (auto simp: Let_def outcome_def dest: answer_value_not_cached split: if_splits sum.splits prod.splits)

lemma cname_loop_safe:
  "state_safe x st \<Longrightarrow> cname_loop lower x rrs current hops st = Inr (name, st') \<Longrightarrow> state_safe x st'"
proof (induction lower x rrs current hops st rule: cname_loop.induct)
  case (1 lower x rrs current hops st)
  then show ?case
    using scan_answers_safe [OF "1.prems"(1), of lower current hops rrs]
    by (cases "scan_answers lower x current hops rrs st")
      (auto simp: cname_loop.simps [of lower x rrs current hops st])
qed

lemma cname_loop_return: "cname_loop lower x rrs current hops st = Inl out \<Longrightarrow> eo_result out \<noteq> Cached"
proof (induction lower x rrs current hops st rule: cname_loop.induct)
  case (1 lower x rrs current hops st)
  then show ?case
    by (cases "scan_answers lower x current hops rrs st")
      (auto simp: cname_loop.simps [of lower x rrs current hops st] dest: scan_answers_return)
qed

lemma negative_records_safe: "list_all (\<lambda>r. \<not> rebind_address cfg (cr_addr r)) (negative_records x c soa)"
  by (auto simp: negative_records_def Let_def staged_record_def rebind_address_def split: option.splits)

section \<open>What is committed\<close>

lemma commit_staged_eq:
  "commit_staged L lower cache staged header now =
     (if hb4 header AND HB4_CD \<noteq> 0 \<or> hb4 header AND HB4_RA = 0 then cache
      else snd (end_insert L lower (stage_all L lower staged now (start_insert cache))))"
  by (simp add: commit_staged_def stage_all_def)

lemma extract_forward_Done:
  assumes "extract_forward B L lower packet qname x cache = Done (out, cache')"
  shows "eo_result out \<noteq> Cached \<and> cache' = cache
    \<or> eo_result out = Cached
      \<and> (\<exists>staged. list_all (\<lambda>r. \<not> rebind_address (xc_config x) (cr_addr r)) staged
            \<and> cache' = commit_staged L lower cache staged (pk_header packet) (xc_now x))"
proof (cases "cname_loop lower x (answers packet) qname 0
    \<lparr>sc_staged = [], sc_ipset_hits = [], sc_nftset_hits = [], sc_found = False\<rparr>")
  case (Inl out')
  with assms cname_loop_return [OF Inl] show ?thesis by (simp add: extract_forward_def)
next
  case (Inr p)
  obtain current st where p: "p = (current, st)" by fastforce
  have safe: "list_all (\<lambda>r. \<not> rebind_address (xc_config x) (cr_addr r)) (sc_staged st)"
    using cname_loop_safe [OF _ Inr [unfolded p]] by (simp add: state_safe_def)
  define neg where "neg \<longleftrightarrow> \<not> sc_found st \<and> \<not> ec_no_neg_cache (xc_config x) \<and> (xc_insert x \<or> xc_nxdomain x)"
  from assms obtain staged where
    staged: "(if neg then bind_exec (find_soa B lower current (authority packet))
                  (\<lambda>soa. Done (sc_staged st @ negative_records x current soa))
           else Done (sc_staged st)) = Done staged"
    and *: "cache' = commit_staged L lower cache staged (pk_header packet) (xc_now x)" "eo_result out = Cached"
    unfolding extract_forward_def neg_def Inr p by (auto simp: outcome_def simp del: if_split)
  from staged safe negative_records_safe [of "xc_config x" x current]
  have "list_all (\<lambda>r. \<not> rebind_address (xc_config x) (cr_addr r)) staged" by (auto split: if_splits)
  with * show ?thesis by blast
qed

lemma extract_addresses_Done:
  assumes "extract_addresses B L lower packet cache now config = Done (out, cache')"
  shows "cache' = cache
    \<or> eo_result out = Cached
      \<and> (\<exists>staged. (q_type (questions packet ! 0) \<noteq> 12 \<longrightarrow> list_all (\<lambda>r. \<not> rebind_address config (cr_addr r)) staged)
            \<and> cache' = commit_staged L lower cache staged (pk_header packet) now)"
proof (cases "length (questions packet) = 1 \<and> q_class (questions packet ! 0) = 1")
  case False
  with assms show ?thesis unfolding extract_addresses_def Let_def by (auto split: if_splits)
next
  case True
  show ?thesis
  proof (cases "q_type (questions packet ! 0) = 12")
    case ptr: True
    with True assms have "extract_ptr_answers L lower packet (lower (q_name (questions packet ! 0)))
        (if ec_secure config then F_DNSSECOK else 0) cache now config = (out, cache')"
      unfolding extract_addresses_def Let_def by simp
    with ptr show ?thesis
      by (auto simp: extract_ptr_answers_def outcome_def split: option.splits if_splits)
  next
    case False
    with True assms obtain x where "extract_forward B L lower packet (lower (q_name (questions packet ! 0))) x cache
        = Done (out, cache')" "xc_config x = config" "xc_now x = now"
      unfolding extract_addresses_def Let_def by (auto split: prod.splits)
    from extract_forward_Done [OF this(1)] this(2,3) False show ?thesis by auto
  qed
qed

section \<open>A reply with one address\<close>

definition answer_flags :: "extract_config \<Rightarrow> u32" where
  "answer_flags config = F_IPV4 OR F_FORWARD OR (if ec_secure config then F_DNSSECOK else 0)"

definition answer_record :: "(rstr \<Rightarrow> rstr) \<Rightarrow> extract_config \<Rightarrow> instant \<Rightarrow> dns_question \<Rightarrow> dns_rr \<Rightarrow> cache_record" where
  "answer_record lower config now q rr =
     staged_record (lower (q_name q)) (answer_flags config) (clamp_ttl (rr_ttl rr) (ec_max_ttl config)) now
       (Some (Addr4 (ipv4_of (take 4 (rr_data rr)))))"

definition single_answer :: "(rstr \<Rightarrow> rstr) \<Rightarrow> extract_config \<Rightarrow> dns_packet \<Rightarrow> dns_question \<Rightarrow> dns_rr \<Rightarrow> bool" where
  "single_answer lower config packet q rr \<longleftrightarrow>
     questions packet = [q] \<and> q_class q = 1 \<and> q_type q = 1
     \<and> answers packet = [rr] \<and> rr_class rr = 1 \<and> rr_type rr = 1
     \<and> eq_ignore_ascii_case (rr_name rr) (lower (q_name q)) \<and> 4 \<le> length (rr_data rr)
     \<and> hdr_rcode (pk_header packet) \<noteq> 3
     \<and> \<not> rebind_address config (Some (Addr4 (ipv4_of (take 4 (rr_data rr)))))
     \<and> ec_ipsets config = [] \<and> ec_nftsets config = []"

lemma single_answer_extract:
  assumes "single_answer lower config packet q rr"
  shows "extract_addresses B L lower packet cache now config
    = Done (outcome Cached [] [], commit_staged L lower cache [answer_record lower config now q rr] (pk_header packet) now)"
proof -
  have "answer_value x rr = Inr (Addr4 (ipv4_of (take 4 (rr_data rr))))"
    if "xc_config x = config" "xc_qtype x = 1" for x
    using assms that by (auto simp: answer_value_def single_answer_def rebind_address_def Let_def)
  with assms show ?thesis
    by (simp add: extract_addresses_def extract_forward_def cname_loop.simps single_answer_def Let_def
        cacheable_type_def domain_find_sets_def set_hits_def stage_if_def answer_record_def answer_flags_def
        or.assoc)
qed

lemma answer_flags_simps [simp]:
  "type_flags (answer_flags config) = F_IPV4" "answer_flags config AND F_CNAME = 0"
  "answer_flags config AND F_IMMORTAL = 0" "\<not> is_static (answer_flags config)"
  by (simp_all add: answer_flags_def type_flags_def TYPE_MASK_def is_static_def flag_defs)

lemma answer_record_simps [simp]:
  "cr_name (answer_record lower config now q rr) = lower (q_name q)"
  "cr_flags (answer_record lower config now q rr) = answer_flags config"
  "cr_ttl (answer_record lower config now q rr) = clamp_ttl (rr_ttl rr) (ec_max_ttl config)"
  "cr_addr (answer_record lower config now q rr) = Some (Addr4 (ipv4_of (take 4 (rr_data rr))))"
  by (simp_all add: answer_record_def staged_record_def)

lemma single_transaction:
  assumes "cr_flags r AND F_CNAME = 0"
  shows "snd (end_insert L lower (stage_all L lower [r] now (start_insert c)))
    = snd (really_insert L lower r now (start_insert c))"
proof -
  have "prepare_insert L lower r now (start_insert c) = Inr (New r') \<Longrightarrow> cr_flags r' AND F_CNAME = 0" for r'
    using assms by (auto dest: prepare_insert_New)
  moreover have e: "(start_insert c)\<lparr>new_chain := []\<rparr> = start_insert c"
    "(start_insert c)\<lparr>new_chain := [], insert_error := False\<rparr> = start_insert c"
    "\<not> insert_error (start_insert c)" "new_chain (start_insert c) = []"
    by (cases c; simp add: start_insert_def)+
  ultimately show ?thesis
    by (auto simp: stage_all_def stage_insert_def end_insert_def really_insert_def is_outdated_cname_pointer_def e
        split: sum.splits prepared_insert.splits)
qed

lemma start_insert_same [simp]:
  "clamp_cache_ttl (start_insert c) = clamp_cache_ttl c" "view L (start_insert c) = view L c"
  "max_size (start_insert c) = max_size c"
  by (simp_all add: fun_eq_iff clamp_cache_ttl_def start_insert_def Let_def view_def entries_def)

lemma lower_lower:
  assumes "str_lower lower" "is_ascii s" shows "lower (lower s) = lower s"
proof -
  have "is_ascii (to_ascii_lowercase s)" using assms(2) by (simp add: is_ascii_def to_ascii_lowercase_def list_all_iff)
  with assms show ?thesis by (simp add: str_lower.lower_ascii)
qed

definition cache_accepts :: "'l cache_lru \<Rightarrow> (rstr \<Rightarrow> rstr) \<Rightarrow> 'l dns_cache \<Rightarrow> cache_record \<Rightarrow> bool" where
  "cache_accepts L lower c r \<longleftrightarrow> max_size c \<noteq> 0 \<and> clamp_cache_ttl c (cr_flags r) (cr_ttl r) \<noteq> 0
     \<and> (case view L c (cache_key_for lower (cr_name r) (cr_flags r)) of None \<Rightarrow> True | Some ex \<Rightarrow> \<not> is_static (cr_flags ex))"

context cache_lru
begin

lemma accepted_insert:
  assumes "ok c" "\<not> is_static (cr_flags r)" "cache_accepts L lower c r"
  shows "really_insert L lower r now c = (Inserted, cache_insert L lower (timed c now r) c)"
  using assms
  by (auto simp: really_insert_def prepare_insert_dynamic cache_accepts_def split: option.splits)

lemma committed_lookup:
  assumes "ok c" "\<not> is_static (cr_flags r)" "cr_flags r AND F_IMMORTAL = 0" "cr_flags r AND F_CNAME = 0"
    "cache_accepts L lower c r" "hb4 header AND HB4_CD = 0" "hb4 header AND HB4_RA \<noteq> 0"
  shows "fst (lookup_by_name L lower (cr_name r) (cr_flags r) t (commit_staged L lower c [r] header now))
    = (if t < cr_expires (timed c now r) then Some (timed c now r) else None)"
proof -
  have ok: "ok (start_insert c)" using assms(1) by simp
  have "cache_accepts L lower (start_insert c) r"
    using assms(5) by (simp add: cache_accepts_def)
  from inserted_lookup [OF ok assms(2,3) accepted_insert [OF ok assms(2) this], of t]
  have "fst (lookup_by_name L lower (cr_name r) (cr_flags r) t (snd (really_insert L lower r now (start_insert c))))
      = (if t < cr_expires (timed (start_insert c) now r) then Some (timed (start_insert c) now r) else None)"
    by (simp add: accepted_insert [OF ok assms(2) \<open>cache_accepts L lower (start_insert c) r\<close>])
  moreover have "timed (start_insert c) now r = timed c now r"
    by (simp add: timed_def)
  ultimately show ?thesis
    using assms(6,7) by (simp add: commit_staged_eq single_transaction [OF assms(4)])
qed

end

section \<open>Names in ASCII\<close>

lemma is_ascii_lower: "str_lower lower \<Longrightarrow> is_ascii s \<Longrightarrow> is_ascii (lower s)"
  by (simp add: str_lower.lower_ascii is_ascii_def to_ascii_lowercase_def list_all_iff)

lemma find_sets_loop_ascii: "is_ascii name \<Longrightarrow> \<exists>r. find_sets_loop name sets m res = Done r"
  by (induction sets arbitrary: m res) (auto simp: str_from_ascii Let_def)

lemma find_soa_ascii: "is_ascii name \<Longrightarrow> \<exists>r. find_soa B lower name rrs = Done r"
  by (induction rrs) (auto simp: str_from_ascii Let_def)

definition ascii_targets :: "dns_rr list \<Rightarrow> bool" where
  "ascii_targets rrs \<longleftrightarrow> list_all (\<lambda>rr. rr_type rr = 5 \<longrightarrow>
     (case extract_name (rr_data rr) 0 of Inr (t, _) \<Rightarrow> is_ascii t | Inl _ \<Rightarrow> True)) rrs"

fun scan_name :: "rstr \<Rightarrow> scan_result \<Rightarrow> rstr" where
  "scan_name current (BreakLoop name _) = name"
| "scan_name current (Restart name _) = name"
| "scan_name current _ = current"

lemma scan_answers_ascii:
  assumes "str_lower lower"
  shows "ascii_targets rrs \<Longrightarrow> is_ascii current \<Longrightarrow> is_ascii (scan_name current (scan_answers lower x current hops rrs st))"
  by (induction rrs arbitrary: st)
    (auto simp: ascii_targets_def Let_def is_ascii_lower [OF assms] split: if_splits sum.splits prod.splits)

lemma cname_loop_ascii:
  assumes "str_lower lower" "ascii_targets rrs"
  shows "is_ascii current \<Longrightarrow> cname_loop lower x rrs current hops st = Inr (name, st') \<Longrightarrow> is_ascii name"
  using assms
proof (induction lower x rrs current hops st rule: cname_loop.induct)
  case (1 lower x rrs current hops st)
  then show ?case
    using scan_answers_ascii [OF "1.prems"(3,4,1), of x hops st]
    by (cases "scan_answers lower x current hops rrs st")
      (auto simp: cname_loop.simps [of lower x rrs current hops st])
qed

lemma extract_forward_ascii:
  assumes "str_lower lower" "ascii_targets (answers packet)" "is_ascii qname"
  shows "\<exists>r. extract_forward B L lower packet qname x cache = Done r"
proof (cases "cname_loop lower x (answers packet) qname 0
    \<lparr>sc_staged = [], sc_ipset_hits = [], sc_nftset_hits = [], sc_found = False\<rparr>")
  case (Inr p)
  obtain current st where p: "p = (current, st)" by fastforce
  have "is_ascii current" using cname_loop_ascii [OF assms Inr [unfolded p]] .
  then obtain soa where "find_soa B lower current (authority packet) = Done soa" using find_soa_ascii by blast
  then show ?thesis by (simp add: extract_forward_def Inr p)
qed (simp add: extract_forward_def)

lemma extract_addresses_ascii:
  assumes "str_lower lower" "ascii_targets (answers packet)" "list_all (\<lambda>q. is_ascii (q_name q)) (questions packet)"
  shows "\<exists>r. extract_addresses B L lower packet cache now config = Done r"
proof (cases "length (questions packet) = 1")
  case True
  then obtain q where q: "questions packet = [q]" by (cases "questions packet") auto
  have a: "is_ascii (lower (q_name q))" using assms by (simp add: q is_ascii_lower)
  obtain s1 s2 where "domain_find_sets (ec_ipsets config) (lower (q_name q)) = Done s1"
    "domain_find_sets (ec_nftsets config) (lower (q_name q)) = Done s2"
    using find_sets_loop_ascii [OF a] unfolding domain_find_sets_def by metis
  then show ?thesis
    using extract_forward_ascii [OF assms(1,2) a, of B L _ cache]
    by (simp add: extract_addresses_def q Let_def split: prod.split)
qed (simp add: extract_addresses_def)

section \<open>Properties\<close>

text \<open>C26: a reply that is rejected as malformed or as a rebind attempt, one whose CD bit is set, and one whose RA
  bit is clear leave the cache exactly as it was.\<close>

theorem rejected_reply_leaves_cache:
  assumes "extract_addresses B L lower packet cache now config = Done (out, cache')"
    and "eo_result out \<noteq> Cached \<or> hb4 (pk_header packet) AND HB4_CD \<noteq> 0 \<or> hb4 (pk_header packet) AND HB4_RA = 0"
  shows "cache' = cache"
  using extract_addresses_Done [OF assms(1)] assms(2) by (auto simp: commit_staged_eq)

definition demo_header :: dns_header where
  "demo_header = \<lparr>hdr_id = 1, hb3 = 0x80, hb4 = 0x80, qdcount = 1, ancount = 1, nscount = 0, arcount = 0\<rparr>"

definition demo_question :: dns_question where
  "demo_question = \<lparr>q_name = str_lit ''Www.Example'', q_type = 1, q_class = 1\<rparr>"

definition demo_rr :: dns_rr where
  "demo_rr = \<lparr>rr_name = str_lit ''wWW.example'', rr_type = 1, rr_class = 1, rr_ttl = 60, rr_data = [1, 2, 3, 4]\<rparr>"

definition demo_packet :: dns_packet where
  "demo_packet = \<lparr>pk_header = demo_header, questions = [demo_question], answers = [demo_rr], authority = [], additional = []\<rparr>"

abbreviation demo_config :: extract_config where
  "demo_config \<equiv> default_extract_config\<lparr>ec_check_rebind := True\<rparr>"

lemma demo_single: "single_answer to_ascii_lowercase demo_config demo_packet demo_question demo_rr"
proof -
  have "eq_ignore_ascii_case (str_lit ''wWW.example'') (to_ascii_lowercase (str_lit ''Www.Example''))" by code_simp
  moreover have "\<not> private_net (ipv4_of [1, 2, 3, 4]) True" 
    by (simp add: private_net_def Let_def octets4_def ipv4_of_def)
  ultimately show ?thesis
    by (simp add: single_answer_def demo_packet_def demo_question_def demo_rr_def demo_header_def hdr_rcode_def
        HB4_RCODE_def default_extract_config_def rebind_address_def)
qed

theorem rejected_reply_leaves_cache_witness:
  "extract_addresses vec_bytes_mut list_lru to_ascii_lowercase
     (demo_packet\<lparr>questions := []\<rparr>) demo_cache 0 demo_config = Done (outcome BadPacket [] [], demo_cache)"
proof -
  obtain c' where c': "extract_addresses vec_bytes_mut list_lru to_ascii_lowercase
     (demo_packet\<lparr>questions := []\<rparr>) demo_cache 0 demo_config = Done (outcome BadPacket [] [], c')"
    by (simp add: extract_addresses_def)
  with rejected_reply_leaves_cache [OF c'] show ?thesis by (simp add: outcome_def)
qed

text \<open>C10: with rebind protection on, no reply to a query of a type other than PTR adds an entry with a private address: whatever
  is in the cache afterwards was there before, or has no address or a public one. (A reply to a PTR query caches
  the address that was asked for, which the code does not check.)\<close>

theorem rebind_addresses_never_cached:
  assumes "lru_laws L lru_ok lru_cap" "cache_ok L lru_ok lru_cap lower cache"
    and "ec_check_rebind config" "q_type (questions packet ! 0) \<noteq> 12"
    and "extract_addresses B L lower packet cache now config = Done (out, cache')"
    and "(k, r) \<in> set (entries L cache')"
  shows "r \<in> snd ` set (entries L cache)
    \<or> (\<forall>ip. cr_addr r = Some (Addr4 ip) \<longrightarrow> \<not> private_net ip (\<not> ec_local_rebind_ok config))
      \<and> (\<forall>ip. cr_addr r = Some (Addr6 ip) \<longrightarrow> \<not> private_net6 ip (\<not> ec_local_rebind_ok config))"
proof -
  have cl: "cache_lru L lru_ok lru_cap" using assms(1) by (simp add: cache_lru_def)
  have r: "r \<in> snd ` set (entries L cache')" using assms(6) by force
  have "r \<in> snd ` set (entries L cache) \<or> \<not> rebind_address config (cr_addr r)"
    using extract_addresses_Done [OF assms(5)]
  proof (elim disjE conjE exE)
    fix staged
    assume staged: "q_type (questions packet ! 0) \<noteq> 12 \<longrightarrow> list_all (\<lambda>r. \<not> rebind_address config (cr_addr r)) staged"
      "cache' = commit_staged L lower cache staged (pk_header packet) now"
    with r cache_lru.transaction_records [OF cl assms(2), of r staged now] assms(4) show ?thesis
      by (auto simp: commit_staged_eq list_all_iff split: if_splits)
  qed (use r in simp)
  with assms(3) show ?thesis by (auto simp: rebind_address_def)
qed

lemma demo_gate: "hb4 (pk_header demo_packet) AND HB4_CD = 0" "hb4 (pk_header demo_packet) AND HB4_RA \<noteq> 0"
  by (simp_all add: demo_packet_def demo_header_def HB4_CD_def HB4_RA_def)

abbreviation demo_answer :: cache_record where
  "demo_answer \<equiv> answer_record to_ascii_lowercase demo_config 5 demo_question demo_rr"

lemma demo_answer_ttl: "clamp_cache_ttl demo_cache (cr_flags demo_answer) (cr_ttl demo_answer) = 60"
proof -
  have "cr_ttl demo_answer = 60" by (simp add: demo_rr_def clamp_ttl_def default_extract_config_def)
  moreover have "cr_flags demo_answer AND (F_DNSKEY OR F_DS) = 0"
    by (simp add: answer_flags_def default_extract_config_def flag_defs)
  ultimately show ?thesis by (simp add: clamp_cache_ttl_def demo_cache_def with_ttl_limits_def cache_new_def)
qed

lemma demo_accepts: "cache_accepts list_lru to_ascii_lowercase demo_cache demo_answer"
proof -
  have "max_size demo_cache \<noteq> 0" by (simp add: demo_cache_def with_ttl_limits_def cache_new_def)
  with demo_answer_ttl show ?thesis by (simp add: cache_accepts_def view_def demo_empty)
qed

theorem rebind_addresses_never_cached_witness:
  "\<exists>cache' k r. extract_addresses vec_bytes_mut list_lru to_ascii_lowercase demo_packet demo_cache 5 demo_config
       = Done (outcome Cached [] [], cache')
     \<and> (k, r) \<in> set (entries list_lru cache') \<and> cr_addr r = Some (Addr4 (ipv4_of [1, 2, 3, 4]))
     \<and> \<not> private_net (ipv4_of [1, 2, 3, 4]) True"
proof -
  let ?c = "commit_staged list_lru to_ascii_lowercase demo_cache [demo_answer] (pk_header demo_packet) 5"
  note ext = single_answer_extract [OF demo_single, of vec_bytes_mut list_lru demo_cache 5]
  have t: "6 < cr_expires (timed demo_cache 5 demo_answer)"
    by (simp add: demo_answer_ttl del: answer_record_simps) (simp add: from_secs_def)
  have ok: "cache_ok list_lru list_lru_ok fst to_ascii_lowercase ?c"
    unfolding commit_staged_eq using list_cache.transaction_ok [OF demo_ok] demo_ok by simp
  from list_cache.committed_lookup [OF demo_ok _ _ _ demo_accepts demo_gate, of 6 5] t
  have "fst (lookup_by_name list_lru to_ascii_lowercase (cr_name demo_answer) (cr_flags demo_answer) 6 ?c)
      = Some (timed demo_cache 5 demo_answer)"
    by simp
  then have "live_view list_lru 6 ?c (cache_key_for to_ascii_lowercase (cr_name demo_answer) (cr_flags demo_answer))
      = Some (timed demo_cache 5 demo_answer)"
    by (simp add: list_cache.lookup_by_name_spec(1) [OF ok] del: answer_record_simps)
  then obtain k where k: "(k, timed demo_cache 5 demo_answer) \<in> set (entries list_lru ?c)"
    by (auto simp: list_cache.live_view_Some view_def dest: map_of_SomeD)
  have hyps: "ec_check_rebind demo_config" "q_type (questions demo_packet ! 0) \<noteq> 12"
    by (simp_all add: demo_packet_def demo_question_def)
  have addr: "cr_addr (timed demo_cache 5 demo_answer) = Some (Addr4 (ipv4_of [1, 2, 3, 4]))"
    by (simp add: demo_rr_def)
  with rebind_addresses_never_cached [OF list_lru.lru_laws_axioms demo_ok hyps ext k]
  have "\<not> private_net (ipv4_of [1, 2, 3, 4]) True" by (simp add: demo_empty default_extract_config_def)
  with ext k addr show ?thesis by blast
qed

text \<open>C7: a reply that answers an IPv4 query with one public address makes that address available: until the
  lifetime granted by the clamps has passed, looking the question's name up yields a record with
  exactly that address, and afterwards nothing.\<close>

theorem answered_address_is_served:
  assumes "lru_laws L lru_ok lru_cap" "cache_ok L lru_ok lru_cap lower cache"
    and "str_lower lower" "is_ascii (q_name q)"
    and "single_answer lower config packet q rr" "cache_accepts L lower cache (answer_record lower config now q rr)"
    and "hb4 (pk_header packet) AND HB4_CD = 0" "hb4 (pk_header packet) AND HB4_RA \<noteq> 0"
  shows "\<exists>cache' r. extract_addresses B L lower packet cache now config = Done (outcome Cached [] [], cache')
    \<and> cr_addr r = Some (Addr4 (ipv4_of (take 4 (rr_data rr))))
    \<and> (\<forall>t. fst (lookup_by_name L lower (q_name q) F_IPV4 t cache')
          = (if t < now + from_secs (unat (clamp_cache_ttl cache (answer_flags config)
                                             (clamp_ttl (rr_ttl rr) (ec_max_ttl config))))
             then Some r else None))"
proof -
  have cl: "cache_lru L lru_ok lru_cap" using assms(1) by (simp add: cache_lru_def)
  let ?r = "answer_record lower config now q rr"
  let ?c = "commit_staged L lower cache [?r] (pk_header packet) now"
  have ok: "cache_ok L lru_ok lru_cap lower ?c"
    unfolding commit_staged_eq using cache_lru.transaction_ok [OF cl assms(2)] assms(2) by simp
  have key: "cache_key_for lower (q_name q) F_IPV4 = cache_key_for lower (cr_name ?r) (cr_flags ?r)"
    using lower_lower [OF assms(3,4)] by (simp add: cache_key_for_def)
  have "fst (lookup_by_name L lower (q_name q) F_IPV4 t ?c)
      = (if t < cr_expires (timed cache now ?r) then Some (timed cache now ?r) else None)" for t
    using cache_lru.committed_lookup [OF cl assms(2) _ _ _ assms(6-8), of t now]
    unfolding cache_lru.lookup_by_name_spec(1) [OF cl ok] key by simp
  then show ?thesis
    using single_answer_extract [OF assms(5), of B L cache now]
    by (intro exI [of _ ?c] exI [of _ "timed cache now ?r"]) simp
qed

theorem answered_address_is_served_witness:
  "\<exists>cache' r. extract_addresses vec_bytes_mut list_lru to_ascii_lowercase demo_packet demo_cache 5 demo_config
       = Done (outcome Cached [] [], cache')
     \<and> fst (lookup_by_name list_lru to_ascii_lowercase (q_name demo_question) F_IPV4 6 cache') = Some r
     \<and> cr_addr r = Some (Addr4 (ipv4_of [1, 2, 3, 4]))"
proof -
  have a: "is_ascii (q_name demo_question)" by code_simp
  have t: "(6::nat) < 5 + from_secs (unat (60::u32))" by (simp add: from_secs_def)
  have ttl: "clamp_cache_ttl demo_cache (answer_flags demo_config) (clamp_ttl (rr_ttl demo_rr) (ec_max_ttl demo_config)) = 60"
    using demo_answer_ttl by simp
  have d: "take 4 (rr_data demo_rr) = [1, 2, 3, 4]" by (simp add: demo_rr_def)
  from answered_address_is_served [OF list_lru.lru_laws_axioms demo_ok ascii_lc.str_lower_axioms a demo_single
      demo_accepts demo_gate, of vec_bytes_mut]
  obtain c' r where *: "extract_addresses vec_bytes_mut list_lru to_ascii_lowercase demo_packet demo_cache 5 demo_config
        = Done (outcome Cached [] [], c')" "cr_addr r = Some (Addr4 (ipv4_of [1, 2, 3, 4]))"
    "\<forall>t. fst (lookup_by_name list_lru to_ascii_lowercase (q_name demo_question) F_IPV4 t c')
        = (if t < 5 + from_secs (unat (60::u32)) then Some r else None)"
    unfolding d ttl by blast
  from *(3) t have "fst (lookup_by_name list_lru to_ascii_lowercase (q_name demo_question) F_IPV4 6 c') = Some r"
    by metis
  with * show ?thesis by blast
qed

text \<open>C27: processing a reply always completes when its question and the targets of its CNAME records are ASCII: no
  slice falls inside a character, and the walk along a looping CNAME chain ends.\<close>

theorem ascii_reply_completes:
  assumes "str_lower lower" "ascii_targets (answers packet)" "list_all (\<lambda>q. is_ascii (q_name q)) (questions packet)"
  shows "\<exists>out cache'. extract_addresses B L lower packet cache now config = Done (out, cache')"
  using extract_addresses_ascii [OF assms, of B L cache now config] by auto

theorem ascii_reply_completes_witness:
  "\<exists>out cache'. extract_addresses vec_bytes_mut list_lru to_ascii_lowercase demo_packet demo_cache 5 demo_config
     = Done (out, cache')"
proof -
  have "ascii_targets (answers demo_packet)" "list_all (\<lambda>q. is_ascii (q_name q)) (questions demo_packet)"
    by (code_simp, code_simp)
  from ascii_reply_completes [OF ascii_lc.str_lower_axioms this] show ?thesis by blast
qed

text \<open>
  A reply to a question whose name is the two-octet character U+00E9, without answers and with an
  SOA record whose owner has one octet.
\<close>

definition panic_packet :: dns_packet where
  "panic_packet =
     \<lparr>pk_header = \<lparr>hdr_id = 1, hb3 = 0x80, hb4 = 0x83, qdcount = 1, ancount = 0, nscount = 1, arcount = 0\<rparr>,
      questions = [\<lparr>q_name = [0xC3, 0xA9], q_type = 1, q_class = 1\<rparr>], answers = [],
      authority = [\<lparr>rr_name = [97], rr_type = 6, rr_class = 1, rr_ttl = 60, rr_data = replicate 22 0\<rparr>],
      additional = []\<rparr>"

lemma panic_packet_ok: "packet_ok panic_packet"
proof -
  have "name_ok [0xC3, 0xA9]" "name_ok [97]" "rdata_ok 6 (replicate 22 0)" by code_simp+
  then show ?thesis by (simp add: packet_ok_def panic_packet_def question_ok_def rr_ok_def)
qed

text \<open>The slice taken to compare the question with the owner of an SOA record is not guarded: the encoding of
  this well-formed message makes the processing panic, whatever the cache holds.\<close>

lemma soa_slice_panics:
  "packet_ok panic_packet \<and>
   cache_reply vec_bytes_mut L to_ascii_lowercase (packet_wire panic_packet) cache now default_extract_config = Panic"
proof -
  have low: "to_ascii_lowercase [0xC3, 0xA9] = [0xC3, 0xA9]" "to_ascii_lowercase [97] = [97]" by code_simp+
  have cut: "str_from [0xC3, 0xA9] (Suc 0) = Panic" by code_simp
  have loop: "cname_loop lower x [] n 0 st = Inr (n, st)" for lower x n st by (simp add: cname_loop.simps)
  have "panic_packet\<lparr>pk_header := written_header panic_packet\<rparr> = panic_packet"
    by (simp add: panic_packet_def written_header_def)
  then have parse: "packet_parse vec_bytes_mut (packet_wire panic_packet) = Inr panic_packet"
    using vec.packet_parse_wire [OF panic_packet_ok] by simp
  show ?thesis
    using panic_packet_ok unfolding cache_reply_def parse
    by (simp add: panic_packet_def extract_addresses_def extract_forward_def loop low cut Let_def cacheable_type_def
        domain_find_sets_def default_extract_config_def)
qed

end
