(* ===== verification/Domain_Match.thy ===== *)
theory Domain_Match
  imports Hostname Flags_Metrics Dns_Packet Addr_Net
begin

unbundle bit_operations_syntax

text \<open>
  The choice of the upstream server for a name, \<open>src/domain_match.rs\<close>: the sorted server array, the
  binary search for the longest configured suffix of a query with its label and wildcard rules,
  the narrowing of a group of servers by the flags of the query, locally answered domains, and
  the upkeep of the server list across a reload. The server record is that of
  \<open>src/types/server.rs\<close>, its \<open>bitflags\<close> are 16-bit words.

  The main result is that the binary search, with its lower bound kept between rounds and its
  jumps to the next configured length, computes what a plain scan over all suffixes computes.
\<close>

section \<open>Servers\<close>

type_synonym serv_flags = u16

definition SERV_USE_RESOLV :: serv_flags where "SERV_USE_RESOLV = push_bit 0 1"
definition SERV_LITERAL_ADDRESS :: serv_flags where "SERV_LITERAL_ADDRESS = push_bit 1 1"
definition SERV_ALL_ZEROS :: serv_flags where "SERV_ALL_ZEROS = push_bit 2 1"
definition SERV_ADDR4 :: serv_flags where "SERV_ADDR4 = push_bit 3 1"
definition SERV_ADDR6 :: serv_flags where "SERV_ADDR6 = push_bit 4 1"
definition SERV_FOR_NODOTS :: serv_flags where "SERV_FOR_NODOTS = push_bit 6 1"
definition SERV_MARK :: serv_flags where "SERV_MARK = push_bit 9 1"
definition SERV_WILDCARD :: serv_flags where "SERV_WILDCARD = push_bit 10 1"
definition SERV_LOOP :: serv_flags where "SERV_LOOP = push_bit 13 1"

lemmas serv_flag_defs = SERV_USE_RESOLV_def SERV_LITERAL_ADDRESS_def SERV_ALL_ZEROS_def SERV_ADDR4_def
  SERV_ADDR6_def SERV_FOR_NODOTS_def SERV_MARK_def SERV_WILDCARD_def SERV_LOOP_def

text \<open>The operations of a \<open>bitflags\<close> set.\<close>

definition contains :: "serv_flags \<Rightarrow> serv_flags \<Rightarrow> bool" where
  "contains f g \<longleftrightarrow> f AND g = g"

definition intersects :: "serv_flags \<Rightarrow> serv_flags \<Rightarrow> bool" where
  "intersects f g \<longleftrightarrow> f AND g \<noteq> 0"

definition difference :: "serv_flags \<Rightarrow> serv_flags \<Rightarrow> serv_flags" where
  "difference f g = f AND NOT g"

definition SERV_IS_LOCAL :: serv_flags where
  "SERV_IS_LOCAL = SERV_USE_RESOLV OR SERV_LITERAL_ADDRESS"

definition SERV_LOCAL_ADDRESS :: serv_flags where
  "SERV_LOCAL_ADDRESS = SERV_ADDR6 OR SERV_ADDR4 OR SERV_ALL_ZEROS"

definition SERV_TYPE_FLAGS :: serv_flags where
  "SERV_TYPE_FLAGS = SERV_LITERAL_ADDRESS OR SERV_ADDR4 OR SERV_ADDR6 OR SERV_ALL_ZEROS OR SERV_USE_RESOLV"

text \<open>
  A socket address has an address and a port, over IPv6 also the flow information and the scope.
\<close>

datatype my_sock_addr =
    SockV4 ipv4 u16
  | SockV6 ipv6 u16 u32 u32

fun sock_ip :: "my_sock_addr \<Rightarrow> ip_addr" where
  "sock_ip (SockV4 a _) = IpV4 a"
| "sock_ip (SockV6 a _ _ _) = IpV6 a"

record server =
  sv_flags :: serv_flags
  sv_domain :: rstr
  sv_addr :: my_sock_addr
  sv_source_addr :: my_sock_addr
  sv_interface :: rstr
  sv_ifindex :: u32
  sv_queries :: u32
  sv_failed_queries :: u32
  sv_nxdomain_replies :: u32
  sv_retrys :: u32
  sv_query_latency :: u32
  sv_mma_latency :: u32
  sv_forwardtime :: "nat option"
  sv_forwardcount :: int
  sv_tcpfd :: int
  sv_serial :: int
  sv_arrayposn :: int
  sv_last_server :: int
  sv_uid :: u32

record server_entry =
  se_domain :: rstr
  se_domain_len :: nat
  se_flags :: serv_flags
  se_serial :: int
  se_index :: nat
  se_is_local :: bool

section \<open>The order of the array\<close>

definition cmp :: "'a :: linorder \<Rightarrow> 'a \<Rightarrow> rust_ordering" where
  "cmp a b = (if a < b then OrdLess else if a = b then OrdEqual else OrdGreater)"

text \<open>\<open>match o1 { Equal => {} ord => return ord }\<close>, followed by \<open>o2\<close>.\<close>

definition or_else :: "rust_ordering \<Rightarrow> rust_ordering \<Rightarrow> rust_ordering" where
  "or_else o1 o2 = (if o1 = OrdEqual then o2 else o1)"

definition order_entry :: "rstr \<Rightarrow> server_entry \<Rightarrow> int" where
  "order_entry qdomain entry =
     (if contains (se_flags entry) SERV_FOR_NODOTS then -1
      else let dlen = se_domain_len entry; qlen = length qdomain
           in if qlen < dlen then 1
              else if qlen > dlen then -1
              else (case hostname_order qdomain (se_domain entry) of
                      OrdLess \<Rightarrow> -1
                    | OrdEqual \<Rightarrow> 0
                    | OrdGreater \<Rightarrow> 1))"

definition compare_entries :: "server_entry \<Rightarrow> server_entry \<Rightarrow> rust_ordering" where
  "compare_entries a b =
     or_else (cmp (contains (se_flags a) SERV_FOR_NODOTS) (contains (se_flags b) SERV_FOR_NODOTS))
    (or_else (cmp (se_domain_len b) (se_domain_len a))
    (or_else (hostname_order (se_domain a) (se_domain b))
    (or_else (cmp (contains (se_flags a) SERV_WILDCARD) (contains (se_flags b) SERV_WILDCARD))
    (or_else (cmp (se_flags b AND SERV_TYPE_FLAGS) (se_flags a AND SERV_TYPE_FLAGS))
    (if \<not> se_is_local a \<and> \<not> se_is_local b then cmp (se_serial a) (se_serial b) else OrdEqual)))))"

text \<open>The stable sort \<open>slice::sort_by\<close>.\<close>

fun insert_by :: "('a \<Rightarrow> 'a \<Rightarrow> rust_ordering) \<Rightarrow> 'a \<Rightarrow> 'a list \<Rightarrow> 'a list" where
  "insert_by c x [] = [x]"
| "insert_by c x (y # ys) = (if c x y = OrdGreater then y # insert_by c x ys else x # y # ys)"

definition sort_by :: "('a \<Rightarrow> 'a \<Rightarrow> rust_ordering) \<Rightarrow> 'a list \<Rightarrow> 'a list" where
  "sort_by c xs = foldr (insert_by c) xs []"

record server_array =
  sa_entries :: "server_entry list"
  sa_has_wildcard :: bool

text \<open>The two loops of \<open>build\<close>; servers marked as looping are left out and take no serial number.\<close>

fun server_entries :: "nat \<Rightarrow> int \<Rightarrow> server list \<Rightarrow> server_entry list" where
  "server_entries i serial [] = []"
| "server_entries i serial (s # ss) =
     (if contains (sv_flags s) SERV_LOOP then server_entries (Suc i) serial ss
      else \<lparr>se_domain = sv_domain s, se_domain_len = length (sv_domain s), se_flags = sv_flags s,
            se_serial = serial, se_index = i, se_is_local = False\<rparr>
           # server_entries (Suc i) (serial + 1) ss)"

fun local_entries :: "nat \<Rightarrow> server list \<Rightarrow> server_entry list" where
  "local_entries i [] = []"
| "local_entries i (s # ss) =
     \<lparr>se_domain = sv_domain s, se_domain_len = length (sv_domain s), se_flags = sv_flags s,
      se_serial = 0, se_index = i, se_is_local = True\<rparr> # local_entries (Suc i) ss"

definition server_array_build :: "server list \<Rightarrow> server list \<Rightarrow> server_array" where
  "server_array_build servers local_domains =
     (let entries = server_entries 0 0 servers @ local_entries 0 local_domains
      in \<lparr>sa_entries = sort_by compare_entries entries,
          sa_has_wildcard = list_ex (\<lambda>e. contains (se_flags e) SERV_WILDCARD) entries\<rparr>)"

definition sa_len :: "server_array \<Rightarrow> nat" where
  "sa_len arr = length (sa_entries arr)"

definition sa_is_empty :: "server_array \<Rightarrow> bool" where
  "sa_is_empty arr \<longleftrightarrow> sa_entries arr = []"

definition sa_get :: "server_array \<Rightarrow> nat \<Rightarrow> server_entry option" where
  "sa_get arr idx = (if idx < length (sa_entries arr) then Some (sa_entries arr ! idx) else None)"

definition same_group :: "server_array \<Rightarrow> nat \<Rightarrow> nat \<Rightarrow> bool" where
  "same_group arr a b =
     (case (sa_get arr a, sa_get arr b) of
        (Some ea, Some eb) \<Rightarrow>
          if contains (se_flags ea) SERV_FOR_NODOTS then contains (se_flags eb) SERV_FOR_NODOTS
          else order_entry (se_domain ea) eb = 0
      | _ \<Rightarrow> False)"

section \<open>Narrowing a group\<close>

fun group_low :: "server_array \<Rightarrow> nat \<Rightarrow> nat" where
  "group_low arr 0 = 0"
| "group_low arr (Suc i) = (if same_group arr i (Suc i) then group_low arr i else Suc i)"

function group_high :: "server_array \<Rightarrow> nat \<Rightarrow> nat" where
  "group_high arr i =
     (if i < sa_len arr - 1 \<and> same_group arr i (i + 1) then group_high arr (i + 1) else i)"
  by auto
termination by (relation "measure (\<lambda>(arr, i). sa_len arr - i)") auto

declare group_high.simps [simp del]

text \<open>\<open>(lo..hi).find(|i| !entries[i].flags.contains(flag)).unwrap_or(hi)\<close>.\<close>

definition first_without :: "server_array \<Rightarrow> serv_flags \<Rightarrow> nat \<Rightarrow> nat \<Rightarrow> nat" where
  "first_without arr flag lo hi =
     (case find (\<lambda>i. \<not> contains (se_flags (sa_entries arr ! i)) flag) [lo..<hi] of
        None \<Rightarrow> hi
      | Some i \<Rightarrow> i)"

definition narrow :: "server_array \<Rightarrow> nat \<Rightarrow> nat \<Rightarrow> u32 \<Rightarrow> (nat \<times> nat) option" where
  "narrow arr lo hi flags =
     (let i6 = first_without arr SERV_ADDR6 lo hi
      in if flags AND F_SERVER = 0 \<and> i6 \<noteq> lo \<and> flags AND F_IPV6 \<noteq> 0 then Some (lo, i6)
      else let i4 = first_without arr SERV_ADDR4 i6 hi
      in if flags AND F_SERVER = 0 \<and> i4 \<noteq> i6 \<and> flags AND F_IPV4 \<noteq> 0 then Some (i6, i4)
      else let iz = first_without arr SERV_ALL_ZEROS i4 hi
      in if flags AND F_SERVER = 0 \<and> iz \<noteq> i4 \<and> flags AND (F_IPV4 OR F_IPV6) \<noteq> 0 then Some (i4, iz)
      else let il = first_without arr SERV_LITERAL_ADDRESS iz hi
      in if flags AND (F_DOMAINSRV OR F_SERVER) = 0 \<and> il \<noteq> iz then Some (iz, il)
      else let ir = first_without arr SERV_USE_RESOLV il hi
      in if ir \<noteq> il then Some (il, ir)
      else if ir < hi then
        let e = sa_entries arr ! ir
        in if flags AND F_DOMAINSRV \<noteq> 0 \<and> se_domain_len e = 0 \<and> \<not> contains (se_flags e) SERV_FOR_NODOTS then None
           else Some (ir, hi)
      else None)"

definition filter_servers :: "server_array \<Rightarrow> nat \<Rightarrow> u32 \<Rightarrow> (nat \<times> nat) option" where
  "filter_servers arr seed flags =
     (if seed \<ge> sa_len arr then None
      else let nlow = group_low arr seed; nhigh = group_high arr seed + 1
           in if flags AND F_CONFIG \<noteq> 0 then
                if list_ex (\<lambda>i. intersects (se_flags (sa_entries arr ! i)) SERV_LOCAL_ADDRESS) [nlow..<nhigh]
                then Some (nlow, nhigh) else None
              else narrow arr nlow nhigh flags)"

section \<open>The lookup\<close>

text \<open>The slice \<open>&s[a..b]\<close>, which panics off a character boundary and out of range.\<close>

definition str_range :: "rstr \<Rightarrow> nat \<Rightarrow> nat \<Rightarrow> rstr exec" where
  "str_range s a b =
     (if a \<le> b \<and> is_char_boundary s a \<and> is_char_boundary s b then Done (take (b - a) (drop a s)) else Panic)"

text \<open>
  The binary search. It ends with \<open>rc\<close>, the index found where \<open>rc = 0\<close>, the lower bound reached
  (which the next round starts from), and the number of octets to crop from the query.
\<close>

record search_end =
  sr_rc :: int
  sr_found :: nat
  sr_low :: nat
  sr_crop :: int

definition next_shorter_crop :: "server_entry list \<Rightarrow> nat \<Rightarrow> nat \<Rightarrow> int" where
  "next_shorter_crop es qlen i =
     (case find (\<lambda>t. se_domain_len (es ! t) \<noteq> se_domain_len (es ! i)) [i + 1..<length es] of
        None \<Rightarrow> 1
      | Some t \<Rightarrow> int qlen - int (se_domain_len (es ! t)))"

function search_entries :: "server_entry list \<Rightarrow> rstr \<Rightarrow> nat \<Rightarrow> nat \<Rightarrow> search_end exec" where
  "search_entries es qdomain low high =
     (let i = (low + high) div 2
      in if i \<ge> length es then Panic
         else let rc = order_entry qdomain (es ! i)
              in if rc = 0 then Done \<lparr>sr_rc = rc, sr_found = i, sr_low = low, sr_crop = 1\<rparr>
                 else if rc < 0 then
                   if high = i then
                     Done \<lparr>sr_rc = rc, sr_found = 0, sr_low = low,
                           sr_crop = int (length qdomain) - int (se_domain_len (es ! i))\<rparr>
                   else search_entries es qdomain low i
                 else if low = i then
                   Done \<lparr>sr_rc = rc, sr_found = 0, sr_low = low,
                         sr_crop = next_shorter_crop es (length qdomain) i\<rparr>
                 else search_entries es qdomain i high)"
  by pat_completeness auto
termination
  by (relation "measure (\<lambda>(es, q, low, high). nat \<bar>int high - int low\<bar>)") auto

declare search_entries.simps [simp del]

fun back_to_first :: "server_entry list \<Rightarrow> rstr \<Rightarrow> nat \<Rightarrow> nat" where
  "back_to_first es qdomain 0 = 0"
| "back_to_first es qdomain (Suc t) =
     (if order_entry qdomain (es ! t) = 0 then back_to_first es qdomain t else Suc t)"

function forward_to_last :: "server_entry list \<Rightarrow> rstr \<Rightarrow> nat \<Rightarrow> nat" where
  "forward_to_last es qdomain t =
     (if t < length es - 1 \<and> order_entry qdomain (es ! (t + 1)) = 0
      then forward_to_last es qdomain (t + 1) else t)"
  by auto
termination by (relation "measure (\<lambda>(es, q, t). length es - t)") auto

declare forward_to_last.simps [simp del]

definition at_boundary :: "rstr \<Rightarrow> nat \<Rightarrow> int \<Rightarrow> bool" where
  "at_boundary domain start qlen \<longleftrightarrow> start = 0 \<or> qlen = 0 \<or> start > 0 \<and> domain ! (start - 1) = DOT"

text \<open>The entry from which a found domain is narrowed; \<open>None\<close> where no server may be used.\<close>

definition matched_entry :: "server_array \<Rightarrow> rstr \<Rightarrow> nat \<Rightarrow> int \<Rightarrow> rstr \<Rightarrow> nat \<Rightarrow> nat option" where
  "matched_entry arr domain start qlen qdomain found_try =
     (if sa_has_wildcard arr then
        let t = back_to_first (sa_entries arr) qdomain found_try
        in if at_boundary domain start qlen then Some t
           else let t = forward_to_last (sa_entries arr) qdomain t
                in if contains (se_flags (sa_entries arr ! t)) SERV_WILDCARD then Some t else None
      else Some found_try)"

text \<open>
  What a round of the outer loop does with the end of its search: it leaves the loop with a
  range, or it goes on with a number of octets to crop and the flags.
\<close>

definition use_match ::
    "server_array \<Rightarrow> rstr \<Rightarrow> nat \<Rightarrow> int \<Rightarrow> rstr \<Rightarrow> search_end \<Rightarrow> u32 \<Rightarrow> (nat \<times> nat) + (int \<times> u32)" where
  "use_match arr domain start qlen qdomain s flags =
     (if sr_rc s \<noteq> 0 then Inr (sr_crop s, flags)
      else case matched_entry arr domain start qlen qdomain (sr_found s) of
             None \<Rightarrow> Inr (sr_crop s, flags)
           | Some t \<Rightarrow>
               (case filter_servers arr t flags of
                  None \<Rightarrow> Inr (sr_crop s, flags)
                | Some (nl, nh) \<Rightarrow>
                    if contains (se_flags (sa_entries arr ! nl)) SERV_USE_RESOLV
                    then Inr (qlen, flags OR F_SERVER)
                    else Inl (nl, nh)))"

text \<open>\<open>while qlen > 0 && start > 0 && domain_bytes[start - 1] != b'.'\<close>.\<close>

function skip_to_label :: "rstr \<Rightarrow> nat \<Rightarrow> int \<Rightarrow> nat \<times> int" where
  "skip_to_label domain start qlen =
     (if qlen > 0 \<and> start > 0 \<and> domain ! (start - 1) \<noteq> DOT
      then skip_to_label domain (start + 1) (qlen - 1) else (start, qlen))"
  by auto
termination by (relation "measure (\<lambda>(d, s, q). nat q)") auto

declare skip_to_label.simps [simp del]

lemma skip_to_label_le: "snd (skip_to_label domain start qlen) \<le> qlen"
  by (induction domain start qlen rule: skip_to_label.induct) (subst skip_to_label.simps, auto)

lemma skip_to_label_leD: "(start', qlen') = skip_to_label domain start qlen \<Longrightarrow> qlen' \<le> qlen"
  using skip_to_label_le [of domain start qlen] by (metis snd_conv)

text \<open>
  The outer loop, \<open>start + qlen\<close> being the length of the name in every round. A negative number
  of octets to crop overflows the addition to \<open>start\<close>. The flags at the end matter for the
  fallback behind the loop.
\<close>

function lookup_loop ::
    "server_array \<Rightarrow> rstr \<Rightarrow> nat \<Rightarrow> nat \<Rightarrow> int \<Rightarrow> u32 \<Rightarrow> ((nat \<times> nat) option \<times> u32) exec" where
  "lookup_loop arr domain low start qlen flags =
     (if qlen < 0 then Done (None, flags)
      else bind_exec (str_range domain start (start + nat qlen)) (\<lambda>qdomain.
           bind_exec (search_entries (sa_entries arr) qdomain low (sa_len arr)) (\<lambda>s.
           (case use_match arr domain start qlen qdomain s flags of
              Inl r \<Rightarrow> Done (Some r, flags)
            | Inr (crop, flags') \<Rightarrow>
                (let crop' = (if crop = 0 then 1 else crop)
                 in if crop' < 0 then Panic
                    else (case (if sa_has_wildcard arr then (start + nat crop', qlen - crop')
                                else skip_to_label domain (start + nat crop') (qlen - crop')) of
                            (start', qlen') \<Rightarrow> lookup_loop arr domain (sr_low s) start' qlen' flags'))))))"
  by pat_completeness auto
termination
proof (relation "measure (\<lambda>(a, d, l, s, q, f). nat (q + 1))", goal_cases)
  case (2 arr domain low start qlen flags qdomain s p crop flags' crop' start' qlen')
  then have "qlen' < qlen"
    by (auto split: if_splits dest!: skip_to_label_leD)
  with 2 show ?case by simp
qed simp

declare lookup_loop.simps [simp del]

text \<open>\<open>domain.find('.')\<close> and the slice behind it; the empty name where there is no dot.\<close>

definition parent_zone :: "rstr \<Rightarrow> rstr" where
  "parent_zone domain = drop 1 (dropWhile (\<lambda>b. b \<noteq> DOT) domain)"

definition nodots_fallback :: "server_array \<Rightarrow> bool \<Rightarrow> (nat \<times> nat) option \<Rightarrow> u32 \<Rightarrow> (nat \<times> nat) option" where
  "nodots_fallback arr nodots found flags =
     (let n = sa_len arr
      in if nodots \<and> contains (se_flags (sa_entries arr ! (n - 1))) SERV_FOR_NODOTS
            \<and> (case found of None \<Rightarrow> True | Some (nlow, _) \<Rightarrow> se_domain_len (sa_entries arr ! nlow) = 0)
         then (case filter_servers arr (n - 1) flags of None \<Rightarrow> found | Some r \<Rightarrow> Some r)
         else found)"

definition sa_lookup :: "server_array \<Rightarrow> rstr \<Rightarrow> u32 \<Rightarrow> (nat \<times> nat) option exec" where
  "sa_lookup arr query flags =
     (if sa_entries arr = [] then Done None
      else let domain = (if flags AND F_DS \<noteq> 0 then parent_zone query else query);
               nodots = (domain \<noteq> [] \<and> DOT \<notin> set domain \<and> flags AND F_DNSSECOK = 0)
           in bind_exec (lookup_loop arr domain 0 0 (int (length domain)) flags) (\<lambda>(found, flags').
              Done (nodots_fallback arr nodots found flags')))"

definition dnssec_server :: "server_array \<Rightarrow> nat \<Rightarrow> rstr \<Rightarrow> bool \<Rightarrow> nat option exec" where
  "dnssec_server arr server_orig_idx keyname is_ds =
     bind_exec (sa_lookup arr keyname (F_SERVER OR F_DNSSECOK OR (if is_ds then F_DS else 0))) (\<lambda>found.
     Done (case found of
             None \<Rightarrow> None
           | Some (first, last_idx) \<Rightarrow>
               (case find (\<lambda>idx. \<not> se_is_local (sa_entries arr ! idx)
                                 \<and> se_index (sa_entries arr ! idx) = server_orig_idx) [first..<last_idx] of
                  None \<Rightarrow> Some first
                | Some idx \<Rightarrow> Some idx)))"

section \<open>Local answers\<close>

text \<open>\<open>is_locally_known\<close> is a closure called only in the last branch.\<close>

definition is_local_answer :: "server_array \<Rightarrow> nat \<Rightarrow> bool exec \<Rightarrow> u32 exec" where
  "is_local_answer arr first is_locally_known =
     (case sa_get arr first of
        None \<Rightarrow> Done 0
      | Some entry \<Rightarrow>
          if \<not> contains (se_flags entry) SERV_LITERAL_ADDRESS then Done 0
          else if contains (se_flags entry) SERV_ADDR4 then Done F_IPV4
          else if contains (se_flags entry) SERV_ADDR6 then Done F_IPV6
          else if contains (se_flags entry) SERV_ALL_ZEROS then Done (F_IPV4 OR F_IPV6)
          else if intersects (se_flags (sa_entries arr ! group_low arr first)) SERV_LOCAL_ADDRESS then Done F_NOERR
          else bind_exec is_locally_known (\<lambda>known. Done (if known then F_NOERR else F_NXDOMAIN)))"

definition local_addr4 :: "server list \<Rightarrow> server_entry \<Rightarrow> ipv4 option" where
  "local_addr4 servers entry =
     (if contains (se_flags entry) SERV_ALL_ZEROS then Some 0
      else if se_index entry < length servers then
        (case sock_ip (sv_addr (servers ! se_index entry)) of IpV4 ip \<Rightarrow> Some ip | IpV6 _ \<Rightarrow> None)
      else None)"

definition local_addr6 :: "server list \<Rightarrow> server_entry \<Rightarrow> ipv6 option" where
  "local_addr6 servers entry =
     (if contains (se_flags entry) SERV_ALL_ZEROS then Some 0
      else if se_index entry < length servers then
        (case sock_ip (sv_addr (servers ! se_index entry)) of IpV6 ip \<Rightarrow> Some ip | IpV4 _ \<Rightarrow> None)
      else None)"

definition make_local_answer ::
    "server_array \<Rightarrow> server list \<Rightarrow> nat \<Rightarrow> nat \<Rightarrow> u32 \<Rightarrow> rstr \<Rightarrow> u32 \<Rightarrow> dns_rr list" where
  "make_local_answer arr servers first last_idx flags name ttl =
     (let entries = List.map_filter (sa_get arr) [first..<last_idx];
          rr = (\<lambda>rtype rdata. \<lparr>rr_name = name, rr_type = rtype, rr_class = 1, rr_ttl = ttl, rr_data = rdata\<rparr>)
      in (if flags AND F_IPV4 \<noteq> 0
          then map (\<lambda>a. rr 1 (octets4 a)) (List.map_filter (local_addr4 servers) entries) else [])
       @ (if flags AND F_IPV6 \<noteq> 0
          then map (\<lambda>a. rr 28 (octets6 a)) (List.map_filter (local_addr6 servers) entries) else []))"

section \<open>The server list\<close>

definition mark_server :: "serv_flags \<Rightarrow> server \<Rightarrow> server" where
  "mark_server flag s =
     s\<lparr>sv_flags := if intersects (sv_flags s) flag then sv_flags s OR SERV_MARK
                   else difference (sv_flags s) SERV_MARK\<rparr>"

definition mark_servers :: "server list \<Rightarrow> serv_flags \<Rightarrow> server list" where
  "mark_servers servers flag = map (mark_server flag) servers"

definition cleanup_servers :: "server list \<Rightarrow> server list" where
  "cleanup_servers servers = filter (\<lambda>s. \<not> contains (sv_flags s) SERV_MARK) servers"

definition trim_start_dots :: "rstr \<Rightarrow> rstr" where
  "trim_start_dots s = dropWhile (\<lambda>b. b = DOT) s"

text \<open>\<open>servers.iter().position(p)\<close>.\<close>

fun position :: "('a \<Rightarrow> bool) \<Rightarrow> 'a list \<Rightarrow> nat option" where
  "position p [] = None"
| "position p (x # xs) = (if p x then Some 0 else map_option Suc (position p xs))"

definition add_update_server :: "server list \<Rightarrow> server \<Rightarrow> server list" where
  "add_update_server servers s0 =
     (let domain = trim_start_dots (sv_domain s0); s = s0\<lparr>sv_domain := domain\<rparr>
      in if intersects (sv_flags s) SERV_IS_LOCAL then servers @ [s]
         else (case position (\<lambda>x. contains (sv_flags x) SERV_MARK \<and> hostname_isequal (sv_domain x) domain) servers of
                 Some pos \<Rightarrow>
                   take pos servers @ drop (Suc pos) servers
                   @ [(servers ! pos)\<lparr>sv_flags := difference (sv_flags s) SERV_MARK, sv_addr := sv_addr s,
                                      sv_source_addr := sv_source_addr s, sv_interface := sv_interface s\<rparr>]
               | None \<Rightarrow> servers @ [s]))"

definition domain_matches :: "rstr \<Rightarrow> rstr \<Rightarrow> bool exec" where
  "domain_matches query_domain server_domain =
     (if server_domain = [] then Done True
      else if hostname_isequal query_domain server_domain then Done True
      else if length query_domain > length server_domain then
        let split = length query_domain - length server_domain - 1
        in if query_domain ! split = DOT
           then bind_exec (str_from query_domain (split + 1)) (\<lambda>rest. Done (hostname_isequal rest server_domain))
           else Done False
      else Done False)"

end
