(* ===== verification/Domain_Lookup.thy ===== *)
theory Domain_Lookup
  imports Domain_Match "HOL-Library.Product_Lexorder"
begin

text \<open>
  Correctness of the server lookup of \<^verbatim>\<open>domain_match.rs\<close>. The specification scans the suffixes of the query
  from the longest to the empty one and takes the first whose servers suit the query. The sorted
  array, the binary search, the kept lower bound and the jumps compute the same. The upkeep of
  the server list across a reload is shown to keep exactly the configured servers.
\<close>

section \<open>The keys of the array\<close>

abbreviation nodots :: "server_entry \<Rightarrow> bool" where
  "nodots e \<equiv> contains (se_flags e) SERV_FOR_NODOTS"

abbreviation wild :: "server_entry \<Rightarrow> bool" where
  "wild e \<equiv> contains (se_flags e) SERV_WILDCARD"

type_synonym entry_key = "bool \<times> int \<times> nat list"

definition entry_key :: "server_entry \<Rightarrow> entry_key" where
  "entry_key e = (nodots e, - int (se_domain_len e), name_key (se_domain e))"

definition query_key :: "rstr \<Rightarrow> entry_key" where
  "query_key q = (False, - int (length q), name_key q)"

definition entry_rank :: "server_entry \<Rightarrow> entry_key \<times> bool" where
  "entry_rank e = (entry_key e, wild e)"

definition entry_wf :: "server_entry \<Rightarrow> bool" where
  "entry_wf e \<longleftrightarrow> se_domain_len e = length (se_domain e) \<and> (nodots e \<longrightarrow> se_domain e = [])"

definition array_ok :: "server_array \<Rightarrow> bool" where
  "array_ok arr \<longleftrightarrow> list_all entry_wf (sa_entries arr) \<and> sorted (map entry_rank (sa_entries arr))
     \<and> (sa_has_wildcard arr \<longleftrightarrow> list_ex wild (sa_entries arr))"

lemma order_entry_key:
  "order_entry q e = 0 \<longleftrightarrow> entry_key e = query_key q"
  "order_entry q e < 0 \<longleftrightarrow> query_key q < entry_key e"
  by (auto simp: order_entry_def entry_key_def query_key_def hostname_order_key Let_def)

lemma order_entry_greater: "0 < order_entry q e \<longleftrightarrow> entry_key e < query_key q"
  using order_entry_key [of q e] by (metis linorder_neq_iff order_less_asym)

lemma or_else_simps [simp]:
  "or_else OrdEqual o2 = o2" "or_else OrdLess o2 = OrdLess" "or_else OrdGreater o2 = OrdGreater"
  by (simp_all add: or_else_def)

lemma compare_entries_rank:
  "compare_entries a b = OrdGreater \<Longrightarrow> entry_rank b \<le> entry_rank a"
  "compare_entries a b \<noteq> OrdGreater \<Longrightarrow> entry_rank a \<le> entry_rank b"
  unfolding compare_entries_def entry_rank_def entry_key_def hostname_order_key cmp_def
  by (auto split: if_splits)

lemma set_insert_by: "set (insert_by c x ys) = insert x (set ys)"
  by (induction ys) auto

lemma sorted_insert_by:
  assumes "\<And>x y. c x y = OrdGreater \<Longrightarrow> r y \<le> r x" "\<And>x y. c x y \<noteq> OrdGreater \<Longrightarrow> r x \<le> (r y :: 'k :: linorder)"
  shows "sorted (map r ys) \<Longrightarrow> sorted (map r (insert_by c x ys))"
  by (induction ys) (auto simp: set_insert_by assms intro: order_trans [OF assms(2)])

lemma set_sort_by: "set (sort_by c xs) = set xs"
  by (induction xs) (simp_all add: sort_by_def set_insert_by)

lemma sorted_sort_by:
  assumes "\<And>x y. c x y = OrdGreater \<Longrightarrow> r y \<le> r x" "\<And>x y. c x y \<noteq> OrdGreater \<Longrightarrow> r x \<le> (r y :: 'k :: linorder)"
  shows "sorted (map r (sort_by c xs))"
  by (induction xs) (simp_all add: sort_by_def sorted_insert_by [of c r, OF assms])

definition servers_wf :: "server list \<Rightarrow> bool" where
  "servers_wf = list_all (\<lambda>s. contains (sv_flags s) SERV_FOR_NODOTS \<longrightarrow> sv_domain s = [])"

lemma server_entries_wf: "servers_wf ss \<Longrightarrow> list_all entry_wf (server_entries i n ss)"
  by (induction ss arbitrary: i n) (simp_all add: servers_wf_def entry_wf_def)

lemma local_entries_wf: "servers_wf ss \<Longrightarrow> list_all entry_wf (local_entries i ss)"
  by (induction ss arbitrary: i) (simp_all add: servers_wf_def entry_wf_def)

lemma build_array_ok:
  assumes "servers_wf servers" "servers_wf local_domains"
  shows "array_ok (server_array_build servers local_domains)"
  using server_entries_wf [OF assms(1), of 0 0] local_entries_wf [OF assms(2), of 0]
  by (auto simp: array_ok_def server_array_build_def Let_def list_all_iff list_ex_iff set_sort_by
      sorted_sort_by [of compare_entries entry_rank, OF compare_entries_rank])

section \<open>Groups\<close>

lemma array_ok_key_mono:
  assumes "array_ok arr" "i \<le> j" "j < length (sa_entries arr)"
  shows "entry_key (sa_entries arr ! i) \<le> entry_key (sa_entries arr ! j)"
proof -
  have "entry_rank (sa_entries arr ! i) \<le> entry_rank (sa_entries arr ! j)"
    using assms sorted_nth_mono [of "map entry_rank (sa_entries arr)" i j] by (simp add: array_ok_def)
  then show ?thesis by (auto simp: entry_rank_def)
qed

lemma array_ok_between:
  assumes "array_ok arr" "i \<le> k" "k \<le> j" "j < length (sa_entries arr)"
    and "entry_key (sa_entries arr ! i) = entry_key (sa_entries arr ! j)"
  shows "entry_key (sa_entries arr ! k) = entry_key (sa_entries arr ! j)"
  using array_ok_key_mono [OF assms(1,2)] array_ok_key_mono [OF assms(1,3,4)] assms by simp

lemma array_ok_wf: "array_ok arr \<Longrightarrow> i < length (sa_entries arr) \<Longrightarrow> entry_wf (sa_entries arr ! i)"
  by (simp add: array_ok_def list_all_length)

lemma same_group_key:
  assumes "array_ok arr" "a < length (sa_entries arr)" "b < length (sa_entries arr)"
  shows "same_group arr a b \<longleftrightarrow> entry_key (sa_entries arr ! a) = entry_key (sa_entries arr ! b)"
  using array_ok_wf [OF assms(1,2)] array_ok_wf [OF assms(1,3)] assms(2,3)
  by (auto simp: same_group_def sa_get_def order_entry_key entry_key_def query_key_def entry_wf_def)

lemma group_low_le: "group_low arr i \<le> i"
  by (induction i) auto

lemma group_low_same:
  assumes "array_ok arr" "j < length (sa_entries arr)" "i \<le> j"
    and "entry_key (sa_entries arr ! i) = entry_key (sa_entries arr ! j)"
  shows "group_low arr j = group_low arr i"
  using assms
proof (induction j)
  case (Suc j)
  show ?case
  proof (cases "i = Suc j")
    case False
    then have "entry_key (sa_entries arr ! j) = entry_key (sa_entries arr ! Suc j)"
      using array_ok_between [OF Suc.prems(1), of i j "Suc j"] Suc.prems by simp
    with Suc False show ?thesis by (simp add: same_group_key)
  qed simp
qed simp

lemma group_low_key:
  assumes "array_ok arr" "i < length (sa_entries arr)"
  shows "entry_key (sa_entries arr ! group_low arr i) = entry_key (sa_entries arr ! i)"
  using assms by (induction i) (auto simp: same_group_key)

lemma group_high_ge: "i \<le> group_high arr i"
  by (induction arr i rule: group_high.induct) (subst group_high.simps, auto)

lemma group_high_same:
  assumes "array_ok arr" "j < length (sa_entries arr)" "i \<le> j"
    and "entry_key (sa_entries arr ! i) = entry_key (sa_entries arr ! j)"
  shows "group_high arr i = group_high arr j"
  using assms
proof (induction "j - i" arbitrary: i)
  case (Suc d)
  have "entry_key (sa_entries arr ! Suc i) = entry_key (sa_entries arr ! j)"
    using array_ok_between [OF Suc.prems(1), of i "Suc i" j] Suc by simp
  moreover have "i < sa_len arr - 1" using Suc.prems Suc.hyps(2) by (simp add: sa_len_def)
  ultimately show ?case
    using Suc.hyps(1) [of "Suc i"] Suc.hyps(2) Suc.prems
    by (subst group_high.simps) (simp add: same_group_key)
qed simp

lemma group_high_key:
  assumes "array_ok arr" "i < length (sa_entries arr)"
  shows "group_high arr i < length (sa_entries arr)
    \<and> entry_key (sa_entries arr ! group_high arr i) = entry_key (sa_entries arr ! i)"
  using assms
proof (induction arr i rule: group_high.induct)
  case (1 arr i)
  then show ?case by (subst group_high.simps, subst (2) group_high.simps) (auto simp: same_group_key sa_len_def)
qed

lemma filter_servers_same:
  assumes "array_ok arr" "i < length (sa_entries arr)" "j < length (sa_entries arr)"
    and "entry_key (sa_entries arr ! i) = entry_key (sa_entries arr ! j)"
  shows "filter_servers arr i flags = filter_servers arr j flags"
proof -
  have "group_low arr i = group_low arr j \<and> group_high arr i = group_high arr j"
    using group_low_same [OF assms(1)] group_high_same [OF assms(1)] assms(2-4) by (metis nat_le_linear)
  then show ?thesis using assms by (simp add: filter_servers_def sa_len_def)
qed

section \<open>The binary search\<close>

text \<open>The lower bound lies before every entry with the key searched for.\<close>

definition low_ok :: "server_entry list \<Rightarrow> rstr \<Rightarrow> nat \<Rightarrow> bool" where
  "low_ok es q low \<longleftrightarrow> low < length es \<and> (low = 0 \<or> entry_key (es ! low) < query_key q)"

lemma low_ok_shorter:
  assumes "low_ok es q low" "length q' < length q"
  shows "low_ok es q' low"
  using assms by (auto simp: low_ok_def query_key_def entry_key_def)

text \<open>
  What a failed search promises about the octets it crops: at least one once zero is rounded up,
  no more than the query has, and none of the lengths jumped over is configured.
\<close>

definition crop_ok :: "server_entry list \<Rightarrow> rstr \<Rightarrow> int \<Rightarrow> bool" where
  "crop_ok es q crop \<longleftrightarrow> 0 \<le> crop \<and> crop \<le> max 1 (int (length q))
     \<and> (\<forall>e \<in> set es. \<not> nodots e \<longrightarrow> se_domain_len e < length q
          \<longrightarrow> int (se_domain_len e) \<le> int (length q) - max 1 crop)"

lemma crop_ok_1: "crop_ok es q 1"
  by (auto simp: crop_ok_def)

definition search_ok :: "server_entry list \<Rightarrow> rstr \<Rightarrow> search_end \<Rightarrow> bool" where
  "search_ok es q s \<longleftrightarrow> low_ok es q (sr_low s) \<and> crop_ok es q (sr_crop s)
     \<and> (if sr_rc s = 0 then sr_found s < length es \<and> entry_key (es ! sr_found s) = query_key q
        else \<forall>e \<in> set es. entry_key e \<noteq> query_key q)"

lemma key_less_length:
  "query_key q < entry_key e \<Longrightarrow> entry_wf e \<Longrightarrow> se_domain_len e \<le> length q"
  "entry_key e < query_key q \<Longrightarrow> \<not> nodots e \<and> length q \<le> se_domain_len e"
  by (auto simp: query_key_def entry_key_def entry_wf_def)

lemma key_le_length:
  "entry_key a \<le> entry_key b \<Longrightarrow> \<not> nodots b \<Longrightarrow> se_domain_len b \<le> se_domain_len a"
  by (auto simp: entry_key_def)

lemma first_left_crop:
  assumes "array_ok arr" "sa_entries arr \<noteq> []" "query_key q < entry_key (sa_entries arr ! 0)"
  shows "crop_ok (sa_entries arr) q (int (length q) - int (se_domain_len (sa_entries arr ! 0)))"
    and "e \<in> set (sa_entries arr) \<Longrightarrow> entry_key e \<noteq> query_key q"
proof -
  have le: "entry_key (sa_entries arr ! 0) \<le> entry_key e" if "e \<in> set (sa_entries arr)" for e
    using that array_ok_key_mono [OF assms(1), of 0] by (auto simp: in_set_conv_nth)
  have "entry_wf (sa_entries arr ! 0)" using assms array_ok_wf by simp
  then have "se_domain_len (sa_entries arr ! 0) \<le> length q" using key_less_length(1) assms(3) by blast
  then show "crop_ok (sa_entries arr) q (int (length q) - int (se_domain_len (sa_entries arr ! 0)))"
    using key_le_length le by (fastforce simp: crop_ok_def)
  show "e \<in> set (sa_entries arr) \<Longrightarrow> entry_key e \<noteq> query_key q" using le assms(3) by force
qed

lemma find_upt_Some:
  "find P [a..<b] = Some t \<Longrightarrow> a \<le> t \<and> t < b \<and> P t \<and> (\<forall>k. a \<le> k \<longrightarrow> k < t \<longrightarrow> \<not> P k)"
proof (induction "b - a" arbitrary: a)
  case (Suc d)
  then have "[a..<b] = a # [Suc a..<b]" "d = b - Suc a" "a < b" by (simp_all add: upt_conv_Cons)
  with Suc.prems Suc.hyps(1) [of "Suc a"] show ?case
    by (cases "P a") (auto simp: Suc_le_eq dest: le_neq_implies_less)
qed simp

lemma next_shorter_crop_ok:
  assumes ok: "array_ok arr" and i: "i < length (sa_entries arr)"
    and left: "entry_key (sa_entries arr ! i) < query_key q"
    and right: "i + 1 = length (sa_entries arr) \<or> query_key q < entry_key (sa_entries arr ! (i + 1))"
  shows "crop_ok (sa_entries arr) q (next_shorter_crop (sa_entries arr) (length q) i)"
proof (cases "find (\<lambda>t. se_domain_len (sa_entries arr ! t) \<noteq> se_domain_len (sa_entries arr ! i)) [i + 1..<length (sa_entries arr)]")
  case None
  then show ?thesis by (simp add: next_shorter_crop_def crop_ok_1)
next
  case (Some t)
  let ?es = "sa_entries arr"
  have t: "i < t" "t < length ?es" "se_domain_len (?es ! t) \<noteq> se_domain_len (?es ! i)"
    and before: "\<And>k. i < k \<Longrightarrow> k < t \<Longrightarrow> se_domain_len (?es ! k) = se_domain_len (?es ! i)"
    using find_upt_Some [OF Some] by auto
  have qi: "length q \<le> se_domain_len (?es ! i)" "\<not> nodots (?es ! i)" using key_less_length(2) left by blast+
  have q1: "query_key q < entry_key (?es ! (i + 1))" using right t by auto
  then have "query_key q < entry_key (?es ! t)"
    using array_ok_key_mono [OF ok, of "i + 1" t] t by simp
  then have qt: "se_domain_len (?es ! t) \<le> length q" using key_less_length(1) array_ok_wf [OF ok t(2)] by blast
  have "int (se_domain_len e) \<le> int (length q) - max 1 (int (length q) - int (se_domain_len (?es ! t)))"
    if e: "e \<in> set ?es" "\<not> nodots e" "se_domain_len e < length q" for e
  proof -
    obtain k where k: "k < length ?es" "e = ?es ! k" using e(1) by (auto simp: in_set_conv_nth)
    have "i < k"
    proof (rule ccontr)
      assume "\<not> i < k"
      then have "entry_key e \<le> entry_key (?es ! i)" using array_ok_key_mono [OF ok, of k i] i k by simp
      then have "se_domain_len (?es ! i) \<le> se_domain_len e" using key_le_length qi(2) by blast
      with e(3) qi(1) show False by simp
    qed
    moreover have "\<not> k < t" using before [of k] \<open>i < k\<close> e(3) qi(1) k by auto
    ultimately have "entry_key (?es ! t) \<le> entry_key e" using array_ok_key_mono [OF ok, of t k] k by simp
    then have "se_domain_len e \<le> se_domain_len (?es ! t)" using key_le_length e(2) by blast
    with e(3) show ?thesis by simp
  qed
  with Some qt show ?thesis by (auto simp: next_shorter_crop_def crop_ok_def)
qed

lemma not_between:
  assumes ok: "array_ok arr" and i: "i < length (sa_entries arr)"
    and left: "entry_key (sa_entries arr ! i) < query_key q"
    and right: "i + 1 = length (sa_entries arr) \<or> query_key q < entry_key (sa_entries arr ! (i + 1))"
    and e: "e \<in> set (sa_entries arr)"
  shows "entry_key e \<noteq> query_key q"
proof -
  obtain k where k: "k < length (sa_entries arr)" "e = sa_entries arr ! k" using e by (auto simp: in_set_conv_nth)
  show ?thesis
  proof (cases "k \<le> i")
    case True
    then show ?thesis using array_ok_key_mono [OF ok True i] left k by auto
  next
    case False
    then show ?thesis using array_ok_key_mono [OF ok, of "i + 1" k] right k by auto
  qed
qed

lemma search_entries_ok:
  assumes "array_ok arr" "low_ok (sa_entries arr) q low" "low \<le> high"
    and "high = length (sa_entries arr) \<or> high < length (sa_entries arr) \<and> query_key q < entry_key (sa_entries arr ! high)"
  shows "\<exists>s. search_entries (sa_entries arr) q low high = Done s \<and> search_ok (sa_entries arr) q s"
  using assms
proof (induction "sa_entries arr" q low high rule: search_entries.induct)
  case (1 q low high)
  let ?es = "sa_entries arr" and ?i = "(low + high) div 2"
  have i: "?i < length ?es" using 1(4-6) by (auto simp: low_ok_def)
  note step = search_entries.simps [of ?es q low high]
  consider (eq) "order_entry q (?es ! ?i) = 0" | (lt) "order_entry q (?es ! ?i) < 0" | (gt) "0 < order_entry q (?es ! ?i)"
    by linarith
  then show ?case
  proof cases
    case eq
    then have "search_entries ?es q low high = Done \<lparr>sr_rc = 0, sr_found = ?i, sr_low = low, sr_crop = 1\<rparr>"
      using i by (subst step) (simp add: Let_def)
    then show ?thesis using 1(4) i eq by (simp add: search_ok_def order_entry_key crop_ok_1)
  next
    case lt
    then have key: "query_key q < entry_key (?es ! ?i)" by (simp add: order_entry_key)
    show ?thesis
    proof (cases "high = ?i")
      case True
      then have "low = high" using 1(5) by simp
      then have "low = 0" using 1(4) key by (auto simp: low_ok_def)
      then have "search_entries ?es q low high = Done \<lparr>sr_rc = order_entry q (?es ! 0), sr_found = 0, sr_low = 0,
          sr_crop = int (length q) - int (se_domain_len (?es ! 0))\<rparr>"
        using True \<open>low = high\<close> lt i by (subst step) (simp add: Let_def)
      then show ?thesis
        using first_left_crop [OF 1(3), of q] \<open>low = 0\<close> \<open>low = high\<close> lt key 1(4) i by (simp add: search_ok_def)
    next
      case False
      then have "\<exists>s. search_entries ?es q low ?i = Done s \<and> search_ok ?es q s"
        using 1(1) [OF refl] 1(3-5) i lt key by auto
      then show ?thesis using False lt i by (subst step) (simp add: Let_def)
    qed
  next
    case gt
    then have key: "entry_key (?es ! ?i) < query_key q" by (simp add: order_entry_greater)
    show ?thesis
    proof (cases "low = ?i")
      case True
      then have "high = low \<or> high = low + 1" using 1(5) by linarith
      then have right: "?i + 1 = length ?es \<or> query_key q < entry_key (?es ! (?i + 1))"
        using 1(6) key True i by auto
      have "search_entries ?es q low high = Done \<lparr>sr_rc = order_entry q (?es ! ?i), sr_found = 0, sr_low = low,
          sr_crop = next_shorter_crop ?es (length q) ?i\<rparr>"
        using True gt i by (subst step) (simp add: Let_def)
      then show ?thesis
        using next_shorter_crop_ok [OF 1(3) i key right] not_between [OF 1(3) i key right] 1(4) gt
        by (simp add: search_ok_def)
    next
      case False
      then have "\<exists>s. search_entries ?es q ?i high = Done s \<and> search_ok ?es q s"
        using 1(2) [OF refl] 1(3,5,6) i gt key by (auto simp: low_ok_def)
      then show ?thesis using False gt i by (subst step) (simp add: Let_def)
    qed
  qed
qed

section \<open>The specification: a scan over the suffixes\<close>

text \<open>The octet before a suffix is a dot, or the suffix is the whole name or empty.\<close>

definition label_boundary :: "rstr \<Rightarrow> nat \<Rightarrow> bool" where
  "label_boundary domain i \<longleftrightarrow> i = 0 \<or> i = length domain \<or> domain ! (i - 1) = DOT"

definition has_key :: "server_array \<Rightarrow> rstr \<Rightarrow> bool" where
  "has_key arr q \<longleftrightarrow> list_ex (\<lambda>e. entry_key e = query_key q) (sa_entries arr)"

text \<open>A suffix has servers when its domain is configured, off a label boundary with a wildcard.\<close>

definition eligible :: "server_array \<Rightarrow> rstr \<Rightarrow> nat \<Rightarrow> bool" where
  "eligible arr domain i \<longleftrightarrow>
     list_ex (\<lambda>e. entry_key e = query_key (drop i domain) \<and> (label_boundary domain i \<or> wild e)) (sa_entries arr)"

definition key_index :: "server_array \<Rightarrow> rstr \<Rightarrow> nat" where
  "key_index arr q = (case position (\<lambda>e. entry_key e = query_key q) (sa_entries arr) of None \<Rightarrow> 0 | Some t \<Rightarrow> t)"

text \<open>
  The suffixes starting at the given positions, in order. Servers that stand for the system's
  resolver configuration send the scan to the empty suffix, for upstream servers only.
\<close>

fun scan_suffixes :: "server_array \<Rightarrow> rstr \<Rightarrow> nat list \<Rightarrow> u32 \<Rightarrow> (nat \<times> nat) option \<times> u32" where
  "scan_suffixes arr domain [] flags = (None, flags)"
| "scan_suffixes arr domain (i # is) flags =
     (if eligible arr domain i then
        (case filter_servers arr (key_index arr (drop i domain)) flags of
           None \<Rightarrow> scan_suffixes arr domain is flags
         | Some (nl, nh) \<Rightarrow>
             if contains (se_flags (sa_entries arr ! nl)) SERV_USE_RESOLV
             then scan_suffixes arr domain (filter (\<lambda>j. j = length domain) is) (flags OR F_SERVER)
             else (Some (nl, nh), flags))
      else scan_suffixes arr domain is flags)"

definition lookup_spec :: "server_array \<Rightarrow> rstr \<Rightarrow> u32 \<Rightarrow> (nat \<times> nat) option" where
  "lookup_spec arr query flags =
     (if sa_entries arr = [] then None
      else let domain = (if flags AND F_DS \<noteq> 0 then parent_zone query else query);
               single = (domain \<noteq> [] \<and> DOT \<notin> set domain \<and> flags AND F_DNSSECOK = 0)
           in (case scan_suffixes arr domain [0..<Suc (length domain)] flags of
                 (found, flags') \<Rightarrow> nodots_fallback arr single found flags'))"

lemma position_Some:
  "position p xs = Some t \<Longrightarrow> t < length xs \<and> p (xs ! t) \<and> (\<forall>k<t. \<not> p (xs ! k))"
proof (induction xs arbitrary: t)
  case (Cons x xs)
  then show ?case by (cases t) (auto simp: nth_Cons split: if_splits nat.split)
qed simp

lemma position_None: "position p xs = None \<longleftrightarrow> (\<forall>x \<in> set xs. \<not> p x)"
  by (induction xs) auto

lemma key_index_key:
  assumes "has_key arr q"
  shows "key_index arr q < length (sa_entries arr) \<and> entry_key (sa_entries arr ! key_index arr q) = query_key q"
proof -
  obtain t where "position (\<lambda>e. entry_key e = query_key q) (sa_entries arr) = Some t"
    using assms position_None [of "\<lambda>e. entry_key e = query_key q" "sa_entries arr"]
    by (fastforce simp: has_key_def list_ex_iff)
  with position_Some [OF this] show ?thesis by (simp add: key_index_def)
qed

lemma scan_suffixes_skip:
  assumes "\<And>i. a \<le> i \<Longrightarrow> i < b \<Longrightarrow> \<not> eligible arr domain i" "a \<le> b" "b \<le> n"
  shows "scan_suffixes arr domain [a..<n] flags = scan_suffixes arr domain [b..<n] flags"
  using assms
proof (induction "b - a" arbitrary: a)
  case (Suc d)
  then have "[a..<n] = a # [Suc a..<n]" "\<not> eligible arr domain a" by (simp_all add: upt_conv_Cons)
  with Suc.hyps(1) [of "Suc a"] Suc.hyps(2) Suc.prems show ?case by simp
qed simp

section \<open>Wildcards in a group\<close>

lemma back_to_first_key:
  assumes "t < length es" "entry_key (es ! t) = query_key q"
  shows "back_to_first es q t \<le> t \<and> entry_key (es ! back_to_first es q t) = query_key q"
  using assms by (induction t) (auto simp: order_entry_key)

lemma forward_to_last_key:
  assumes "t < length es" "entry_key (es ! t) = query_key q"
  shows "forward_to_last es q t < length es \<and> t \<le> forward_to_last es q t
    \<and> entry_key (es ! forward_to_last es q t) = query_key q
    \<and> (Suc (forward_to_last es q t) < length es \<longrightarrow> entry_key (es ! Suc (forward_to_last es q t)) \<noteq> query_key q)"
  using assms
proof (induction es q t rule: forward_to_last.induct)
  case (1 es q t)
  show ?case
  proof (cases "t < length es - 1 \<and> order_entry q (es ! (t + 1)) = 0")
    case True
    then have "forward_to_last es q t = forward_to_last es q (t + 1)" by (subst forward_to_last.simps) simp
    moreover from True have "Suc t < length es" by linarith
    ultimately show ?thesis using 1(1) [OF True] True by (simp add: order_entry_key)
  next
    case False
    then have "forward_to_last es q t = t" by (subst forward_to_last.simps) (simp only: if_False)
    with False 1(2,3) show ?thesis by (auto simp: order_entry_key)
  qed
qed

lemma last_of_group_wild:
  assumes ok: "array_ok arr" and t: "t < length (sa_entries arr)" "entry_key (sa_entries arr ! t) = query_key q"
    and last: "Suc t < length (sa_entries arr) \<Longrightarrow> entry_key (sa_entries arr ! Suc t) \<noteq> query_key q"
  shows "wild (sa_entries arr ! t) \<longleftrightarrow> list_ex (\<lambda>e. entry_key e = query_key q \<and> wild e) (sa_entries arr)"
proof
  assume "list_ex (\<lambda>e. entry_key e = query_key q \<and> wild e) (sa_entries arr)"
  then obtain k where k: "k < length (sa_entries arr)" "entry_key (sa_entries arr ! k) = query_key q" "wild (sa_entries arr ! k)"
    by (auto simp: list_ex_iff in_set_conv_nth)
  have "k \<le> t"
  proof (rule ccontr)
    assume "\<not> k \<le> t"
    then have "entry_key (sa_entries arr ! Suc t) = query_key q" "Suc t < length (sa_entries arr)"
      using array_ok_between [OF ok, of t "Suc t" k] k t by simp_all
    with last show False by blast
  qed
  then have "entry_rank (sa_entries arr ! k) \<le> entry_rank (sa_entries arr ! t)"
    using ok sorted_nth_mono [of "map entry_rank (sa_entries arr)" k t] k t by (simp add: array_ok_def)
  with k t show "wild (sa_entries arr ! t)" by (simp add: entry_rank_def)
qed (use t in \<open>auto simp: list_ex_iff\<close>)

lemma matched_entry_spec:
  assumes ok: "array_ok arr" and f: "f < length (sa_entries arr)" "entry_key (sa_entries arr ! f) = query_key (drop start domain)"
    and len: "int start + qlen = int (length domain)" "start \<le> length domain"
    and boundary: "sa_has_wildcard arr \<or> label_boundary domain start"
  shows "case matched_entry arr domain start qlen (drop start domain) f of
      None \<Rightarrow> \<not> eligible arr domain start
    | Some t \<Rightarrow> eligible arr domain start \<and> t < length (sa_entries arr)
        \<and> entry_key (sa_entries arr ! t) = query_key (drop start domain)"
proof -
  let ?es = "sa_entries arr" and ?q = "drop start domain"
  have b: "at_boundary domain start qlen \<longleftrightarrow> label_boundary domain start"
    using len by (auto simp: at_boundary_def label_boundary_def)
  have here: "label_boundary domain start \<Longrightarrow> eligible arr domain start"
    using f by (auto simp: eligible_def list_ex_iff)
  let ?b = "back_to_first ?es ?q f"
  have bk: "?b < length ?es" "entry_key (?es ! ?b) = query_key ?q" using back_to_first_key [OF f] f(1) by simp_all
  note fw = forward_to_last_key [OF bk]
  have off: "\<not> label_boundary domain start \<Longrightarrow>
      wild (?es ! forward_to_last ?es ?q ?b) \<longleftrightarrow> eligible arr domain start"
    using last_of_group_wild [OF ok, of "forward_to_last ?es ?q ?b" ?q] fw by (simp add: eligible_def)
  show ?thesis
    using boundary here off fw bk f by (auto simp: matched_entry_def b Let_def)
qed

section \<open>The outer loop\<close>

lemma skip_to_label_spec:
  assumes "skip_to_label domain start qlen = (start', qlen')"
    and "0 < start" "-1 \<le> qlen" "int start + qlen = int (length domain)"
  shows "start \<le> start' \<and> -1 \<le> qlen' \<and> int start' + qlen' = int (length domain)
    \<and> (0 \<le> qlen' \<longrightarrow> label_boundary domain start') \<and> (\<forall>i. start \<le> i \<longrightarrow> i < start' \<longrightarrow> \<not> label_boundary domain i)"
  using assms
proof (induction domain start qlen rule: skip_to_label.induct)
  case (1 domain start qlen)
  show ?case
  proof (cases "qlen > 0 \<and> start > 0 \<and> domain ! (start - 1) \<noteq> DOT")
    case True
    then have "skip_to_label domain (start + 1) (qlen - 1) = (start', qlen')"
      using 1(2) by (subst (asm) skip_to_label.simps) simp
    moreover have "\<not> label_boundary domain start" using True 1(5) by (auto simp: label_boundary_def)
    ultimately show ?thesis using 1(1) [OF True] True 1(5) by (auto simp: Suc_le_eq dest: le_neq_implies_less)
  next
    case False
    then have "skip_to_label domain start qlen = (start, qlen)"
      by (subst skip_to_label.simps) (simp only: if_False)
    then have "start' = start" "qlen' = qlen" using 1(2) by simp_all
    with False 1(3-5) show ?thesis by (auto simp: label_boundary_def)
  qed
qed

definition advance_query :: "server_array \<Rightarrow> rstr \<Rightarrow> nat \<Rightarrow> int \<Rightarrow> int \<Rightarrow> nat \<times> int" where
  "advance_query arr domain start qlen crop =
     (if sa_has_wildcard arr then (start + nat crop, qlen - crop)
      else skip_to_label domain (start + nat crop) (qlen - crop))"

lemma eligible_off_boundary:
  "array_ok arr \<Longrightarrow> \<not> sa_has_wildcard arr \<Longrightarrow> \<not> label_boundary domain i \<Longrightarrow> \<not> eligible arr domain i"
  by (auto simp: array_ok_def eligible_def list_ex_iff)

lemma advance_spec:
  assumes "advance_query arr domain start qlen crop = (start', qlen')" "array_ok arr"
    and "int start + qlen = int (length domain)" "1 \<le> crop" "crop \<le> max 1 qlen" "0 \<le> qlen"
  shows "start < start' \<and> -1 \<le> qlen' \<and> qlen' < qlen \<and> int start' + qlen' = int (length domain)
    \<and> (0 \<le> qlen' \<longrightarrow> sa_has_wildcard arr \<or> label_boundary domain start')
    \<and> (\<forall>i. start + nat crop \<le> i \<longrightarrow> i < start' \<longrightarrow> \<not> eligible arr domain i)"
proof (cases "sa_has_wildcard arr")
  case True
  then show ?thesis using assms by (auto simp: advance_query_def)
next
  case False
  then have sk: "skip_to_label domain (start + nat crop) (qlen - crop) = (start', qlen')"
    using assms(1) by (simp add: advance_query_def)
  have "0 < start + nat crop" "-1 \<le> qlen - crop" "int (start + nat crop) + (qlen - crop) = int (length domain)"
    using assms(3-6) by auto
  note s = skip_to_label_spec [OF sk this]
  then have "start < start'" "qlen' < qlen" using assms(3,4) by auto
  with s show ?thesis using eligible_off_boundary [OF assms(2) False] by simp
qed

lemma cropped_ineligible:
  assumes "crop_ok (sa_entries arr) (drop start domain) crop" "list_all entry_wf (sa_entries arr)"
    and "start < i" "i < start + nat (max 1 crop)" "i \<le> length domain"
  shows "\<not> eligible arr domain i"
proof
  assume "eligible arr domain i"
  then obtain e where e: "e \<in> set (sa_entries arr)" "entry_key e = query_key (drop i domain)"
    by (auto simp: eligible_def list_ex_iff)
  then have "\<not> nodots e" "se_domain_len e = length domain - i" by (auto simp: entry_key_def query_key_def)
  then show False using assms e(1) by (auto simp: crop_ok_def)
qed

lemma str_range_ascii:
  "is_ascii s \<Longrightarrow> start \<le> length s \<Longrightarrow> str_range s start (length s) = Done (drop start s)"
  by (simp add: str_range_def is_char_boundary_ascii)

lemma filter_upt_last: "a \<le> n \<Longrightarrow> filter (\<lambda>j. j = n) [a..<Suc n] = [n]"
  by (induction "n - a" arbitrary: a) (auto simp: filter_empty_conv)

lemma upt_one: "[n..<Suc n] = [n]"
  by simp

text \<open>What holds at the start of a round, and what the loop then computes.\<close>

definition round_ok :: "server_array \<Rightarrow> rstr \<Rightarrow> nat \<Rightarrow> nat \<Rightarrow> int \<Rightarrow> bool" where
  "round_ok arr domain low start qlen \<longleftrightarrow> int start + qlen = int (length domain) \<and> -1 \<le> qlen
     \<and> (0 \<le> qlen \<longrightarrow> low_ok (sa_entries arr) (drop start domain) low
                     \<and> (sa_has_wildcard arr \<or> label_boundary domain start))"

definition scans :: "server_array \<Rightarrow> rstr \<Rightarrow> nat \<Rightarrow> nat \<Rightarrow> int \<Rightarrow> bool" where
  "scans arr domain low start qlen \<longleftrightarrow> (\<forall>flags. lookup_loop arr domain low start qlen flags
     = Done (scan_suffixes arr domain [start..<Suc (length domain)] flags))"

definition later_rounds :: "server_array \<Rightarrow> rstr \<Rightarrow> int \<Rightarrow> bool" where
  "later_rounds arr domain qlen \<longleftrightarrow>
     (\<forall>low start q. q < qlen \<longrightarrow> round_ok arr domain low start q \<longrightarrow> scans arr domain low start q)"

lemma round_unfold:
  assumes "is_ascii domain" "start \<le> length domain" "int start + qlen = int (length domain)"
    and "search_entries (sa_entries arr) (drop start domain) low (length (sa_entries arr)) = Done s"
  shows "lookup_loop arr domain low start qlen flags =
       (case use_match arr domain start qlen (drop start domain) s flags of
          Inl r \<Rightarrow> Done (Some r, flags)
        | Inr (crop, flags') \<Rightarrow>
            (let crop' = (if crop = 0 then 1 else crop)
             in if crop' < 0 then Panic
                else (case advance_query arr domain start qlen crop' of
                        (start', qlen') \<Rightarrow> lookup_loop arr domain (sr_low s) start' qlen' flags')))"
proof -
  have "\<not> qlen < 0" "start + nat qlen = length domain" using assms(2,3) by auto
  then show ?thesis
    unfolding advance_query_def
    by (subst lookup_loop.simps) (simp add: assms(2) str_range_ascii [OF assms(1)] assms(4) sa_len_def)
qed

lemma next_round:
  assumes "array_ok arr" "start \<le> length domain" "int start + qlen = int (length domain)"
    and "search_ok (sa_entries arr) (drop start domain) s" "later_rounds arr domain qlen"
    and "1 \<le> crop" "crop \<le> max 1 qlen"
  obtains start' qlen' where "advance_query arr domain start qlen crop = (start', qlen')"
    "start < start'" "start' \<le> Suc (length domain)"
    "\<And>i. start + nat crop \<le> i \<Longrightarrow> i < start' \<Longrightarrow> \<not> eligible arr domain i"
    "scans arr domain (sr_low s) start' qlen'"
proof -
  obtain start' qlen' where adv: "advance_query arr domain start qlen crop = (start', qlen')" by fastforce
  have q0: "0 \<le> qlen" using assms(2,3) by simp
  note spec = advance_spec [OF adv assms(1,3,6,7) q0]
  have "low_ok (sa_entries arr) (drop start' domain) (sr_low s)" if "0 \<le> qlen'"
  proof (rule low_ok_shorter)
    show "low_ok (sa_entries arr) (drop start domain) (sr_low s)" using assms(4) by (simp add: search_ok_def)
    show "length (drop start' domain) < length (drop start domain)" using spec assms(2) that by auto
  qed
  then have "round_ok arr domain (sr_low s) start' qlen'" using spec by (simp add: round_ok_def)
  then have "scans arr domain (sr_low s) start' qlen'" using assms(5) spec by (simp add: later_rounds_def)
  with adv spec show ?thesis by (intro that) auto
qed

lemma round_goes_on:
  assumes "array_ok arr" "is_ascii domain" "start \<le> length domain" "int start + qlen = int (length domain)"
    and "search_entries (sa_entries arr) (drop start domain) low (length (sa_entries arr)) = Done s"
    and "search_ok (sa_entries arr) (drop start domain) s" "later_rounds arr domain qlen"
    and "use_match arr domain start qlen (drop start domain) s flags = Inr (sr_crop s, flags)"
  shows "lookup_loop arr domain low start qlen flags = Done (scan_suffixes arr domain [Suc start..<Suc (length domain)] flags)"
proof -
  have wf: "list_all entry_wf (sa_entries arr)" using assms(1) by (simp add: array_ok_def)
  have crop: "crop_ok (sa_entries arr) (drop start domain) (sr_crop s)" using assms(6) by (simp add: search_ok_def)
  then have c: "max 1 (sr_crop s) \<le> max 1 qlen" "\<not> sr_crop s < 0"
    "(if sr_crop s = 0 then 1 else sr_crop s) = max 1 (sr_crop s)" using assms(3,4) by (auto simp: crop_ok_def)
  from next_round [OF assms(1,3,4,6,7) _ c(1)] obtain start' qlen' where n:
    "advance_query arr domain start qlen (max 1 (sr_crop s)) = (start', qlen')"
    "start < start'" "start' \<le> Suc (length domain)"
    "\<And>i. start + nat (max 1 (sr_crop s)) \<le> i \<Longrightarrow> i < start' \<Longrightarrow> \<not> eligible arr domain i"
    "scans arr domain (sr_low s) start' qlen'" by auto
  have "\<not> eligible arr domain i" if i: "Suc start \<le> i" "i < start'" for i
  proof (cases "start + nat (max 1 (sr_crop s)) \<le> i")
    case False
    then show ?thesis using cropped_ineligible [OF crop wf, of i] i n(3) by simp
  qed (use n(4) i in blast)
  then have "scan_suffixes arr domain [Suc start..<Suc (length domain)] flags
      = scan_suffixes arr domain [start'..<Suc (length domain)] flags"
    using n(2,3) by (intro scan_suffixes_skip) auto
  moreover have "lookup_loop arr domain low start qlen flags = lookup_loop arr domain (sr_low s) start' qlen' flags"
    using c(2) n(1) by (simp add: round_unfold [OF assms(2-5)] assms(8) c(3) Let_def)
  ultimately show ?thesis using n(5) by (simp add: scans_def)
qed

lemma round_resolv:
  assumes "array_ok arr" "is_ascii domain" "start \<le> length domain" "int start + qlen = int (length domain)"
    and "search_entries (sa_entries arr) (drop start domain) low (length (sa_entries arr)) = Done s"
    and "search_ok (sa_entries arr) (drop start domain) s" "later_rounds arr domain qlen"
    and "use_match arr domain start qlen (drop start domain) s flags = Inr (qlen, flags')"
  shows "lookup_loop arr domain low start qlen flags
    = Done (scan_suffixes arr domain (filter (\<lambda>j. j = length domain) [Suc start..<Suc (length domain)]) flags')"
proof -
  have q0: "0 \<le> qlen" and mx: "(if qlen = 0 then 1 else qlen) = max 1 qlen"
    and whole: "start + nat qlen = length domain" using assms(3,4) by auto
  obtain start' qlen' where n:
    "advance_query arr domain start qlen (max 1 qlen) = (start', qlen')" "scans arr domain (sr_low s) start' qlen'"
    by (rule next_round [OF assms(1,3,4,6,7), of "max 1 qlen"]) simp_all
  have "start' = start + nat (max 1 qlen)"
    using n(1) q0 by (auto simp: advance_query_def skip_to_label.simps [of _ _ "qlen - max 1 qlen"] split: if_splits)
  then have "[start'..<Suc (length domain)] = filter (\<lambda>j. j = length domain) [Suc start..<Suc (length domain)]"
    using assms(3,4) q0 whole by (cases "qlen = 0") (auto simp: filter_upt_last upt_one max_def simp del: upt_Suc)
  moreover have "lookup_loop arr domain low start qlen flags = lookup_loop arr domain (sr_low s) start' qlen' flags'"
    using q0 n(1) by (simp add: round_unfold [OF assms(2-5)] assms(8) mx Let_def)
  ultimately show ?thesis using n(2) by (simp add: scans_def)
qed

lemma round_scans:
  assumes "array_ok arr" "is_ascii domain" "0 \<le> qlen" "round_ok arr domain low start qlen" "later_rounds arr domain qlen"
  shows "scans arr domain low start qlen"
  unfolding scans_def
proof
  fix flags
  let ?es = "sa_entries arr" and ?q = "drop start domain" and ?n = "Suc (length domain)"
  have st: "start \<le> length domain" "int start + qlen = int (length domain)"
    and low: "low_ok ?es ?q low" and bd: "sa_has_wildcard arr \<or> label_boundary domain start"
    using assms(3,4) by (auto simp: round_ok_def)
  obtain s where s: "search_entries ?es ?q low (length ?es) = Done s" "search_ok ?es ?q s"
    using search_entries_ok [OF assms(1) low, of "length ?es"] low by (auto simp: low_ok_def)
  note goes_on = round_goes_on [OF assms(1,2) st s assms(5), of flags]
  have start_first: "[start..<?n] = start # [Suc start..<?n]" using st by (simp add: upt_conv_Cons del: upt_Suc)
  show "lookup_loop arr domain low start qlen flags = Done (scan_suffixes arr domain [start..<?n] flags)"
  proof (cases "sr_rc s = 0")
    case False
    then have "\<not> eligible arr domain start" using s(2) by (auto simp: search_ok_def eligible_def list_ex_iff)
    then show ?thesis using goes_on False by (simp add: start_first use_match_def del: upt_Suc)
  next
    case rc: True
    then have f: "sr_found s < length ?es" "entry_key (?es ! sr_found s) = query_key ?q"
      using s(2) by (auto simp: search_ok_def)
    note m = matched_entry_spec [OF assms(1) f st(2,1) bd]
    show ?thesis
    proof (cases "matched_entry arr domain start qlen ?q (sr_found s)")
      case None
      then show ?thesis using m goes_on rc by (simp add: start_first use_match_def del: upt_Suc)
    next
      case (Some t)
      then have t: "eligible arr domain start" "t < length ?es" "entry_key (?es ! t) = query_key ?q" using m by auto
      have "has_key arr ?q" using t(1) by (auto simp: eligible_def has_key_def list_ex_iff)
      note k = key_index_key [OF this]
      then have same: "filter_servers arr (key_index arr ?q) flags = filter_servers arr t flags"
        using filter_servers_same [OF assms(1) _ t(2), of "key_index arr ?q"] t(3) by simp
      note um = use_match_def [of arr domain start qlen ?q s flags]
      show ?thesis
      proof (cases "filter_servers arr t flags")
        case None
        then show ?thesis using goes_on t(1) same by (simp add: start_first um rc Some del: upt_Suc)
      next
        case (Some r)
        obtain nl nh where r: "r = (nl, nh)" by fastforce
        note facts = start_first um rc \<open>matched_entry _ _ _ _ _ _ = Some t\<close> Some r
        show ?thesis
        proof (cases "contains (se_flags (?es ! nl)) SERV_USE_RESOLV")
          case True
          then show ?thesis
            using round_resolv [OF assms(1,2) st s assms(5), of flags "flags OR F_SERVER"] t(1) same
            by (simp add: facts del: upt_Suc)
        next
          case False
          then show ?thesis
            using round_unfold [OF assms(2) st s(1), of flags] t(1) same by (simp add: facts del: upt_Suc)
        qed
      qed
    qed
  qed
qed

lemma lookup_loop_scan:
  assumes "array_ok arr" "is_ascii domain"
  shows "round_ok arr domain low start qlen \<Longrightarrow> scans arr domain low start qlen"
proof (induction "nat (qlen + 1)" arbitrary: low start qlen rule: less_induct)
  case less
  show ?case
  proof (cases "qlen < 0")
    case True
    then have "start = Suc (length domain)" using less.prems by (simp add: round_ok_def)
    then show ?thesis using True by (simp add: scans_def lookup_loop.simps [of _ _ _ _ qlen] del: upt_Suc)
  next
    case False
    have "later_rounds arr domain qlen"
      unfolding later_rounds_def using less.hyps False by (auto simp: round_ok_def)
    with False less.prems round_scans [OF assms] show ?thesis by simp
  qed
qed

lemma ascii_parent_zone: "is_ascii s \<Longrightarrow> is_ascii (parent_zone s)"
  unfolding is_ascii_def parent_zone_def list_all_iff by (meson in_set_dropD set_dropWhileD)

lemma lookup_loop_from_start:
  assumes "array_ok arr" "is_ascii domain" "sa_entries arr \<noteq> []"
  shows "lookup_loop arr domain 0 0 (int (length domain)) flags
    = Done (scan_suffixes arr domain [0..<Suc (length domain)] flags)"
  using lookup_loop_scan [OF assms(1,2), of 0 0 "int (length domain)"] assms(3)
  by (simp add: round_ok_def scans_def low_ok_def label_boundary_def)

lemma sa_lookup_spec:
  assumes "array_ok arr" "is_ascii query"
  shows "sa_lookup arr query flags = Done (lookup_spec arr query flags)"
  using assms ascii_parent_zone lookup_loop_from_start [OF assms(1)]
  by (cases "sa_entries arr = []")
    (auto simp: sa_lookup_def lookup_spec_def Let_def simp del: upt_Suc split: prod.split)

section \<open>The servers found\<close>

lemma first_without_range: "lo \<le> hi \<Longrightarrow> lo \<le> first_without arr flag lo hi \<and> first_without arr flag lo hi \<le> hi"
  by (auto simp: first_without_def split: option.split dest: find_upt_Some)

lemma narrow_range:
  assumes "narrow arr lo hi flags = Some (a, b)" "lo \<le> hi"
  shows "lo \<le> a \<and> a < b \<and> b \<le> hi"
proof -
  define i6 where "i6 = first_without arr SERV_ADDR6 lo hi"
  define i4 where "i4 = first_without arr SERV_ADDR4 i6 hi"
  define iz where "iz = first_without arr SERV_ALL_ZEROS i4 hi"
  define il where "il = first_without arr SERV_LITERAL_ADDRESS iz hi"
  define ir where "ir = first_without arr SERV_USE_RESOLV il hi"
  note folds = i6_def [symmetric] i4_def [symmetric] iz_def [symmetric] il_def [symmetric] ir_def [symmetric]
  have r6: "lo \<le> i6 \<and> i6 \<le> hi" unfolding i6_def using assms(2) by (rule first_without_range)
  have r4: "i6 \<le> i4 \<and> i4 \<le> hi" unfolding i4_def using r6 by (intro first_without_range) simp
  have rz: "i4 \<le> iz \<and> iz \<le> hi" unfolding iz_def using r4 by (intro first_without_range) simp
  have rl: "iz \<le> il \<and> il \<le> hi" unfolding il_def using rz by (intro first_without_range) simp
  have rr: "il \<le> ir \<and> ir \<le> hi" unfolding ir_def using rl by (intro first_without_range) simp
  have "(a, b) \<in> {(lo, i6), (i6, i4), (i4, iz), (iz, il), (il, ir), (ir, hi)} \<and> a \<noteq> b"
    using assms(1) unfolding narrow_def Let_def folds by (simp split: if_splits)
  with r6 r4 rz rl rr show ?thesis by auto
qed

lemma filter_servers_range:
  assumes "array_ok arr" "filter_servers arr t flags = Some (a, b)"
  shows "a < b \<and> b \<le> length (sa_entries arr)
    \<and> (\<forall>k \<in> {a..<b}. entry_key (sa_entries arr ! k) = entry_key (sa_entries arr ! t))"
proof -
  have t: "t < length (sa_entries arr)" using assms(2) by (auto simp: filter_servers_def sa_len_def split: if_splits)
  let ?lo = "group_low arr t" and ?hi = "group_high arr t + 1"
  have le: "?lo \<le> t" "t < ?hi" using group_low_le group_high_ge by (auto simp: le_imp_less_Suc)
  have "?lo \<le> a \<and> a < b \<and> b \<le> ?hi"
    using assms(2) narrow_range [of arr ?lo ?hi flags a b] le t
    by (auto simp: filter_servers_def sa_len_def Let_def split: if_splits)
  moreover note low = group_low_key [OF assms(1) t] and high = group_high_key [OF assms(1) t]
  moreover have "entry_key (sa_entries arr ! k) = entry_key (sa_entries arr ! t)" if "?lo \<le> k" "k < ?hi" for k
    using array_ok_between [OF assms(1), of ?lo k "group_high arr t"] low high that by simp
  ultimately show ?thesis by auto
qed

lemma eligible_index:
  assumes "eligible arr domain i"
  shows "entry_key (sa_entries arr ! key_index arr (drop i domain)) = query_key (drop i domain)"
proof -
  have "has_key arr (drop i domain)" using assms by (auto simp: eligible_def has_key_def list_ex_iff)
  from key_index_key [OF this] show ?thesis by simp
qed

lemma scan_suffixes_found:
  "array_ok arr \<Longrightarrow> scan_suffixes arr domain is flags = (Some (a, b), fl) \<Longrightarrow>
    a < b \<and> b \<le> length (sa_entries arr) \<and> (\<exists>i \<in> set is. eligible arr domain i
      \<and> (\<forall>k \<in> {a..<b}. entry_key (sa_entries arr ! k) = query_key (drop i domain)))"
proof (induction arr domain "is" flags rule: scan_suffixes.induct)
  case (2 arr domain i "is" flags)
  show ?case
  proof (cases "eligible arr domain i")
    case True
    note e = eligible_index [OF True]
    show ?thesis
    proof (cases "filter_servers arr (key_index arr (drop i domain)) flags")
      case None
      then show ?thesis using 2 True by auto
    next
      case (Some r)
      obtain nl nh where r: "r = (nl, nh)" by fastforce
      show ?thesis
      proof (cases "contains (se_flags (sa_entries arr ! nl)) SERV_USE_RESOLV")
        case resolv: True
        then have "scan_suffixes arr domain (filter (\<lambda>j. j = length domain) is) (flags OR F_SERVER) = (Some (a, b), fl)"
          using 2(5) True Some r by simp
        from 2(2) [OF True Some r [symmetric] resolv 2(4) this] show ?thesis by auto
      next
        case False
        then have "a = nl" "b = nh" using 2(5) True Some r by simp_all
        then show ?thesis
          using filter_servers_range [OF 2(4) Some [unfolded r]] True e by auto
      qed
    qed
  next
    case False
    then show ?thesis using 2 by auto
  qed
qed simp

lemma lookup_spec_found:
  assumes "array_ok arr" "lookup_spec arr query flags = Some (a, b)" "flags AND F_DS = 0"
  shows "a < b \<and> b \<le> length (sa_entries arr)
    \<and> ((\<forall>k \<in> {a..<b}. nodots (sa_entries arr ! k))
       \<or> (\<exists>i \<le> length query. eligible arr query i
            \<and> (\<forall>k \<in> {a..<b}. entry_key (sa_entries arr ! k) = query_key (drop i query))))"
proof -
  obtain found fl where f: "scan_suffixes arr query [0..<Suc (length query)] flags = (found, fl)" by fastforce
  obtain single where nb: "nodots_fallback arr single found fl = Some (a, b)"
    using assms(2,3) f by (auto simp: lookup_spec_def Let_def simp del: upt_Suc split: if_splits)
  show ?thesis
  proof (cases "found = Some (a, b)")
    case True
    then show ?thesis using scan_suffixes_found [OF assms(1)] f by (fastforce simp: less_Suc_eq_le)
  next
    case False
    then have l: "filter_servers arr (sa_len arr - 1) fl = Some (a, b)" "nodots (sa_entries arr ! (sa_len arr - 1))"
      using nb by (auto simp: nodots_fallback_def Let_def split: if_splits option.splits)
    from filter_servers_range [OF assms(1) l(1)] l(2) show ?thesis by (simp add: entry_key_def)
  qed
qed

section \<open>Reloading the server list\<close>

definition same_server :: "server \<Rightarrow> server \<Rightarrow> bool" where
  "same_server a b \<longleftrightarrow> sv_flags a = sv_flags b \<and> hostname_isequal (sv_domain a) (sv_domain b)
     \<and> sv_addr a = sv_addr b \<and> sv_source_addr a = sv_source_addr b \<and> sv_interface a = sv_interface b"

abbreviation marked :: "server \<Rightarrow> bool" where
  "marked s \<equiv> contains (sv_flags s) SERV_MARK"

lemma hostname_isequal_refl [simp]: "hostname_isequal a a"
  by (simp add: hostname_isequal_def hostname_order_key)

lemma same_server_refl [simp]: "same_server s s"
  by (simp add: same_server_def)

lemma bit_SERV_MARK: "bit SERV_MARK n \<longleftrightarrow> n = 9"
  unfolding SERV_MARK_def bit_push_bit_iff bit_1_iff by auto

lemma mark_bit: "contains f SERV_MARK \<longleftrightarrow> bit f 9"
proof -
  have "f AND SERV_MARK = (if bit f 9 then SERV_MARK else 0)"
    by (auto intro!: bit_word_eqI simp: bit_and_iff bit_SERV_MARK)
  then show ?thesis by (simp add: contains_def SERV_MARK_def)
qed

lemma marked_simps [simp]:
  "\<not> contains (difference f SERV_MARK) SERV_MARK" "contains (f OR SERV_MARK) SERV_MARK"
  by (simp_all add: mark_bit difference_def bit_simps bit_SERV_MARK)

lemma difference_unmarked: "\<not> contains f SERV_MARK \<Longrightarrow> difference f SERV_MARK = f"
  unfolding mark_bit difference_def by (rule bit_word_eqI) (auto simp: bit_simps bit_SERV_MARK)

lemma unmarked_after_mark:
  "filter (\<lambda>s. \<not> marked s) (mark_servers servers flag)
     = map (\<lambda>s. s\<lparr>sv_flags := difference (sv_flags s) SERV_MARK\<rparr>) (filter (\<lambda>s. \<not> intersects (sv_flags s) flag) servers)"
  by (induction servers) (simp_all add: mark_servers_def mark_server_def)

lemma add_update_unmarked:
  assumes "\<not> marked s"
  shows "\<exists>x. filter (\<lambda>s. \<not> marked s) (add_update_server servers s) = filter (\<lambda>s. \<not> marked s) servers @ [x]
    \<and> same_server x (s\<lparr>sv_domain := trim_start_dots (sv_domain s)\<rparr>)"
proof (cases "intersects (sv_flags s) SERV_IS_LOCAL")
  case True
  then show ?thesis using assms by (simp add: add_update_server_def)
next
  case False
  let ?d = "trim_start_dots (sv_domain s)"
  show ?thesis
  proof (cases "position (\<lambda>x. marked x \<and> hostname_isequal (sv_domain x) ?d) servers")
    case None
    then show ?thesis using assms False by (simp add: add_update_server_def)
  next
    case (Some pos)
    then have pos: "pos < length servers" "marked (servers ! pos)" "hostname_isequal (sv_domain (servers ! pos)) ?d"
      using position_Some by blast+
    then have "servers = take pos servers @ servers ! pos # drop (Suc pos) servers" by (simp add: id_take_nth_drop)
    then have "filter (\<lambda>s. \<not> marked s) servers
        = filter (\<lambda>s. \<not> marked s) (take pos servers) @ filter (\<lambda>s. \<not> marked s) (drop (Suc pos) servers)"
      using pos(2) by (metis (no_types, lifting) filter.simps(2) filter_append)
    then show ?thesis
      using Some False pos assms by (simp add: add_update_server_def same_server_def difference_unmarked)
  qed
qed

lemma add_updates_unmarked:
  "list_all (\<lambda>s. \<not> marked s) fresh \<Longrightarrow> list_all2 same_server (filter (\<lambda>s. \<not> marked s) servers) kept \<Longrightarrow>
   list_all2 same_server (filter (\<lambda>s. \<not> marked s) (foldl add_update_server servers fresh))
     (kept @ map (\<lambda>s. s\<lparr>sv_domain := trim_start_dots (sv_domain s)\<rparr>) fresh)"
proof (induction fresh arbitrary: servers kept)
  case (Cons s fresh)
  then obtain x where x: "filter (\<lambda>s. \<not> marked s) (add_update_server servers s) = filter (\<lambda>s. \<not> marked s) servers @ [x]"
    "same_server x (s\<lparr>sv_domain := trim_start_dots (sv_domain s)\<rparr>)"
    using add_update_unmarked [of s servers] by auto
  then show ?case
    using Cons.IH [of "add_update_server servers s" "kept @ [s\<lparr>sv_domain := trim_start_dots (sv_domain s)\<rparr>]"] Cons.prems
    by (simp add: list_all2_appendI)
qed simp

section \<open>Properties\<close>

text \<open>C5: the lookup in the array built from any servers and local domains never panics on an ASCII query and yields
  what the plain scan over the suffixes of the query yields, from the longest suffix to the empty
  one: the binary search, the lower bound it keeps between rounds and the lengths it jumps over
  lose nothing.\<close>

theorem server_lookup_correct:
  assumes "servers_wf servers" "servers_wf local_domains" "is_ascii query"
  shows "sa_lookup (server_array_build servers local_domains) query flags
    = Done (lookup_spec (server_array_build servers local_domains) query flags)"
  using sa_lookup_spec [OF build_array_ok [OF assms(1,2)] assms(3)] .

definition demo_addr :: my_sock_addr where
  "demo_addr = SockV4 1 53"

definition demo_server :: "string \<Rightarrow> serv_flags \<Rightarrow> server" where
  "demo_server domain flags =
     \<lparr>sv_flags = flags, sv_domain = str_lit domain, sv_addr = demo_addr, sv_source_addr = demo_addr, sv_interface = [],
      sv_ifindex = 0, sv_queries = 0, sv_failed_queries = 0, sv_nxdomain_replies = 0, sv_retrys = 0,
      sv_query_latency = 0, sv_mma_latency = 0, sv_forwardtime = None, sv_forwardcount = 0, sv_tcpfd = 0,
      sv_serial = 0, sv_arrayposn = 0, sv_last_server = 0, sv_uid = 0\<rparr>"

definition demo_servers :: "server list" where
  "demo_servers = [demo_server '''' 0, demo_server ''ab'' 0, demo_server ''ab'' SERV_WILDCARD]"

lemma demo_servers_wf: "servers_wf demo_servers" "servers_wf []"
  by code_simp+

theorem server_lookup_correct_witness:
  "sa_lookup (server_array_build demo_servers []) (str_lit ''x.ab'') 0 = Done (Some (0, 2))
   \<and> sa_lookup (server_array_build demo_servers []) (str_lit ''cd'') 0 = Done (Some (2, 3))"
proof -
  have "is_ascii (str_lit ''x.ab'')" "is_ascii (str_lit ''cd'')"
    "lookup_spec (server_array_build demo_servers []) (str_lit ''x.ab'') 0 = Some (0, 2)"
    "lookup_spec (server_array_build demo_servers []) (str_lit ''cd'') 0 = Some (2, 3)"
    by code_simp+
  with server_lookup_correct [OF demo_servers_wf] show ?thesis by simp
qed

text \<open>C19: whatever range of servers a lookup returns lies inside the array and is not empty, and its servers are
  those for single-label names or all have the same domain, which is a suffix of the query: at a
  label boundary, or anywhere if that domain has a wildcard server.\<close>

theorem looked_up_servers_match:
  assumes "servers_wf servers" "servers_wf local_domains" "is_ascii query" "flags AND F_DS = 0"
    and "arr = server_array_build servers local_domains" "sa_lookup arr query flags = Done (Some (a, b))"
  shows "a < b \<and> b \<le> sa_len arr
    \<and> ((\<forall>k \<in> {a..<b}. contains (se_flags (sa_entries arr ! k)) SERV_FOR_NODOTS)
       \<or> (\<exists>i \<le> length query. eligible arr query i
            \<and> (\<forall>k \<in> {a..<b}. hostname_isequal (drop i query) (se_domain (sa_entries arr ! k)))))"
proof -
  have ok: "array_ok arr" using build_array_ok [OF assms(1,2)] assms(5) by simp
  have "lookup_spec arr query flags = Some (a, b)" using sa_lookup_spec [OF ok assms(3)] assms(6) by simp
  note found = lookup_spec_found [OF ok this assms(4)]
  have eq: "hostname_isequal q (se_domain (sa_entries arr ! k))"
    if "entry_key (sa_entries arr ! k) = query_key q" "k < length (sa_entries arr)" for q k
    using array_ok_wf [OF ok that(2)] that(1)
    by (simp add: entry_key_def query_key_def entry_wf_def hostname_isequal_def hostname_order_key)
  have "\<exists>i \<le> length query. eligible arr query i
      \<and> (\<forall>k \<in> {a..<b}. hostname_isequal (drop i query) (se_domain (sa_entries arr ! k)))"
    if e: "\<exists>i \<le> length query. eligible arr query i
      \<and> (\<forall>k \<in> {a..<b}. entry_key (sa_entries arr ! k) = query_key (drop i query))"
  proof -
    from e obtain i where i: "i \<le> length query" "eligible arr query i"
      "\<And>k. k \<in> {a..<b} \<Longrightarrow> entry_key (sa_entries arr ! k) = query_key (drop i query)" by blast
    have "hostname_isequal (drop i query) (se_domain (sa_entries arr ! k))" if k: "k \<in> {a..<b}" for k
      using eq [OF i(3) [OF k]] found k by simp
    with i(1,2) show ?thesis by blast
  qed
  with found show ?thesis unfolding sa_len_def by blast
qed

theorem looked_up_servers_match_witness:
  "\<exists>i \<le> length (str_lit ''x.ab''). \<forall>k \<in> {0..<2}. hostname_isequal (drop i (str_lit ''x.ab''))
     (se_domain (sa_entries (server_array_build demo_servers []) ! k))"
proof -
  have f: "is_ascii (str_lit ''x.ab'')" "sa_lookup (server_array_build demo_servers []) (str_lit ''x.ab'') 0 = Done (Some (0, 2))"
    "\<not> contains (se_flags (sa_entries (server_array_build demo_servers []) ! 0)) SERV_FOR_NODOTS"
    by code_simp+
  from looked_up_servers_match [OF demo_servers_wf f(1) _ refl f(2)] f(3) show ?thesis by force
qed

text \<open>C28: after the servers from one source are marked, the freshly read ones added and the stale ones swept, the
  list is, in order, the servers from other sources and then exactly the fresh ones, whether or
  not their entries were reused.\<close>

theorem reload_keeps_configured_servers:
  assumes "list_all (\<lambda>s. \<not> contains (sv_flags s) SERV_MARK) fresh"
  shows "list_all2 same_server
    (cleanup_servers (foldl add_update_server (mark_servers servers flag) fresh))
    (map (\<lambda>s. s\<lparr>sv_flags := difference (sv_flags s) SERV_MARK\<rparr>) (filter (\<lambda>s. \<not> intersects (sv_flags s) flag) servers)
     @ map (\<lambda>s. s\<lparr>sv_domain := trim_start_dots (sv_domain s)\<rparr>) fresh)"
  unfolding cleanup_servers_def
  using add_updates_unmarked [OF assms, of "mark_servers servers flag"]
  by (simp add: unmarked_after_mark list.rel_refl)

theorem reload_keeps_configured_servers_witness:
  "list_all2 same_server
    (cleanup_servers (foldl add_update_server (mark_servers [demo_server ''b'' 0, demo_server ''a'' SERV_LOOP] SERV_LOOP)
       [demo_server ''.A'' SERV_LOOP]))
    [demo_server ''b'' 0, demo_server ''A'' SERV_LOOP]"
proof -
  have "list_all (\<lambda>s. \<not> contains (sv_flags s) SERV_MARK) [demo_server ''.A'' SERV_LOOP]"
    "map (\<lambda>s. s\<lparr>sv_flags := difference (sv_flags s) SERV_MARK\<rparr>)
       (filter (\<lambda>s. \<not> intersects (sv_flags s) SERV_LOOP) [demo_server ''b'' 0, demo_server ''a'' SERV_LOOP])
     @ map (\<lambda>s. s\<lparr>sv_domain := trim_start_dots (sv_domain s)\<rparr>) [demo_server ''.A'' SERV_LOOP]
     = [demo_server ''b'' 0, demo_server ''A'' SERV_LOOP]"
    by code_simp+
  with reload_keeps_configured_servers [of "[demo_server ''.A'' SERV_LOOP]" "[demo_server ''b'' 0, demo_server ''a'' SERV_LOOP]" SERV_LOOP]
  show ?thesis by simp
qed

section \<open>Deviations\<close>

text \<open>
  Off a label boundary only a wildcard server may match, but the range returned is the whole
  group: the query \<open>xab\<close> is also sent to the plain server for \<open>ab\<close>, the first of the two.
\<close>

lemma wildcard_match_includes_plain_server:
  "sa_lookup (server_array_build demo_servers []) (str_lit ''xab'') 0 = Done (Some (0, 2))
   \<and> \<not> contains (se_flags (sa_entries (server_array_build demo_servers []) ! 0)) SERV_WILDCARD"
  by code_simp

text \<open>
  With a wildcard server the query is cropped at any octet, inside a character too: the query
  for the character U+00E9 panics.
\<close>

lemma wildcard_lookup_panics:
  "sa_lookup (server_array_build [demo_server ''a'' SERV_WILDCARD] []) [0xC3, 0xA9] 0 = Panic"
  by code_simp

end
