(* ===== verification/Synth_Domain.thy ===== *)
theory Synth_Domain
  imports Addr_Net
begin

unbundle bit_operations_syntax

text \<open>
  Names synthesised from addresses and addresses read back from such names, \<open>src/domain.rs\<close>
  (\<open>--synth-domain\<close>), and the domain that belongs to an address. The textual forms of addresses
  follow the standard library: \<open>Ipv4Addr\<close> is printed in dotted decimal and parsed without
  leading zeros, \<open>Ipv6Addr\<close> is parsed from groups of up to four hexadecimal digits with at most
  one \<open>::\<close>. The text parsed for IPv6 never contains a dot, so the form with an embedded IPv4
  address does not arise.
\<close>

section \<open>Addresses as text\<close>

definition ipv4_to_string :: "ipv4 \<Rightarrow> rstr" where
  "ipv4_to_string a = join [DOT] (map (\<lambda>b. dec_digits (unat b)) (octets4 a))"

definition parse_octet :: "rstr \<Rightarrow> u8 option" where
  "parse_octet s =
     (if s = [] \<or> length s > 3 \<or> (length s > 1 \<and> hd s = 48) then None
      else (case dec_value 0 s of
              None \<Rightarrow> None
            | Some n \<Rightarrow> if n \<le> 255 then Some (word_of_nat n) else None))"

definition parse_ipv4 :: "rstr \<Rightarrow> ipv4 option" where
  "parse_ipv4 s =
     (if length s > 15 then None
      else let parts = split_on DOT s
           in if length parts = 4 then map_option ipv4_of (those (map parse_octet parts)) else None)"

text \<open>\<open>str::parse\<close> of an unsigned integer: an optional sign, then decimal digits.\<close>

definition parse_uint :: "nat \<Rightarrow> rstr \<Rightarrow> nat option" where
  "parse_uint max_value s =
     (let ds = (if s \<noteq> [] \<and> hd s = 43 then tl s else s)
      in if ds = [] then None
         else (case dec_value 0 ds of
                 None \<Rightarrow> None
               | Some n \<Rightarrow> if n \<le> max_value then Some n else None))"

fun hex_number :: "nat \<Rightarrow> rstr \<Rightarrow> nat" where
  "hex_number acc [] = acc"
| "hex_number acc (b # bs) = hex_number (acc * 16 + (case hex_value b of None \<Rightarrow> 0 | Some n \<Rightarrow> n)) bs"

definition read_group :: "rstr \<Rightarrow> (u16 \<times> rstr) option" where
  "read_group s =
     (let ds = takeWhile (\<lambda>b. hex_value b \<noteq> None) s
      in if ds = [] \<or> length ds > 4 then None
         else Some (word_of_nat (hex_number 0 ds), drop (length ds) s))"

definition read_separated :: "nat \<Rightarrow> rstr \<Rightarrow> (u16 \<times> rstr) option" where
  "read_separated i s =
     (if i > 0 then if s \<noteq> [] \<and> hd s = 58 then read_group (tl s) else None
      else read_group s)"

fun read_groups :: "nat \<Rightarrow> nat \<Rightarrow> rstr \<Rightarrow> u16 list \<times> rstr" where
  "read_groups 0 i s = ([], s)"
| "read_groups (Suc limit) i s =
     (case read_separated i s of
        None \<Rightarrow> ([], s)
      | Some (g, r) \<Rightarrow> (case read_groups limit (Suc i) r of (gs, r') \<Rightarrow> (g # gs, r')))"

definition ipv6_of_groups :: "u16 list \<Rightarrow> ipv6" where
  "ipv6_of_groups gs = ipv6_of (concat (map to_be16 gs))"

definition parse_ipv6 :: "rstr \<Rightarrow> ipv6 option" where
  "parse_ipv6 s =
     (case read_groups 8 0 s of
        (front, r) \<Rightarrow>
          if length front = 8 then if r = [] then Some (ipv6_of_groups front) else None
          else (case r of
                  c1 # c2 # r1 \<Rightarrow>
                    if c1 = 58 \<and> c2 = 58 then
                      (case read_groups (8 - (length front + 1)) 0 r1 of
                         (back, r2) \<Rightarrow>
                           if r2 = [] then
                             Some (ipv6_of_groups (front @ replicate (8 - length front - length back) 0 @ back))
                           else None)
                    else None
                | _ \<Rightarrow> None))"

section \<open>Conditional domains\<close>

definition ADDRLIST_IPV6 :: u32 where
  "ADDRLIST_IPV6 = 2"

text \<open>\<open>SystemTime\<close> is a number of seconds.\<close>

record addrlist =
  al_addr :: all_addr
  al_flags :: u32
  al_prefixlen :: int
  al_decline_time :: "nat option"

record cond_domain =
  cd_domain :: rstr
  cd_prefix :: "rstr option"
  cd_interface :: "rstr option"
  cd_al :: "addrlist list"
  cd_start :: ipv4
  cd_end :: ipv4
  cd_start6 :: ipv6
  cd_end6 :: ipv6
  cd_is6 :: bool
  cd_indexed :: bool
  cd_prefixlen :: u32

definition ipv4_in_range :: "ipv4 \<Rightarrow> ipv4 \<Rightarrow> ipv4 \<Rightarrow> bool" where
  "ipv4_in_range addr start end_addr \<longleftrightarrow> addr \<ge> start \<and> addr \<le> end_addr"

definition ipv6_low64 :: "ipv6 \<Rightarrow> u64" where
  "ipv6_low64 addr = word_of_nat (be_nat (drop 8 (octets6 addr)))"

definition ipv6_set_low64 :: "ipv6 \<Rightarrow> u64 \<Rightarrow> ipv6" where
  "ipv6_set_low64 base low = ipv6_of (copy_at (octets6 base) 8 (nat_be 8 (unat low)))"

definition ipv6_in_range :: "ipv6 \<Rightarrow> ipv6 \<Rightarrow> ipv6 \<Rightarrow> bool" where
  "ipv6_in_range addr start end_addr \<longleftrightarrow>
     ipv6_low64 addr \<ge> ipv6_low64 start \<and> ipv6_low64 addr \<le> ipv6_low64 end_addr"

text \<open>\<open>str::split_once('.')\<close>, and \<open>str::replace\<close> of one ASCII character by another.\<close>

definition split_once :: "rstr \<Rightarrow> (rstr \<times> rstr) option" where
  "split_once s =
     (if DOT \<in> set s then Some (takeWhile (\<lambda>b. b \<noteq> DOT) s, drop 1 (dropWhile (\<lambda>b. b \<noteq> DOT) s)) else None)"

definition replace_octet :: "u8 \<Rightarrow> u8 \<Rightarrow> rstr \<Rightarrow> rstr" where
  "replace_octet old new s = map (\<lambda>b. if b = old then new else b) s"

text \<open>\<open>split_at\<close> panics inside a character.\<close>

definition strip_prefix_ci :: "rstr \<Rightarrow> rstr option \<Rightarrow> rstr option exec" where
  "strip_prefix_ci name prefix =
     (case prefix of
        None \<Rightarrow> Done (Some name)
      | Some p \<Rightarrow>
          if length name < length p then Done None
          else if \<not> is_char_boundary name (length p) then Panic
          else Done (if eq_ignore_ascii_case (take (length p) name) p then Some (drop (length p) name) else None))"

section \<open>From names to addresses\<close>

text \<open>The label and the domain of a tail, when the domain is that of \<open>c\<close>.\<close>

definition synth_label :: "cond_domain \<Rightarrow> rstr \<Rightarrow> rstr option" where
  "synth_label c tail =
     (case split_once tail of
        None \<Rightarrow> None
      | Some (label, rest) \<Rightarrow> if eq_ignore_ascii_case rest (cd_domain c) then Some label else None)"

text \<open>The size of a range is computed as a release build does: when the end lies in front of the start, the
  subtraction wraps around, where a debug build panics.\<close>

definition try_synth_ipv4 :: "rstr \<Rightarrow> cond_domain \<Rightarrow> ipv4 option exec" where
  "try_synth_ipv4 name c =
     bind_exec (strip_prefix_ci name (cd_prefix c)) (\<lambda>tail. Done
       (case Option.bind tail (synth_label c) of
          None \<Rightarrow> None
        | Some label \<Rightarrow>
            if cd_indexed c then
              (case parse_uint (2 ^ 32 - 1) label of
                 None \<Rightarrow> None
               | Some n \<Rightarrow> let idx = word_of_nat n :: u32
                           in if idx \<le> cd_end c - cd_start c then Some (cd_start c + idx) else None)
            else
              (case parse_ipv4 (replace_octet 45 DOT label) of
                 None \<Rightarrow> None
               | Some addr \<Rightarrow> if ipv4_in_range addr (cd_start c) (cd_end c) then Some addr else None)))"

fun synthesize_ipv4 :: "rstr \<Rightarrow> cond_domain list \<Rightarrow> ipv4 option exec" where
  "synthesize_ipv4 name [] = Done None"
| "synthesize_ipv4 name (c # cs) =
     (if cd_is6 c then synthesize_ipv4 name cs
      else bind_exec (try_synth_ipv4 name c) (\<lambda>r.
             case r of None \<Rightarrow> synthesize_ipv4 name cs | Some addr \<Rightarrow> Done (Some addr)))"

definition try_synth_ipv6 :: "rstr \<Rightarrow> cond_domain \<Rightarrow> ipv6 option exec" where
  "try_synth_ipv6 name c =
     bind_exec (strip_prefix_ci name (cd_prefix c)) (\<lambda>tail. Done
       (case Option.bind tail (synth_label c) of
          None \<Rightarrow> None
        | Some label \<Rightarrow>
            if cd_indexed c then
              (case parse_uint (2 ^ 64 - 1) label of
                 None \<Rightarrow> None
               | Some n \<Rightarrow> let idx = word_of_nat n; start = ipv6_low64 (cd_start6 c)
                           in if idx \<le> ipv6_low64 (cd_end6 c) - start
                              then Some (ipv6_set_low64 (cd_start6 c) (start + idx)) else None)
            else
              (case parse_ipv6 (replace_octet 45 58 label) of
                 None \<Rightarrow> None
               | Some addr \<Rightarrow> if ipv6_in_range addr (cd_start6 c) (cd_end6 c) then Some addr else None)))"

fun synthesize_ipv6 :: "rstr \<Rightarrow> cond_domain list \<Rightarrow> ipv6 option exec" where
  "synthesize_ipv6 name [] = Done None"
| "synthesize_ipv6 name (c # cs) =
     (if \<not> cd_is6 c then synthesize_ipv6 name cs
      else bind_exec (try_synth_ipv6 name c) (\<lambda>r.
             case r of None \<Rightarrow> synthesize_ipv6 name cs | Some addr \<Rightarrow> Done (Some addr)))"

section \<open>From addresses to names\<close>

definition prefix_or_empty :: "cond_domain \<Rightarrow> rstr" where
  "prefix_or_empty c = (case cd_prefix c of None \<Rightarrow> [] | Some p \<Rightarrow> p)"

definition synth_name4 :: "ipv4 \<Rightarrow> cond_domain \<Rightarrow> rstr" where
  "synth_name4 addr c =
     prefix_or_empty c
     @ (if cd_indexed c then dec_digits (unat (addr - cd_start c))
        else replace_octet DOT 45 (ipv4_to_string addr))
     @ [DOT] @ cd_domain c"

fun rev_synth_ipv4 :: "ipv4 \<Rightarrow> cond_domain list \<Rightarrow> rstr option" where
  "rev_synth_ipv4 addr [] = None"
| "rev_synth_ipv4 addr (c # cs) =
     (if cd_is6 c then rev_synth_ipv4 addr cs
      else if \<not> ipv4_in_range addr (cd_start c) (cd_end c) then rev_synth_ipv4 addr cs
      else Some (synth_name4 addr c))"

definition hex_pair :: "u8 \<Rightarrow> rstr" where
  "hex_pair b = [hex_digit (unat b div 16), hex_digit (unat b mod 16)]"

definition hex_groups :: "ipv6 \<Rightarrow> rstr list" where
  "hex_groups addr =
     map (\<lambda>i. hex_pair (octets6 addr ! (i * 2)) @ hex_pair (octets6 addr ! (i * 2 + 1))) [0..<8]"

definition synth_name6 :: "ipv6 \<Rightarrow> cond_domain \<Rightarrow> rstr" where
  "synth_name6 addr c =
     prefix_or_empty c
     @ (if cd_indexed c then dec_digits (unat (ipv6_low64 addr - ipv6_low64 (cd_start6 c)))
        else join [45] (hex_groups addr))
     @ [DOT] @ cd_domain c"

fun rev_synth_ipv6 :: "ipv6 \<Rightarrow> cond_domain list \<Rightarrow> rstr option" where
  "rev_synth_ipv6 addr [] = None"
| "rev_synth_ipv6 addr (c # cs) =
     (if \<not> cd_is6 c then rev_synth_ipv6 addr cs
      else if \<not> ipv6_in_range addr (cd_start6 c) (cd_end6 c) then rev_synth_ipv6 addr cs
      else Some (synth_name6 addr c))"

section \<open>The domain of an address\<close>

definition match_domain :: "ipv4 \<Rightarrow> cond_domain \<Rightarrow> bool" where
  "match_domain addr c =
     (if cd_interface c \<noteq> None then
        list_ex (\<lambda>al. al_flags al AND ADDRLIST_IPV6 = 0
                   \<and> (case as_ipv4 (al_addr al) of
                        None \<Rightarrow> False
                      | Some a \<Rightarrow> is_same_net_prefix addr a (nat (min (max (al_prefixlen al) 0) 32)))) (cd_al c)
      else if \<not> cd_is6 c then addr \<ge> cd_start c \<and> addr \<le> cd_end c
      else False)"

definition search_domain :: "ipv4 \<Rightarrow> cond_domain list \<Rightarrow> cond_domain option" where
  "search_domain addr domains = find (match_domain addr) domains"

definition get_domain :: "ipv4 \<Rightarrow> cond_domain list \<Rightarrow> rstr \<Rightarrow> rstr" where
  "get_domain addr domains fallback =
     (case search_domain addr domains of Some c \<Rightarrow> cd_domain c | None \<Rightarrow> fallback)"

text \<open>The prefix lengths given to \<open>is_same_net6\<close> are at most 128, where it never panics.\<close>

definition match_domain6 :: "ipv6 \<Rightarrow> cond_domain \<Rightarrow> bool" where
  "match_domain6 addr c =
     (if cd_interface c \<noteq> None then
        list_ex (\<lambda>al. al_flags al AND ADDRLIST_IPV6 \<noteq> 0
                   \<and> (case as_ipv6 (al_addr al) of
                        None \<Rightarrow> False
                      | Some a \<Rightarrow> is_same_net6 addr a (nat (min (max (al_prefixlen al) 0) 128)) = Done True)) (cd_al c)
      else if cd_is6 c then
        if cd_prefixlen c \<ge> 64 then
          is_same_net6 addr (cd_start6 c) 64 = Done True
          \<and> ipv6_low64 addr \<ge> ipv6_low64 (cd_start6 c) \<and> ipv6_low64 addr \<le> ipv6_low64 (cd_end6 c)
        else is_same_net6 addr (cd_start6 c) (unat (cd_prefixlen c)) = Done True
      else False)"

definition search_domain6 :: "ipv6 \<Rightarrow> cond_domain list \<Rightarrow> cond_domain option" where
  "search_domain6 addr domains = find (match_domain6 addr) domains"

definition get_domain6 :: "ipv6 \<Rightarrow> cond_domain list \<Rightarrow> rstr \<Rightarrow> rstr" where
  "get_domain6 addr domains fallback =
     (case search_domain6 addr domains of Some c \<Rightarrow> cd_domain c | None \<Rightarrow> fallback)"

section \<open>Text round trips\<close>

lemma hex_digit_nonzero: "0 < k \<Longrightarrow> k < 10 \<Longrightarrow> hex_digit k \<noteq> 48"
proof
  assume "0 < k" "k < 10" "hex_digit k = 48"
  then have "unat (hex_digit k) = unat (48 :: u8)" by simp
  with \<open>0 < k\<close> \<open>k < 10\<close> show False by (simp add: unat_hex_digit)
qed

lemma dec_digits_lead: "10 \<le> n \<Longrightarrow> hd (dec_digits n) \<noteq> 48"
proof (induction n rule: dec_digits.induct)
  case (1 n)
  then have step: "dec_digits n = dec_digits (n div 10) @ [hex_digit (n mod 10)]" by (simp add: dec_digits.simps [of n])
  show ?case
  proof (cases "n div 10 < 10")
    case True
    moreover have "0 < n div 10" using 1(2) by simp
    ultimately show ?thesis by (simp add: step dec_digits.simps [of "n div 10"] hex_digit_nonzero)
  next
    case False
    with 1 show ?thesis by (simp add: step)
  qed
qed

lemma dec_digits_length: "n < 10 ^ Suc k \<Longrightarrow> length (dec_digits n) \<le> Suc k"
proof (induction k arbitrary: n)
  case 0
  then show ?case by (simp add: dec_digits.simps [of n])
next
  case (Suc k)
  then have "n div 10 < 10 ^ Suc k" by (simp add: less_mult_imp_div_less)
  with Suc.IH [of "n div 10"] show ?case by (simp add: dec_digits.simps [of n])
qed

lemma dec_digits_single: "n < 10 \<Longrightarrow> length (dec_digits n) = 1"
  by (simp add: dec_digits.simps [of n])

lemma digit_not:
  "b \<in> set (dec_digits n) \<Longrightarrow> b \<noteq> DOT \<and> b \<noteq> 45 \<and> b \<noteq> 43 \<and> b < 128"
  using dec_digits_set [of b n] order.strict_trans1 [of b 57 128] by (auto simp: is_ascii_digit_def)

lemma length_octet_digits: "length (dec_digits (unat (b :: u8))) \<le> 3"
  using dec_digits_length [of "unat b" 2] unat_u8 [of b] by simp

lemma parse_octet_digits: "parse_octet (dec_digits (unat b)) = Some b"
proof -
  have "unat b \<le> 255" using unat_u8 [of b] by linarith
  moreover have "\<not> (1 < length (dec_digits (unat b)) \<and> hd (dec_digits (unat b)) = 48)"
    using dec_digits_lead [of "unat b"] dec_digits_single [of "unat b"] by (cases "unat b < 10") auto
  moreover have "\<not> 3 < length (dec_digits (unat b))" using length_octet_digits [of b] by simp
  ultimately show ?thesis by (auto simp: parse_octet_def dec_value_digits)
qed

lemma parse_ipv4_to_string: "parse_ipv4 (ipv4_to_string a) = Some a"
proof -
  let ?ls = "map (\<lambda>b. dec_digits (unat b)) (octets4 a)"
  have "split_on DOT (join [DOT] ?ls) = ?ls" using digit_not by (intro split_digits) (auto simp: octets4_def to_be32_def)
  moreover obtain w x y z where "octets4 a = [w, x, y, z]" by (simp add: octets4_def to_be32_def)
  then have "length (join [DOT] ?ls) \<le> 15"
    using length_octet_digits [of w] length_octet_digits [of x] length_octet_digits [of y] length_octet_digits [of z]
    by simp
  moreover have "those (map parse_octet ?ls) = Some (octets4 a)"
    using those_map_Some [of "octets4 a"] by (simp add: parse_octet_digits comp_def)
  ultimately show ?thesis by (simp add: parse_ipv4_def ipv4_to_string_def)
qed

lemma parse_uint_digits: "n \<le> m \<Longrightarrow> parse_uint m (dec_digits n) = Some n"
proof -
  assume "n \<le> m"
  have "hd (dec_digits n) \<noteq> 43" using digit_not [of "hd (dec_digits n)" n] by simp
  then show ?thesis using \<open>n \<le> m\<close> by (simp add: parse_uint_def dec_value_digits)
qed

lemma replace_absent: "old \<notin> set s \<Longrightarrow> replace_octet old new s = s"
  by (induction s) (auto simp: replace_octet_def)

lemma replace_back: "new \<notin> set s \<Longrightarrow> replace_octet new old (replace_octet old new s) = s"
  by (induction s) (auto simp: replace_octet_def)

lemma replace_join:
  "\<forall>l \<in> set ls. old \<notin> set l \<Longrightarrow> replace_octet old new (join [old] ls) = join [new] ls"
proof (induction ls rule: induct_list012)
  case (3 l m ls)
  then show ?case using replace_absent [of old l new] by (simp add: replace_octet_def)
next
  case (2 l)
  then show ?case by (simp add: replace_absent)
qed (simp add: replace_octet_def)

section \<open>Groups of hexadecimal digits\<close>

definition hex4 :: "u8 \<Rightarrow> u8 \<Rightarrow> rstr" where
  "hex4 a b = hex_pair a @ hex_pair b"

lemma nibble_bounds: "unat (b :: u8) div 16 < 16" "unat b mod 16 < 16"
  using unat_u8 [of b] by (simp_all add: less_mult_imp_div_less)

lemma hex_digit_not:
  assumes "n < 16"
  shows "hex_digit n \<noteq> DOT \<and> hex_digit n \<noteq> 45 \<and> hex_digit n < 128"
proof -
  have "unat (hex_digit n) \<noteq> 46" "unat (hex_digit n) \<noteq> 45" "unat (hex_digit n) < 128"
    using assms by (simp_all add: unat_hex_digit)
  then show ?thesis by (auto simp: word_less_nat_alt)
qed

lemma hex4_not: "x \<in> set (hex4 a b) \<Longrightarrow> x \<noteq> DOT \<and> x \<noteq> 45 \<and> x < 128"
  using nibble_bounds [of a] nibble_bounds [of b] hex_digit_not by (auto simp: hex4_def hex_pair_def)

lemma hex_number_hex4: "hex_number 0 (hex4 a b) = unat a * 256 + unat b"
  using nibble_bounds [of a] nibble_bounds [of b] div_mult_mod_eq [of "unat a" 16] div_mult_mod_eq [of "unat b" 16]
  by (simp add: hex4_def hex_pair_def)

lemma read_group_hex4:
  assumes "r = [] \<or> hex_value (hd r) = None"
  shows "read_group (hex4 a b @ r) = Some (from_be16 a b, r)"
proof -
  have "takeWhile (\<lambda>b. hex_value b \<noteq> None) (hex4 a b @ r) = hex4 a b"
    using nibble_bounds [of a] nibble_bounds [of b] assms by (cases r) (simp_all add: hex4_def hex_pair_def)
  moreover have "length (hex4 a b) = 4" by (simp add: hex4_def hex_pair_def)
  ultimately show ?thesis by (auto simp: read_group_def Let_def hex_number_hex4 from_be16_def)
qed

lemma read_groups_later:
  "0 < i \<Longrightarrow> read_groups (length ps) i (concat (map (\<lambda>(a, b). 58 # hex4 a b) ps))
     = (map (\<lambda>(a, b). from_be16 a b) ps, [])"
proof (induction ps arbitrary: i)
  case (Cons p ps)
  obtain a b where p: "p = (a, b)" by fastforce
  let ?r = "concat (map (\<lambda>(a, b). 58 # hex4 a b) ps)"
  have "hex_value 58 = None" by code_simp
  then have "?r = [] \<or> hex_value (hd ?r) = None" by (cases ps) auto
  then have "read_separated i (58 # hex4 a b @ ?r) = Some (from_be16 a b, ?r)"
    using Cons.prems read_group_hex4 by (simp add: read_separated_def)
  then show ?case using Cons.IH [of "Suc i"] by (simp add: p)
qed simp

lemma join_colon: "join [58] (hex4 a b # map (\<lambda>(a, b). hex4 a b) ps) = hex4 a b @ concat (map (\<lambda>(a, b). 58 # hex4 a b) ps)"
  by (induction ps arbitrary: a b) auto

lemma read_groups_join:
  "read_groups (Suc (length ps)) 0 (join [58] (hex4 a b # map (\<lambda>(a, b). hex4 a b) ps))
     = (from_be16 a b # map (\<lambda>(a, b). from_be16 a b) ps, [])"
proof -
  let ?r = "concat (map (\<lambda>(a, b). 58 # hex4 a b) ps)"
  have "hex_value 58 = None" by code_simp
  then have "?r = [] \<or> hex_value (hd ?r) = None" by (cases ps) auto
  then show ?thesis
    using read_groups_later [of "Suc 0" ps] by (simp add: join_colon read_separated_def read_group_hex4)
qed

text \<open>The octets of an address in pairs.\<close>

definition octet_pairs :: "ipv6 \<Rightarrow> (u8 \<times> u8) list" where
  "octet_pairs addr = map (\<lambda>i. (octets6 addr ! (i * 2), octets6 addr ! (i * 2 + 1))) [0..<8]"

lemma hex_groups_pairs: "hex_groups addr = map (\<lambda>(a, b). hex4 a b) (octet_pairs addr)"
  by (simp add: hex_groups_def octet_pairs_def hex4_def)

lemma pairs_octets: "ipv6_of_groups (map (\<lambda>(a, b). from_be16 a b) (octet_pairs addr)) = addr"
proof -
  have up: "[0..<8] = [0, 1, 2, 3, 4, 5, 6, 7 :: nat]" by code_simp
  have "concat (map to_be16 (map (\<lambda>(a, b). from_be16 a b) (octet_pairs addr))) = map ((!) (octets6 addr)) [0..<16]"
  proof -
    have "[0..<16] = [0, 1, 2, 3, 4, 5, 6, 7, 8, 9, 10, 11, 12, 13, 14, 15 :: nat]" by code_simp
    then show ?thesis by (simp add: octet_pairs_def up)
  qed
  also have "\<dots> = octets6 addr" using map_nth [of "octets6 addr"] by simp
  finally show ?thesis by (simp add: ipv6_of_groups_def)
qed

lemma parse_ipv6_groups: "parse_ipv6 (join [58] (hex_groups addr)) = Some addr"
proof -
  have len: "length (octet_pairs addr) = 8" by (simp add: octet_pairs_def)
  then obtain a b ps where ps: "octet_pairs addr = (a, b) # ps" by (cases "octet_pairs addr") auto
  with len have eight: "8 = Suc (length ps)" by simp
  have "read_groups 8 0 (join [58] (hex_groups addr)) = (map (\<lambda>(a, b). from_be16 a b) (octet_pairs addr), [])"
    unfolding eight hex_groups_pairs ps list.map prod.case by (rule read_groups_join)
  then show ?thesis using len pairs_octets by (simp add: parse_ipv6_def)
qed

section \<open>Names and addresses\<close>

lemma split_once_label: "DOT \<notin> set l \<Longrightarrow> split_once (l @ DOT # d) = Some (l, d)"
  by (induction l) (auto simp: split_once_def)

lemma synth_label_name: "DOT \<notin> set l \<Longrightarrow> synth_label c (l @ DOT # cd_domain c) = Some l"
  by (simp add: synth_label_def split_once_label)

lemma strip_prefix_name:
  assumes "l \<noteq> []" "hd l < 128"
  shows "strip_prefix_ci (prefix_or_empty c @ l @ r) (cd_prefix c) = Done (Some (l @ r))"
proof -
  have "is_char_boundary (p @ l @ r) (length p)" for p
    using assms by (cases l) (auto simp: is_char_boundary_def nth_append utf8_cont_def)
  then show ?thesis by (simp add: strip_prefix_ci_def prefix_or_empty_def split: option.split)
qed

lemma ipv4_text_octets: "x \<in> set (ipv4_to_string a) \<Longrightarrow> x \<noteq> 45 \<and> x < 128"
proof -
  have "x \<in> set (join [DOT] ls) \<Longrightarrow> (\<forall>l \<in> set ls. \<forall>y \<in> set l. y \<noteq> 45 \<and> y < 128) \<Longrightarrow> x \<noteq> 45 \<and> x < 128" for ls
    by (induction ls rule: induct_list012) auto
  then show "x \<in> set (ipv4_to_string a) \<Longrightarrow> x \<noteq> 45 \<and> x < 128"
    unfolding ipv4_to_string_def using digit_not by auto
qed

lemma digits_label: "DOT \<notin> set (dec_digits n)" "hd (dec_digits n) < 128"
  using digit_not [of _ n] hd_in_set [OF dec_digits_ne [of n]] by blast+

lemma word_sub_mono:
  assumes "s \<le> a" "a \<le> (e :: 'a::len word)"
  shows "a - s \<le> e - s"
proof -
  have "s \<le> e" using assms by (rule order.trans)
  then have "unat (a - s) = unat a - unat s" "unat (e - s) = unat e - unat s"
    using assms(1) by (simp_all add: unat_sub)
  with assms(2) show ?thesis by (simp add: word_le_nat_alt)
qed

lemma synth4_round_trip:
  assumes "ipv4_in_range addr (cd_start c) (cd_end c)"
  shows "try_synth_ipv4 (synth_name4 addr c) c = Done (Some addr)"
proof (cases "cd_indexed c")
  case True
  let ?n = "unat (addr - cd_start c)"
  have "?n < 2 ^ 32" using unsigned_less [of "addr - cd_start c"] by simp
  then have "?n \<le> 2 ^ 32 - 1" by linarith
  then have "parse_uint (2 ^ 32 - 1) (dec_digits ?n) = Some ?n" by (rule parse_uint_digits)
  moreover have "addr - cd_start c \<le> cd_end c - cd_start c"
    using assms word_sub_mono by (auto simp: ipv4_in_range_def)
  ultimately show ?thesis
    using strip_prefix_name [OF dec_digits_ne digits_label(2), of c] synth_label_name [OF digits_label(1), of c] True
    by (simp add: try_synth_ipv4_def synth_name4_def)
next
  case False
  let ?l = "replace_octet DOT 45 (ipv4_to_string addr)"
  have "ipv4_to_string addr \<noteq> []" by (simp add: ipv4_to_string_def octets4_def to_be32_def)
  then have l: "DOT \<notin> set ?l" "?l \<noteq> []" "hd ?l < 128"
    using ipv4_text_octets [of "hd (ipv4_to_string addr)" addr] by (auto simp: replace_octet_def hd_map)
  have "replace_octet 45 DOT ?l = ipv4_to_string addr" using ipv4_text_octets by (intro replace_back) auto
  then show ?thesis
    using strip_prefix_name [OF l(2,3), of c] synth_label_name [OF l(1), of c] False assms parse_ipv4_to_string
    by (simp add: try_synth_ipv4_def synth_name4_def)
qed

lemma low64_set: "take 8 (octets6 addr) = take 8 (octets6 base) \<Longrightarrow> ipv6_set_low64 base (ipv6_low64 addr) = addr"
proof -
  assume same: "take 8 (octets6 addr) = take 8 (octets6 base)"
  let ?d = "drop 8 (octets6 addr)"
  have "be_nat ?d < 256 ^ 8" using be_nat_less [of ?d] by simp
  then have "unat (ipv6_low64 addr) = be_nat ?d" by (simp add: ipv6_low64_def unat_of_nat)
  then have "nat_be 8 (unat (ipv6_low64 addr)) = ?d" using nat_be_be_nat [of ?d] by simp
  then have "copy_at (octets6 base) 8 (nat_be 8 (unat (ipv6_low64 addr))) = octets6 addr"
    using same append_take_drop_id [of 8 "octets6 addr"] by (simp add: copy_at_def)
  then show ?thesis by (simp add: ipv6_set_low64_def)
qed

lemma same_net64: "is_same_net6 a b 64 = Done True \<longleftrightarrow> take 8 (octets6 a) = take 8 (octets6 b)"
  by (simp add: is_same_net6_def Let_def)

lemma synth6_round_trip:
  assumes "ipv6_in_range addr (cd_start6 c) (cd_end6 c)" "cd_indexed c \<Longrightarrow> is_same_net6 addr (cd_start6 c) 64 = Done True"
  shows "try_synth_ipv6 (synth_name6 addr c) c = Done (Some addr)"
proof (cases "cd_indexed c")
  case True
  let ?n = "unat (ipv6_low64 addr - ipv6_low64 (cd_start6 c))"
  have "?n < 2 ^ 64" using unsigned_less [of "ipv6_low64 addr - ipv6_low64 (cd_start6 c)"] by simp
  then have "parse_uint (2 ^ 64 - 1) (dec_digits ?n) = Some ?n" by (intro parse_uint_digits) simp
  moreover have "ipv6_low64 addr - ipv6_low64 (cd_start6 c) \<le> ipv6_low64 (cd_end6 c) - ipv6_low64 (cd_start6 c)"
    using assms(1) word_sub_mono by (auto simp: ipv6_in_range_def)
  moreover have "ipv6_set_low64 (cd_start6 c) (ipv6_low64 addr) = addr"
    using low64_set assms(2) True by (simp add: same_net64)
  ultimately show ?thesis
    using strip_prefix_name [OF dec_digits_ne digits_label(2), of c] synth_label_name [OF digits_label(1), of c] True
    by (simp add: try_synth_ipv6_def synth_name6_def)
next
  case False
  let ?l = "join [45] (hex_groups addr)"
  have no: "\<forall>l \<in> set (hex_groups addr). DOT \<notin> set l \<and> 45 \<notin> set l"
    using hex4_not by (auto simp: hex_groups_pairs)
  have dot: "DOT \<notin> set (join [45] ls)" if "\<forall>l \<in> set ls. DOT \<notin> set l" for ls
    using that by (induction ls rule: induct_list012) auto
  obtain a b ls where "hex_groups addr = hex4 a b # ls"
    by (simp add: hex_groups_pairs octet_pairs_def upt_rec [of 0 8])
  then have l: "DOT \<notin> set ?l" "?l \<noteq> []" "hd ?l < 128"
    using dot no hex4_not [of "hd (hex4 a b)" a b] by (auto, (cases ls; simp add: hex4_def hex_pair_def)+)
  have "replace_octet 45 58 ?l = join [58] (hex_groups addr)" using no by (intro replace_join) blast
  then show ?thesis
    using strip_prefix_name [OF l(2,3), of c] synth_label_name [OF l(1), of c] False assms(1) parse_ipv6_groups
    by (simp add: try_synth_ipv6_def synth_name6_def)
qed

section \<open>Properties\<close>

text \<open>C21: with a single synthetic domain configured, a name synthesised from an address resolves back to that address, in
  the indexed and in the spelled-out form and with or without a prefix; for an indexed IPv6 range when the address lies in
  the /64 network of the start of the range. (An address of another network gets a name too, which resolves to a
  different address, as \<open>rev_synth_ignores_network\<close> shows.)\<close>

theorem synthesised_name_resolves:
  assumes "rev_synth_ipv4 addr [c] = Some name" "rev_synth_ipv6 addr6 [c6] = Some name6"
    and "cd_indexed c6 \<Longrightarrow> is_same_net6 addr6 (cd_start6 c6) 64 = Done True"
  shows "synthesize_ipv4 name [c] = Done (Some addr) \<and> synthesize_ipv6 name6 [c6] = Done (Some addr6)"
proof -
  have "ipv4_in_range addr (cd_start c) (cd_end c)" "\<not> cd_is6 c" "name = synth_name4 addr c"
    "ipv6_in_range addr6 (cd_start6 c6) (cd_end6 c6)" "cd_is6 c6" "name6 = synth_name6 addr6 c6"
    using assms(1,2) by (auto split: if_splits)
  then show ?thesis using synth4_round_trip [of addr c] synth6_round_trip [of addr6 c6] assms(3) by simp
qed

definition demo_cond :: cond_domain where
  "demo_cond =
     \<lparr>cd_domain = str_lit ''lan'', cd_prefix = Some (str_lit ''ip''), cd_interface = None, cd_al = [],
      cd_start = 10, cd_end = 20, cd_start6 = 1, cd_end6 = 9, cd_is6 = False, cd_indexed = True, cd_prefixlen = 0\<rparr>"

lemma drop_nat_be: "drop j (nat_be k n) = nat_be (k - j) n"
  by (rule nth_equalityI) (auto simp: nth_nat_be)

lemma unat_low64: "unat (ipv6_low64 a) = unat a mod 2 ^ 64"
proof -
  have "be_nat (drop 8 (octets6 a)) = unat a mod 2 ^ 64"
    by (simp add: octets6_def drop_nat_be be_nat_nat_be)
  then show ?thesis by (simp add: ipv6_low64_def unat_of_nat)
qed

lemma demo_low64: "ipv6_low64 1 = 1" "ipv6_low64 9 = 9" "ipv6_low64 5 = 5" "take 8 (octets6 5) = take 8 (octets6 1)"
  by (simp_all add: word_unat_eq_iff unat_low64 take_octets6_eq_iff)

theorem synthesised_name_resolves_witness:
  "synthesize_ipv4 (str_lit ''ip2.lan'') [demo_cond] = Done (Some 12)
   \<and> synthesize_ipv6 (str_lit ''ip4.lan'') [demo_cond\<lparr>cd_is6 := True\<rparr>] = Done (Some 5)"
proof -
  have "dec_digits 2 = [50]" "dec_digits 4 = [52]" by code_simp+
  then have "rev_synth_ipv4 12 [demo_cond] = Some (str_lit ''ip2.lan'')"
    "rev_synth_ipv6 5 [demo_cond\<lparr>cd_is6 := True\<rparr>] = Some (str_lit ''ip4.lan'')"
    by (simp_all add: demo_cond_def ipv4_in_range_def ipv6_in_range_def demo_low64 synth_name4_def synth_name6_def
        prefix_or_empty_def str_lit_def)
  from synthesised_name_resolves [OF this] show ?thesis
    using demo_low64 by (simp add: demo_cond_def same_net64)
qed

section \<open>Deviations\<close>

text \<open>
  Only the low 64 bits of an IPv6 address are compared with a range: an address of another
  network gets a synthesised name, and that name resolves to a different address.
\<close>

lemma rev_synth_ignores_network:
  "rev_synth_ipv6 (5 + push_bit 64 1) [demo_cond\<lparr>cd_is6 := True\<rparr>] = Some (str_lit ''ip4.lan'')
   \<and> synthesize_ipv6 (str_lit ''ip4.lan'') [demo_cond\<lparr>cd_is6 := True\<rparr>] = Done (Some 5)"
proof -
  have "ipv6_low64 (5 + push_bit 64 1) = 5" by (simp add: word_unat_eq_iff unat_low64)
  moreover have "dec_digits 4 = [52]" by code_simp
  ultimately have "rev_synth_ipv6 (5 + push_bit 64 1) [demo_cond\<lparr>cd_is6 := True\<rparr>] = Some (str_lit ''ip4.lan'')"
    by (simp add: demo_cond_def ipv6_in_range_def demo_low64 synth_name6_def prefix_or_empty_def str_lit_def)
  moreover have "synthesize_ipv6 (synth_name6 5 (demo_cond\<lparr>cd_is6 := True\<rparr>)) [demo_cond\<lparr>cd_is6 := True\<rparr>] = Done (Some 5)"
    using synth6_round_trip [of 5 "demo_cond\<lparr>cd_is6 := True\<rparr>"] demo_low64
    by (simp add: demo_cond_def ipv6_in_range_def same_net64)
  moreover have "synth_name6 5 (demo_cond\<lparr>cd_is6 := True\<rparr>) = str_lit ''ip4.lan''"
    using \<open>dec_digits 4 = [52]\<close>
    by (simp add: demo_cond_def demo_low64 synth_name6_def prefix_or_empty_def str_lit_def)
  ultimately show ?thesis by simp
qed

text \<open>A prefix is split off at its length without regard to characters: the query U+00E9 panics.\<close>

lemma synth_prefix_panics:
  "synthesize_ipv4 [0xC3, 0xA9] [demo_cond\<lparr>cd_prefix := Some (str_lit ''x'')\<rparr>] = Panic"
  by code_simp

end
