(* ===== verification/Local_Answer.thy ===== *)
theory Local_Answer
  imports Extract Domain_Match Synth_Domain
begin

unbundle bit_operations_syntax

text \<open>
  Answering a query from the configuration and the cache, \<open>answer_request\<close> of \<^verbatim>\<open>rfc1035.rs\<close> with
  its stages: the CNAME chain, TXT and arbitrary records, reverse and forward addresses, MX, SRV
  and NAPTR records, domains answered with a literal address, and the refusal to forward
  single-label names. The query log is not modelled; it changes no state. The static metric
  counters are those of the cache state.
\<close>

section \<open>Configured records\<close>

record mx_srv_record =
  mx_name :: rstr
  mx_target :: rstr
  mx_is_srv :: bool
  mx_srv_port :: u16
  mx_priority :: u32
  mx_weight :: u32
  mx_offset :: u32

record naptr =
  na_name :: rstr
  na_replace :: rstr
  na_regexp :: rstr
  na_services :: rstr
  na_flags :: rstr
  na_order :: u32
  na_pref :: u32

record txt_record =
  tx_name :: rstr
  tx_txt :: "u8 list"
  tx_class :: u16
  tx_stat :: int

record ptr_record =
  pt_name :: rstr
  pt_ptr :: rstr

record interface_name =
  in_name :: rstr
  in_intr :: rstr
  in_flags :: int
  in_proto4 :: "ipv4 option"
  in_proto6 :: "ipv6 option"
  in_addrs :: "addrlist list"

record local_config =
  lc_local_ttl :: u32
  lc_edns_pktsz :: u16
  lc_txt_records :: "txt_record list"
  lc_rr_records :: "txt_record list"
  lc_mx_records :: "mx_srv_record list"
  lc_ptr_records :: "ptr_record list"
  lc_host_records :: "host_record list"
  lc_cnames :: "cname_config list"
  lc_naptr_records :: "naptr list"
  lc_int_names :: "interface_name list"
  lc_nodots_local :: bool
  lc_synth_domains :: "cond_domain list"
  lc_address_servers :: server_array
  lc_address_server_list :: "server list"
  lc_literal_domains :: "rstr list"
  lc_cachesize :: int

section \<open>Helpers\<close>

abbreviation PACKETSZ :: nat where
  "PACKETSZ \<equiv> 512"

text \<open>The data of a record that holds one name.\<close>

definition name_data :: "'b bytes_mut \<Rightarrow> rstr \<Rightarrow> u8 list" where
  "name_data B n = bm_to_vec B (write_name B (bm_new B) n)"

definition setup_reply :: "dns_header \<Rightarrow> u32 \<Rightarrow> dns_header" where
  "setup_reply header flags =
     (let h = header\<lparr>hb3 := (hb3 header AND NOT (HB3_AA OR HB3_TC)) OR HB3_QR,
                     hb4 := (hb4 header AND NOT HB4_AD) OR HB4_RA,
                     nscount := 0, arcount := 0, ancount := 0\<rparr>
      in if flags = F_NOERR then set_rcode 0 h
         else if flags = F_NXDOMAIN then set_rcode 3 h
         else if flags = F_RCODE then set_rcode 4 h
         else if flags AND (F_IPV4 OR F_IPV6) \<noteq> 0 then
           let h' = set_rcode 0 h in h'\<lparr>hb3 := hb3 h' OR HB3_AA\<rparr>
         else set_rcode 5 h)"

fun domain_matches_any_suffix :: "rstr \<Rightarrow> rstr list \<Rightarrow> bool exec" where
  "domain_matches_any_suffix name [] = Done False"
| "domain_matches_any_suffix name (domain # domains) =
     (let dlen = length domain
      in if dlen = 0 \<or> length name < dlen then domain_matches_any_suffix name domains
         else let start = length name - dlen
              in bind_exec (str_from name start) (\<lambda>suffix.
                   if eq_ignore_ascii_case suffix domain
                      \<and> (length name = dlen \<or> start \<noteq> 0 \<and> name ! (start - 1) = DOT)
                   then Done True else domain_matches_any_suffix name domains))"

fun host_records_find_by_addr :: "all_addr \<Rightarrow> host_record list \<Rightarrow> rstr option" where
  "host_records_find_by_addr addr [] = None"
| "host_records_find_by_addr addr (hr # hrs) =
     (if (case addr of
            Addr4 ip4 \<Rightarrow> hr_addr4 hr = Some ip4
          | Addr6 ip6 \<Rightarrow> hr_addr6 hr = Some ip6
          | _ \<Rightarrow> False)
      then (case hr_names hr of [] \<Rightarrow> None | n # _ \<Rightarrow> Some n)
      else host_records_find_by_addr addr hrs)"

text \<open>The subdomain test of \<^verbatim>\<open>rfc1035.rs\<close>; that of \<^verbatim>\<open>hostname.rs\<close> takes its arguments the other way round.\<close>

definition is_subdomain :: "(rstr \<Rightarrow> rstr) \<Rightarrow> rstr \<Rightarrow> rstr \<Rightarrow> bool" where
  "is_subdomain lower sub domain =
     (let s = lower sub; d = lower domain in s = d \<or> ends_with s (DOT # d))"

text \<open>\<open>i32::to_string\<close> and the text of a statistics record, a length octet and at most 255 octets.\<close>

definition int_digits :: "int \<Rightarrow> rstr" where
  "int_digits n = (if n < 0 then 45 # dec_digits (nat (- n)) else dec_digits (nat n))"

definition cache_make_stat :: "int \<Rightarrow> int \<Rightarrow> u64 \<Rightarrow> u64 \<Rightarrow> u64 \<Rightarrow> u64 \<Rightarrow> u8 list option" where
  "cache_make_stat stat cachesize ins evi mis hit =
     map_option (\<lambda>text0. let text = take 255 text0 in word_of_nat (length text) # text)
       (if stat = 1 then Some (int_digits cachesize)
        else if stat = 2 then Some (dec_digits (unat ins))
        else if stat = 3 then Some (dec_digits (unat evi))
        else if stat = 4 then Some (dec_digits (unat mis))
        else if stat = 5 then Some (dec_digits (unat hit))
        else None)"

section \<open>The answer so far\<close>

record answer_state =
  la_answers :: "dns_rr list"
  la_ans :: bool
  la_nxdomain :: bool
  la_auth :: bool

definition rr_in :: "rstr \<Rightarrow> u16 \<Rightarrow> u32 \<Rightarrow> u8 list \<Rightarrow> dns_rr" where
  "rr_in name rtype ttl rdata = \<lparr>rr_name = name, rr_type = rtype, rr_class = 1, rr_ttl = ttl, rr_data = rdata\<rparr>"

text \<open>An answer from the configuration is authoritative, one from the cache is not.\<close>

definition push_config :: "dns_rr \<Rightarrow> answer_state \<Rightarrow> answer_state" where
  "push_config rr st = st\<lparr>la_answers := la_answers st @ [rr], la_ans := True, la_auth := True\<rparr>"

definition push_cached :: "dns_rr \<Rightarrow> answer_state \<Rightarrow> answer_state" where
  "push_cached rr st = st\<lparr>la_answers := la_answers st @ [rr], la_ans := True\<rparr>"

section \<open>The CNAME chain\<close>

definition cached_target :: "cache_record option \<Rightarrow> instant \<Rightarrow> (rstr \<times> u32) option" where
  "cached_target r now =
     (case r of
        None \<Rightarrow> None
      | Some rec \<Rightarrow>
          (case cr_addr rec of
             Some (Cname c) \<Rightarrow> map_option (\<lambda>t. (t, crec_ttl rec now)) (target_name c)
           | _ \<Rightarrow> None))"

text \<open>The loop over at most \<open>n\<close> hops; it yields the final name, the records, and \<open>(ans, nxdomain)\<close>.\<close>

fun cname_hops :: "nat \<Rightarrow> 'b bytes_mut \<Rightarrow> 'l cache_lru \<Rightarrow> (rstr \<Rightarrow> rstr) \<Rightarrow> local_config \<Rightarrow> u16 \<Rightarrow> instant
    \<Rightarrow> rstr \<Rightarrow> dns_rr list \<Rightarrow> bool \<Rightarrow> 'l dns_cache \<Rightarrow> rstr \<times> dns_rr list \<times> bool \<times> bool \<times> 'l dns_cache" where
  "cname_hops 0 B L lower config qtype now name rrs ans cache = (name, rrs, ans, False, cache)"
| "cname_hops (Suc n) B L lower config qtype now name rrs ans cache =
     (case find (\<lambda>c. lower (cc_alias c) = name) (lc_cnames config) of
        Some c \<Rightarrow>
          (let rrs' = rrs @ [rr_in name 5 (lc_local_ttl config) (name_data B (cc_target c))];
               name' = lower (cc_target c)
           in if qtype = 5 then (name', rrs', True, False, cache)
              else cname_hops n B L lower config qtype now name' rrs' True cache)
      | None \<Rightarrow>
          (case lookup_by_name L lower name F_CNAME now cache of
             (r, cache1) \<Rightarrow>
               (case cached_target r now of
                  Some (target, cname_ttl) \<Rightarrow>
                    (let rrs' = rrs @ [rr_in name 5 cname_ttl (name_data B target)]; name' = lower target
                     in if qtype = 5 then (name', rrs', True, False, cache1)
                        else cname_hops n B L lower config qtype now name' rrs' ans cache1)
                | None \<Rightarrow>
                    (case lookup_by_name L lower name (F_NXDOMAIN OR F_NEG) now cache1 of
                       (Some _, cache2) \<Rightarrow> (name, rrs, True, True, cache2)
                     | (None, cache2) \<Rightarrow> (name, rrs, ans, False, cache2)))))"

definition resolve_cname_chain ::
    "'b bytes_mut \<Rightarrow> 'l cache_lru \<Rightarrow> (rstr \<Rightarrow> rstr) \<Rightarrow> local_config \<Rightarrow> u16 \<Rightarrow> instant \<Rightarrow> rstr \<Rightarrow> 'l dns_cache
       \<Rightarrow> rstr \<times> dns_rr list \<times> bool \<times> bool \<times> 'l dns_cache" where
  "resolve_cname_chain B L lower config qtype now name cache =
     cname_hops 16 B L lower config qtype now name [] False cache"

section \<open>Records of the configuration\<close>

definition txt_value :: "local_config \<Rightarrow> counters \<Rightarrow> txt_record \<Rightarrow> (u32 \<times> u8 list) option" where
  "txt_value config cs t =
     (if tx_stat t \<noteq> 0 then
        map_option (Pair 0)
          (cache_make_stat (tx_stat t) (lc_cachesize config) (get_metric cs DnsCacheInserted)
             (get_metric cs DnsCacheLiveFreed) (get_metric cs DnsQueriesForwarded) (get_metric cs DnsLocalAnswered))
      else Some (lc_local_ttl config, tx_txt t))"

definition answer_txt ::
    "(rstr \<Rightarrow> rstr) \<Rightarrow> local_config \<Rightarrow> counters \<Rightarrow> u16 \<Rightarrow> u16 \<Rightarrow> rstr \<Rightarrow> answer_state \<Rightarrow> answer_state" where
  "answer_txt lower config cs qtype qclass name st =
     (if qtype = 16 \<or> qtype = 255 then
        fold (\<lambda>t st. case txt_value config cs t of
                       None \<Rightarrow> st\<lparr>la_ans := True\<rparr>
                     | Some (ttl, rdata) \<Rightarrow>
                         push_config \<lparr>rr_name = name, rr_type = 16, rr_class = tx_class t, rr_ttl = ttl, rr_data = rdata\<rparr> st)
          (filter (\<lambda>t. tx_class t = qclass \<and> lower (tx_name t) = name) (lc_txt_records config)) st
      else st)"

definition answer_chaos_bind_fallback :: "(rstr \<Rightarrow> rstr) \<Rightarrow> u16 \<Rightarrow> rstr \<Rightarrow> bool \<Rightarrow> bool \<times> bool" where
  "answer_chaos_bind_fallback lower qclass name ans =
     (if qclass = 3 \<and> \<not> ans
         \<and> (is_subdomain lower (str_lit ''bind'') name \<or> is_subdomain lower (str_lit ''server'') name)
      then (True, True) else (False, ans))"

definition answer_rr :: "(rstr \<Rightarrow> rstr) \<Rightarrow> local_config \<Rightarrow> u16 \<Rightarrow> rstr \<Rightarrow> answer_state \<Rightarrow> answer_state" where
  "answer_rr lower config qtype name st =
     fold (\<lambda>t. push_config (rr_in name (tx_class t) (lc_local_ttl config) (tx_txt t)))
       (filter (\<lambda>t. lower (tx_name t) = name \<and> (tx_class t = qtype \<or> qtype = 255)) (lc_rr_records config)) st"

definition mx_data :: "'b bytes_mut \<Rightarrow> mx_srv_record \<Rightarrow> u8 list" where
  "mx_data B m =
     bm_to_vec B (write_name B (bm_put_u16 B (bm_new B) (ucast (mx_priority m))) (mx_target m))"

definition srv_data :: "'b bytes_mut \<Rightarrow> mx_srv_record \<Rightarrow> u8 list" where
  "srv_data B s =
     (let rd = bm_put_u16 B (bm_new B) (ucast (mx_priority s));
          rd = bm_put_u16 B rd (ucast (mx_weight s));
          rd = bm_put_u16 B rd (mx_srv_port s)
      in bm_to_vec B (write_name B rd (mx_target s)))"

definition put_counted :: "'b bytes_mut \<Rightarrow> 'b \<Rightarrow> rstr \<Rightarrow> 'b" where
  "put_counted B rd s = bm_put_slice B (bm_put_u8 B rd (word_of_nat (length s))) s"

definition naptr_data :: "'b bytes_mut \<Rightarrow> naptr \<Rightarrow> u8 list" where
  "naptr_data B n =
     (let rd = bm_put_u16 B (bm_new B) (ucast (na_order n));
          rd = bm_put_u16 B rd (ucast (na_pref n));
          rd = put_counted B rd (na_flags n);
          rd = put_counted B rd (na_services n);
          rd = put_counted B rd (na_regexp n)
      in bm_to_vec B (write_name B rd (na_replace n)))"

definition answer_mx :: "'b bytes_mut \<Rightarrow> (rstr \<Rightarrow> rstr) \<Rightarrow> local_config \<Rightarrow> u16 \<Rightarrow> rstr \<Rightarrow> answer_state \<Rightarrow> answer_state" where
  "answer_mx B lower config qtype name st =
     (if qtype = 15 \<or> qtype = 255 then
        fold (\<lambda>m. push_config (rr_in name 15 (lc_local_ttl config) (mx_data B m)))
          (filter (\<lambda>m. \<not> mx_is_srv m \<and> lower (mx_name m) = name) (lc_mx_records config)) st
      else st)"

definition answer_srv :: "'b bytes_mut \<Rightarrow> (rstr \<Rightarrow> rstr) \<Rightarrow> local_config \<Rightarrow> u16 \<Rightarrow> rstr \<Rightarrow> answer_state \<Rightarrow> answer_state" where
  "answer_srv B lower config qtype name st =
     (if qtype = 33 \<or> qtype = 255 then
        fold (\<lambda>m. push_config (rr_in name 33 (lc_local_ttl config) (srv_data B m)))
          (filter (\<lambda>m. mx_is_srv m \<and> lower (mx_name m) = name) (lc_mx_records config)) st
      else st)"

definition answer_naptr :: "'b bytes_mut \<Rightarrow> (rstr \<Rightarrow> rstr) \<Rightarrow> local_config \<Rightarrow> u16 \<Rightarrow> rstr \<Rightarrow> answer_state \<Rightarrow> answer_state" where
  "answer_naptr B lower config qtype name st =
     (if qtype = 35 \<or> qtype = 255 then
        fold (\<lambda>n. push_config (rr_in name 35 (lc_local_ttl config) (naptr_data B n)))
          (filter (\<lambda>n. lower (na_name n) = name) (lc_naptr_records config)) st
      else st)"

section \<open>Reverse lookups\<close>

definition rev_synth :: "all_addr \<Rightarrow> cond_domain list \<Rightarrow> rstr option" where
  "rev_synth addr domains =
     (case addr of
        Addr4 a \<Rightarrow> rev_synth_ipv4 a domains
      | Addr6 a \<Rightarrow> rev_synth_ipv6 a domains
      | _ \<Rightarrow> None)"

definition answer_ptr_addr ::
    "'b bytes_mut \<Rightarrow> 'l cache_lru \<Rightarrow> local_config \<Rightarrow> instant \<Rightarrow> rstr \<Rightarrow> all_addr
       \<Rightarrow> answer_state \<times> 'l dns_cache \<Rightarrow> answer_state \<times> 'l dns_cache" where
  "answer_ptr_addr B L config now name addr = (\<lambda>(st, cache).
     (case host_records_find_by_addr addr (lc_host_records config) of
        Some hostname \<Rightarrow> (push_config (rr_in name 12 (lc_local_ttl config) (name_data B hostname)) st, cache)
      | None \<Rightarrow>
          (case lookup_by_addr L addr now cache of
             (Some r, cache1) \<Rightarrow>
               (if cr_flags r AND F_NXDOMAIN \<noteq> 0 then (st\<lparr>la_nxdomain := True, la_ans := True\<rparr>, cache1)
                else (push_cached (rr_in name 12 (crec_ttl r now) (name_data B (cr_name r))) st, cache1))
           | (None, cache1) \<Rightarrow>
               (case rev_synth addr (lc_synth_domains config) of
                  Some hostname \<Rightarrow> (push_config (rr_in name 12 (lc_local_ttl config) (name_data B hostname)) st, cache1)
                | None \<Rightarrow> (st, cache1)))))"

definition answer_ptr ::
    "'b bytes_mut \<Rightarrow> 'l cache_lru \<Rightarrow> (rstr \<Rightarrow> rstr) \<Rightarrow> local_config \<Rightarrow> u16 \<Rightarrow> instant \<Rightarrow> rstr
       \<Rightarrow> answer_state \<times> 'l dns_cache \<Rightarrow> answer_state \<times> 'l dns_cache" where
  "answer_ptr B L lower config qtype now name = (\<lambda>(st, cache).
     (if qtype = 12 \<or> qtype = 255 then
        let found = filter (\<lambda>p. lower (pt_name p) = name) (lc_ptr_records config)
        in if found \<noteq> [] then
             (fold (\<lambda>p. push_config (rr_in name 12 (lc_local_ttl config) (name_data B (pt_ptr p)))) found st, cache)
           else (case in_arpa_name_2_addr lower name of
                   None \<Rightarrow> (st, cache)
                 | Some addr \<Rightarrow> answer_ptr_addr B L config now name addr (st, cache))
      else (st, cache)))"

section \<open>Addresses\<close>

definition host_answers :: "(rstr \<Rightarrow> rstr) \<Rightarrow> local_config \<Rightarrow> bool \<Rightarrow> bool \<Rightarrow> rstr \<Rightarrow> dns_rr list" where
  "host_answers lower config want_a want_aaaa name =
     concat (map (\<lambda>hr.
         (case hr_addr4 hr of
            Some ip4 \<Rightarrow> if want_a then [rr_in name 1 (lc_local_ttl config) (octets4 ip4)] else []
          | None \<Rightarrow> [])
         @ (case hr_addr6 hr of
              Some ip6 \<Rightarrow> if want_aaaa then [rr_in name 28 (lc_local_ttl config) (octets6 ip6)] else []
            | None \<Rightarrow> []))
       (filter (\<lambda>hr. list_ex (\<lambda>n. lower n = name) (hr_names hr)) (lc_host_records config)))"

text \<open>What a record found in the cache contributes; \<open>octets\<close> reads its address.\<close>

definition use_cached ::
    "(all_addr \<Rightarrow> u8 list option) \<Rightarrow> u16 \<Rightarrow> instant \<Rightarrow> rstr \<Rightarrow> cache_record \<Rightarrow> answer_state \<Rightarrow> answer_state" where
  "use_cached octets rtype now name r st =
     (if cr_flags r AND F_NEG \<noteq> 0 then
        st\<lparr>la_nxdomain := la_nxdomain st \<or> cr_flags r AND F_NXDOMAIN \<noteq> 0, la_ans := True\<rparr>
      else (case Option.bind (cr_addr r) octets of
              Some rdata \<Rightarrow> push_cached (rr_in name rtype (crec_ttl r now) rdata) st
            | None \<Rightarrow> st))"

definition a_octets :: "all_addr \<Rightarrow> u8 list option" where
  "a_octets addr = map_option octets4 (as_ipv4 addr)"

definition aaaa_octets :: "all_addr \<Rightarrow> u8 list option" where
  "aaaa_octets addr = map_option octets6 (as_ipv6 addr)"

definition answer_cached_a ::
    "'l cache_lru \<Rightarrow> (rstr \<Rightarrow> rstr) \<Rightarrow> local_config \<Rightarrow> instant \<Rightarrow> rstr
       \<Rightarrow> answer_state \<times> 'l dns_cache \<Rightarrow> (answer_state \<times> 'l dns_cache) exec" where
  "answer_cached_a L lower config now name = (\<lambda>(st, cache).
     (case lookup_forward L lower name F_IPV4 now cache of
        (Some r, cache1) \<Rightarrow> Done (use_cached a_octets 1 now name r st, cache1)
      | (None, cache1) \<Rightarrow>
          bind_exec (synthesize_ipv4 name (lc_synth_domains config)) (\<lambda>ip. Done
            (case ip of
               Some ip4 \<Rightarrow> (push_config (rr_in name 1 (lc_local_ttl config) (octets4 ip4)) st, cache1)
             | None \<Rightarrow> (st, cache1)))))"

definition answer_cached_aaaa ::
    "'l cache_lru \<Rightarrow> (rstr \<Rightarrow> rstr) \<Rightarrow> local_config \<Rightarrow> instant \<Rightarrow> rstr
       \<Rightarrow> answer_state \<times> 'l dns_cache \<Rightarrow> (answer_state \<times> 'l dns_cache) exec" where
  "answer_cached_aaaa L lower config now name = (\<lambda>(st, cache).
     (case lookup_forward L lower name F_IPV6 now cache of
        (Some r, cache1) \<Rightarrow> Done (use_cached aaaa_octets 28 now name r st, cache1)
      | (None, cache1) \<Rightarrow>
          bind_exec (synthesize_ipv6 name (lc_synth_domains config)) (\<lambda>ip. Done
            (case ip of
               Some ip6 \<Rightarrow> (push_config (rr_in name 28 (lc_local_ttl config) (octets6 ip6)) st, cache1)
             | None \<Rightarrow> (st, cache1)))))"

definition answer_addresses ::
    "'l cache_lru \<Rightarrow> (rstr \<Rightarrow> rstr) \<Rightarrow> local_config \<Rightarrow> u16 \<Rightarrow> instant \<Rightarrow> rstr
       \<Rightarrow> answer_state \<times> 'l dns_cache \<Rightarrow> (answer_state \<times> 'l dns_cache) exec" where
  "answer_addresses L lower config qtype now name = (\<lambda>(st, cache).
     (if qtype = 1 \<or> qtype = 28 \<or> qtype = 255 then
        let want_a = (qtype = 1 \<or> qtype = 255); want_aaaa = (qtype = 28 \<or> qtype = 255);
            found = host_answers lower config want_a want_aaaa name
        in if found \<noteq> [] then Done (fold push_config found st, cache)
           else bind_exec (if want_a then answer_cached_a L lower config now name (st, cache) else Done (st, cache)) (\<lambda>s1.
                if want_aaaa then answer_cached_aaaa L lower config now name s1 else Done s1)
      else Done (st, cache)))"

section \<open>Local domains\<close>

text \<open>The disjunction is evaluated from left to right and stops at the first test that holds.\<close>

definition check_for_local_domain ::
    "'l cache_lru \<Rightarrow> (rstr \<Rightarrow> rstr) \<Rightarrow> rstr \<Rightarrow> local_config \<Rightarrow> 'l dns_cache \<Rightarrow> instant \<Rightarrow> bool exec" where
  "check_for_local_domain L lower name config cache now =
     (if list_ex (\<lambda>n. is_subdomain lower name (na_name n)) (lc_naptr_records config)
         \<or> list_ex (\<lambda>m. is_subdomain lower name (mx_name m)) (lc_mx_records config)
         \<or> list_ex (\<lambda>t. is_subdomain lower name (tx_name t)) (lc_txt_records config)
         \<or> list_ex (\<lambda>i. is_subdomain lower name (in_name i)) (lc_int_names config)
         \<or> list_ex (\<lambda>p. is_subdomain lower name (pt_name p)) (lc_ptr_records config)
         \<or> cache_find_non_terminal L name now cache
      then Done True
      else bind_exec (synthesize_ipv4 name (lc_synth_domains config)) (\<lambda>a.
             if a \<noteq> None then Done True
             else bind_exec (synthesize_ipv6 name (lc_synth_domains config)) (\<lambda>b. Done (b \<noteq> None))))"

text \<open>The query types a literal address may answer.\<close>

definition gotname_flags :: "u16 \<Rightarrow> u32" where
  "gotname_flags qtype =
     (if qtype = 1 \<or> qtype = 255 then F_IPV4 else 0) OR (if qtype = 28 \<or> qtype = 255 then F_IPV6 else 0)"

definition has_opt :: "dns_packet \<Rightarrow> bool" where
  "has_opt query = list_ex (\<lambda>rr. rr_type rr = 41) (additional query)"

definition size_budget :: "dns_packet \<Rightarrow> local_config \<Rightarrow> nat" where
  "size_budget query config = (if has_opt query then unat (lc_edns_pktsz config) else PACKETSZ)"

definition rrs_length :: "'b bytes_mut \<Rightarrow> dns_rr list \<Rightarrow> nat" where
  "rrs_length B rrs = length (bm_to_vec B (foldl (write_rr B) (bm_new B) rrs))"

text \<open>Domains with a literal address; the result carries \<open>truncated\<close>.\<close>

definition answer_literal ::
    "'b bytes_mut \<Rightarrow> 'l cache_lru \<Rightarrow> (rstr \<Rightarrow> rstr) \<Rightarrow> local_config \<Rightarrow> dns_packet \<Rightarrow> dns_packet \<Rightarrow> u16 \<Rightarrow> instant \<Rightarrow> rstr
       \<Rightarrow> 'l dns_cache \<Rightarrow> answer_state \<Rightarrow> (answer_state \<times> bool) exec" where
  "answer_literal B L lower config query response qtype now name cache st =
     (if la_ans st then Done (st, False)
      else bind_exec (sa_lookup (lc_address_servers config) name (gotname_flags qtype)) (\<lambda>found.
        (case found of
           None \<Rightarrow> Done (st, False)
         | Some (first, last_idx) \<Rightarrow>
             bind_exec (is_local_answer (lc_address_servers config) first
                          (check_for_local_domain L lower name config cache now)) (\<lambda>local_flags. Done
               (if local_flags AND F_NXDOMAIN \<noteq> 0 then (st\<lparr>la_ans := True, la_nxdomain := True\<rparr>, False)
                else if local_flags AND F_NOERR \<noteq> 0 then (st\<lparr>la_ans := True\<rparr>, False)
                else if local_flags AND (F_IPV4 OR F_IPV6) \<noteq> 0 then
                  let st1 = st\<lparr>la_ans := True, la_auth := True\<rparr>;
                      rrs = make_local_answer (lc_address_servers config) (lc_address_server_list config) first last_idx
                              (local_flags AND gotname_flags qtype) name (lc_local_ttl config);
                      base_len = length (bm_to_vec B (packet_write B response))
                  in if base_len + rrs_length B rrs > size_budget query config then (st1, True)
                     else (st1\<lparr>la_answers := la_answers st1 @ rrs\<rparr>, False)
                else (st, False))))))"

definition answer_nodots ::
    "'l cache_lru \<Rightarrow> (rstr \<Rightarrow> rstr) \<Rightarrow> local_config \<Rightarrow> u16 \<Rightarrow> instant \<Rightarrow> rstr \<Rightarrow> 'l dns_cache
       \<Rightarrow> answer_state \<Rightarrow> answer_state exec" where
  "answer_nodots L lower config qtype now name cache st =
     (if \<not> la_ans st \<and> lc_nodots_local config \<and> (qtype = 1 \<or> qtype = 28 \<or> qtype = 255) \<and> DOT \<notin> set name \<and> name \<noteq> []
      then bind_exec (check_for_local_domain L lower name config cache now) (\<lambda>known.
             Done (st\<lparr>la_ans := True, la_nxdomain := \<not> known\<rparr>))
      else Done st)"

definition answer_literal_domain :: "local_config \<Rightarrow> rstr \<Rightarrow> answer_state \<Rightarrow> answer_state exec" where
  "answer_literal_domain config name st =
     (if la_ans st then Done st
      else bind_exec (domain_matches_any_suffix name (lc_literal_domains config)) (\<lambda>m.
             Done (if m then st\<lparr>la_ans := True, la_nxdomain := True\<rparr> else st)))"

section \<open>The whole request\<close>

text \<open>The header of the reply before the answer is known.\<close>

definition response_header :: "dns_header \<Rightarrow> dns_header" where
  "response_header h =
     h\<lparr>hb3 := (hb3 h AND NOT (HB3_AA OR HB3_TC)) OR HB3_QR, hb4 := (hb4 h AND NOT HB4_AD) OR HB4_RA,
       ancount := 0, nscount := 0, arcount := 0\<rparr>"

definition opt_records :: "dns_packet \<Rightarrow> local_config \<Rightarrow> dns_rr list" where
  "opt_records query config =
     (case find (\<lambda>rr. rr_type rr = 41) (additional query) of
        None \<Rightarrow> []
      | Some opt \<Rightarrow> [\<lparr>rr_name = [], rr_type = 41, rr_class = lc_edns_pktsz config, rr_ttl = rr_ttl opt AND 0x8000,
                      rr_data = []\<rparr>])"

definition finalise_header :: "bool \<Rightarrow> bool \<Rightarrow> answer_state \<Rightarrow> dns_header \<Rightarrow> dns_header" where
  "finalise_header notimp truncated st h0 =
     (let h1 = (if notimp then (set_rcode 4 h0)\<lparr>hb3 := hb3 h0 AND NOT HB3_AA\<rparr>
                else if la_nxdomain st then (set_rcode 3 h0)\<lparr>hb3 := hb3 h0 AND NOT HB3_AA\<rparr>
                else if la_auth st then (set_rcode 0 h0)\<lparr>hb3 := hb3 h0 OR HB3_AA\<rparr>
                else (set_rcode 0 h0)\<lparr>hb3 := hb3 h0 AND NOT HB3_AA\<rparr>);
          h2 = h1\<lparr>hb3 := hb3 h1 OR HB3_QR, hb4 := hb4 h1 OR HB4_RA\<rparr>
      in if truncated then h2\<lparr>hb3 := hb3 h2 OR HB3_TC\<rparr> else h2)"

definition finalise ::
    "dns_packet \<Rightarrow> local_config \<Rightarrow> dns_packet \<Rightarrow> bool \<Rightarrow> bool \<Rightarrow> answer_state \<Rightarrow> dns_packet" where
  "finalise query config response notimp truncated st =
     (let extra = additional response @ opt_records query config;
          h = (pk_header response)\<lparr>ancount := word_of_nat (length (la_answers st)), arcount := word_of_nat (length extra)\<rparr>
      in response\<lparr>pk_header := finalise_header notimp truncated st h, answers := la_answers st, additional := extra\<rparr>)"

text \<open>The stages that every class of query passes, and those for class IN only.\<close>

definition answer_in ::
    "'b bytes_mut \<Rightarrow> 'l cache_lru \<Rightarrow> (rstr \<Rightarrow> rstr) \<Rightarrow> local_config \<Rightarrow> u16 \<Rightarrow> instant \<Rightarrow> rstr
       \<Rightarrow> answer_state \<times> 'l dns_cache \<Rightarrow> (answer_state \<times> 'l dns_cache) exec" where
  "answer_in B L lower config qtype now name = (\<lambda>(st, cache).
     bind_exec (answer_addresses L lower config qtype now name
                  (answer_ptr B L lower config qtype now name (answer_rr lower config qtype name st, cache))) (\<lambda>(st1, cache1).
     Done (answer_naptr B lower config qtype name
             (answer_srv B lower config qtype name
               (answer_mx B lower config qtype name st1)), cache1)))"

definition follow_cnames ::
    "'b bytes_mut \<Rightarrow> 'l cache_lru \<Rightarrow> (rstr \<Rightarrow> rstr) \<Rightarrow> local_config \<Rightarrow> dns_question \<Rightarrow> instant \<Rightarrow> 'l dns_cache
       \<Rightarrow> rstr \<times> dns_rr list \<times> bool \<times> bool \<times> 'l dns_cache" where
  "follow_cnames B L lower config q now cache =
     (if q_class q = 1 then resolve_cname_chain B L lower config (q_type q) now (lower (q_name q)) cache
      else (lower (q_name q), [], False, False, cache))"

definition answer_question ::
    "'b bytes_mut \<Rightarrow> 'l cache_lru \<Rightarrow> (rstr \<Rightarrow> rstr) \<Rightarrow> local_config \<Rightarrow> dns_packet \<Rightarrow> dns_packet \<Rightarrow> dns_question
       \<Rightarrow> instant \<Rightarrow> 'l dns_cache \<Rightarrow> (dns_packet option \<times> 'l dns_cache) exec" where
  "answer_question B L lower config query response q now cache =
     (let qtype = q_type q; qclass = q_class q;
          (name, rrs, ans, nxdomain, cache1) = follow_cnames B L lower config q now cache;
          st1 = answer_txt lower config (counters cache1) qtype qclass name
                  \<lparr>la_answers = rrs, la_ans = ans, la_nxdomain = nxdomain, la_auth = False\<rparr>;
          (notimp, ans2) = answer_chaos_bind_fallback lower qclass name (la_ans st1);
          st2 = st1\<lparr>la_ans := ans2\<rparr>
      in bind_exec (if qclass = 1 then answer_in B L lower config qtype now name (st2, cache1) else Done (st2, cache1))
           (\<lambda>(st3, cache2).
         bind_exec (answer_literal B L lower config query response qtype now name cache2 st3) (\<lambda>(st4, truncated).
         bind_exec (answer_nodots L lower config qtype now name cache2 st4) (\<lambda>st5.
         bind_exec (answer_literal_domain config name st5) (\<lambda>st6. Done
           (if la_ans st6 then Some (finalise query config response notimp truncated st6) else None, cache2))))))"

definition answer_request ::
    "'b bytes_mut \<Rightarrow> 'l cache_lru \<Rightarrow> (rstr \<Rightarrow> rstr) \<Rightarrow> dns_packet \<Rightarrow> 'l dns_cache \<Rightarrow> instant \<Rightarrow> local_config
       \<Rightarrow> (dns_packet option \<times> 'l dns_cache) exec" where
  "answer_request B L lower query cache now config =
     (if length (questions query) \<noteq> 1 \<or> answers query \<noteq> [] \<or> authority query \<noteq> [] \<or> hdr_opcode (pk_header query) \<noteq> 0
      then Done (None, cache)
      else let q = questions query ! 0
           in if q_class q \<noteq> 1 \<and> q_class q \<noteq> 3 then Done (None, cache)
              else answer_question B L lower config query
                     \<lparr>pk_header = response_header (pk_header query), questions = questions query,
                      answers = [], authority = [], additional = []\<rparr> q now cache)"


section \<open>The cache behind the answers\<close>

text \<open>Answering only looks records up, so it keeps whatever the lookups keep.\<close>

definition kept_by_lookups :: "'l cache_lru \<Rightarrow> (rstr \<Rightarrow> rstr) \<Rightarrow> ('l dns_cache \<Rightarrow> bool) \<Rightarrow> bool" where
  "kept_by_lookups L lower P \<longleftrightarrow>
     (\<forall>name flags now c. P c \<longrightarrow> P (snd (lookup_by_name L lower name flags now c)))
     \<and> (\<forall>name flags now c. P c \<longrightarrow> P (snd (lookup_forward L lower name flags now c)))
     \<and> (\<forall>addr now c. P c \<longrightarrow> P (snd (lookup_by_addr L addr now c)))"

lemma kept_by_lookupsD:
  assumes "kept_by_lookups L lower P" "P c"
  shows "lookup_by_name L lower name flags now c = (r, c') \<Longrightarrow> P c'"
    "lookup_forward L lower name flags now c = (r, c') \<Longrightarrow> P c'"
    "lookup_by_addr L addr now c = (r, c') \<Longrightarrow> P c'"
  using assms unfolding kept_by_lookups_def by (metis snd_conv)+

lemma cname_hops_keeps:
  assumes "kept_by_lookups L lower P"
  shows "P cache \<Longrightarrow> cname_hops n B L lower config qtype now name rrs ans cache = (name', rrs', ans', nx, cache')
    \<Longrightarrow> P cache'"
  by (induction n arbitrary: name rrs ans cache)
    (auto simp: Let_def split: option.splits prod.splits if_splits dest: kept_by_lookupsD [OF assms])

lemma answer_ptr_keeps:
  assumes "kept_by_lookups L lower P" "P cache" "answer_ptr B L lower config qtype now name (st, cache) = (st', cache')"
  shows "P cache'"
  using assms(2,3)
  by (auto simp: answer_ptr_def answer_ptr_addr_def Let_def split: option.splits prod.splits if_splits
      dest: kept_by_lookupsD(3) [OF assms(1)])

lemma answer_cached_keeps:
  assumes "kept_by_lookups L lower P" "P (snd s)"
  shows "answer_cached_a L lower config now name s = Done s' \<Longrightarrow> P (snd s')"
    "answer_cached_aaaa L lower config now name s = Done s' \<Longrightarrow> P (snd s')"
proof -
  obtain st cache where s: "s = (st, cache)" by fastforce
  obtain r4 c4 where l4: "lookup_forward L lower name F_IPV4 now cache = (r4, c4)" by fastforce
  obtain r6 c6 where l6: "lookup_forward L lower name F_IPV6 now cache = (r6, c6)" by fastforce
  have "P c4" "P c6" using assms kept_by_lookupsD(2) [OF assms(1) _ l4] kept_by_lookupsD(2) [OF assms(1) _ l6] s by simp_all
  then show "answer_cached_a L lower config now name s = Done s' \<Longrightarrow> P (snd s')"
    "answer_cached_aaaa L lower config now name s = Done s' \<Longrightarrow> P (snd s')"
    by (auto simp: s l4 l6 answer_cached_a_def answer_cached_aaaa_def split: option.splits)
qed

lemma answer_addresses_keeps:
  assumes "kept_by_lookups L lower P" "P cache"
    and "answer_addresses L lower config qtype now name (st, cache) = Done (st', cache')"
  shows "P cache'"
proof -
  note keeps = answer_cached_keeps [OF assms(1)]
  have "P cache'" if "P (snd s)" "bind_exec (if b1 then answer_cached_a L lower config now name s else Done s) (\<lambda>s1.
      if b2 then answer_cached_aaaa L lower config now name s1 else Done s1) = Done (st', cache')" for s b1 b2
  proof -
    from that(2) obtain s1 where s1: "(if b1 then answer_cached_a L lower config now name s else Done s) = Done s1"
      "(if b2 then answer_cached_aaaa L lower config now name s1 else Done s1) = Done (st', cache')" by auto
    have "P (snd s1)" using s1(1) keeps(1) [OF that(1)] that(1) by (cases b1) auto
    then show ?thesis using s1(2) keeps(2) [of s1 config now name "(st', cache')"] by (cases b2) auto
  qed
  from this [of "(st, cache)"] assms(2,3) show ?thesis
    unfolding answer_addresses_def Let_def by (simp split: if_splits)
qed

lemma answer_in_keeps:
  assumes "kept_by_lookups L lower P" "P cache" "answer_in B L lower config qtype now name (st, cache) = Done (st', cache')"
  shows "P cache'"
proof -
  obtain st1 c1 where p: "answer_ptr B L lower config qtype now name (answer_rr lower config qtype name st, cache) = (st1, c1)"
    by fastforce
  have "P c1" using answer_ptr_keeps [OF assms(1,2) p] .
  with assms(3) answer_addresses_keeps [OF assms(1)] show ?thesis by (auto simp: answer_in_def p)
qed

lemma answer_question_keeps:
  assumes k: "kept_by_lookups L lower P" and "P cache"
    and "answer_question B L lower config query response q now cache = Done (r, cache')"
  shows "P cache'"
proof -
  obtain name rrs ans nx c1 where f: "follow_cnames B L lower config q now cache = (name, rrs, ans, nx, c1)"
    by (metis prod_cases5)
  have "P c1"
    using f assms(2) cname_hops_keeps [OF k] by (auto simp: follow_cnames_def resolve_cname_chain_def split: if_splits)
  obtain st2 where st2: "\<exists>s. (if q_class q = 1 then answer_in B L lower config (q_type q) now name (st2, c1)
      else Done (st2, c1)) = Done (s, cache')"
    using assms(3) unfolding answer_question_def f by (auto simp: Let_def split: prod.splits)
  then show ?thesis using \<open>P c1\<close> answer_in_keeps [OF k] by (auto split: if_splits)
qed

lemma answer_request_keeps:
  assumes "kept_by_lookups L lower P" "P cache" "answer_request B L lower query cache now config = Done (r, cache')"
  shows "P cache'"
  using assms(2,3) answer_question_keeps [OF assms(1,2)] by (auto simp: answer_request_def Let_def split: if_splits)

lemma reachable_kept: "kept_by_lookups L lower (cache_reachable L lower)"
  by (auto simp: kept_by_lookups_def intro: cache_reachable.intros)

section \<open>The header of the reply\<close>

lemma hb_bits:
  "x AND HB3_QR = 0 \<longleftrightarrow> \<not> bit x 7" "x AND HB3_AA = 0 \<longleftrightarrow> \<not> bit x 2" "x AND HB3_TC = 0 \<longleftrightarrow> \<not> bit x 1"
  "x AND HB3_RD = 0 \<longleftrightarrow> \<not> bit x 0" "x AND HB4_RA = 0 \<longleftrightarrow> \<not> bit x 7" "x AND HB4_AD = 0 \<longleftrightarrow> \<not> bit x 5"
  using and_exp_eq_0_iff_not_bit [of x 7] and_exp_eq_0_iff_not_bit [of x 2] and_exp_eq_0_iff_not_bit [of x 1]
    and_exp_eq_0_iff_not_bit [of x 0] and_exp_eq_0_iff_not_bit [of x 5] by (simp_all add: hb_defs)

lemma hb_mask_bits:
  "bit HB3_QR n \<longleftrightarrow> n = 7" "bit HB3_AA n \<longleftrightarrow> n = 2" "bit HB3_TC n \<longleftrightarrow> n = 1" "bit HB4_RA n \<longleftrightarrow> n = 7"
  "bit HB4_AD n \<longleftrightarrow> n = 5"
proof -
  have e: "HB3_QR = 2 ^ 7" "HB3_AA = 2 ^ 2" "HB3_TC = 2 ^ 1" "HB4_RA = 2 ^ 7" "HB4_AD = 2 ^ 5" by (simp_all add: hb_defs)
  show "bit HB3_QR n \<longleftrightarrow> n = 7" "bit HB3_AA n \<longleftrightarrow> n = 2" "bit HB3_TC n \<longleftrightarrow> n = 1" "bit HB4_RA n \<longleftrightarrow> n = 7"
    "bit HB4_AD n \<longleftrightarrow> n = 5"
    unfolding e bit_exp_iff by auto
qed

lemma rcode_bits: "n < 4 \<Longrightarrow> bit HB4_RCODE n" "4 \<le> n \<Longrightarrow> \<not> bit HB4_RCODE n"
proof -
  have e: "HB4_RCODE = mask 4" by (simp add: HB4_RCODE_def mask_eq_exp_minus_1)
  show "n < 4 \<Longrightarrow> bit HB4_RCODE n" "4 \<le> n \<Longrightarrow> \<not> bit HB4_RCODE n" unfolding e bit_mask_iff by auto
qed

lemma rcode_high_bit: "c < 16 \<Longrightarrow> 4 \<le> n \<Longrightarrow> \<not> bit (c :: u8) n"
  using small_rcode_masked [of c] rcode_bits(2) [of n] by (metis bit_and_iff)

lemma finalise_header_facts:
  fixes st h0 notimp truncated
  defines "h \<equiv> finalise_header notimp truncated st h0"
  shows "hdr_id h = hdr_id h0" "qdcount h = qdcount h0" "ancount h = ancount h0" "nscount h = nscount h0"
    "arcount h = arcount h0" "is_response h" "is_ra h" "is_ad h = is_ad h0" "is_rd h = is_rd h0"
    "is_tc h \<longleftrightarrow> truncated \<or> is_tc h0"
    "hdr_rcode h = (if notimp then 4 else if la_nxdomain st then 3 else 0)"
    "is_aa h \<longleftrightarrow> \<not> notimp \<and> \<not> la_nxdomain st \<and> la_auth st"
proof -
  let ?c = "(if notimp then 4 else if la_nxdomain st then 3 else 0) :: u8"
  have c: "?c < 16" by simp
  have h4: "hb4 h = (hb4 h0 AND NOT HB4_RCODE OR ?c) OR HB4_RA"
    by (simp add: h_def finalise_header_def set_rcode_def Let_def)
  show "hdr_rcode h = ?c"
    using hdr_rcode_set_rcode [OF c, of h0]
    by (simp add: h4 hdr_rcode_def set_rcode_def bit.conj_disj_distrib2 rcode_mask_disjoint)
  have "bit (hb4 h) 7" by (simp add: h4 bit_or_iff hb_mask_bits)
  then show "is_ra h" by (simp add: is_ra_def hb_bits)
  have "bit (hb4 h) 5 = bit (hb4 h0) 5"
    using rcode_bits(2) [of 5] rcode_high_bit [OF c, of 5] unfolding h4 bit_or_iff bit_and_iff bit_not_iff hb_mask_bits by simp
  then show "is_ad h = is_ad h0" by (simp add: is_ad_def hb_bits)
qed (auto simp: h_def finalise_header_def set_rcode_def Let_def is_response_def is_rd_def is_tc_def is_aa_def
    hb_bits bit_simps hb_mask_bits)

lemma response_header_facts:
  "hdr_id (response_header h) = hdr_id h" "qdcount (response_header h) = qdcount h" "nscount (response_header h) = 0"
  "\<not> is_ad (response_header h)" "\<not> is_tc (response_header h)" "is_rd (response_header h) = is_rd h"
  by (simp_all add: response_header_def is_ad_def is_tc_def is_rd_def hb_bits bit_simps hb_mask_bits)

lemma answer_question_finalises:
  assumes "answer_question B L lower config query response q now cache = Done (Some resp, cache')"
  obtains notimp truncated st where "resp = finalise query config response notimp truncated st" "la_ans st"
proof -
  obtain name rrs ans nx c1 where f: "follow_cnames B L lower config q now cache = (name, rrs, ans, nx, c1)"
    by (metis prod_cases5)
  from assms show ?thesis
    unfolding answer_question_def f by (auto simp: Let_def split: prod.splits if_splits intro: that)
qed

section \<open>An address from the cache\<close>

text \<open>A configuration without local data.\<close>

definition silent :: "local_config \<Rightarrow> bool" where
  "silent config \<longleftrightarrow> lc_txt_records config = [] \<and> lc_rr_records config = [] \<and> lc_mx_records config = []
     \<and> lc_ptr_records config = [] \<and> lc_host_records config = [] \<and> lc_cnames config = [] \<and> lc_naptr_records config = []
     \<and> lc_int_names config = [] \<and> lc_synth_domains config = [] \<and> sa_entries (lc_address_servers config) = []
     \<and> lc_literal_domains config = [] \<and> \<not> lc_nodots_local config"

text \<open>A query for one question of class IN.\<close>

definition plain_query :: "dns_packet \<Rightarrow> dns_question \<Rightarrow> bool" where
  "plain_query query q \<longleftrightarrow> questions query = [q] \<and> answers query = [] \<and> authority query = []
     \<and> hdr_opcode (pk_header query) = 0 \<and> q_class q = 1"

context cache_lru
begin

lemma live_view_name_miss:
  assumes "ok c" "live_view L now c (cache_key_for lower name flags) = None"
  obtains c' where "lookup_by_name L lower name flags now c = (None, c')" "ok c'"
    "\<And>k. live_view L now c' k = live_view L now c k"
proof -
  note s = lookup_by_name_spec [OF assms(1), of name flags now]
  let ?c = "snd (lookup_by_name L lower name flags now c)"
  have "live_view L now ?c k = live_view L now c k" for k
    using s(3) assms(2) unfolding live_view_def by (auto split: option.splits)
  moreover have "lookup_by_name L lower name flags now c = (None, ?c)"
    using s(1) assms(2) by (metis prod.collapse)
  ultimately show ?thesis using that s(2) by blast
qed

lemma follow_cnames_miss:
  assumes "ok c" "lc_cnames config = []" "q_class q = 1" "lower (lower (q_name q)) = lower (q_name q)"
    and "live_view L now c (cache_key_for lower (q_name q) F_CNAME) = None"
    and "live_view L now c (cache_key_for lower (q_name q) (F_NXDOMAIN OR F_NEG)) = None"
  obtains c' where "follow_cnames B L lower config q now c = (lower (q_name q), [], False, False, c')" "ok c'"
    "\<And>k. live_view L now c' k = live_view L now c k"
proof -
  let ?n = "lower (q_name q)"
  have key: "cache_key_for lower ?n f = cache_key_for lower (q_name q) f" for f
    using assms(4) by (simp add: cache_key_for_def)
  obtain c1 where c1: "lookup_by_name L lower ?n F_CNAME now c = (None, c1)" "ok c1"
    "\<And>k. live_view L now c1 k = live_view L now c k"
    using live_view_name_miss [OF assms(1), of now ?n F_CNAME] assms(5) key by metis
  obtain c2 where c2: "lookup_by_name L lower ?n (F_NXDOMAIN OR F_NEG) now c1 = (None, c2)" "ok c2"
    "\<And>k. live_view L now c2 k = live_view L now c1 k"
    using live_view_name_miss [OF c1(2), of now ?n "F_NXDOMAIN OR F_NEG"] assms(6) c1(3) key by metis
  have "cname_hops (Suc n) B L lower config t now ?n [] False c = (?n, [], False, False, c2)" for n t
    by (simp add: assms(2) c1(1) c2(1) cached_target_def)
  from this [of 15] show ?thesis
    using that [of c2] c1(3) c2(2,3) assms(3) by (simp add: follow_cnames_def resolve_cname_chain_def)
qed

lemma answer_from_cache:
  assumes "ok c" "silent config" "plain_query query q" "q_type q = 1" "lower (lower (q_name q)) = lower (q_name q)"
    and "live_view L now c (cache_key_for lower (q_name q) F_CNAME) = None"
    and "live_view L now c (cache_key_for lower (q_name q) (F_NXDOMAIN OR F_NEG)) = None"
    and "live_view L now c (cache_key_for lower (q_name q) F_IPV4) = Some r"
    and "cr_addr r = Some (Addr4 ip)" "cr_flags r AND F_NEG = 0"
  shows "\<exists>resp c'. answer_request B L lower query c now config = Done (Some resp, c')
    \<and> answers resp = [rr_in (lower (q_name q)) 1 (crec_ttl r now) (octets4 ip)]
    \<and> hdr_rcode (pk_header resp) = 0 \<and> \<not> is_aa (pk_header resp)"
proof -
  have q: "q_class q = 1" using assms(3) by (simp add: plain_query_def)
  have cn: "lc_cnames config = []" using assms(2) by (simp add: silent_def)
  let ?n = "lower (q_name q)"
  obtain c1 where c1: "follow_cnames B L lower config q now c = (?n, [], False, False, c1)" "ok c1"
    "\<And>k. live_view L now c1 k = live_view L now c k"
    using follow_cnames_miss [OF assms(1) cn q assms(5-7)] by metis
  have "type_flags F_IPV4 AND F_NEG = 0" by simp (simp add: Flags_Metrics.flag_defs)
  moreover have "cache_key_for lower ?n F_IPV4 = cache_key_for lower (q_name q) F_IPV4"
    using assms(5) by (simp add: cache_key_for_def)
  ultimately have "fst (lookup_forward L lower ?n F_IPV4 now c1) = Some r"
    using lookup_forward_spec(1) [OF c1(2), of F_IPV4 ?n now] assms(8) c1(3) by simp
  then obtain c2 where c2: "lookup_forward L lower ?n F_IPV4 now c1 = (Some r, c2)" by (metis prod.collapse)
  let ?rr = "rr_in ?n 1 (crec_ttl r now) (octets4 ip)"
  have use: "use_cached a_octets 1 now ?n r st = push_cached ?rr st" for st
    using assms(9,10) by (simp add: use_cached_def a_octets_def)
  have "answer_request B L lower query c now config = Done (Some (finalise query config
      \<lparr>pk_header = response_header (pk_header query), questions = questions query, answers = [], authority = [], additional = []\<rparr>
      False False \<lparr>la_answers = [?rr], la_ans = True, la_nxdomain = False, la_auth = False\<rparr>), c2)"
    using assms(2,3,4)
    by (simp add: answer_request_def plain_query_def answer_question_def c1(1) silent_def answer_txt_def
        answer_chaos_bind_fallback_def answer_in_def answer_rr_def answer_ptr_def answer_addresses_def host_answers_def
        answer_cached_a_def c2 use push_cached_def answer_mx_def answer_srv_def answer_naptr_def answer_literal_def
        answer_nodots_def answer_literal_domain_def)
  then show ?thesis by (auto simp: finalise_def Let_def finalise_header_facts)
qed

lemma answer_from_nothing:
  assumes "ok c" "silent config" "plain_query query q" "q_type q = 1" "lower (lower (q_name q)) = lower (q_name q)"
    and none: "\<And>f. live_view L now c \<lparr>ck_name = lower (q_name q), ck_flags = f\<rparr> = None"
  shows "\<exists>c'. answer_request B L lower query c now config = Done (None, c')"
proof -
  have q: "q_class q = 1" using assms(3) by (simp add: plain_query_def)
  have cn: "lc_cnames config = []" using assms(2) by (simp add: silent_def)
  let ?n = "lower (q_name q)"
  obtain c1 where c1: "follow_cnames B L lower config q now c = (?n, [], False, False, c1)" "ok c1"
    "\<And>k. live_view L now c1 k = live_view L now c k"
    using follow_cnames_miss [OF assms(1) cn q assms(5)] none by (metis cache_key_for_def)
  have "type_flags F_IPV4 AND F_NEG = 0" by simp (simp add: Flags_Metrics.flag_defs)
  then have "fst (lookup_forward L lower ?n F_IPV4 now c1) = None"
    using lookup_forward_spec(1) [OF c1(2), of F_IPV4 ?n now] none c1(3) assms(5)
    by (simp add: cache_key_for_def nodata_key_def)
  then obtain c2 where c2: "lookup_forward L lower ?n F_IPV4 now c1 = (None, c2)" by (metis prod.collapse)
  have "answer_request B L lower query c now config = Done (None, c2)"
    using assms(2,3,4)
    by (simp add: answer_request_def plain_query_def answer_question_def c1(1) silent_def answer_txt_def
        answer_chaos_bind_fallback_def answer_in_def answer_rr_def answer_ptr_def answer_addresses_def host_answers_def
        answer_cached_a_def c2 answer_mx_def answer_srv_def answer_naptr_def answer_literal_def sa_lookup_def
        answer_nodots_def answer_literal_domain_def)
  then show ?thesis by blast
qed

lemma committed_view:
  fixes now
  assumes "ok c" "\<not> is_static (cr_flags r)" "cr_flags r AND F_CNAME = 0"
    "cache_accepts L lower c r" "hb4 header AND HB4_CD = 0" "hb4 header AND HB4_RA \<noteq> 0"
  defines "c' \<equiv> commit_staged L lower c [r] header now" and "k \<equiv> cache_key_for lower (cr_name r) (cr_flags r)"
  shows "ok c'" "view L c' k = Some (timed c now r)" "\<And>k'. k' \<noteq> k \<Longrightarrow> view L c k' = None \<Longrightarrow> view L c' k' = None"
proof -
  have ok: "ok (start_insert c)" using assms(1) by simp
  have "cache_accepts L lower (start_insert c) r" using assms(4) by (simp add: cache_accepts_def)
  then have c': "c' = cache_insert L lower (timed (start_insert c) now r) (start_insert c)"
    using assms(5,6) by (simp add: c'_def commit_staged_eq single_transaction [OF assms(3)] accepted_insert [OF ok assms(2)])
  have t: "timed (start_insert c) now r = timed c now r" by (simp add: timed_def)
  have m: "max_size (start_insert c) \<noteq> 0" using assms(4) by (simp add: cache_accepts_def)
  show "ok c'" unfolding c' using insert_ok [OF ok] .
  show "view L c' k = Some (timed c now r)" "\<And>k'. k' \<noteq> k \<Longrightarrow> view L c k' = None \<Longrightarrow> view L c' k' = None"
    unfolding c' view_insert [OF ok m] by (simp_all add: t k_def)
qed

end

section \<open>Properties\<close>

text \<open>C11: a locally built reply is well formed: it repeats the identifier and the question, is marked as a response with
  recursion available and without authenticated data, its counts are those of its sections, its
  code is NOERROR, NXDOMAIN or NOTIMP, and an error is never marked authoritative; the cache it was
  built from stays one that the cache operations can reach.\<close>

theorem local_reply_well_formed:
  assumes "answer_request B L lower query cache now config = Done (Some resp, cache')" "cache_reachable L lower cache"
  shows "questions resp = questions query \<and> authority resp = []
    \<and> hdr_id (pk_header resp) = hdr_id (pk_header query) \<and> qdcount (pk_header resp) = qdcount (pk_header query)
    \<and> ancount (pk_header resp) = word_of_nat (length (answers resp)) \<and> nscount (pk_header resp) = 0
    \<and> arcount (pk_header resp) = word_of_nat (length (additional resp))
    \<and> is_response (pk_header resp) \<and> is_ra (pk_header resp) \<and> \<not> is_ad (pk_header resp)
    \<and> is_rd (pk_header resp) = is_rd (pk_header query) \<and> hdr_rcode (pk_header resp) \<in> {0, 3, 4}
    \<and> (is_aa (pk_header resp) \<longrightarrow> hdr_rcode (pk_header resp) = 0)
    \<and> cache_reachable L lower cache'"
proof -
  let ?r0 = "\<lparr>pk_header = response_header (pk_header query), questions = questions query,
              answers = [], authority = [], additional = []\<rparr>"
  have "answer_question B L lower config query ?r0 (questions query ! 0) now cache = Done (Some resp, cache')"
    using assms(1) by (simp add: answer_request_def Let_def split: if_splits)
  then obtain notimp truncated st where r: "resp = finalise query config ?r0 notimp truncated st"
    by (rule answer_question_finalises)
  have "cache_reachable L lower cache'" using answer_request_keeps [OF reachable_kept assms(2,1)] .
  then show ?thesis
    by (simp add: r finalise_def Let_def finalise_header_facts)
      (simp add: is_ad_def is_rd_def response_header_facts [unfolded is_ad_def is_rd_def])
qed

definition silent_config :: local_config where
  "silent_config =
     \<lparr>lc_local_ttl = 60, lc_edns_pktsz = 1232, lc_txt_records = [], lc_rr_records = [], lc_mx_records = [],
      lc_ptr_records = [], lc_host_records = [], lc_cnames = [], lc_naptr_records = [], lc_int_names = [],
      lc_nodots_local = False, lc_synth_domains = [], lc_address_servers = \<lparr>sa_entries = [], sa_has_wildcard = False\<rparr>,
      lc_address_server_list = [], lc_literal_domains = [], lc_cachesize = 2\<rparr>"

lemma silent_silent_config: "silent silent_config"
  by (simp add: silent_def silent_config_def)

definition demo_query :: dns_packet where
  "demo_query =
     \<lparr>pk_header = \<lparr>hdr_id = 7, hb3 = 1, hb4 = 0, qdcount = 1, ancount = 0, nscount = 0, arcount = 0\<rparr>,
      questions = [demo_question], answers = [], authority = [], additional = []\<rparr>"

lemma plain_demo_query: "plain_query demo_query demo_question"
  by (simp add: plain_query_def demo_query_def demo_question_def hdr_opcode_def)

text \<open>A cache with the answer to the question.\<close>

abbreviation demo_hit :: cache_record where
  "demo_hit \<equiv> demo_record\<lparr>cr_expires := 9\<rparr>"

abbreviation demo_hit_cache :: "(cache_key, cache_record) lru_list dns_cache" where
  "demo_hit_cache \<equiv> cache_insert list_lru to_ascii_lowercase demo_hit demo_cache"

lemma demo_hit_facts:
  "is_ascii (q_name demo_question)" "q_type demo_question = 1"
  "live_view list_lru 5 demo_hit_cache (cache_key_for to_ascii_lowercase (q_name demo_question) F_CNAME) = None"
  "live_view list_lru 5 demo_hit_cache (cache_key_for to_ascii_lowercase (q_name demo_question) (F_NXDOMAIN OR F_NEG)) = None"
  "live_view list_lru 5 demo_hit_cache (cache_key_for to_ascii_lowercase (q_name demo_question) F_IPV4) = Some demo_hit"
  "cr_addr demo_hit = Some (Addr4 0x01020304)" "cr_flags demo_hit AND F_NEG = 0"
  "cr_flags demo_hit AND F_IMMORTAL = 0"
proof -
  have n: "max_size demo_cache \<noteq> 0" by (simp add: demo_cache_def with_ttl_limits_def cache_new_def)
  have v: "view list_lru demo_hit_cache =
      [cache_key_for to_ascii_lowercase (q_name demo_question) F_IPV4 \<mapsto> demo_hit]"
  proof -
    have "cache_key_for to_ascii_lowercase (cr_name demo_hit) (cr_flags demo_hit)
        = cache_key_for to_ascii_lowercase (q_name demo_question) F_IPV4"
      by (simp add: cache_key_for_def demo_record_def demo_question_def type_flags_def TYPE_MASK_def Flags_Metrics.flag_defs)
    then show ?thesis
      unfolding list_cache.view_insert [OF demo_ok n] by (auto simp: fun_eq_iff view_def demo_empty)
  qed
  show "is_ascii (q_name demo_question)" by code_simp
  show "live_view list_lru 5 demo_hit_cache (cache_key_for to_ascii_lowercase (q_name demo_question) F_CNAME) = None"
    "live_view list_lru 5 demo_hit_cache (cache_key_for to_ascii_lowercase (q_name demo_question) (F_NXDOMAIN OR F_NEG)) = None"
    "live_view list_lru 5 demo_hit_cache (cache_key_for to_ascii_lowercase (q_name demo_question) F_IPV4) = Some demo_hit"
    unfolding live_view_def v
    by (simp_all add: cache_key_for_def type_flags_def TYPE_MASK_def Flags_Metrics.flag_defs record_is_expired_def demo_record_def)
qed (simp_all add: demo_question_def demo_record_def Flags_Metrics.flag_defs)

theorem local_reply_well_formed_witness:
  "\<exists>resp cache'. answer_request vec_bytes_mut list_lru to_ascii_lowercase demo_query demo_hit_cache 5 silent_config
       = Done (Some resp, cache')
     \<and> ancount (pk_header resp) = 1 \<and> hdr_rcode (pk_header resp) \<in> {0, 3, 4} \<and> is_response (pk_header resp)
     \<and> cache_reachable list_lru to_ascii_lowercase cache'"
proof -
  obtain resp cache' where run: "answer_request vec_bytes_mut list_lru to_ascii_lowercase demo_query demo_hit_cache 5
      silent_config = Done (Some resp, cache')" and one: "length (answers resp) = 1"
    using list_cache.answer_from_cache [OF list_cache.insert_ok [OF demo_ok] silent_silent_config plain_demo_query
        demo_hit_facts(2) lower_lower [OF ascii_lc.str_lower_axioms demo_hit_facts(1)] demo_hit_facts(3-7),
        of vec_bytes_mut] by auto
  from local_reply_well_formed [OF run cache_reachable.insertion [OF demo_reachable]] one run show ?thesis by auto
qed

text \<open>C12: an address in the cache answers the query for it: without local data for the name, and with no alias or
  NXDOMAIN entry in front of it, the reply holds exactly that address under the lower-cased name,
  with a lifetime that ends no later than the cached one, and is not authoritative.\<close>

theorem cached_address_answers_query:
  assumes "lru_laws L lru_ok lru_cap" "cache_ok L lru_ok lru_cap lower c" "str_lower lower" "is_ascii (q_name q)"
    and "silent config" "plain_query query q" "q_type q = 1"
    and "live_view L now c (cache_key_for lower (q_name q) F_CNAME) = None"
    and "live_view L now c (cache_key_for lower (q_name q) (F_NXDOMAIN OR F_NEG)) = None"
    and "live_view L now c (cache_key_for lower (q_name q) F_IPV4) = Some r"
    and "cr_addr r = Some (Addr4 ip)" "cr_flags r AND F_NEG = 0" "cr_flags r AND F_IMMORTAL = 0"
  shows "\<exists>resp c' ttl. answer_request B L lower query c now config = Done (Some resp, c')
    \<and> answers resp = [rr_in (lower (q_name q)) 1 ttl (octets4 ip)] \<and> now + from_secs (unat ttl) \<le> cr_expires r
    \<and> hdr_rcode (pk_header resp) = 0 \<and> \<not> is_aa (pk_header resp)"
proof -
  have cl: "cache_lru L lru_ok lru_cap" using assms(1) by (simp add: cache_lru_def)
  have "\<not> record_is_expired r now" using assms(10) by (auto simp: live_view_def split: option.splits if_splits)
  then have "now \<le> cr_expires r" using assms(13) by (simp add: record_is_expired_def)
  from crec_ttl_within [OF assms(13) this]
    cache_lru.answer_from_cache [OF cl assms(2,5,6,7) lower_lower [OF assms(3,4)] assms(8-12), of B]
  show ?thesis by blast
qed

theorem cached_address_answers_query_witness:
  "\<exists>resp c' ttl. answer_request vec_bytes_mut list_lru to_ascii_lowercase demo_query demo_hit_cache 5 silent_config
       = Done (Some resp, c')
     \<and> answers resp = [rr_in (str_lit ''www.example'') 1 ttl (octets4 0x01020304)]"
proof -
  have low: "to_ascii_lowercase (q_name demo_question) = str_lit ''www.example''" by code_simp
  from cached_address_answers_query [OF list_lru.lru_laws_axioms list_cache.insert_ok [OF demo_ok]
      ascii_lc.str_lower_axioms demo_hit_facts(1) silent_silent_config plain_demo_query demo_hit_facts(2-8), of vec_bytes_mut]
  show ?thesis unfolding low by blast
qed

end
