(* ===== verification/Crypto.thy ===== *)
theory Crypto
  imports Rust_Base
begin

unbundle bit_operations_syntax

text \<open>
  The cryptographic layer of DNSSEC, \<^verbatim>\<open>crypto.rs\<close>: algorithm numbers, reading of public keys and the
  dispatch of a signature check. The key objects, signature checks and digests of the external
  crates are the fields of a record \<open>crypto_crates\<close>, an argument of every definition that uses
  them; nothing is assumed of them.
\<close>

section \<open>Algorithms and keys\<close>

datatype dnssec_algorithm = RsaSha1 | RsaSha256 | RsaSha512 | EcdsaP256 | EcdsaP384 | Ed25519 | Ed448

datatype crypto_error =
    UnsupportedAlgorithm u8
  | KeyAlgorithmMismatch dnssec_algorithm
  | InvalidKey
  | InvalidSignature
  | VerificationFailed

fun algorithm_try_from :: "u8 \<Rightarrow> crypto_error + dnssec_algorithm" where
  "algorithm_try_from v =
     (if v = 5 then Inr RsaSha1 else if v = 8 then Inr RsaSha256 else if v = 10 then Inr RsaSha512
      else if v = 13 then Inr EcdsaP256 else if v = 14 then Inr EcdsaP384 else if v = 15 then Inr Ed25519
      else if v = 16 then Inr Ed448 else Inl (UnsupportedAlgorithm v))"

text \<open>The hash that a PKCS\#1 verification uses, and what the crates provide; \<open>'k\<close> is the type of their key objects.\<close>

datatype rsa_hash = HashSha1 | HashSha256 | HashSha512

record 'k crypto_crates =
  rsa_public_key :: "nat \<Rightarrow> nat \<Rightarrow> 'k option"
  rsa_signature_ok :: "u8 list \<Rightarrow> bool"
  rsa_verify :: "rsa_hash \<Rightarrow> 'k \<Rightarrow> u8 list \<Rightarrow> u8 list \<Rightarrow> bool"
  p256_key :: "u8 list \<Rightarrow> 'k option"
  p256_signature_ok :: "u8 list \<Rightarrow> bool"
  p256_verify :: "'k \<Rightarrow> u8 list \<Rightarrow> u8 list \<Rightarrow> bool"
  p384_key :: "u8 list \<Rightarrow> 'k option"
  p384_signature_ok :: "u8 list \<Rightarrow> bool"
  p384_verify :: "'k \<Rightarrow> u8 list \<Rightarrow> u8 list \<Rightarrow> bool"
  ed25519_key :: "u8 list \<Rightarrow> 'k option"
  ed25519_verify :: "'k \<Rightarrow> u8 list \<Rightarrow> u8 list \<Rightarrow> bool"
  sha1_digest :: "u8 list \<Rightarrow> u8 list"
  sha256_digest :: "u8 list \<Rightarrow> u8 list"
  sha384_digest :: "u8 list \<Rightarrow> u8 list"

datatype 'k dnssec_public_key =
  KeyRsaSha256 'k | KeyRsaSha512 'k | KeyEcdsaP256 'k | KeyEcdsaP384 'k | KeyEd25519 'k

text \<open>\<open>BigUint::from_bytes_be\<close>.\<close>

definition biguint_be :: "u8 list \<Rightarrow> nat" where
  "biguint_be bs = foldl (\<lambda>n b. n * 256 + unat b) 0 bs"

definition parse_rsa_key :: "'k crypto_crates \<Rightarrow> u8 list \<Rightarrow> crypto_error + 'k" where
  "parse_rsa_key C key_data =
     (if key_data = [] then Inl InvalidKey
      else if key_data ! 0 = 0 \<and> length key_data < 3 then Inl InvalidKey
      else let (exp_len, rest) =
                 (if key_data ! 0 = 0 then (unat (from_be16 (key_data ! 1) (key_data ! 2)), drop 3 key_data)
                  else (unat (key_data ! 0), drop 1 key_data))
           in if length rest < exp_len then Inl InvalidKey
              else let e_bytes = take exp_len rest; n_bytes = drop exp_len rest
                   in if n_bytes = [] then Inl InvalidKey
                      else ok_or InvalidKey (rsa_public_key C (biguint_be n_bytes) (biguint_be e_bytes)))"

definition parse_dnskey :: "'k crypto_crates \<Rightarrow> u8 \<Rightarrow> u8 list \<Rightarrow> crypto_error + 'k dnssec_public_key" where
  "parse_dnskey C algorithm key_data =
     and_then (algorithm_try_from algorithm) (\<lambda>a.
       (case a of
          RsaSha1 \<Rightarrow> and_then (parse_rsa_key C key_data) (\<lambda>k. Inr (KeyRsaSha256 k))
        | RsaSha256 \<Rightarrow> and_then (parse_rsa_key C key_data) (\<lambda>k. Inr (KeyRsaSha256 k))
        | RsaSha512 \<Rightarrow> and_then (parse_rsa_key C key_data) (\<lambda>k. Inr (KeyRsaSha512 k))
        | EcdsaP256 \<Rightarrow>
            if length key_data \<noteq> 64 then Inl InvalidKey
            else and_then (ok_or InvalidKey (p256_key C (4 # key_data))) (\<lambda>k. Inr (KeyEcdsaP256 k))
        | EcdsaP384 \<Rightarrow>
            if length key_data \<noteq> 96 then Inl InvalidKey
            else and_then (ok_or InvalidKey (p384_key C (4 # key_data))) (\<lambda>k. Inr (KeyEcdsaP384 k))
        | Ed25519 \<Rightarrow>
            if length key_data \<noteq> 32 then Inl InvalidKey
            else and_then (ok_or InvalidKey (ed25519_key C key_data)) (\<lambda>k. Inr (KeyEd25519 k))
        | Ed448 \<Rightarrow> Inl (UnsupportedAlgorithm algorithm)))"

text \<open>A check that first parses the signature and then verifies it.\<close>

definition checked_verify :: "bool \<Rightarrow> bool \<Rightarrow> crypto_error + bool" where
  "checked_verify sig_ok verified =
     (if \<not> sig_ok then Inl InvalidSignature else if verified then Inr True else Inl VerificationFailed)"

fun verify_sig ::
    "'k crypto_crates \<Rightarrow> u8 list \<Rightarrow> u8 list \<Rightarrow> 'k dnssec_public_key \<Rightarrow> dnssec_algorithm \<Rightarrow> crypto_error + bool" where
  "verify_sig C data sig (KeyRsaSha256 k) RsaSha256 = checked_verify (rsa_signature_ok C sig) (rsa_verify C HashSha256 k data sig)"
| "verify_sig C data sig (KeyRsaSha256 k) RsaSha1 = checked_verify (rsa_signature_ok C sig) (rsa_verify C HashSha1 k data sig)"
| "verify_sig C data sig (KeyRsaSha512 k) RsaSha512 = checked_verify (rsa_signature_ok C sig) (rsa_verify C HashSha512 k data sig)"
| "verify_sig C data sig (KeyEcdsaP256 k) EcdsaP256 =
     checked_verify (length sig = 64 \<and> p256_signature_ok C sig) (p256_verify C k data sig)"
| "verify_sig C data sig (KeyEcdsaP384 k) EcdsaP384 =
     checked_verify (length sig = 96 \<and> p384_signature_ok C sig) (p384_verify C k data sig)"
| "verify_sig C data sig (KeyEd25519 k) Ed25519 = checked_verify (length sig = 64) (ed25519_verify C k data sig)"
| "verify_sig C data sig k Ed448 = Inl (UnsupportedAlgorithm 16)"
| "verify_sig C data sig k a = Inl (KeyAlgorithmMismatch a)"

definition ds_digest_name :: "u8 \<Rightarrow> rstr option" where
  "ds_digest_name d =
     (if d = 1 then Some (str_lit ''sha1'') else if d = 2 then Some (str_lit ''sha256'')
      else if d = 4 then Some (str_lit ''sha384'') else None)"

definition algo_digest_name :: "u8 \<Rightarrow> rstr option" where
  "algo_digest_name a =
     (if a = 5 \<or> a = 7 then Some (str_lit ''sha1'')
      else if a = 8 \<or> a = 13 then Some (str_lit ''sha256'')
      else if a = 10 then Some (str_lit ''sha512'')
      else if a = 14 then Some (str_lit ''sha384'')
      else if a = 15 then Some (str_lit ''null_hash'') else None)"

definition nsec3_digest_name :: "u8 \<Rightarrow> rstr option" where
  "nsec3_digest_name d = (if d = 1 then Some (str_lit ''sha1'') else None)"

definition algo_supported :: "u8 \<Rightarrow> bool" where
  "algo_supported a \<longleftrightarrow> algo_digest_name a \<noteq> None"

definition ds_digest_supported :: "u8 \<Rightarrow> bool" where
  "ds_digest_supported d \<longleftrightarrow> ds_digest_name d \<noteq> None"

end
