(* ===== verification/Dnssec.thy ===== *)
theory Dnssec
  imports Local_Answer Crypto
begin

unbundle bit_operations_syntax

text \<open>
  DNSSEC validation, \<^verbatim>\<open>dnssec.rs\<close>: the records RRSIG, DNSKEY, DS, NSEC and NSEC3, the validation of
  one RRset against one key, the trust store with the status of a zone, the proofs of
  non-existence and the validation of whole replies. The work counter is an \<open>i32\<close> that counts
  down to zero. Where the source compares ASCII characters of a name the model compares octets;
  the two agree on UTF-8 text.
\<close>

section \<open>Record data\<close>

datatype dnssec_error = RdataTooShort | InvalidSignerName | UnsupportedDnssecAlgorithm u8

record rrsig_data =
  sg_type_covered :: u16
  sg_algorithm :: u8
  sg_labels :: u8
  sg_orig_ttl :: u32
  sg_sig_expiry :: u32
  sg_sig_inception :: u32
  sg_key_tag :: u16
  sg_signer_name :: rstr
  sg_signature :: "u8 list"

text \<open>The labels of an uncompressed name and the number of octets they occupy.\<close>

function wire_labels :: "u8 list \<Rightarrow> dnssec_error + (rstr list \<times> nat)" where
  "wire_labels [] = Inl RdataTooShort"
| "wire_labels (b # bs) =
     (let len = unat b
      in if len = 0 then Inr ([], 1)
         else if len > 63 then Inl InvalidSignerName
         else if length bs < len then Inl RdataTooShort
         else if \<not> utf8_valid (take len bs) then Inl InvalidSignerName
         else and_then (wire_labels (drop len bs)) (\<lambda>(ls, n). Inr (take len bs # ls, 1 + len + n)))"
  by pat_completeness auto
termination by (relation "measure length") auto

definition parse_wire_name :: "u8 list \<Rightarrow> dnssec_error + (rstr \<times> nat)" where
  "parse_wire_name buf = and_then (wire_labels buf) (\<lambda>(ls, n). Inr (join [DOT] ls, n))"

fun put_wire_labels :: "rstr list \<Rightarrow> u8 list option" where
  "put_wire_labels [] = Some [0]"
| "put_wire_labels (l # ls) =
     (if length l > 63 then None
      else map_option (\<lambda>out. word_of_nat (length l) # l @ out) (put_wire_labels ls))"

definition name_to_wire :: "rstr \<Rightarrow> u8 list option" where
  "name_to_wire name = put_wire_labels (split_on DOT (trim_end_dots name))"

definition parse_rrsig_rdata :: "u8 list \<Rightarrow> dnssec_error + rrsig_data" where
  "parse_rrsig_rdata rdata =
     (if length rdata < 18 then Inl RdataTooShort
      else and_then (parse_wire_name (drop 18 rdata)) (\<lambda>(signer_name, name_len). Inr
        \<lparr>sg_type_covered = from_be16 (rdata ! 0) (rdata ! 1), sg_algorithm = rdata ! 2, sg_labels = rdata ! 3,
         sg_orig_ttl = from_be32 (rdata ! 4) (rdata ! 5) (rdata ! 6) (rdata ! 7),
         sg_sig_expiry = from_be32 (rdata ! 8) (rdata ! 9) (rdata ! 10) (rdata ! 11),
         sg_sig_inception = from_be32 (rdata ! 12) (rdata ! 13) (rdata ! 14) (rdata ! 15),
         sg_key_tag = from_be16 (rdata ! 16) (rdata ! 17), sg_signer_name = signer_name,
         sg_signature = drop (18 + name_len) rdata\<rparr>))"

record dnskey_data =
  dk_flags :: u16
  dk_protocol :: u8
  dk_algorithm :: u8
  dk_public_key :: "u8 list"

definition parse_dnskey_rdata :: "u8 list \<Rightarrow> dnssec_error + dnskey_data" where
  "parse_dnskey_rdata rdata =
     (if length rdata < 4 then Inl RdataTooShort
      else Inr \<lparr>dk_flags = from_be16 (rdata ! 0) (rdata ! 1), dk_protocol = rdata ! 2, dk_algorithm = rdata ! 3,
                dk_public_key = drop 4 rdata\<rparr>)"

text \<open>The sum of the octets, those at even positions shifted by eight bits.\<close>

fun tag_sum :: "bool \<Rightarrow> u8 list \<Rightarrow> u32" where
  "tag_sum even_pos [] = 0"
| "tag_sum even_pos (b # bs) = (if even_pos then push_bit 8 (ucast b) else ucast b) + tag_sum (\<not> even_pos) bs"

definition fold_tag :: "u32 \<Rightarrow> u16" where
  "fold_tag ac = ucast ((ac + (drop_bit 16 ac AND 0xFFFF)) AND 0xFFFF)"

definition compute_key_tag :: "u8 list \<Rightarrow> u16" where
  "compute_key_tag rdata = fold_tag (tag_sum True rdata)"

definition dnskey_keytag :: "u8 \<Rightarrow> u16 \<Rightarrow> u8 list \<Rightarrow> u16" where
  "dnskey_keytag alg flags key =
     (if alg = 1 then
        if length key \<ge> 4
        then ucast (key ! (length key - 4)) * 256 + ucast (key ! (length key - 3)) else 0
      else fold_tag (ucast flags + 0x300 + ucast alg + tag_sum True key))"

record ds_data =
  ds_key_tag :: u16
  ds_algorithm :: u8
  ds_digest_type :: u8
  ds_digest :: "u8 list"

definition parse_ds_rdata :: "u8 list \<Rightarrow> dnssec_error + ds_data" where
  "parse_ds_rdata rdata =
     (if length rdata < 4 then Inl RdataTooShort
      else Inr \<lparr>ds_key_tag = from_be16 (rdata ! 0) (rdata ! 1), ds_algorithm = rdata ! 2, ds_digest_type = rdata ! 3,
                ds_digest = drop 4 rdata\<rparr>)"

definition ds_matches_dnskey :: "'k crypto_crates \<Rightarrow> ds_data \<Rightarrow> u8 list \<Rightarrow> rstr \<Rightarrow> bool" where
  "ds_matches_dnskey C ds dnskey_rdata owner_name =
     (case name_to_wire owner_name of
        None \<Rightarrow> False
      | Some wire \<Rightarrow>
          if ds_digest_type ds = 1 then sha1_digest C (wire @ dnskey_rdata) = ds_digest ds
          else if ds_digest_type ds = 2 then sha256_digest C (wire @ dnskey_rdata) = ds_digest ds
          else if ds_digest_type ds = 4 then sha384_digest C (wire @ dnskey_rdata) = ds_digest ds
          else False)"

section \<open>Counting and comparing\<close>

definition count_labels :: "rstr \<Rightarrow> nat" where
  "count_labels name =
     (if name = [] then 0
      else let dots = length (filter (\<lambda>b. b = DOT) name)
           in if hd name = DOT then dots else dots + 1)"

datatype serial_cmp = SerialEqual | SerialLess | SerialGreater | SerialUndefined

definition serial_compare_32 :: "u32 \<Rightarrow> u32 \<Rightarrow> serial_cmp" where
  "serial_compare_32 s1 s2 =
     (if s1 = s2 then SerialEqual
      else let lt = (s1 < s2 \<and> s2 - s1 < 0x80000000 \<or> s1 > s2 \<and> s1 - s2 > 0x80000000);
               gt = (s1 < s2 \<and> s2 - s1 > 0x80000000 \<or> s1 > s2 \<and> s1 - s2 < 0x80000000)
           in if lt then SerialLess else if gt then SerialGreater else SerialUndefined)"

text \<open>The \<open>i32\<close> counter of the remaining work is an integer here: it counts down from a limit and stops at
  zero, so that it never leaves the range.\<close>

definition dec_counter :: "int \<Rightarrow> bool \<times> int" where
  "dec_counter counter = (if counter = 0 then (True, counter) else (False, counter - 1))"

definition base32_value :: "u8 \<Rightarrow> u32 option" where
  "base32_value ch =
     (if 48 \<le> ch \<and> ch \<le> 57 then Some (ucast ch - 48)
      else if 97 \<le> ch \<and> ch \<le> 118 then Some (ucast ch - 97 + 10)
      else if 65 \<le> ch \<and> ch \<le> 86 then Some (ucast ch - 65 + 10)
      else None)"

text \<open>One bit is shifted into the accumulator; every eighth completes an octet.\<close>

fun base32_bit :: "u32 \<Rightarrow> nat \<Rightarrow> u8 list \<times> u32 \<times> nat \<Rightarrow> u8 list \<times> u32 \<times> nat" where
  "base32_bit val i (out, oc, on) =
     (let oc1 = push_bit 1 oc OR (if val AND push_bit i 1 \<noteq> 0 then 1 else 0); on1 = on + 1
      in if on1 mod 8 = 0 then (out @ [ucast oc1], 0, on1) else (out, oc1, on1))"

fun base32_symbols :: "rstr \<Rightarrow> u8 list \<times> u32 \<times> nat \<Rightarrow> (u8 list \<times> u32 \<times> nat) option" where
  "base32_symbols [] st = Some st"
| "base32_symbols (ch # chs) st =
     (case base32_value ch of
        None \<Rightarrow> None
      | Some val \<Rightarrow> base32_symbols chs (fold (base32_bit val) [4, 3, 2, 1, 0] st))"

definition base32_decode :: "rstr \<Rightarrow> u8 list option" where
  "base32_decode input =
     (case base32_symbols (takeWhile (\<lambda>b. b \<noteq> DOT) input) ([], 0, 0) of
        None \<Rightarrow> None
      | Some (out, oc, on) \<Rightarrow> if on mod 8 \<noteq> 0 then None else Some out)"

fun hash_rounds :: "nat \<Rightarrow> u8 list \<Rightarrow> (u8 list \<Rightarrow> u8 list) \<Rightarrow> u8 list \<Rightarrow> u8 list" where
  "hash_rounds 0 salt hash_fn digest = digest"
| "hash_rounds (Suc n) salt hash_fn digest = hash_rounds n salt hash_fn (hash_fn (digest @ salt))"

definition hash_name :: "rstr \<Rightarrow> u8 list \<Rightarrow> u32 \<Rightarrow> (u8 list \<Rightarrow> u8 list) \<Rightarrow> u8 list option" where
  "hash_name name salt iterations hash_fn =
     map_option (\<lambda>wire. hash_rounds (unat iterations) salt hash_fn (hash_fn (wire @ salt))) (name_to_wire name)"

section \<open>RRsets\<close>

text \<open>
  One pass of the bubble sort. A swap moves on with the larger record, an equal record is removed
  and the position is examined again.
\<close>

fun bubble_pass :: "dns_rr list \<Rightarrow> dns_rr list \<times> bool" where
  "bubble_pass (a # b # rest) =
     (case cmp (rr_data a) (rr_data b) of
        OrdGreater \<Rightarrow> (b # fst (bubble_pass (a # rest)), True)
      | OrdEqual \<Rightarrow> bubble_pass (a # rest)
      | OrdLess \<Rightarrow> (a # fst (bubble_pass (b # rest)), snd (bubble_pass (b # rest))))"
| "bubble_pass rrs = (rrs, False)"

text \<open>The number of pairs in the wrong order bounds the number of passes.\<close>

fun inversions :: "dns_rr list \<Rightarrow> nat" where
  "inversions [] = 0"
| "inversions (a # rest) = length (filter (\<lambda>b. rr_data b < rr_data a) rest) + inversions rest"

lemma bubble_pass_count:
  "length (filter P (fst (bubble_pass rrs))) \<le> length (filter P rrs)"
  by (induction rrs rule: bubble_pass.induct) (auto split: rust_ordering.split intro: le_SucI)

lemma bubble_pass_inversions:
  "inversions (fst (bubble_pass rrs)) \<le> inversions rrs
   \<and> (snd (bubble_pass rrs) \<longrightarrow> inversions (fst (bubble_pass rrs)) < inversions rrs)"
proof (induction rrs rule: bubble_pass.induct)
  case (1 a b rest)
  note less = bubble_pass_count [of "\<lambda>x. rr_data x < rr_data b" "a # rest"]
    bubble_pass_count [of "\<lambda>x. rr_data x < rr_data a" "b # rest"]
  show ?case
  proof (cases "cmp (rr_data a) (rr_data b)")
    case OrdGreater
    then have "rr_data b < rr_data a" "\<not> rr_data a < rr_data b" by (auto simp: cmp_def split: if_splits)
    then show ?thesis using 1(4) [OF OrdGreater] less(1) OrdGreater by simp
  next
    case OrdEqual
    then have "rr_data b = rr_data a" by (auto simp: cmp_def split: if_splits)
    then show ?thesis using 1(3) [OF OrdEqual] OrdEqual by auto
  next
    case OrdLess
    then have "\<not> rr_data b < rr_data a" by (auto simp: cmp_def split: if_splits)
    then show ?thesis using 1(1) [OF OrdLess] less(2) OrdLess by (simp, linarith)
  qed
qed auto

function sort_rrset :: "dns_rr list \<Rightarrow> dns_rr list" where
  "sort_rrset rrset =
     (if snd (bubble_pass rrset) then sort_rrset (fst (bubble_pass rrset)) else fst (bubble_pass rrset))"
  by pat_completeness auto
termination by (relation "measure inversions") (auto simp: bubble_pass_inversions)

declare sort_rrset.simps [simp del]

text \<open>The name of the signer is the root or encloses the owner.\<close>

definition signer_encloses :: "(rstr \<Rightarrow> rstr) \<Rightarrow> rstr \<Rightarrow> rstr \<Rightarrow> bool" where
  "signer_encloses lower signer name =
     (let s = lower signer; n = lower name in s = [] \<or> n = s \<or> ends_with n (DOT # s))"

definition covering_sig :: "(rstr \<Rightarrow> rstr) \<Rightarrow> rstr \<Rightarrow> u16 \<Rightarrow> dns_rr \<Rightarrow> bool" where
  "covering_sig lower name rrtype rr \<longleftrightarrow>
     rr_type rr = 46 \<and> length (rr_data rr) \<ge> 18 \<and> from_be16 (rr_data rr ! 0) (rr_data rr ! 1) = rrtype
     \<and> (case parse_wire_name (drop 18 (rr_data rr)) of
          Inl _ \<Rightarrow> False
        | Inr (signer, _) \<Rightarrow> signer_encloses lower signer name)"

definition explore_rrset ::
    "(rstr \<Rightarrow> rstr) \<Rightarrow> dns_rr list \<Rightarrow> rstr \<Rightarrow> u16 \<Rightarrow> u16 \<Rightarrow> dns_rr list \<times> dns_rr list" where
  "explore_rrset lower rrs name rrclass rrtype =
     (let here = filter (\<lambda>rr. lower (rr_name rr) = lower name \<and> rr_class rr = rrclass) rrs
      in (filter (\<lambda>rr. rr_type rr = rrtype) here,
          filter (\<lambda>rr. rr_type rr \<noteq> rrtype \<and> covering_sig lower name rrtype rr) here))"

section \<open>Validation of an RRset\<close>

datatype rrset_validation =
    RvSecure (rv_ttl: u32) (rv_key_tag: u16)
  | RvNeedKey rstr u16
  | RvBogus rstr
  | RvNoSignatures

definition rrset_ttl :: "dns_rr list \<Rightarrow> u32" where
  "rrset_ttl rrset = (case rrset of [] \<Rightarrow> 0xFFFFFFFF | rr # rrs \<Rightarrow> fold (\<lambda>r. min (rr_ttl r)) rrs (rr_ttl rr))"

text \<open>The name of the signer in an RRSIG, empty when it cannot be read.\<close>

definition sig_signer :: "u8 list \<Rightarrow> rstr" where
  "sig_signer rdata = (case parse_wire_name (drop 18 rdata) of Inl _ \<Rightarrow> [] | Inr (n, _) \<Rightarrow> n)"

text \<open>The owner that was signed: the wildcard when the signature covers fewer labels than the name has.\<close>

definition signed_owner :: "nat \<Rightarrow> rstr \<Rightarrow> rstr" where
  "signed_owner labels name =
     (if labels < count_labels name
      then [42, DOT] @ join [DOT] (drop (count_labels name - labels) (split_on DOT name))
      else name)"

definition signed_rr :: "u8 list \<Rightarrow> u16 \<Rightarrow> u16 \<Rightarrow> u32 \<Rightarrow> dns_rr \<Rightarrow> u8 list" where
  "signed_rr wire_owner rrtype rrclass orig_ttl rr =
     wire_owner @ to_be16 rrtype @ to_be16 rrclass @ to_be32 orig_ttl
       @ to_be16 (word_of_nat (length (rr_data rr))) @ rr_data rr"

text \<open>
  The body of the loop over the signatures: \<open>None\<close> goes on with the next one, \<open>Some\<close> returns.
\<close>

definition check_sig ::
    "'k crypto_crates \<Rightarrow> dns_rr list \<Rightarrow> rstr \<Rightarrow> u16 \<Rightarrow> u16 \<Rightarrow> u32 \<Rightarrow> u8 list option \<Rightarrow> dns_rr \<Rightarrow> rrset_validation option" where
  "check_sig C rrset name rrtype rrclass now_ts dnskey_rdata rrsig_rr =
     (let rdata = rr_data rrsig_rr
      in if length rdata < 18 then None
         else let algo = rdata ! 2; labels = unat (rdata ! 3);
                  orig_ttl = from_be32 (rdata ! 4) (rdata ! 5) (rdata ! 6) (rdata ! 7);
                  sig_expiry = from_be32 (rdata ! 8) (rdata ! 9) (rdata ! 10) (rdata ! 11);
                  sig_inception = from_be32 (rdata ! 12) (rdata ! 13) (rdata ! 14) (rdata ! 15);
                  key_tag = from_be16 (rdata ! 16) (rdata ! 17)
              in if now_ts < sig_inception then None
                 else if now_ts > sig_expiry then None
                 else if labels > count_labels name then None
                 else (case dnskey_rdata of
                    None \<Rightarrow> Some (RvNeedKey (sig_signer rdata) key_tag)
                  | Some key \<Rightarrow>
                      (case (algorithm_try_from algo, name_to_wire (sig_signer rdata), name_to_wire (signed_owner labels name)) of
                         (Inr algorithm, Some wire_signer, Some wire_owner) \<Rightarrow>
                           let signed_data = take 18 rdata @ wire_signer
                                 @ concat (map (signed_rr wire_owner rrtype rrclass orig_ttl) rrset);
                               sig_start = 18 + length wire_signer
                           in if sig_start \<ge> length rdata then None
                              else (case parse_dnskey_rdata key of
                                      Inl _ \<Rightarrow> None
                                    | Inr dnskey \<Rightarrow>
                                        (case parse_dnskey C algo (dk_public_key dnskey) of
                                           Inl _ \<Rightarrow> None
                                         | Inr pubkey \<Rightarrow>
                                             if verify_sig C signed_data (drop sig_start rdata) pubkey algorithm = Inr True
                                             then Some (RvSecure (min (min (rrset_ttl rrset) orig_ttl) (sig_expiry - now_ts)) key_tag)
                                             else None))
                       | _ \<Rightarrow> None)))"

fun check_sigs ::
    "'k crypto_crates \<Rightarrow> dns_rr list \<Rightarrow> rstr \<Rightarrow> u16 \<Rightarrow> u16 \<Rightarrow> u32 \<Rightarrow> u8 list option \<Rightarrow> dns_rr list \<Rightarrow> int
       \<Rightarrow> rrset_validation \<times> int" where
  "check_sigs C rrset name rrtype rrclass now_ts key [] counter =
     (RvBogus (str_lit ''no valid signatures found''), counter)"
| "check_sigs C rrset name rrtype rrclass now_ts key (sig # sigs) counter =
     (case dec_counter counter of
        (True, counter1) \<Rightarrow> (RvBogus (str_lit ''no valid signatures found''), counter1)
      | (False, counter1) \<Rightarrow>
          (case check_sig C rrset name rrtype rrclass now_ts key sig of
             Some v \<Rightarrow> (v, counter1)
           | None \<Rightarrow> check_sigs C rrset name rrtype rrclass now_ts key sigs counter1))"

definition validate_rrset ::
    "'k crypto_crates \<Rightarrow> dns_rr list \<Rightarrow> dns_rr list \<Rightarrow> rstr \<Rightarrow> u16 \<Rightarrow> u16 \<Rightarrow> u32 \<Rightarrow> u8 list option \<Rightarrow> int
       \<Rightarrow> rrset_validation \<times> int" where
  "validate_rrset C rrset_in rrsigs name rrtype rrclass now_ts dnskey_rdata counter =
     (if rrsigs = [] then (RvNoSignatures, counter)
      else check_sigs C (sort_rrset rrset_in) name rrtype rrclass now_ts dnskey_rdata rrsigs counter)"

section \<open>Names in canonical order\<close>

fun cmp_labels :: "rstr list \<Rightarrow> rstr list \<Rightarrow> rust_ordering" where
  "cmp_labels [] [] = OrdEqual"
| "cmp_labels [] (_ # _) = OrdLess"
| "cmp_labels (_ # _) [] = OrdGreater"
| "cmp_labels (a # as) (b # bs) =
     (let c = cmp (to_ascii_lowercase a) (to_ascii_lowercase b) in if c = OrdEqual then cmp_labels as bs else c)"

definition hostname_cmp :: "rstr \<Rightarrow> rstr \<Rightarrow> rust_ordering" where
  "hostname_cmp a b = cmp_labels (rev (split_on DOT (trim_end_dots a))) (rev (split_on DOT (trim_end_dots b)))"

section \<open>Failure codes\<close>

definition DNSSEC_FAIL_UPSTREAM :: u32 where "DNSSEC_FAIL_UPSTREAM = 1"
definition DNSSEC_FAIL_NYV :: u32 where "DNSSEC_FAIL_NYV = 2"
definition DNSSEC_FAIL_EXP :: u32 where "DNSSEC_FAIL_EXP = 4"
definition DNSSEC_FAIL_NOKEYSUP :: u32 where "DNSSEC_FAIL_NOKEYSUP = 8"
definition DNSSEC_FAIL_NOZONE :: u32 where "DNSSEC_FAIL_NOZONE = 16"
definition DNSSEC_FAIL_NOKEY :: u32 where "DNSSEC_FAIL_NOKEY = 32"
definition DNSSEC_FAIL_NODSSUP :: u32 where "DNSSEC_FAIL_NODSSUP = 64"
definition DNSSEC_FAIL_NSEC3_ITERS :: u32 where "DNSSEC_FAIL_NSEC3_ITERS = 128"
definition DNSSEC_FAIL_NONSEC :: u32 where "DNSSEC_FAIL_NONSEC = 256"
definition DNSSEC_FAIL_INDET :: u32 where "DNSSEC_FAIL_INDET = 512"
definition DNSSEC_FAIL_NOSIG :: u32 where "DNSSEC_FAIL_NOSIG = 1024"
definition DNSSEC_FAIL_BADPACKET :: u32 where "DNSSEC_FAIL_BADPACKET = 2048"
definition DNSSEC_FAIL_WORK :: u32 where "DNSSEC_FAIL_WORK = 4096"

lemmas fail_defs = DNSSEC_FAIL_UPSTREAM_def DNSSEC_FAIL_NYV_def DNSSEC_FAIL_EXP_def DNSSEC_FAIL_NOKEYSUP_def
  DNSSEC_FAIL_NOZONE_def DNSSEC_FAIL_NOKEY_def DNSSEC_FAIL_NODSSUP_def DNSSEC_FAIL_NSEC3_ITERS_def
  DNSSEC_FAIL_NONSEC_def DNSSEC_FAIL_INDET_def DNSSEC_FAIL_NOSIG_def DNSSEC_FAIL_BADPACKET_def DNSSEC_FAIL_WORK_def

definition errflags_to_ede :: "u32 \<Rightarrow> u16" where
  "errflags_to_ede status =
     (if status AND DNSSEC_FAIL_UPSTREAM \<noteq> 0 then 23
      else if status AND DNSSEC_FAIL_NYV \<noteq> 0 then 8
      else if status AND DNSSEC_FAIL_EXP \<noteq> 0 then 7
      else if status AND DNSSEC_FAIL_NOKEYSUP \<noteq> 0 then 11
      else if status AND DNSSEC_FAIL_NOZONE \<noteq> 0 then 9
      else if status AND DNSSEC_FAIL_NOKEY \<noteq> 0 then 10
      else if status AND DNSSEC_FAIL_NODSSUP \<noteq> 0 then 12
      else if status AND DNSSEC_FAIL_NSEC3_ITERS \<noteq> 0 then 27
      else if status AND DNSSEC_FAIL_NONSEC \<noteq> 0 then 14
      else if status AND DNSSEC_FAIL_INDET \<noteq> 0 then 13
      else if status AND DNSSEC_FAIL_NOSIG \<noteq> 0 then 15
      else 0)"

section \<open>Type bitmaps, queries and times\<close>

function type_in_bitmap :: "u8 list \<Rightarrow> u16 \<Rightarrow> bool" where
  "type_in_bitmap bitmap ty =
     (if length bitmap < 2 then False
      else let window = bitmap ! 0; bm_len = unat (bitmap ! 1);
               pos = unat (drop_bit 3 (ty AND 0xFF)); bit_mask = drop_bit (unat (ty AND 7)) (0x80 :: u8)
           in if 2 + bm_len > length bitmap then False
              else if window = ucast (drop_bit 8 ty) then
                pos < bm_len \<and> bitmap ! (2 + pos) AND bit_mask \<noteq> 0
              else type_in_bitmap (drop (2 + bm_len) bitmap) ty)"
  by pat_completeness auto
termination by (relation "measure (length \<circ> fst)") auto

declare type_in_bitmap.simps [simp del]

definition dnssec_generate_query :: "rstr \<Rightarrow> u16 \<Rightarrow> u16 \<Rightarrow> u16 \<Rightarrow> u8 list" where
  "dnssec_generate_query name qclass qtype id_num =
     to_be16 id_num @ [1, 0] @ to_be16 1 @ to_be16 0 @ to_be16 0 @ to_be16 0
     @ concat (map (\<lambda>label. word_of_nat (length label) # label)
         (filter (\<lambda>l. l \<noteq> []) (split_on DOT (trim_end_dots name))))
     @ [0] @ to_be16 qtype @ to_be16 qclass"

datatype timestamp_setup = NotConfigured | ClockSane | ClockNotYetSane

definition setup_timestamp :: "u64 option \<Rightarrow> u64 \<Rightarrow> timestamp_setup" where
  "setup_timestamp mtime now =
     (case mtime of None \<Rightarrow> NotConfigured | Some m \<Rightarrow> if m \<le> now then ClockSane else ClockNotYetSane)"

definition timestamp_clock_now_sane :: "u64 \<Rightarrow> u64 \<Rightarrow> bool" where
  "timestamp_clock_now_sane mtime now \<longleftrightarrow> now \<ge> mtime"

definition is_check_date :: "bool \<Rightarrow> bool \<Rightarrow> bool \<Rightarrow> bool" where
  "is_check_date has_timestamp_file back_to_the_future no_time_check =
     (if has_timestamp_file then back_to_the_future else \<not> no_time_check)"

definition check_signature_time :: "u32 \<Rightarrow> u32 \<Rightarrow> u32 \<Rightarrow> bool" where
  "check_signature_time inception expiration now \<longleftrightarrow>
     now - inception < 0x80000000 \<and> expiration - now < 0x80000000"

section \<open>Canonical record data\<close>

text \<open>A field of the descriptor: a number of plain octets, a name, or the rest.\<close>

datatype rr_field = Plain nat | NameField | Remaining

definition rr_descriptor_for_type :: "u16 \<Rightarrow> rr_field list" where
  "rr_descriptor_for_type ty =
     (if ty = 2 \<or> ty = 5 \<or> ty = 12 then [NameField]
      else if ty = 6 then [NameField, NameField, Remaining]
      else if ty = 15 then [Plain 2, NameField]
      else if ty = 33 then [Plain 6, NameField]
      else if ty = 46 then [Plain 18, NameField, Remaining]
      else [Remaining])"

text \<open>A name with its letters in lower case and the octets behind it.\<close>

function canonical_wire_name :: "u8 list \<Rightarrow> (u8 list \<times> u8 list) option" where
  "canonical_wire_name [] = None"
| "canonical_wire_name (b # bs) =
     (let label_len = unat b
      in if label_len = 0 then Some ([0], bs)
         else if label_len \<ge> 0xC0 then None
         else if length bs < label_len then None
         else map_option (\<lambda>(out, rest). (b # map ascii_lower (take label_len bs) @ out, rest))
                (canonical_wire_name (drop label_len bs)))"
  by pat_completeness auto
termination by (relation "measure length") auto

fun canonical_fields :: "rr_field list \<Rightarrow> u8 list \<Rightarrow> u8 list option" where
  "canonical_fields [] rdata = Some []"
| "canonical_fields (Remaining # fs) rdata = Some rdata"
| "canonical_fields (NameField # fs) rdata =
     (case canonical_wire_name rdata of
        None \<Rightarrow> None
      | Some (out, rest) \<Rightarrow> map_option (\<lambda>r. out @ r) (canonical_fields fs rest))"
| "canonical_fields (Plain n # fs) rdata =
     (if length rdata < n then None
      else map_option (\<lambda>r. take n rdata @ r) (canonical_fields fs (drop n rdata)))"

definition canonicalize_rdata :: "u8 list \<Rightarrow> u16 \<Rightarrow> u8 list option" where
  "canonicalize_rdata rdata ty = canonical_fields (rr_descriptor_for_type ty) rdata"

section \<open>The trust store\<close>

datatype stat_code = Secure | Insecure | Bogus | NeedKey rstr u16 | NeedDs rstr u16 | Abandoned

record validate_status =
  vs_code :: stat_code
  vs_fail :: u32

definition vs_secure :: validate_status where "vs_secure = \<lparr>vs_code = Secure, vs_fail = 0\<rparr>"
definition vs_insecure :: validate_status where "vs_insecure = \<lparr>vs_code = Insecure, vs_fail = 0\<rparr>"
definition vs_bogus :: "u32 \<Rightarrow> validate_status" where "vs_bogus fail = \<lparr>vs_code = Bogus, vs_fail = fail\<rparr>"
definition vs_need_key :: "rstr \<Rightarrow> u16 \<Rightarrow> validate_status" where "vs_need_key n c = \<lparr>vs_code = NeedKey n c, vs_fail = 0\<rparr>"
definition vs_need_ds :: "rstr \<Rightarrow> u16 \<Rightarrow> validate_status" where "vs_need_ds n c = \<lparr>vs_code = NeedDs n c, vs_fail = 0\<rparr>"
definition vs_abandoned :: validate_status where "vs_abandoned = \<lparr>vs_code = Abandoned, vs_fail = 0\<rparr>"

lemmas vs_defs = vs_secure_def vs_insecure_def vs_bogus_def vs_need_key_def vs_need_ds_def vs_abandoned_def

definition norm_name :: "rstr \<Rightarrow> rstr" where
  "norm_name name = to_ascii_lowercase (trim_end_dots name)"

datatype ds_state = DsPositive "(ds_data \<times> u16) list" | DsNegInsecure | DsNegNotZoneCut

record dnssec_cache =
  dc_ds :: "rstr \<rightharpoonup> ds_state"
  dc_dnskey :: "rstr \<rightharpoonup> (u8 list \<times> u16) list"

definition dnssec_cache_new :: dnssec_cache where
  "dnssec_cache_new = \<lparr>dc_ds = Map.empty, dc_dnskey = Map.empty\<rparr>"

definition insert_trust_anchor :: "rstr \<Rightarrow> ds_data \<Rightarrow> u16 \<Rightarrow> dnssec_cache \<Rightarrow> dnssec_cache" where
  "insert_trust_anchor name ds cls cache =
     cache\<lparr>dc_ds := (dc_ds cache)(norm_name name \<mapsto>
       (case dc_ds cache (norm_name name) of
          Some (DsPositive v) \<Rightarrow> DsPositive (v @ [(ds, cls)])
        | _ \<Rightarrow> DsPositive [(ds, cls)]))\<rparr>"

definition insert_ds_positive :: "rstr \<Rightarrow> (ds_data \<times> u16) list \<Rightarrow> dnssec_cache \<Rightarrow> dnssec_cache" where
  "insert_ds_positive name es cache = cache\<lparr>dc_ds := (dc_ds cache)(norm_name name \<mapsto> DsPositive es)\<rparr>"

definition insert_ds_neg_insecure :: "rstr \<Rightarrow> dnssec_cache \<Rightarrow> dnssec_cache" where
  "insert_ds_neg_insecure name cache = cache\<lparr>dc_ds := (dc_ds cache)(norm_name name \<mapsto> DsNegInsecure)\<rparr>"

definition insert_ds_neg_not_zone_cut :: "rstr \<Rightarrow> dnssec_cache \<Rightarrow> dnssec_cache" where
  "insert_ds_neg_not_zone_cut name cache = cache\<lparr>dc_ds := (dc_ds cache)(norm_name name \<mapsto> DsNegNotZoneCut)\<rparr>"

definition find_ds :: "dnssec_cache \<Rightarrow> rstr \<Rightarrow> ds_state option" where
  "find_ds cache name = dc_ds cache (norm_name name)"

definition insert_dnskey :: "rstr \<Rightarrow> u8 list \<Rightarrow> u16 \<Rightarrow> dnssec_cache \<Rightarrow> dnssec_cache" where
  "insert_dnskey name rdata cls cache =
     cache\<lparr>dc_dnskey := (dc_dnskey cache)(norm_name name \<mapsto>
       (case dc_dnskey cache (norm_name name) of None \<Rightarrow> [] | Some v \<Rightarrow> v) @ [(rdata, cls)])\<rparr>"

definition find_dnskeys :: "dnssec_cache \<Rightarrow> rstr \<Rightarrow> u16 \<Rightarrow> u8 list list" where
  "find_dnskeys cache name cls =
     (case dc_dnskey cache (norm_name name) of
        None \<Rightarrow> []
      | Some v \<Rightarrow> map fst (filter (\<lambda>(_, c). c = cls) v))"

text \<open>The suffixes of a name, from the root to the name.\<close>

definition dns_suffixes :: "rstr \<Rightarrow> rstr list" where
  "dns_suffixes name =
     (let n = norm_name name
      in if n = [] then [[]]
         else let labels = split_on DOT n
              in [] # map (\<lambda>i. join [DOT] (drop i labels)) (rev [0..<length labels]))"

definition ds_entry_supported :: "ds_data \<Rightarrow> bool" where
  "ds_entry_supported ds \<longleftrightarrow> ds_digest_supported (ds_digest_type ds) \<and> algo_supported (ds_algorithm ds)"

text \<open>The first index from the end that has an entry, zero when none has.\<close>

definition anchor_index :: "dnssec_cache \<Rightarrow> rstr list \<Rightarrow> nat" where
  "anchor_index cache suffixes =
     (case find (\<lambda>i. find_ds cache (suffixes ! i) \<noteq> None) (rev [0..<length suffixes]) of None \<Rightarrow> 0 | Some i \<Rightarrow> i)"

fun walk_down :: "dnssec_cache \<Rightarrow> u16 \<Rightarrow> rstr list \<Rightarrow> validate_status" where
  "walk_down cache cls [] = vs_secure"
| "walk_down cache cls (suf # sufs) =
     (case find_ds cache suf of
        None \<Rightarrow> vs_need_ds suf cls
      | Some DsNegInsecure \<Rightarrow> vs_insecure
      | Some DsNegNotZoneCut \<Rightarrow> walk_down cache cls sufs
      | Some (DsPositive es) \<Rightarrow>
          if list_ex (\<lambda>(ds, c). c = cls \<and> ds_entry_supported ds) es then walk_down cache cls sufs else vs_insecure)"

definition zone_status :: "rstr \<Rightarrow> u16 \<Rightarrow> dnssec_cache \<Rightarrow> validate_status" where
  "zone_status name cls cache =
     (let suffixes = dns_suffixes name in walk_down cache cls (drop (anchor_index cache suffixes) suffixes))"

end
