(* ===== verification/Dnssec_Reply.thy ===== *)
theory Dnssec_Reply
  imports Dnssec
begin

unbundle bit_operations_syntax

text \<open>
  The orchestration of \<^verbatim>\<open>dnssec.rs\<close>: DNSKEY sets validated against DS records, the proofs of
  non-existence by NSEC and NSEC3 records, the validation of a whole reply and of the answer to a
  DS query, with the updates of the trust store they make.
\<close>

section \<open>DNSKEY sets\<close>

datatype ds_outcome = DsAbandoned | DsValidated | DsGoOn u32

text \<open>The inner loop, over the DS records, for the key in \<open>key_rdata\<close>.\<close>

fun try_ds_entries ::
    "'k crypto_crates \<Rightarrow> dns_rr list \<Rightarrow> dns_rr list \<Rightarrow> rstr \<Rightarrow> u16 \<Rightarrow> u32 \<Rightarrow> u8 list \<Rightarrow> dnskey_data
       \<Rightarrow> (ds_data \<times> u16) list \<Rightarrow> u32 \<Rightarrow> int \<Rightarrow> ds_outcome \<times> int" where
  "try_ds_entries C rrset rrsigs name cls now_ts key_rdata key [] fail counter = (DsGoOn fail, counter)"
| "try_ds_entries C rrset rrsigs name cls now_ts key_rdata key ((ds, ds_class) # es) fail counter =
     (if ds_class \<noteq> cls \<or> \<not> ds_digest_supported (ds_digest_type ds)
      then try_ds_entries C rrset rrsigs name cls now_ts key_rdata key es fail counter
      else let fail1 = fail AND NOT DNSSEC_FAIL_NODSSUP
           in if ds_algorithm ds \<noteq> dk_algorithm key \<or> ds_key_tag ds \<noteq> compute_key_tag key_rdata
              then try_ds_entries C rrset rrsigs name cls now_ts key_rdata key es fail1 counter
              else (case dec_counter counter of
                      (True, counter1) \<Rightarrow> (DsAbandoned, counter1)
                    | (False, counter1) \<Rightarrow>
                        if \<not> ds_matches_dnskey C ds key_rdata name
                        then try_ds_entries C rrset rrsigs name cls now_ts key_rdata key es fail1 counter1
                        else (case validate_rrset C rrset rrsigs name 48 cls now_ts (Some key_rdata) counter1 of
                                (RvSecure _ _, counter2) \<Rightarrow> (DsValidated, counter2)
                              | (_, counter2) \<Rightarrow>
                                  try_ds_entries C rrset rrsigs name cls now_ts key_rdata key es fail1 counter2)))"

text \<open>The keys of protocol 3 with the zone-key flag are tried, in order.\<close>

fun try_zone_keys ::
    "'k crypto_crates \<Rightarrow> dns_rr list \<Rightarrow> dns_rr list \<Rightarrow> rstr \<Rightarrow> u16 \<Rightarrow> u32 \<Rightarrow> (ds_data \<times> u16) list
       \<Rightarrow> dns_rr list \<Rightarrow> u32 \<Rightarrow> int \<Rightarrow> ds_outcome \<times> int" where
  "try_zone_keys C rrset rrsigs name cls now_ts es [] fail counter = (DsGoOn fail, counter)"
| "try_zone_keys C rrset rrsigs name cls now_ts es (key_rr # key_rrs) fail counter =
     (case parse_dnskey_rdata (rr_data key_rr) of
        Inl _ \<Rightarrow> try_zone_keys C rrset rrsigs name cls now_ts es key_rrs fail counter
      | Inr key \<Rightarrow>
          if dk_protocol key \<noteq> 3 \<or> dk_flags key AND 0x0100 = 0
          then try_zone_keys C rrset rrsigs name cls now_ts es key_rrs fail counter
          else (case try_ds_entries C rrset rrsigs name cls now_ts (rr_data key_rr) key es
                       (fail AND NOT DNSSEC_FAIL_NOZONE) counter of
                  (DsGoOn fail1, counter1) \<Rightarrow> try_zone_keys C rrset rrsigs name cls now_ts es key_rrs fail1 counter1
                | done \<Rightarrow> done))"

text \<open>Every key of protocol 3 of a validated set is stored.\<close>

definition is_protocol_3 :: "u8 list \<Rightarrow> bool" where
  "is_protocol_3 rdata = (case parse_dnskey_rdata rdata of Inl _ \<Rightarrow> False | Inr k \<Rightarrow> dk_protocol k = 3)"

definition store_keys :: "rstr \<Rightarrow> u16 \<Rightarrow> dns_rr list \<Rightarrow> dnssec_cache \<Rightarrow> dnssec_cache" where
  "store_keys name cls rrset cache =
     fold (\<lambda>k. insert_dnskey name (rr_data k) cls) (filter (\<lambda>k. is_protocol_3 (rr_data k)) rrset) cache"

definition dnssec_validate_by_ds ::
    "'k crypto_crates \<Rightarrow> (rstr \<Rightarrow> rstr) \<Rightarrow> dns_rr list \<Rightarrow> rstr \<Rightarrow> u16 \<Rightarrow> u32 \<Rightarrow> dnssec_cache \<Rightarrow> int
       \<Rightarrow> validate_status \<times> dnssec_cache \<times> int" where
  "dnssec_validate_by_ds C lower rrs name cls now_ts cache counter =
     (let (rrset, rrsigs) = explore_rrset lower rrs name cls 48
      in if rrset = [] then (vs_bogus DNSSEC_FAIL_NOKEY, cache, counter)
         else if rrsigs = [] then (vs_bogus DNSSEC_FAIL_NOSIG, cache, counter)
         else (case find_ds cache name of
                 None \<Rightarrow> (vs_need_ds (norm_name name) cls, cache, counter)
               | Some ds \<Rightarrow>
                   let es = (case ds of DsPositive es \<Rightarrow> es | _ \<Rightarrow> [])
                   in (case try_zone_keys C rrset rrsigs name cls now_ts es rrset
                              (DNSSEC_FAIL_NODSSUP OR DNSSEC_FAIL_NOZONE) counter of
                         (DsAbandoned, counter1) \<Rightarrow> (vs_abandoned, cache, counter1)
                       | (DsValidated, counter1) \<Rightarrow> (vs_secure, store_keys name cls rrset cache, counter1)
                       | (DsGoOn fail, counter1) \<Rightarrow> (vs_bogus (fail OR DNSSEC_FAIL_NOKEY), cache, counter1))))"

section \<open>NSEC\<close>

record parsed_nsec =
  pn_owner :: rstr
  pn_next :: rstr
  pn_bitmap :: "u8 list"
  pn_sig_labels :: u8

definition parse_nsec_rdata :: "u8 list \<Rightarrow> (rstr \<times> u8 list) option" where
  "parse_nsec_rdata rdata =
     (case parse_wire_name rdata of Inl _ \<Rightarrow> None | Inr (nxt, len) \<Rightarrow> Some (nxt, drop len rdata))"

definition nsec_owner :: "parsed_nsec \<Rightarrow> rstr" where
  "nsec_owner nsec =
     (let name_labels = count_labels (pn_owner nsec); sig_labels = unat (pn_sig_labels nsec)
      in if sig_labels < name_labels
         then [42, DOT] @ join [DOT] (drop (name_labels - sig_labels) (split_on DOT (pn_owner nsec)))
         else pn_owner nsec)"

text \<open>What the bitmap of a record that matches the name says: the result and \<open>nons\<close>.\<close>

definition bitmap_denies :: "u8 list \<Rightarrow> u16 \<Rightarrow> nat \<Rightarrow> bool \<Rightarrow> bool \<times> bool" where
  "bitmap_denies bitmap qtype name_labels nons =
     (let nons1 = (if bitmap \<noteq> [] \<and> type_in_bitmap bitmap 2 then False else nons)
      in if bitmap \<noteq> [] \<and> (type_in_bitmap bitmap 5 \<or> name_labels \<noteq> 0 \<and> qtype = 43 \<and> type_in_bitmap bitmap 6)
         then (False, nons1)
         else (\<not> type_in_bitmap bitmap qtype, nons1))"

fun prove_nsec_loop :: "(rstr \<Rightarrow> rstr) \<Rightarrow> parsed_nsec list \<Rightarrow> rstr \<Rightarrow> u16 \<Rightarrow> bool \<Rightarrow> (u32 + unit) \<times> bool" where
  "prove_nsec_loop lower [] name qtype nons = (Inl DNSSEC_FAIL_NONSEC, nons)"
| "prove_nsec_loop lower (nsec # nsecs) name qtype nons =
     (let owner = nsec_owner nsec; nxt = pn_next nsec
      in if type_in_bitmap (pn_bitmap nsec) 39 \<and> is_subdomain lower name owner then (Inl DNSSEC_FAIL_NONSEC, nons)
         else (case hostname_cmp owner name of
                 OrdEqual \<Rightarrow>
                   if qtype = 47 \<or> qtype = 46 then (Inr (), nons)
                   else (case bitmap_denies (pn_bitmap nsec) qtype (count_labels (pn_owner nsec)) nons of
                           (True, nons1) \<Rightarrow> (Inr (), nons1)
                         | (False, nons1) \<Rightarrow> (Inl DNSSEC_FAIL_NONSEC, nons1))
               | OrdLess \<Rightarrow>
                   if hostname_cmp nxt name \<noteq> OrdLess \<or> hostname_cmp owner nxt \<noteq> OrdLess then (Inr (), nons)
                   else prove_nsec_loop lower nsecs name qtype nons
               | OrdGreater \<Rightarrow>
                   if hostname_cmp owner nxt \<noteq> OrdLess \<and> hostname_cmp nxt name \<noteq> OrdLess then (Inr (), nons)
                   else prove_nsec_loop lower nsecs name qtype nons))"

definition prove_non_existence_nsec :: "(rstr \<Rightarrow> rstr) \<Rightarrow> parsed_nsec list \<Rightarrow> rstr \<Rightarrow> u16 \<Rightarrow> (u32 + unit) \<times> bool" where
  "prove_non_existence_nsec lower nsecs name qtype = prove_nsec_loop lower nsecs name qtype True"

section \<open>NSEC3\<close>

record parsed_nsec3 =
  n3_owner_hash :: "u8 list"
  n3_next_hashed :: "u8 list"
  n3_flags :: u8
  n3_bitmap :: "u8 list"

record parsed_nsec3_raw =
  nr_algo :: u8
  nr_flags :: u8
  nr_iterations :: u32
  nr_salt :: "u8 list"
  nr_owner_hash :: "u8 list"
  nr_next_hashed :: "u8 list"
  nr_bitmap :: "u8 list"

text \<open>The data of an NSEC3 record; the hash of its owner is given separately.\<close>

definition parse_nsec3_rdata :: "u8 list \<Rightarrow> u8 list \<Rightarrow> parsed_nsec3_raw option" where
  "parse_nsec3_rdata owner_hash rdata =
     (if length rdata < 5 then None
      else let salt_len = unat (rdata ! 4)
           in if length rdata < 5 + salt_len + 1 then None
              else let hash_len = unat (rdata ! (5 + salt_len)); pos = 5 + salt_len + 1
                   in if length rdata < pos + hash_len then None
                      else Some \<lparr>nr_algo = rdata ! 0, nr_flags = rdata ! 1,
                                 nr_iterations = ucast (from_be16 (rdata ! 2) (rdata ! 3)),
                                 nr_salt = take salt_len (drop 5 rdata), nr_owner_hash = owner_hash,
                                 nr_next_hashed = take hash_len (drop pos rdata),
                                 nr_bitmap = drop (pos + hash_len) rdata\<rparr>)"

fun check_nsec3_coverage :: "u8 list \<Rightarrow> u16 \<Rightarrow> parsed_nsec3 list \<Rightarrow> bool \<Rightarrow> nat \<Rightarrow> bool \<times> bool" where
  "check_nsec3_coverage digest qtype [] nons name_labels = (False, nons)"
| "check_nsec3_coverage digest qtype (n # ns) nons name_labels =
     (if length (n3_owner_hash n) \<noteq> length digest \<or> length (n3_next_hashed n) \<noteq> length digest
      then check_nsec3_coverage digest qtype ns nons name_labels
      else let opt_out = (if n3_flags n AND 1 \<noteq> 0 then False else nons)
           in (case cmp (n3_owner_hash n) digest of
                 OrdEqual \<Rightarrow> bitmap_denies (n3_bitmap n) qtype name_labels nons
               | OrdLess \<Rightarrow>
                   if n3_next_hashed n \<ge> digest \<or> n3_owner_hash n \<ge> n3_next_hashed n then (True, opt_out)
                   else check_nsec3_coverage digest qtype ns nons name_labels
               | OrdGreater \<Rightarrow>
                   if n3_owner_hash n \<ge> n3_next_hashed n \<and> n3_next_hashed n \<ge> digest then (True, opt_out)
                   else check_nsec3_coverage digest qtype ns nons name_labels))"

lemma split_once_shorter:
  assumes "split_once s = Some (a, b)" shows "length b < length s"
proof -
  have b: "b = drop 1 (dropWhile (\<lambda>x. x \<noteq> DOT) s)" "DOT \<in> set s"
    using assms by (auto simp: split_once_def split: if_splits)
  then have "s \<noteq> []" by auto
  with length_dropWhile_le [of "\<lambda>x. x \<noteq> DOT" s] show ?thesis
    by (cases s) (auto simp: b(1) simp del: dropWhile.simps)
qed

text \<open>
  The walk towards the root for the closest encloser. The result carries the name one label below
  it, whether an encloser was found, and the counter.
\<close>

function closest_encloser ::
    "(rstr \<Rightarrow> u8 list option) \<Rightarrow> parsed_nsec3 list \<Rightarrow> nat \<Rightarrow> nat \<Rightarrow> rstr \<Rightarrow> rstr option \<Rightarrow> int
       \<Rightarrow> (u32 + (rstr option \<times> bool)) \<times> int" where
  "closest_encloser hash pruned wild_offset stripped candidate next_closest counter =
     (if wild_offset \<noteq> 0 \<and> stripped = wild_offset then (Inr (next_closest, False), counter)
      else (case dec_counter counter of
              (True, counter1) \<Rightarrow> (Inl DNSSEC_FAIL_WORK, counter1)
            | (False, counter1) \<Rightarrow>
                (case hash candidate of
                   None \<Rightarrow> (Inl DNSSEC_FAIL_NONSEC, counter1)
                 | Some cand_digest \<Rightarrow>
                     if list_ex (\<lambda>n. n3_owner_hash n = cand_digest) pruned
                     then (Inr (next_closest, True), counter1)
                     else (case split_once candidate of
                             Some (_, rest) \<Rightarrow>
                               closest_encloser hash pruned wild_offset (stripped + 1) rest (Some candidate) counter1
                           | None \<Rightarrow> (Inr (Some candidate, False), counter1)))))"
  by pat_completeness auto

termination by (relation "measure (\<lambda>(_, _, _, _, candidate, _, _). length candidate)") (auto dest: split_once_shorter)

declare closest_encloser.simps [simp del]

definition prune_nsec3 :: "parsed_nsec3_raw \<Rightarrow> parsed_nsec3_raw list \<Rightarrow> parsed_nsec3 list" where
  "prune_nsec3 chosen raw =
     map (\<lambda>r. \<lparr>n3_owner_hash = nr_owner_hash r, n3_next_hashed = nr_next_hashed r, n3_flags = nr_flags r,
               n3_bitmap = nr_bitmap r\<rparr>)
       (filter (\<lambda>r. nr_algo r = nr_algo chosen \<and> (nr_flags r = 0 \<or> nr_flags r = 1)
                    \<and> nr_iterations r = nr_iterations chosen \<and> nr_salt r = nr_salt chosen) raw)"

text \<open>One hash that counts against the budget, and whether the records deny the name it belongs to.\<close>

definition hashed_denial ::
    "(rstr \<Rightarrow> u8 list option) \<Rightarrow> parsed_nsec3 list \<Rightarrow> rstr \<Rightarrow> u16 \<Rightarrow> nat \<Rightarrow> bool \<Rightarrow> int \<Rightarrow> (u32 + bool) \<times> bool \<times> int" where
  "hashed_denial hash pruned name qtype name_labels nons counter =
     (case dec_counter counter of
        (True, counter1) \<Rightarrow> (Inl DNSSEC_FAIL_WORK, nons, counter1)
      | (False, counter1) \<Rightarrow>
          (case hash name of
             None \<Rightarrow> (Inl DNSSEC_FAIL_NONSEC, nons, counter1)
           | Some digest \<Rightarrow>
               (case check_nsec3_coverage digest qtype pruned nons name_labels of
                  (covered, nons1) \<Rightarrow> (Inr covered, nons1, counter1))))"

text \<open>The wildcard at the closest encloser, which is the rest of \<open>next_closest\<close>, must be denied as well.\<close>

definition wildcard_denied ::
    "(rstr \<Rightarrow> u8 list option) \<Rightarrow> parsed_nsec3 list \<Rightarrow> rstr \<Rightarrow> u16 \<Rightarrow> int \<Rightarrow> (u32 + unit) \<times> int" where
  "wildcard_denied hash pruned next_closest qtype counter =
     (case split_once next_closest of
        None \<Rightarrow> (Inl DNSSEC_FAIL_NONSEC, counter)
      | Some (_, rest) \<Rightarrow>
          if rest = [] then (Inl DNSSEC_FAIL_NONSEC, counter)
          else (case hashed_denial hash pruned ([42, DOT] @ rest) qtype 1 False counter of
                  (Inl e, _, counter1) \<Rightarrow> (Inl e, counter1)
                | (Inr covered, _, counter1) \<Rightarrow> (if covered then Inr () else Inl DNSSEC_FAIL_NONSEC, counter1)))"

definition prove_by_encloser ::
    "(rstr \<Rightarrow> u8 list option) \<Rightarrow> parsed_nsec3 list \<Rightarrow> rstr \<Rightarrow> u16 \<Rightarrow> nat \<Rightarrow> int \<Rightarrow> (u32 + unit) \<times> int" where
  "prove_by_encloser hash pruned name qtype wild_offset counter =
     (case closest_encloser hash pruned wild_offset 0 (norm_name name) None counter of
        (Inr (Some next_closest, True), counter1) \<Rightarrow>
          (case hashed_denial hash pruned next_closest qtype 1 False counter1 of
             (Inl e, _, counter2) \<Rightarrow> (Inl e, counter2)
           | (Inr covered, _, counter2) \<Rightarrow>
               if \<not> covered then (Inl DNSSEC_FAIL_NONSEC, counter2)
               else if wild_offset = 0 then wildcard_denied hash pruned next_closest qtype counter2
               else (Inr (), counter2))
      | (Inr _, counter1) \<Rightarrow> (Inl DNSSEC_FAIL_NONSEC, counter1)
      | (Inl e, counter1) \<Rightarrow> (Inl e, counter1))"

definition prove_non_existence_nsec3 ::
    "'k crypto_crates \<Rightarrow> parsed_nsec3_raw list \<Rightarrow> rstr \<Rightarrow> u16 \<Rightarrow> nat \<Rightarrow> int \<Rightarrow> u32 \<Rightarrow> (u32 + unit) \<times> bool \<times> int" where
  "prove_non_existence_nsec3 C raw name qtype wild_offset counter iters_limit =
     (case find (\<lambda>r. nsec3_digest_name (nr_algo r) \<noteq> None) raw of
        None \<Rightarrow> (Inl DNSSEC_FAIL_NONSEC, True, counter)
      | Some chosen \<Rightarrow>
          if nr_iterations chosen > iters_limit then (Inl DNSSEC_FAIL_NSEC3_ITERS, True, counter)
          else let pruned = prune_nsec3 chosen raw;
                   hash = (\<lambda>n. hash_name n (nr_salt chosen) (nr_iterations chosen) (sha1_digest C))
               in (case hashed_denial hash pruned name qtype (count_labels name) True counter of
                     (Inl e, nons, counter1) \<Rightarrow> (Inl e, nons, counter1)
                   | (Inr True, nons, counter1) \<Rightarrow> (Inr (), nons, counter1)
                   | (Inr False, nons, counter1) \<Rightarrow>
                       (case prove_by_encloser hash pruned name qtype wild_offset counter1 of
                          (r, counter2) \<Rightarrow> (r, nons, counter2))))"

section \<open>Proofs from the authority section\<close>

text \<open>The label count on which all signatures of an NSEC record agree.\<close>

fun agreed_labels :: "dns_rr list \<Rightarrow> u8 option \<Rightarrow> u32 + u8 option" where
  "agreed_labels [] found = Inr found"
| "agreed_labels (sig # sigs) found =
     (let rdata = rr_data sig
      in if length rdata < 18 then Inl DNSSEC_FAIL_BADPACKET
         else if from_be16 (rdata ! 0) (rdata ! 1) \<noteq> 47 then agreed_labels sigs found
         else (case found of
                 None \<Rightarrow> agreed_labels sigs (Some (rdata ! 3))
               | Some l \<Rightarrow> if l \<noteq> rdata ! 3 then Inl DNSSEC_FAIL_NONSEC else agreed_labels sigs found))"

fun parse_nsecs :: "dns_rr list \<Rightarrow> u16 \<Rightarrow> dns_rr list \<Rightarrow> u32 + parsed_nsec list" where
  "parse_nsecs auth qclass [] = Inr []"
| "parse_nsecs auth qclass (rr # rrs) =
     and_then (ok_or DNSSEC_FAIL_BADPACKET (parse_nsec_rdata (rr_data rr))) (\<lambda>(nxt, bitmap).
     and_then (agreed_labels (filter (\<lambda>s. rr_type s = 46 \<and> rr_class s = qclass
                                          \<and> eq_ignore_ascii_case (rr_name s) (rr_name rr)) auth) None) (\<lambda>found.
     and_then (ok_or DNSSEC_FAIL_NONSEC found) (\<lambda>labels.
     and_then (parse_nsecs auth qclass rrs) (\<lambda>parsed. Inr
       (\<lparr>pn_owner = rr_name rr, pn_next = nxt, pn_bitmap = bitmap, pn_sig_labels = labels\<rparr> # parsed)))))"

fun parse_nsec3s :: "dns_rr list \<Rightarrow> u32 + parsed_nsec3_raw list" where
  "parse_nsec3s [] = Inr []"
| "parse_nsec3s (rr # rrs) =
     and_then (ok_or DNSSEC_FAIL_BADPACKET (base32_decode (rr_name rr))) (\<lambda>owner_hash.
     and_then (ok_or DNSSEC_FAIL_BADPACKET (parse_nsec3_rdata owner_hash (rr_data rr))) (\<lambda>raw.
     and_then (parse_nsec3s rrs) (\<lambda>raws. Inr (raw # raws))))"

definition prove_non_existence ::
    "'k crypto_crates \<Rightarrow> (rstr \<Rightarrow> rstr) \<Rightarrow> dns_rr list \<Rightarrow> rstr \<Rightarrow> u16 \<Rightarrow> u16 \<Rightarrow> nat \<Rightarrow> bool \<Rightarrow> int \<Rightarrow> u32
       \<Rightarrow> (u32 + unit) \<times> bool \<times> int" where
  "prove_non_existence C lower auth name qtype qclass wild_offset nons counter iters_limit =
     (let nsec_rrs = filter (\<lambda>r. rr_type r = 47 \<and> rr_class r = qclass) auth;
          nsec3_rrs = filter (\<lambda>r. rr_type r = 50 \<and> rr_class r = qclass) auth
      in if nsec_rrs \<noteq> [] \<and> nsec3_rrs \<noteq> [] then (Inl DNSSEC_FAIL_NONSEC, nons, counter)
         else if nsec_rrs \<noteq> [] then
           (case parse_nsecs auth qclass nsec_rrs of
              Inl e \<Rightarrow> (Inl e, nons, counter)
            | Inr parsed \<Rightarrow>
                (case prove_non_existence_nsec lower parsed name qtype of (r, nons1) \<Rightarrow> (r, nons1, counter)))
         else if nsec3_rrs \<noteq> [] then
           (case parse_nsec3s nsec3_rrs of
              Inl e \<Rightarrow> (Inl e, nons, counter)
            | Inr raw \<Rightarrow> prove_non_existence_nsec3 C raw name qtype wild_offset counter iters_limit)
         else (Inl DNSSEC_FAIL_NONSEC, nons, counter))"

section \<open>Whole replies\<close>

definition record_at :: "rstr \<Rightarrow> u16 \<Rightarrow> u16 \<Rightarrow> dns_rr \<Rightarrow> bool" where
  "record_at target ty cls r \<longleftrightarrow> norm_name (rr_name r) = target \<and> rr_type r = ty \<and> rr_class r = cls"

text \<open>The target of the CNAME record at a name.\<close>

definition cname_step :: "dns_rr list \<Rightarrow> u16 \<Rightarrow> rstr \<Rightarrow> rstr option" where
  "cname_step ans qclass target =
     (case find (record_at target 5 qclass) ans of
        None \<Rightarrow> None
      | Some rr \<Rightarrow> (case parse_wire_name (rr_data rr) of Inl _ \<Rightarrow> None | Inr (nxt, _) \<Rightarrow> Some (norm_name nxt)))"

text \<open>The names a chain can lead to.\<close>

definition cname_targets :: "dns_rr list \<Rightarrow> rstr set" where
  "cname_targets ans = (\<lambda>rr. case parse_wire_name (rr_data rr) of Inl _ \<Rightarrow> [] | Inr (nxt, _) \<Rightarrow> norm_name nxt) ` set ans"

lemma cname_step_target:
  assumes "cname_step ans qclass target = Some nxt" shows "nxt \<in> cname_targets ans"
proof -
  obtain rr n len where rr: "find (record_at target 5 qclass) ans = Some rr" "parse_wire_name (rr_data rr) = Inr (n, len)"
    "nxt = norm_name n"
    using assms by (auto simp: cname_step_def split: option.splits sum.splits)
  then have "rr \<in> set ans" by (auto simp: find_Some_iff)
  then show ?thesis unfolding cname_targets_def by (rule rev_image_eqI) (simp add: rr)
qed

text \<open>The chase ends at an answer, at the end of the chain, or where the chain closes.\<close>

function chase_cnames :: "dns_rr list \<Rightarrow> u16 \<Rightarrow> u16 \<Rightarrow> rstr \<Rightarrow> rstr list \<Rightarrow> rstr \<times> bool" where
  "chase_cnames ans qtype qclass target visited =
     (if target \<in> set visited then (target, False)
      else if list_ex (record_at target qtype qclass) ans then (target, True)
      else (case cname_step ans qclass target of
              None \<Rightarrow> (target, False)
            | Some nxt \<Rightarrow> chase_cnames ans qtype qclass nxt (target # visited)))"
  by pat_completeness auto
termination
proof (relation "measure (\<lambda>(ans, _, _, target, visited). card (insert target (cname_targets ans) - set visited))")
  fix ans qtype qclass target visited nxt
  assume t: "target \<notin> set visited" and s: "cname_step ans qclass target = Some nxt"
  have "insert nxt (cname_targets ans) = cname_targets ans" using cname_step_target [OF s] by blast
  then have "insert nxt (cname_targets ans) - set (target # visited) \<subset> insert target (cname_targets ans) - set visited"
    using t by auto
  moreover have "finite (insert target (cname_targets ans) - set visited)" by (simp add: cname_targets_def)
  ultimately show "((ans, qtype, qclass, nxt, target # visited), ans, qtype, qclass, target, visited)
      \<in> measure (\<lambda>(ans, _, _, target, visited). card (insert target (cname_targets ans) - set visited))"
    by (simp only: in_measure case_prod_conv psubset_card_mono)
qed auto

declare chase_cnames.simps [simp del]

definition find_target :: "dns_rr list \<Rightarrow> rstr \<Rightarrow> u16 \<Rightarrow> u16 \<Rightarrow> rstr \<times> bool" where
  "find_target ans qname qtype qclass =
     (if qtype \<noteq> 5 \<and> qtype \<noteq> 255 then chase_cnames ans qtype qclass (norm_name qname) []
      else (norm_name qname,
            list_ex (\<lambda>r. norm_name (rr_name r) = norm_name qname \<and> rr_class r = qclass
                         \<and> (qtype = 255 \<or> rr_type r = qtype)) ans))"

fun common_signer :: "dns_rr list \<Rightarrow> rstr option \<Rightarrow> u32 + rstr option" where
  "common_signer [] signer = Inr signer"
| "common_signer (sig # sigs) signer =
     (if length (rr_data sig) < 18 then Inl DNSSEC_FAIL_BADPACKET
      else (case parse_wire_name (drop 18 (rr_data sig)) of
              Inl _ \<Rightarrow> Inl DNSSEC_FAIL_BADPACKET
            | Inr (s, _) \<Rightarrow>
                (case signer of
                   None \<Rightarrow> common_signer sigs (Some s)
                 | Some existing \<Rightarrow>
                     if \<not> eq_ignore_ascii_case existing s then Inl DNSSEC_FAIL_NOSIG else common_signer sigs signer)))"

fun try_keys ::
    "'k crypto_crates \<Rightarrow> dns_rr list \<Rightarrow> dns_rr list \<Rightarrow> dns_rr \<Rightarrow> u32 \<Rightarrow> u8 list list \<Rightarrow> int \<Rightarrow> bool \<times> int" where
  "try_keys C rrset rrsigs rr now_ts [] counter = (False, counter)"
| "try_keys C rrset rrsigs rr now_ts (key # keys) counter =
     (case validate_rrset C rrset rrsigs (rr_name rr) (rr_type rr) (rr_class rr) now_ts (Some key) counter of
        (RvSecure _ _, counter1) \<Rightarrow> (True, counter1)
      | (_, counter1) \<Rightarrow> try_keys C rrset rrsigs rr now_ts keys counter1)"

text \<open>
  The validation of the set that \<open>rr\<close> belongs to: \<open>Inl\<close> returns from the reply, \<open>Inr\<close> goes on, with
  \<open>True\<close> when the reply is insecure.
\<close>

definition check_signed ::
    "'k crypto_crates \<Rightarrow> dns_rr list \<Rightarrow> dns_rr list \<Rightarrow> dns_rr \<Rightarrow> u32 \<Rightarrow> dnssec_cache \<Rightarrow> int
       \<Rightarrow> (validate_status + bool) \<times> int" where
  "check_signed C rrset rrsigs rr now_ts cache counter =
     (case common_signer rrsigs None of
        Inl fail \<Rightarrow> (Inl (vs_bogus fail), counter)
      | Inr signer \<Rightarrow>
          let zone_name = (case signer of None \<Rightarrow> rr_name rr | Some s \<Rightarrow> s);
              zs = zone_status zone_name (rr_class rr) cache
          in (case vs_code zs of
                Insecure \<Rightarrow> (Inr True, counter)
              | Secure \<Rightarrow>
                  let keys = find_dnskeys cache zone_name (rr_class rr)
                  in if keys = [] then (Inl (vs_need_key zone_name (rr_class rr)), counter)
                     else (case try_keys C rrset rrsigs rr now_ts keys counter of
                             (True, counter1) \<Rightarrow> (Inr False, counter1)
                           | (False, counter1) \<Rightarrow> (Inl (vs_bogus DNSSEC_FAIL_NOKEY), counter1))
              | _ \<Rightarrow> (Inl zs, counter)))"

definition check_one ::
    "'k crypto_crates \<Rightarrow> (rstr \<Rightarrow> rstr) \<Rightarrow> dns_rr list \<Rightarrow> dns_rr list \<Rightarrow> dns_rr \<Rightarrow> u32 \<Rightarrow> dnssec_cache \<Rightarrow> bool \<Rightarrow> bool \<Rightarrow> int
       \<Rightarrow> (validate_status + bool) \<times> int" where
  "check_one C lower ans combined rr now_ts cache check_unsigned ds_mode counter =
     (let in_answer = list_ex (record_at (norm_name (rr_name rr)) (rr_type rr) (rr_class rr)) ans;
          (rrset, rrsigs) = explore_rrset lower combined (rr_name rr) (rr_class rr) (rr_type rr)
      in if rrsigs = [] \<and> (rr_type rr = 47 \<or> rr_type rr = 50) then (Inl (vs_bogus DNSSEC_FAIL_NOSIG), counter)
         else if rrsigs = [] \<and> ds_mode \<and> \<not> in_answer then (Inr False, counter)
         else if rrsigs = [] \<and> (\<not> check_unsigned \<or> \<not> in_answer) then (Inr True, counter)
         else check_signed C rrset rrsigs rr now_ts cache counter)"

fun check_rrsets ::
    "'k crypto_crates \<Rightarrow> (rstr \<Rightarrow> rstr) \<Rightarrow> dns_rr list \<Rightarrow> dns_rr list \<Rightarrow> u32 \<Rightarrow> dnssec_cache \<Rightarrow> bool \<Rightarrow> bool
       \<Rightarrow> dns_rr list \<Rightarrow> (rstr \<times> u16 \<times> u16) list \<Rightarrow> bool \<Rightarrow> int \<Rightarrow> (validate_status + bool) \<times> int" where
  "check_rrsets C lower ans combined now_ts cache check_unsigned ds_mode [] seen insecure counter = (Inr insecure, counter)"
| "check_rrsets C lower ans combined now_ts cache check_unsigned ds_mode (rr # rrs) seen insecure counter =
     (let key = (norm_name (rr_name rr), rr_type rr, rr_class rr)
      in if rr_type rr = 46 \<or> key \<in> set seen
         then check_rrsets C lower ans combined now_ts cache check_unsigned ds_mode rrs seen insecure counter
         else (case check_one C lower ans combined rr now_ts cache check_unsigned ds_mode counter of
                 (Inl st, counter1) \<Rightarrow> (Inl st, counter1)
               | (Inr weak, counter1) \<Rightarrow>
                   check_rrsets C lower ans combined now_ts cache check_unsigned ds_mode rrs (key # seen)
                     (insecure \<or> weak) counter1))"

text \<open>The flag of the source as a status: secure until some set was found insecure.\<close>

definition flag_status :: "bool \<Rightarrow> validate_status" where
  "flag_status insecure = (if insecure then vs_insecure else vs_secure)"

definition prove_missing ::
    "'k crypto_crates \<Rightarrow> (rstr \<Rightarrow> rstr) \<Rightarrow> dns_rr list \<Rightarrow> rstr \<Rightarrow> u16 \<Rightarrow> u16 \<Rightarrow> dnssec_cache \<Rightarrow> bool \<Rightarrow> bool \<Rightarrow> int \<Rightarrow> u32
       \<Rightarrow> validate_status \<times> bool \<times> int" where
  "prove_missing C lower auth target qtype qclass cache insecure nons counter iters_limit =
     (case prove_non_existence C lower auth target qtype qclass 0 nons counter iters_limit of
        (Inr (), nons1, counter1) \<Rightarrow> (flag_status insecure, nons1, counter1)
      | (Inl fail, nons1, counter1) \<Rightarrow>
          let zs = zone_status target qclass cache
          in if fail AND (DNSSEC_FAIL_NONSEC OR DNSSEC_FAIL_NSEC3_ITERS) \<noteq> 0 \<and> vs_code zs \<noteq> Secure
             then (zs, nons1, counter1) else (vs_bogus fail, nons1, counter1))"

text \<open>\<open>nons\<close> is \<open>Some\<close> in the mode for DS replies; the result carries its value afterwards.\<close>

definition dnssec_validate_reply ::
    "'k crypto_crates \<Rightarrow> (rstr \<Rightarrow> rstr) \<Rightarrow> dns_rr list \<Rightarrow> dns_rr list \<Rightarrow> rstr \<Rightarrow> u16 \<Rightarrow> u16 \<Rightarrow> u8 \<Rightarrow> u32 \<Rightarrow> dnssec_cache \<Rightarrow> int
       \<Rightarrow> bool \<Rightarrow> bool option \<Rightarrow> u32 \<Rightarrow> validate_status \<times> bool \<times> int" where
  "dnssec_validate_reply C lower ans auth qname qtype qclass rcode now_ts cache counter check_unsigned nons iters_limit =
     (let nons0 = (case nons of None \<Rightarrow> True | Some n \<Rightarrow> n)
      in if rcode = 2 then (vs_bogus DNSSEC_FAIL_UPSTREAM, nons0, counter)
         else if rcode \<noteq> 3 \<and> rcode \<noteq> 0 then (vs_insecure, nons0, counter)
         else if qtype = 46 then (vs_insecure, nons0, counter)
         else (case find_target ans qname qtype qclass of
                 (target, answered) \<Rightarrow>
                   (case check_rrsets C lower ans (ans @ auth) now_ts cache check_unsigned (nons \<noteq> None)
                           (ans @ auth) [] False counter of
                      (Inl st, counter1) \<Rightarrow> (st, nons0, counter1)
                    | (Inr insecure, counter1) \<Rightarrow>
                        if answered then (flag_status insecure, nons0, counter1)
                        else prove_missing C lower auth target qtype qclass cache insecure nons0 counter1 iters_limit)))"

section \<open>DS replies\<close>

definition supported_ds :: "dns_rr list \<Rightarrow> u16 \<Rightarrow> (ds_data \<times> u16) list" where
  "supported_ds ans cls =
     concat (map (\<lambda>rr. case parse_ds_rdata (rr_data rr) of
                         Inl _ \<Rightarrow> []
                       | Inr ds \<Rightarrow> if ds_digest_supported (ds_digest_type ds) \<and> algo_supported (ds_algorithm ds)
                                   then [(ds, cls)] else [])
       (filter (\<lambda>r. rr_type r = 43 \<and> rr_class r = cls) ans))"

definition store_ds :: "rstr \<Rightarrow> u16 \<Rightarrow> dns_rr list \<Rightarrow> bool \<Rightarrow> bool \<Rightarrow> bool \<Rightarrow> dnssec_cache \<Rightarrow> dnssec_cache" where
  "store_ds name cls ans servfail neganswer nons cache =
     (if \<not> servfail \<and> \<not> neganswer \<and> supported_ds ans cls \<noteq> [] then insert_ds_positive name (supported_ds ans cls) cache
      else if servfail \<or> nons then insert_ds_neg_not_zone_cut name cache
      else insert_ds_neg_insecure name cache)"

definition dnssec_validate_ds ::
    "'k crypto_crates \<Rightarrow> (rstr \<Rightarrow> rstr) \<Rightarrow> dns_rr list \<Rightarrow> dns_rr list \<Rightarrow> rstr \<Rightarrow> u16 \<Rightarrow> u8 \<Rightarrow> u32 \<Rightarrow> dnssec_cache \<Rightarrow> int \<Rightarrow> u32
       \<Rightarrow> validate_status \<times> dnssec_cache \<times> int" where
  "dnssec_validate_ds C lower ans auth name cls rcode now_ts cache counter iters_limit =
     (let servfail = (rcode = 2); neganswer = (\<not> list_ex (\<lambda>r. rr_type r = 43 \<and> rr_class r = cls) ans)
      in if servfail then (vs_secure, store_ds name cls ans True neganswer False cache, counter)
         else (case dnssec_validate_reply C lower ans auth name 43 cls rcode now_ts cache counter False (Some False) iters_limit of
                 (rc, nons, counter1) \<Rightarrow>
                   (case vs_code rc of
                      Insecure \<Rightarrow>
                        if \<not> neganswer then (vs_bogus DNSSEC_FAIL_INDET, cache, counter1)
                        else (vs_secure, store_ds name cls ans False neganswer nons cache, counter1)
                    | NeedKey needed _ \<Rightarrow>
                        if norm_name needed = norm_name name then (vs_bogus 0, cache, counter1) else (rc, cache, counter1)
                    | Secure \<Rightarrow> (vs_secure, store_ds name cls ans False neganswer nons cache, counter1)
                    | _ \<Rightarrow> (rc, cache, counter1))))"

end
