(* ===== verification/Dnssec_Chain.thy ===== *)
theory Dnssec_Chain
  imports Dnssec_Reply
begin

unbundle bit_operations_syntax

text \<open>
  What DNSSEC validation establishes. The bubble sort of an RRset yields its canonical order; a set
  is declared secure exactly when one of the signatures within the work budget verifies; the
  status of a zone depends on the deepest cached DS entry alone; a reply is declared secure only
  when every set in it is signed by a stored key of an enclosing zone; and the keys and DS records
  of the trust store are linked to a configured anchor by a chain of signatures.
\<close>

section \<open>The canonical order of an RRset\<close>

lemma bubble_pass_data:
  "rr_data ` set (fst (bubble_pass rrs)) = rr_data ` set rrs" "set (fst (bubble_pass rrs)) \<subseteq> set rrs"
  by (induction rrs rule: bubble_pass.induct)
    (auto split: rust_ordering.split simp: cmp_def split: if_splits)

lemma bubble_pass_unswapped:
  assumes "\<not> snd (bubble_pass rrs)"
  shows "sorted_wrt (<) (map rr_data (fst (bubble_pass rrs)))
    \<and> (rrs \<noteq> [] \<longrightarrow> fst (bubble_pass rrs) \<noteq> [] \<and> rr_data (hd (fst (bubble_pass rrs))) = rr_data (hd rrs))"
  using assms
proof (induction rrs rule: bubble_pass.induct)
  case (1 a b rest)
  show ?case
  proof (cases "cmp (rr_data a) (rr_data b)")
    case OrdLess
    then have ab: "rr_data a < rr_data b" by (auto simp: cmp_def split: if_splits)
    let ?r = "fst (bubble_pass (b # rest))"
    have "\<not> snd (bubble_pass (b # rest))" using 1(5) OrdLess by simp
    with 1(1) [OF OrdLess]
    have r: "sorted_wrt (<) (map rr_data ?r)" "?r \<noteq> []" "rr_data (hd ?r) = rr_data b" by auto
    have "rr_data a < x" if x: "x \<in> rr_data ` set ?r" for x
    proof -
      obtain y ys where ys: "?r = y # ys" using r(2) by (cases ?r) auto
      then have "x = rr_data y \<or> rr_data y < x" using x r(1) by auto
      then show ?thesis using ab r(3) ys by auto
    qed
    then show ?thesis using r(1) OrdLess by auto
  next
    case OrdEqual
    with 1(3) [OF OrdEqual] 1(5) show ?thesis by simp
  next
    case OrdGreater
    with 1(5) show ?thesis by simp
  qed
qed auto

lemma sort_rrset_data: "rr_data ` set (sort_rrset rrs) = rr_data ` set rrs" "set (sort_rrset rrs) \<subseteq> set rrs"
proof (induction rrs rule: sort_rrset.induct)
  case (1 rrs)
  { case 1
    then show ?case using "1.IH"(1) bubble_pass_data(1) [of rrs] by (subst sort_rrset.simps) (auto split: if_splits)
  next
    case 2
    then show ?case using "1.IH"(2) bubble_pass_data(2) [of rrs] by (subst sort_rrset.simps) (auto split: if_splits) }
qed

lemma sort_rrset_sorted: "sorted_wrt (<) (map rr_data (sort_rrset rrs))"
  by (induction rrs rule: sort_rrset.induct) (subst sort_rrset.simps, auto dest: bubble_pass_unswapped)

lemma sort_rrset_canonical_data: "map rr_data (sort_rrset rrs) = sorted_list_of_set (rr_data ` set rrs)"
proof -
  have "sorted (map rr_data (sort_rrset rrs)) \<and> distinct (map rr_data (sort_rrset rrs))"
    using sort_rrset_sorted strict_sorted_iff by blast
  then show ?thesis
    using sort_rrset_data(1) [of rrs] sorted_list_of_set.idem_if_sorted_distinct [of "map rr_data (sort_rrset rrs)"]
    by simp
qed

section \<open>Valid signatures\<close>

declare algorithm_try_from.simps [simp del]

text \<open>The octets a signature is checked against: the distinct data in ascending order. The owner and the data are used as they
  were received; they are not converted to lower case as RFC 4034 demands.\<close>

definition signed_octets :: "dns_rr list \<Rightarrow> u8 list \<Rightarrow> u8 list \<Rightarrow> u8 list \<Rightarrow> u16 \<Rightarrow> u16 \<Rightarrow> u8 list" where
  "signed_octets rrset rdata wire_signer wire_owner ty cls =
     take 18 rdata @ wire_signer
     @ concat (map (\<lambda>d. wire_owner @ to_be16 ty @ to_be16 cls @ take 4 (drop 4 rdata) @ to_be16 (word_of_nat (length d)) @ d)
         (sorted_list_of_set (rr_data ` set rrset)))"

definition sig_valid ::
    "'k crypto_crates \<Rightarrow> dns_rr list \<Rightarrow> rstr \<Rightarrow> u16 \<Rightarrow> u16 \<Rightarrow> u32 \<Rightarrow> u8 list \<Rightarrow> dns_rr \<Rightarrow> bool" where
  "sig_valid C rrset name ty cls now_ts key sig \<longleftrightarrow>
     (\<exists>algorithm wire_signer wire_owner k pubkey.
        18 \<le> length (rr_data sig)
        \<and> from_be32 (rr_data sig ! 12) (rr_data sig ! 13) (rr_data sig ! 14) (rr_data sig ! 15) \<le> now_ts
        \<and> now_ts \<le> from_be32 (rr_data sig ! 8) (rr_data sig ! 9) (rr_data sig ! 10) (rr_data sig ! 11)
        \<and> unat (rr_data sig ! 3) \<le> count_labels name
        \<and> algorithm_try_from (rr_data sig ! 2) = Inr algorithm
        \<and> name_to_wire (sig_signer (rr_data sig)) = Some wire_signer
        \<and> name_to_wire (signed_owner (unat (rr_data sig ! 3)) name) = Some wire_owner
        \<and> 18 + length wire_signer < length (rr_data sig)
        \<and> parse_dnskey_rdata key = Inr k
        \<and> parse_dnskey C (rr_data sig ! 2) (dk_public_key k) = Inr pubkey
        \<and> verify_sig C (signed_octets rrset (rr_data sig) wire_signer wire_owner ty cls)
             (drop (18 + length wire_signer) (rr_data sig)) pubkey algorithm = Inr True)"

lemma take4_drop4:
  assumes "8 \<le> length xs" shows "take 4 (drop 4 xs) = [xs ! 4, xs ! 5, xs ! 6, xs ! 7]"
  using assms by (intro nth_equalityI) (auto simp: less_Suc_eq numeral_eq_Suc)

lemma signed_octets_sorted:
  assumes "18 \<le> length rdata"
  shows "take 18 rdata @ wire_signer @ concat (map (signed_rr wire_owner ty cls
      (from_be32 (rdata ! 4) (rdata ! 5) (rdata ! 6) (rdata ! 7))) (sort_rrset rrset))
    = signed_octets rrset rdata wire_signer wire_owner ty cls"
  using assms
  by (simp add: signed_octets_def signed_rr_def [abs_def] take4_drop4 comp_def flip: sort_rrset_canonical_data)

text \<open>The lifetime granted to a set: that of its records, of the signature and of the time left.\<close>

definition granted_ttl :: "dns_rr list \<Rightarrow> u8 list \<Rightarrow> u32 \<Rightarrow> u32" where
  "granted_ttl rrset rdata now_ts =
     min (min (rrset_ttl (sort_rrset rrset)) (from_be32 (rdata ! 4) (rdata ! 5) (rdata ! 6) (rdata ! 7)))
       (from_be32 (rdata ! 8) (rdata ! 9) (rdata ! 10) (rdata ! 11) - now_ts)"

lemma check_sig_key:
  "check_sig C (sort_rrset rrset) name ty cls now_ts (Some key) sig =
     (if sig_valid C rrset name ty cls now_ts key sig
      then Some (RvSecure (granted_ttl rrset (rr_data sig) now_ts) (from_be16 (rr_data sig ! 16) (rr_data sig ! 17)))
      else None)"
proof -
  let ?rd = "rr_data sig"
  let ?inc = "from_be32 (?rd ! 12) (?rd ! 13) (?rd ! 14) (?rd ! 15)"
  let ?exp = "from_be32 (?rd ! 8) (?rd ! 9) (?rd ! 10) (?rd ! 11)"
  consider (early) "length ?rd < 18 \<or> now_ts < ?inc \<or> now_ts > ?exp \<or> unat (?rd ! 3) > count_labels name"
    | (algo) e where "algorithm_try_from (?rd ! 2) = Inl e"
    | (signer) "name_to_wire (sig_signer ?rd) = None"
    | (owner) "name_to_wire (signed_owner (unat (?rd ! 3)) name) = None"
    | (key) e where "parse_dnskey_rdata key = Inl e"
    | (all) a ws wo k where "18 \<le> length ?rd" "?inc \<le> now_ts" "now_ts \<le> ?exp" "unat (?rd ! 3) \<le> count_labels name"
        "algorithm_try_from (?rd ! 2) = Inr a" "name_to_wire (sig_signer ?rd) = Some ws"
        "name_to_wire (signed_owner (unat (?rd ! 3)) name) = Some wo" "parse_dnskey_rdata key = Inr k"
    by (metis not_less option.exhaust sum.exhaust)
  then show ?thesis
  proof cases
    case early
    then have "\<not> sig_valid C rrset name ty cls now_ts key sig" by (auto simp: sig_valid_def)
    with early show ?thesis by (auto simp: check_sig_def Let_def)
  next
    case algo
    then have "\<not> sig_valid C rrset name ty cls now_ts key sig" by (auto simp: sig_valid_def)
    with algo show ?thesis by (simp add: check_sig_def Let_def)
  next
    case signer
    then have "\<not> sig_valid C rrset name ty cls now_ts key sig" by (auto simp: sig_valid_def)
    with signer show ?thesis by (simp add: check_sig_def Let_def split: sum.split)
  next
    case owner
    then have "\<not> sig_valid C rrset name ty cls now_ts key sig" by (auto simp: sig_valid_def)
    with owner show ?thesis by (simp add: check_sig_def Let_def split: sum.split option.split)
  next
    case key
    then have "\<not> sig_valid C rrset name ty cls now_ts key sig" by (auto simp: sig_valid_def)
    with key show ?thesis by (simp add: check_sig_def Let_def split: sum.split option.split)
  next
    case (all a ws wo k)
    have v: "sig_valid C rrset name ty cls now_ts key sig \<longleftrightarrow> 18 + length ws < length ?rd
        \<and> (\<exists>pubkey. parse_dnskey C (?rd ! 2) (dk_public_key k) = Inr pubkey
            \<and> verify_sig C (signed_octets rrset ?rd ws wo ty cls) (drop (18 + length ws) ?rd) pubkey a = Inr True)"
      using all unfolding sig_valid_def by simp
    have "check_sig C (sort_rrset rrset) name ty cls now_ts (Some key) sig =
       (if 18 + length ws \<ge> length ?rd then None
        else (case parse_dnskey C (?rd ! 2) (dk_public_key k) of
                Inl _ \<Rightarrow> None
              | Inr pubkey \<Rightarrow>
                  if verify_sig C (signed_octets rrset ?rd ws wo ty cls) (drop (18 + length ws) ?rd) pubkey a = Inr True
                  then Some (RvSecure (granted_ttl rrset ?rd now_ts) (from_be16 (?rd ! 16) (?rd ! 17))) else None))"
      unfolding check_sig_def Let_def signed_octets_sorted [OF all(1)] granted_ttl_def
      using all(1,5-8) all(2-4) [THEN leD] by simp
    then show ?thesis unfolding v by (auto split: sum.split)
  qed
qed

lemma check_sigs_key:
  assumes "0 \<le> counter"
  shows "check_sigs C (sort_rrset rrset) name ty cls now_ts (Some key) sigs counter =
     (case find (sig_valid C rrset name ty cls now_ts key) (take (nat counter) sigs) of
        Some sig \<Rightarrow> (RvSecure (granted_ttl rrset (rr_data sig) now_ts) (from_be16 (rr_data sig ! 16) (rr_data sig ! 17)),
                    counter - int (length (takeWhile (\<lambda>s. \<not> sig_valid C rrset name ty cls now_ts key s) sigs)) - 1)
      | None \<Rightarrow> (RvBogus (str_lit ''no valid signatures found''), counter - int (min (nat counter) (length sigs))))"
  using assms
proof (induction sigs arbitrary: counter)
  case (Cons sig sigs)
  show ?case
  proof (cases "counter = 0")
    case False
    with Cons.prems have c: "nat counter = Suc (nat (counter - 1))" "0 \<le> counter - 1" by simp_all
    show ?thesis
      using Cons.IH [OF c(2)] False Cons.prems
      by (auto simp: check_sig_key dec_counter_def c(1) split: option.splits)
  qed (simp add: dec_counter_def)
qed simp

lemma validate_rrset_key:
  assumes "0 \<le> counter"
  shows "(\<exists>ttl tag. fst (validate_rrset C rrset sigs name ty cls now_ts (Some key) counter) = RvSecure ttl tag)
      \<longleftrightarrow> (\<exists>sig \<in> set (take (nat counter) sigs). sig_valid C rrset name ty cls now_ts key sig)"
    "0 \<le> snd (validate_rrset C rrset sigs name ty cls now_ts (Some key) counter)"
    "snd (validate_rrset C rrset sigs name ty cls now_ts (Some key) counter) \<le> counter"
proof -
  let ?P = "sig_valid C rrset name ty cls now_ts key"
  show "(\<exists>ttl tag. fst (validate_rrset C rrset sigs name ty cls now_ts (Some key) counter) = RvSecure ttl tag)
      \<longleftrightarrow> (\<exists>sig \<in> set (take (nat counter) sigs). ?P sig)"
  proof (cases "find ?P (take (nat counter) sigs)")
    case None
    then have "\<not> (\<exists>sig \<in> set (take (nat counter) sigs). ?P sig)" by (auto simp: find_None_iff)
    with None check_sigs_key [OF assms, of C rrset name ty cls now_ts key sigs] show ?thesis
      by (simp add: validate_rrset_def)
  next
    case (Some sig)
    then have "sig \<in> set (take (nat counter) sigs)" "?P sig" by (auto simp: find_Some_iff in_set_conv_nth)
    moreover have "sigs \<noteq> []" using Some by auto
    ultimately show ?thesis
      using Some check_sigs_key [OF assms, of C rrset name ty cls now_ts key sigs] by (auto simp: validate_rrset_def)
  qed
  have "find ?P (take n sigs) = Some sig \<Longrightarrow> length (takeWhile (\<lambda>s. \<not> ?P s) sigs) < n" for sig n
  proof (induction sigs arbitrary: n)
    case (Cons a sigs)
    then show ?case by (cases n) (auto split: if_splits)
  qed simp
  then show "0 \<le> snd (validate_rrset C rrset sigs name ty cls now_ts (Some key) counter)"
    "snd (validate_rrset C rrset sigs name ty cls now_ts (Some key) counter) \<le> counter"
    using check_sigs_key [OF assms, of C rrset name ty cls now_ts key sigs] assms
    by (fastforce simp: validate_rrset_def split: option.splits)+
qed

section \<open>The status of a zone\<close>

lemma trim_end_dots_idem [simp]: "trim_end_dots (trim_end_dots s) = trim_end_dots s"
proof -
  have "dropWhile P (dropWhile P xs) = dropWhile P xs" for P :: "u8 \<Rightarrow> bool" and xs by (induction xs) auto
  then show ?thesis by (simp add: trim_end_dots_def)
qed

lemma trim_end_dots_lower: "trim_end_dots (to_ascii_lowercase s) = to_ascii_lowercase (trim_end_dots s)"
proof -
  have "dropWhile (\<lambda>b. b = DOT) (map ascii_lower xs) = map ascii_lower (dropWhile (\<lambda>b. b = DOT) xs)" for xs
    by (induction xs) auto
  then show ?thesis by (simp add: trim_end_dots_def to_ascii_lowercase_def rev_map)
qed

lemma norm_name_idem [simp]: "norm_name (norm_name s) = norm_name s"
  by (simp add: norm_name_def trim_end_dots_lower)

lemma find_ds_norm [simp]: "find_ds cache (norm_name name) = find_ds cache name"
  by (simp add: find_ds_def)

lemma last_dns_suffixes: "dns_suffixes name \<noteq> []" "last (dns_suffixes name) = norm_name name"
proof -
  show "dns_suffixes name \<noteq> []" by (simp add: dns_suffixes_def Let_def)
  have "split_on DOT n \<noteq> []" for n :: rstr by simp
  then show "last (dns_suffixes name) = norm_name name"
    by (simp add: dns_suffixes_def Let_def last_rev last_map hd_upt del: split_on_ne)
qed

text \<open>A DS entry that lets the walk go on.\<close>

fun keeps_secure :: "u16 \<Rightarrow> ds_state \<Rightarrow> bool" where
  "keeps_secure cls (DsPositive es) = list_ex (\<lambda>(ds, c). c = cls \<and> ds_entry_supported ds) es"
| "keeps_secure cls DsNegInsecure = False"
| "keeps_secure cls DsNegNotZoneCut = True"

lemma walk_down_Cons:
  "walk_down cache cls (suf # sufs) =
     (case find_ds cache suf of
        None \<Rightarrow> vs_need_ds suf cls
      | Some st \<Rightarrow> if keeps_secure cls st then walk_down cache cls sufs else vs_insecure)"
  by (auto split: option.split ds_state.split)

declare walk_down.simps(2) [simp del]

lemma anchor_index_deepest:
  assumes "find_ds cache (sufs ! i) \<noteq> None" "i < length sufs"
  shows "i \<le> anchor_index cache sufs" "anchor_index cache sufs < length sufs"
    "find_ds cache (sufs ! anchor_index cache sufs) \<noteq> None"
    "\<And>j. anchor_index cache sufs < j \<Longrightarrow> j < length sufs \<Longrightarrow> find_ds cache (sufs ! j) = None"
proof -
  let ?P = "\<lambda>i. find_ds cache (sufs ! i) \<noteq> None" and ?n = "length sufs"
  have "find ?P (rev [0..<?n]) \<noteq> None" using assms by (auto simp: find_None_iff)
  then obtain a where a: "find ?P (rev [0..<?n]) = Some a" by auto
  then obtain k where k: "k < ?n" "a = rev [0..<?n] ! k" "?P a" "\<forall>j<k. \<not> ?P (rev [0..<?n] ! j)"
    by (auto simp: find_Some_iff)
  have nth: "rev [0..<?n] ! j = ?n - Suc j" if "j < ?n" for j using that by (simp add: rev_nth)
  have above: "find_ds cache (sufs ! j) = None" if "a < j" "j < ?n" for j
    using k(4) [rule_format, of "?n - Suc j"] nth [of "?n - Suc j"] nth [OF k(1)] k(2) that by auto
  have ai: "anchor_index cache sufs = a" unfolding anchor_index_def a by simp
  show "i \<le> anchor_index cache sufs" using above [of i] assms ai by (meson not_less)
  show "anchor_index cache sufs < length sufs" "find_ds cache (sufs ! anchor_index cache sufs) \<noteq> None"
    using k nth [OF k(1)] ai by auto
  show "\<And>j. anchor_index cache sufs < j \<Longrightarrow> j < length sufs \<Longrightarrow> find_ds cache (sufs ! j) = None"
    using above ai by simp
qed

lemma zone_secure:
  "vs_code (zone_status name cls cache) = Secure \<longleftrightarrow>
     (case find_ds cache name of None \<Rightarrow> False | Some st \<Rightarrow> keeps_secure cls st)"
proof -
  let ?s = "dns_suffixes name" and ?a = "anchor_index cache (dns_suffixes name)"
  let ?n = "length ?s - 1"
  have n: "?n < length ?s" "?s ! ?n = norm_name name"
    using last_dns_suffixes [of name] by (simp_all add: last_conv_nth)
  show ?thesis
  proof (cases "find_ds cache name")
    case (Some st)
    then have "?n \<le> ?a" "?a < length ?s" using anchor_index_deepest(1,2) [of cache ?s ?n] n by auto
    then have "?a = ?n" by simp
    then have "drop ?a ?s = [norm_name name]" using n by (metis Cons_nth_drop_Suc Suc_pred' drop_all le_refl length_greater_0_conv last_dns_suffixes(1))
    then show ?thesis using Some by (simp add: zone_status_def Let_def walk_down_Cons vs_defs)
  next
    case None
    have "vs_code (walk_down cache cls xs) \<noteq> Secure" if "xs \<noteq> []" "last xs = norm_name name" for xs
      using that
    proof (induction xs)
      case (Cons x xs)
      then show ?case using None by (cases xs) (auto simp: walk_down_Cons vs_defs split: option.split)
    qed simp
    moreover have "?a < length ?s"
    proof (cases "\<exists>i<length ?s. find_ds cache (?s ! i) \<noteq> None")
      case False
      then have "anchor_index cache ?s = 0" by (auto simp: anchor_index_def find_Some_iff rev_nth split: option.splits)
      then show ?thesis using last_dns_suffixes(1) by simp
    next
      case True
      then show ?thesis using anchor_index_deepest(2) by blast
    qed
    ultimately show ?thesis using None last_dns_suffixes(2) [of name]
      by (simp add: zone_status_def Let_def last_drop)
  qed
qed

section \<open>Secure replies\<close>

text \<open>The RRset of \<open>rr\<close> is signed by a stored key of a secure zone that encloses it.\<close>

definition authentic ::
    "'k crypto_crates \<Rightarrow> (rstr \<Rightarrow> rstr) \<Rightarrow> dnssec_cache \<Rightarrow> dns_rr list \<Rightarrow> u32 \<Rightarrow> dns_rr \<Rightarrow> bool" where
  "authentic C lower cache rrs now_ts rr \<longleftrightarrow>
     (\<exists>owner zone key sig.
        lower owner = lower (rr_name rr) \<and> norm_name owner = norm_name (rr_name rr)
        \<and> sig \<in> set rrs \<and> covering_sig lower owner (rr_type rr) sig
        \<and> eq_ignore_ascii_case zone (sig_signer (rr_data sig))
        \<and> vs_code (zone_status zone (rr_class rr) cache) = Secure
        \<and> key \<in> set (find_dnskeys cache zone (rr_class rr))
        \<and> sig_valid C (fst (explore_rrset lower rrs owner (rr_class rr) (rr_type rr))) owner (rr_type rr) (rr_class rr)
             now_ts key sig)"

lemma eq_ignore_ascii_case_sym: "eq_ignore_ascii_case a b \<longleftrightarrow> eq_ignore_ascii_case b a"
  by (metis eq_ignore_ascii_case_lower)

lemma common_signer_spec:
  "common_signer sigs signer = Inr s \<Longrightarrow>
     (\<forall>sig \<in> set sigs. \<exists>z. s = Some z \<and> eq_ignore_ascii_case z (sig_signer (rr_data sig)))
     \<and> (signer \<noteq> None \<longrightarrow> s = signer)"
proof (induction sigs arbitrary: signer)
  case (Cons sig sigs)
  then obtain n len where n: "parse_wire_name (drop 18 (rr_data sig)) = Inr (n, len)"
    by (auto split: if_splits sum.splits)
  then have sn: "sig_signer (rr_data sig) = n" by (simp add: sig_signer_def)
  show ?case
  proof (cases signer)
    case None
    then have c: "common_signer sigs (Some n) = Inr s" using Cons.prems n by (simp split: if_splits)
    from Cons.IH [OF c] show ?thesis using None sn by auto
  next
    case (Some z)
    then have c: "eq_ignore_ascii_case z n" "common_signer sigs (Some z) = Inr s"
      using Cons.prems n by (auto split: if_splits)
    from Cons.IH [OF c(2)] show ?thesis using Some sn c(1) by auto
  qed
qed simp

lemma try_keys_counter: "0 \<le> counter \<Longrightarrow> 0 \<le> snd (try_keys C rrset sigs rr now_ts keys counter)
    \<and> snd (try_keys C rrset sigs rr now_ts keys counter) \<le> counter"
proof (induction keys arbitrary: counter)
  case (Cons key keys)
  obtain v c1 where v: "validate_rrset C rrset sigs (rr_name rr) (rr_type rr) (rr_class rr) now_ts (Some key) counter = (v, c1)"
    by fastforce
  have "0 \<le> c1" "c1 \<le> counter"
    using validate_rrset_key(2,3) [OF Cons.prems, of C rrset sigs "rr_name rr" "rr_type rr" "rr_class rr" now_ts key] v by simp_all
  then show ?case using Cons.IH [of c1] v by (auto split: rrset_validation.splits)
qed simp

lemma try_keys_sound:
  "0 \<le> counter \<Longrightarrow> fst (try_keys C rrset sigs rr now_ts keys counter) \<Longrightarrow>
     \<exists>key \<in> set keys. \<exists>sig \<in> set sigs. sig_valid C rrset (rr_name rr) (rr_type rr) (rr_class rr) now_ts key sig"
proof (induction keys arbitrary: counter)
  case (Cons key keys)
  obtain v c1 where v: "validate_rrset C rrset sigs (rr_name rr) (rr_type rr) (rr_class rr) now_ts (Some key) counter = (v, c1)"
    by fastforce
  note k = validate_rrset_key [OF Cons.prems(1), of C rrset sigs "rr_name rr" "rr_type rr" "rr_class rr" now_ts key]
  show ?case
  proof (cases "\<exists>ttl tag. v = RvSecure ttl tag")
    case True
    then show ?thesis using k(1) v by (auto dest: in_set_takeD)
  next
    case False
    then have "fst (try_keys C rrset sigs rr now_ts keys c1)"
      using Cons.prems(2) v by (auto split: rrset_validation.splits)
    then show ?thesis using Cons.IH [of c1] k(2) v by auto
  qed
qed simp

lemma check_signed_cases:
  assumes "check_signed C rrset sigs rr now_ts cache counter = (r, counter1)"
  obtains (unchanged) "counter1 = counter" "r \<noteq> Inr False"
    | (keys) signer zone b where "common_signer sigs None = Inr signer"
        "zone = (case signer of None \<Rightarrow> rr_name rr | Some s \<Rightarrow> s)"
        "vs_code (zone_status zone (rr_class rr) cache) = Secure"
        "try_keys C rrset sigs rr now_ts (find_dnskeys cache zone (rr_class rr)) counter = (b, counter1)"
        "r = Inr False \<longleftrightarrow> b"
proof (cases "common_signer sigs None")
  case (Inl e)
  then show ?thesis using assms unchanged by (auto simp: check_signed_def)
next
  case (Inr signer)
  define zone where "zone = (case signer of None \<Rightarrow> rr_name rr | Some s \<Rightarrow> s)"
  let ?zs = "zone_status zone (rr_class rr) cache" and ?keys = "find_dnskeys cache zone (rr_class rr)"
  have e: "check_signed C rrset sigs rr now_ts cache counter =
     (case vs_code ?zs of
        Insecure \<Rightarrow> (Inr True, counter)
      | Secure \<Rightarrow>
          if ?keys = [] then (Inl (vs_need_key zone (rr_class rr)), counter)
          else (case try_keys C rrset sigs rr now_ts ?keys counter of
                  (True, c1) \<Rightarrow> (Inr False, c1)
                | (False, c1) \<Rightarrow> (Inl (vs_bogus DNSSEC_FAIL_NOKEY), c1))
      | _ \<Rightarrow> (Inl ?zs, counter))"
    unfolding check_signed_def Inr Let_def zone_def [symmetric] sum.case ..
  show ?thesis
  proof (cases "vs_code ?zs = Secure \<and> ?keys \<noteq> []")
    case True
    obtain b c1 where t: "try_keys C rrset sigs rr now_ts ?keys counter = (b, c1)" by fastforce
    show ?thesis using keys [OF Inr zone_def, of b] True t e assms by (cases b) auto
  next
    case False
    show ?thesis using unchanged False e assms by (cases "vs_code ?zs") auto
  qed
qed

lemma check_signed_counter:
  assumes "0 \<le> counter" "check_signed C rrset sigs rr now_ts cache counter = (r, counter1)"
  shows "0 \<le> counter1 \<and> counter1 \<le> counter"
  using assms(2)
proof (cases rule: check_signed_cases)
  case (keys signer zone b)
  then show ?thesis
    using try_keys_counter [OF assms(1), of C rrset sigs rr now_ts "find_dnskeys cache zone (rr_class rr)"] by simp
qed (use assms(1) in simp)

lemma explore_sigs:
  assumes "sig \<in> set (snd (explore_rrset lower rrs name cls ty))"
  shows "sig \<in> set rrs" "covering_sig lower name ty sig"
  using assms by (auto simp: explore_rrset_def Let_def)

lemma check_signed_sound:
  assumes "0 \<le> counter"
    and "check_signed C (fst (explore_rrset lower rrs (rr_name rr) (rr_class rr) (rr_type rr)))
           (snd (explore_rrset lower rrs (rr_name rr) (rr_class rr) (rr_type rr))) rr now_ts cache counter = (Inr False, counter1)"
  shows "authentic C lower cache rrs now_ts rr"
  using assms(2)
proof (cases rule: check_signed_cases)
  case (keys signer zone b)
  let ?sigs = "snd (explore_rrset lower rrs (rr_name rr) (rr_class rr) (rr_type rr))"
  have "fst (try_keys C (fst (explore_rrset lower rrs (rr_name rr) (rr_class rr) (rr_type rr))) ?sigs rr now_ts
      (find_dnskeys cache zone (rr_class rr)) counter)"
    using keys(4,5) by simp
  from try_keys_sound [OF assms(1) this] obtain key sig
    where k: "key \<in> set (find_dnskeys cache zone (rr_class rr))" "sig \<in> set ?sigs"
      "sig_valid C (fst (explore_rrset lower rrs (rr_name rr) (rr_class rr) (rr_type rr))) (rr_name rr) (rr_type rr)
         (rr_class rr) now_ts key sig" by blast
  obtain z where "signer = Some z" "eq_ignore_ascii_case z (sig_signer (rr_data sig))"
    using common_signer_spec [OF keys(1)] k(2) by blast
  then show ?thesis
    using keys(2,3) k explore_sigs [OF k(2)] unfolding authentic_def by (intro exI conjI) auto
qed simp

text \<open>A set that may stay unsigned: outside the answer, in the mode for DS replies.\<close>

definition exempt :: "dns_rr list \<Rightarrow> bool \<Rightarrow> dns_rr \<Rightarrow> bool" where
  "exempt ans ds_mode rr \<longleftrightarrow> ds_mode \<and> rr_type rr \<noteq> 47 \<and> rr_type rr \<noteq> 50
     \<and> \<not> list_ex (record_at (norm_name (rr_name rr)) (rr_type rr) (rr_class rr)) ans"

lemma check_one_spec:
  assumes "0 \<le> counter" "check_one C lower ans rrs rr now_ts cache check_unsigned ds_mode counter = (r, counter1)"
  shows "0 \<le> counter1 \<and> counter1 \<le> counter"
    "r = Inr False \<Longrightarrow> exempt ans ds_mode rr \<or> authentic C lower cache rrs now_ts rr"
proof -
  let ?E = "explore_rrset lower rrs (rr_name rr) (rr_class rr) (rr_type rr)"
  have "(r, counter1) = check_signed C (fst ?E) (snd ?E) rr now_ts cache counter
      \<or> counter1 = counter \<and> (r = Inr False \<longrightarrow> exempt ans ds_mode rr)"
    using assms(2) by (auto simp: check_one_def exempt_def Let_def split_beta split: if_splits)
  then show "0 \<le> counter1 \<and> counter1 \<le> counter" "r = Inr False \<Longrightarrow> exempt ans ds_mode rr \<or> authentic C lower cache rrs now_ts rr"
    using assms(1) check_signed_counter [OF assms(1), of C "fst ?E" "snd ?E" rr now_ts cache r counter1]
      check_signed_sound [OF assms(1), of C lower rrs rr now_ts cache counter1] by auto
qed

text \<open>Every set of \<open>todo\<close> is represented by a record that is authentic, exempt, or was seen before.\<close>

definition covered ::
    "'k crypto_crates \<Rightarrow> (rstr \<Rightarrow> rstr) \<Rightarrow> dns_rr list \<Rightarrow> dns_rr list \<Rightarrow> u32 \<Rightarrow> dnssec_cache \<Rightarrow> bool
       \<Rightarrow> dns_rr list \<Rightarrow> (rstr \<times> u16 \<times> u16) list \<Rightarrow> bool" where
  "covered C lower ans rrs now_ts cache ds_mode todo seen \<longleftrightarrow>
     (\<forall>rr \<in> set todo. rr_type rr = 46 \<or> (norm_name (rr_name rr), rr_type rr, rr_class rr) \<in> set seen
        \<or> (\<exists>rr' \<in> set todo. norm_name (rr_name rr') = norm_name (rr_name rr) \<and> rr_type rr' = rr_type rr
              \<and> rr_class rr' = rr_class rr \<and> (exempt ans ds_mode rr' \<or> authentic C lower cache rrs now_ts rr')))"

lemma covered_Cons:
  "covered C lower ans rrs now_ts cache ds_mode todo seen \<Longrightarrow> rr_type rr = 46
     \<or> (norm_name (rr_name rr), rr_type rr, rr_class rr) \<in> set seen \<Longrightarrow>
   covered C lower ans rrs now_ts cache ds_mode (rr # todo) seen"
  "covered C lower ans rrs now_ts cache ds_mode todo ((norm_name (rr_name rr), rr_type rr, rr_class rr) # seen) \<Longrightarrow>
   exempt ans ds_mode rr \<or> authentic C lower cache rrs now_ts rr \<Longrightarrow>
   covered C lower ans rrs now_ts cache ds_mode (rr # todo) seen"
  unfolding covered_def by fastforce+

lemma check_rrsets_spec:
  assumes "0 \<le> counter"
    and "check_rrsets C lower ans rrs now_ts cache check_unsigned ds_mode todo seen insecure counter = (r, counter1)"
  shows "0 \<le> counter1 \<and> counter1 \<le> counter
    \<and> (r = Inr False \<longrightarrow> \<not> insecure \<and> covered C lower ans rrs now_ts cache ds_mode todo seen)"
  using assms
proof (induction todo arbitrary: seen insecure counter)
  case (Cons rr todo)
  let ?k = "(norm_name (rr_name rr), rr_type rr, rr_class rr)"
  obtain s c1 where one: "check_one C lower ans rrs rr now_ts cache check_unsigned ds_mode counter = (s, c1)" by fastforce
  note spec = check_one_spec [OF Cons.prems(1) one]
  show ?case
  proof (cases "rr_type rr = 46 \<or> ?k \<in> set seen")
    case True
    then have "check_rrsets C lower ans rrs now_ts cache check_unsigned ds_mode todo seen insecure counter = (r, counter1)"
      using Cons.prems(2) by simp
    from Cons.IH [OF Cons.prems(1) this] covered_Cons(1) [OF _ True] show ?thesis by blast
  next
    case False
    show ?thesis
    proof (cases s)
      case (Inl st)
      then show ?thesis using False Cons.prems(2) one spec(1) by auto
    next
      case (Inr weak)
      with False Cons.prems(2) one have "check_rrsets C lower ans rrs now_ts cache check_unsigned ds_mode todo
          (?k # seen) (insecure \<or> weak) c1 = (r, counter1)" by simp
      from Cons.IH [OF _ this] spec Inr covered_Cons(2) show ?thesis by fastforce
    qed
  qed
qed (auto simp: covered_def)

text \<open>A status that ends the validation early is never secure.\<close>

lemma check_one_Inl:
  "check_one C lower ans rrs rr now_ts cache check_unsigned ds_mode counter = (Inl st, counter1) \<Longrightarrow> vs_code st \<noteq> Secure"
  by (auto simp: check_one_def check_signed_def Let_def split_beta vs_defs
      split: if_splits sum.splits stat_code.splits bool.splits)

lemma check_rrsets_Inl:
  "check_rrsets C lower ans rrs now_ts cache check_unsigned ds_mode todo seen insecure counter = (Inl st, counter1)
     \<Longrightarrow> vs_code st \<noteq> Secure"
proof (induction todo arbitrary: seen insecure counter)
  case (Cons rr todo)
  obtain s c1 where one: "check_one C lower ans rrs rr now_ts cache check_unsigned ds_mode counter = (s, c1)" by fastforce
  show ?case
  proof (cases s)
    case (Inl st')
    then show ?thesis using Cons one check_one_Inl [of C lower ans rrs rr now_ts cache check_unsigned ds_mode counter st' c1]
      by (auto simp: Let_def split: if_splits)
  next
    case (Inr weak)
    then show ?thesis using Cons one by (auto simp: Let_def split: if_splits)
  qed
qed simp

lemma flag_status_secure [simp]: "vs_code (flag_status insecure) = Secure \<longleftrightarrow> \<not> insecure"
  by (simp add: flag_status_def vs_defs)

lemma prove_missing_secure:
  assumes "prove_missing C lower auth target qtype qclass cache insecure nons counter limit = (st, nons1, counter1)"
    "vs_code st = Secure"
  shows "\<not> insecure \<and> fst (prove_non_existence C lower auth target qtype qclass 0 nons counter limit) = Inr ()"
proof -
  obtain p n c where p: "prove_non_existence C lower auth target qtype qclass 0 nons counter limit = (p, n, c)"
    by (metis prod_cases3)
  show ?thesis
  proof (cases p)
    case (Inl fail)
    then have "st = zone_status target qclass cache \<and> vs_code st \<noteq> Secure \<or> st = vs_bogus fail"
      using assms(1) by (auto simp: prove_missing_def p Let_def split: if_splits)
    then show ?thesis using assms(2) by (auto simp: vs_defs)
  next
    case (Inr u)
    then have "st = flag_status insecure" using assms(1) by (simp add: prove_missing_def p split: unit.splits)
    then show ?thesis using assms(2) p Inr by simp
  qed
qed

lemma reply_secure_cases:
  assumes "dnssec_validate_reply C lower ans auth qname qtype qclass rcode now_ts cache counter check_unsigned nons limit
      = (st, nons1, counter1)" "vs_code st = Secure" "0 \<le> counter"
  obtains target answered counter0 where "find_target ans qname qtype qclass = (target, answered)"
    "covered C lower ans (ans @ auth) now_ts cache (nons \<noteq> None) (ans @ auth) []"
    "answered \<or> fst (prove_non_existence C lower auth target qtype qclass 0
        (case nons of None \<Rightarrow> True | Some n \<Rightarrow> n) counter0 limit) = Inr ()"
    "rcode = 0 \<or> rcode = 3"
proof -
  let ?n = "case nons of None \<Rightarrow> True | Some n \<Rightarrow> n"
  obtain target answered where t: "find_target ans qname qtype qclass = (target, answered)" by fastforce
  obtain r c0 where c: "check_rrsets C lower ans (ans @ auth) now_ts cache check_unsigned (nons \<noteq> None) (ans @ auth) []
      False counter = (r, c0)" by fastforce
  have ok: "rcode \<noteq> 2" "rcode = 3 \<or> rcode = 0" "qtype \<noteq> 46"
    using assms(1,2) by (auto simp: dnssec_validate_reply_def Let_def vs_defs split: if_splits)
  have e: "(case r of
        Inl st \<Rightarrow> (st, ?n, c0)
      | Inr insecure \<Rightarrow> if answered then (flag_status insecure, ?n, c0)
          else prove_missing C lower auth target qtype qclass cache insecure ?n c0 limit) = (st, nons1, counter1)"
    using assms(1) ok unfolding dnssec_validate_reply_def Let_def t c by (auto split: sum.split)
  show ?thesis
  proof (cases r)
    case (Inr insecure)
    note spec = check_rrsets_spec [OF assms(3) c]
    show ?thesis
    proof (cases answered)
      case True
      then have "st = flag_status insecure" using e Inr by simp
      then show ?thesis using that [OF t] spec Inr ok(2) True assms(2) by auto
    next
      case False
      then have "prove_missing C lower auth target qtype qclass cache insecure ?n c0 limit = (st, nons1, counter1)"
        using e Inr by simp
      from prove_missing_secure [OF this assms(2)] show ?thesis using that [OF t, of c0] spec Inr ok(2) by blast
    qed
  next
    case (Inl st')
    then have "vs_code st' = Secure" using e assms(2) by simp
    then show ?thesis using check_rrsets_Inl [OF c [unfolded Inl]] by simp
  qed
qed

text \<open>Names in ASCII without a trailing dot, for which the two ways the code compares names agree.\<close>

definition plain_names :: "dns_rr list \<Rightarrow> bool" where
  "plain_names rrs \<longleftrightarrow> list_all (\<lambda>r. is_ascii (rr_name r) \<and> trim_end_dots (rr_name r) = rr_name r) rrs"

lemma plain_norm:
  "str_lower lower \<Longrightarrow> plain_names rrs \<Longrightarrow> r \<in> set rrs \<Longrightarrow> norm_name (rr_name r) = lower (rr_name r)"
  by (auto simp: plain_names_def list_all_iff norm_name_def str_lower.lower_ascii)

lemma authentic_same:
  "authentic C lower cache rrs now_ts rr' \<Longrightarrow> lower (rr_name rr') = lower (rr_name rr) \<Longrightarrow>
     norm_name (rr_name rr') = norm_name (rr_name rr) \<Longrightarrow> rr_type rr' = rr_type rr \<Longrightarrow> rr_class rr' = rr_class rr \<Longrightarrow> authentic C lower cache rrs now_ts rr"
  by (simp add: authentic_def)

lemma covered_authentic:
  assumes "str_lower lower" "plain_names (ans @ auth)"
    and "covered C lower ans (ans @ auth) now_ts cache ds_mode (ans @ auth) []"
    and "rr \<in> set (ans @ auth)" "rr_type rr \<noteq> 46" "\<not> exempt ans ds_mode rr"
  shows "authentic C lower cache (ans @ auth) now_ts rr"
proof -
  obtain rr' where rr': "rr' \<in> set (ans @ auth)" "norm_name (rr_name rr') = norm_name (rr_name rr)"
    "rr_type rr' = rr_type rr" "rr_class rr' = rr_class rr"
    "exempt ans ds_mode rr' \<or> authentic C lower cache (ans @ auth) now_ts rr'"
    using assms(3-5) unfolding covered_def by fastforce
  have "\<not> exempt ans ds_mode rr'" using assms(6) rr'(2-4) by (simp add: exempt_def)
  then show ?thesis
    using authentic_same [of C lower cache "ans @ auth" now_ts rr' rr] rr' plain_norm [OF assms(1,2)] assms(4) by auto
qed

section \<open>The chain of trust\<close>

text \<open>
  A DS record is trusted when it is a configured anchor or part of a DS set that a trusted key of an
  enclosing zone signs; a key is trusted when it belongs to a DNSKEY set that is signed by one of
  its zone keys which matches a trusted DS record.
\<close>

definition zone_key :: "u8 list \<Rightarrow> bool" where
  "zone_key rdata \<longleftrightarrow> (\<exists>k. parse_dnskey_rdata rdata = Inr k \<and> dk_protocol k = 3 \<and> dk_flags k AND 0x0100 \<noteq> 0)"

inductive trusted_ds :: "'k crypto_crates \<Rightarrow> (rstr \<Rightarrow> rstr) \<Rightarrow> (rstr \<times> ds_data \<times> u16) set \<Rightarrow> rstr \<Rightarrow> ds_data \<Rightarrow> u16 \<Rightarrow> bool"
  and trusted_key :: "'k crypto_crates \<Rightarrow> (rstr \<Rightarrow> rstr) \<Rightarrow> (rstr \<times> ds_data \<times> u16) set \<Rightarrow> rstr \<Rightarrow> u8 list \<Rightarrow> u16 \<Rightarrow> bool"
  for C :: "'k crypto_crates" and lower :: "rstr \<Rightarrow> rstr" and anchors :: "(rstr \<times> ds_data \<times> u16) set" where
  anchor: "(zone, ds, cls) \<in> anchors \<Longrightarrow> trusted_ds C lower anchors (norm_name zone) ds cls"
| zone_keys: "trusted_ds C lower anchors (norm_name zone) ds cls \<Longrightarrow> entry \<in> rr_data ` set rrset \<Longrightarrow> zone_key entry \<Longrightarrow>
    ds_matches_dnskey C ds entry zone \<Longrightarrow> sig_valid C rrset zone 48 cls now_ts entry sig \<Longrightarrow>
    k \<in> rr_data ` set rrset \<Longrightarrow> trusted_key C lower anchors (norm_name zone) k cls"
| delegation: "trusted_key C lower anchors (norm_name zone) key cls \<Longrightarrow> covering_sig lower owner 43 sig \<Longrightarrow>
    eq_ignore_ascii_case zone (sig_signer (rr_data sig)) \<Longrightarrow> sig_valid C rrset owner 43 cls now_ts key sig \<Longrightarrow>
    r \<in> set rrset \<Longrightarrow> parse_ds_rdata (rr_data r) = Inr ds \<Longrightarrow> norm_name owner = norm_name child \<Longrightarrow>
    trusted_ds C lower anchors (norm_name child) ds cls"

definition store_trusted ::
    "'k crypto_crates \<Rightarrow> (rstr \<Rightarrow> rstr) \<Rightarrow> (rstr \<times> ds_data \<times> u16) set \<Rightarrow> dnssec_cache \<Rightarrow> bool" where
  "store_trusted C lower anchors cache \<longleftrightarrow>
     (\<forall>n es ds cls. dc_ds cache n = Some (DsPositive es) \<longrightarrow> (ds, cls) \<in> set es \<longrightarrow> trusted_ds C lower anchors n ds cls)
     \<and> (\<forall>n ks k cls. dc_dnskey cache n = Some ks \<longrightarrow> (k, cls) \<in> set ks \<longrightarrow> trusted_key C lower anchors n k cls)"

lemma store_trusted_new: "store_trusted C lower anchors dnssec_cache_new"
  by (simp add: store_trusted_def dnssec_cache_new_def)

lemma store_trusted_anchor:
  assumes "store_trusted C lower anchors cache" "(zone, ds, cls) \<in> anchors"
  shows "store_trusted C lower anchors (insert_trust_anchor zone ds cls cache)"
  using assms trusted_ds_trusted_key.anchor [OF assms(2), of C lower]
  by (auto simp: store_trusted_def insert_trust_anchor_def split: option.splits ds_state.splits)

lemma find_dnskeys_trusted:
  assumes "store_trusted C lower anchors cache" "k \<in> set (find_dnskeys cache zone cls)"
  shows "trusted_key C lower anchors (norm_name zone) k cls"
proof -
  obtain v where "dc_dnskey cache (norm_name zone) = Some v" "(k, cls) \<in> set v"
    using assms(2) by (cases "dc_dnskey cache (norm_name zone)") (auto simp: find_dnskeys_def)
  then show ?thesis using assms(1) unfolding store_trusted_def by blast
qed

lemma store_keys_trusted:
  assumes "store_trusted C lower anchors cache"
    and "\<And>k. k \<in> rr_data ` set rrset \<Longrightarrow> trusted_key C lower anchors (norm_name name) k cls"
  shows "store_trusted C lower anchors (store_keys name cls rrset cache)"
proof -
  have keep: "store_trusted C lower anchors (fold (\<lambda>k. insert_dnskey name (rr_data k) cls) ks cache')"
    if "store_trusted C lower anchors cache'" "\<And>k. k \<in> set ks \<Longrightarrow> trusted_key C lower anchors (norm_name name) (rr_data k) cls"
    for ks cache'
    using that
  proof (induction ks arbitrary: cache')
    case (Cons k ks)
    have "store_trusted C lower anchors (insert_dnskey name (rr_data k) cls cache')"
      using Cons.prems
      by (cases "dc_dnskey cache' (norm_name name)") (auto simp: store_trusted_def insert_dnskey_def)
    with Cons show ?case by simp
  qed simp
  show ?thesis unfolding store_keys_def by (rule keep [OF assms(1)]) (simp add: assms(2))
qed

lemma try_ds_entries_sound:
  assumes "0 \<le> counter"
    "try_ds_entries C rrset sigs name cls now_ts key_rdata key es fail counter = (out, counter1)"
  shows "0 \<le> counter1 \<and> counter1 \<le> counter \<and> (out = DsValidated \<longrightarrow>
    (\<exists>ds sig. (ds, cls) \<in> set es \<and> ds_matches_dnskey C ds key_rdata name \<and> sig_valid C rrset name 48 cls now_ts key_rdata sig))"
  using assms
proof (induction es arbitrary: fail counter)
  case (Cons e es)
  obtain ds c where e: "e = (ds, c)" by fastforce
  let ?rest = "\<lambda>fail counter. try_ds_entries C rrset sigs name cls now_ts key_rdata key es fail counter"
  obtain v c2 where v: "validate_rrset C rrset sigs name 48 cls now_ts (Some key_rdata) (counter - 1) = (v, c2)" by fastforce
  consider (skip) f where "?rest f counter = (out, counter1)"
    | (empty) "out = DsAbandoned" "counter1 = counter"
    | (nomatch) f where "counter \<noteq> 0" "?rest f (counter - 1) = (out, counter1)"
    | (tried) f where "counter \<noteq> 0" "c = cls" "ds_matches_dnskey C ds key_rdata name"
        "(case v of RvSecure _ _ \<Rightarrow> (DsValidated, c2) | _ \<Rightarrow> ?rest f c2) = (out, counter1)"
    using Cons.prems(2) v
    by (auto simp: e Let_def dec_counter_def split: if_splits rrset_validation.splits)
  then show ?case
  proof cases
    case skip
    from Cons.IH [OF Cons.prems(1) this] show ?thesis by auto
  next
    case empty
    then show ?thesis using Cons.prems(1) by simp
  next
    case nomatch
    have "0 \<le> counter - 1" using nomatch(1) Cons.prems(1) by simp
    from Cons.IH [OF this nomatch(2)] show ?thesis by auto
  next
    case tried
    have c: "0 \<le> counter - 1" using tried(1) Cons.prems(1) by simp
    note k = validate_rrset_key [OF c, of C rrset sigs name 48 cls now_ts key_rdata]
    show ?thesis
    proof (cases "\<exists>ttl tag. v = RvSecure ttl tag")
      case True
      then obtain sig where "sig_valid C rrset name 48 cls now_ts key_rdata sig" using k(1) v by auto
      then show ?thesis using True tried k(2,3) v e by auto
    next
      case False
      then have "?rest f c2 = (out, counter1)" using tried(4) by (cases v) auto
      moreover have "0 \<le> c2" "c2 \<le> counter - 1" using k(2,3) v by simp_all
      ultimately show ?thesis using Cons.IH [of c2 f] by fastforce
    qed
  qed
qed auto

lemma try_zone_keys_sound:
  assumes "0 \<le> counter"
    "try_zone_keys C rrset sigs name cls now_ts es keys fail counter = (DsValidated, counter1)"
  shows "\<exists>entry \<in> rr_data ` set keys. \<exists>ds sig. zone_key entry \<and> (ds, cls) \<in> set es \<and> ds_matches_dnskey C ds entry name
    \<and> sig_valid C rrset name 48 cls now_ts entry sig"
  using assms
proof (induction keys arbitrary: fail counter)
  case (Cons key_rr keys)
  let ?d = "rr_data key_rr"
  let ?rest = "\<lambda>fail counter. try_zone_keys C rrset sigs name cls now_ts es keys fail counter"
  consider (skip) "?rest fail counter = (DsValidated, counter1)"
    | (key) k out c1 where "parse_dnskey_rdata ?d = Inr k" "dk_protocol k = 3" "dk_flags k AND 0x0100 \<noteq> 0"
        "try_ds_entries C rrset sigs name cls now_ts ?d k es (fail AND NOT DNSSEC_FAIL_NOZONE) counter = (out, c1)"
        "(case out of DsGoOn f \<Rightarrow> ?rest f c1 | out' \<Rightarrow> (out', c1)) = (DsValidated, counter1)"
    using Cons.prems(2) by (auto split: sum.splits if_splits prod.splits ds_outcome.splits)
  then show ?case
  proof cases
    case skip
    from Cons.IH [OF Cons.prems(1) this] show ?thesis by auto
  next
    case key
    note sound = try_ds_entries_sound [OF Cons.prems(1) key(4)]
    show ?thesis
    proof (cases out)
      case (DsGoOn f)
      then have "?rest f c1 = (DsValidated, counter1)" using key(5) by simp
      from Cons.IH [OF _ this] sound show ?thesis by auto
    next
      case DsValidated
      then show ?thesis using sound key(1-3) by (auto simp: zone_key_def)
    qed (use key(5) in simp)
  qed
qed simp

lemma find_ds_trusted:
  "store_trusted C lower anchors cache \<Longrightarrow> find_ds cache name = Some (DsPositive es) \<Longrightarrow> (ds, cls) \<in> set es \<Longrightarrow>
     trusted_ds C lower anchors (norm_name name) ds cls"
  unfolding store_trusted_def find_ds_def by blast

lemma validate_by_ds_trusted:
  assumes "store_trusted C lower anchors cache" "0 \<le> counter"
    and "dnssec_validate_by_ds C lower rrs name cls now_ts cache counter = (st, cache', counter')"
  shows "store_trusted C lower anchors cache'"
proof -
  obtain rrset sigs where x: "explore_rrset lower rrs name cls 48 = (rrset, sigs)" by fastforce
  define es where "es = (case find_ds cache name of Some (DsPositive es) \<Rightarrow> es | _ \<Rightarrow> [])"
  have "cache' = cache \<or> (\<exists>c1. try_zone_keys C rrset sigs name cls now_ts es rrset
      (DNSSEC_FAIL_NODSSUP OR DNSSEC_FAIL_NOZONE) counter = (DsValidated, c1)
      \<and> cache' = store_keys name cls rrset cache)"
  proof (cases "rrset = [] \<or> sigs = [] \<or> find_ds cache name = None")
    case True
    then show ?thesis using assms(3) unfolding dnssec_validate_by_ds_def x Let_def by (auto split: if_splits)
  next
    case False
    then obtain ds where ds: "find_ds cache name = Some ds" by auto
    have es: "(case ds of DsPositive es \<Rightarrow> es | _ \<Rightarrow> []) = es" by (simp add: es_def ds)
    obtain out c1 where t: "try_zone_keys C rrset sigs name cls now_ts es rrset
        (DNSSEC_FAIL_NODSSUP OR DNSSEC_FAIL_NOZONE) counter = (out, c1)" by fastforce
    show ?thesis
      using assms(3) False unfolding dnssec_validate_by_ds_def x Let_def prod.case ds option.case es t
      by (cases out) simp_all
  qed
  then show ?thesis
  proof
    assume "\<exists>c1. try_zone_keys C rrset sigs name cls now_ts es rrset (DNSSEC_FAIL_NODSSUP OR DNSSEC_FAIL_NOZONE) counter
      = (DsValidated, c1) \<and> cache' = store_keys name cls rrset cache"
    then obtain c1 where t: "try_zone_keys C rrset sigs name cls now_ts es rrset
        (DNSSEC_FAIL_NODSSUP OR DNSSEC_FAIL_NOZONE) counter = (DsValidated, c1)" "cache' = store_keys name cls rrset cache"
      by auto
    from try_zone_keys_sound [OF assms(2) t(1)] obtain entry ds sig where e: "entry \<in> rr_data ` set rrset"
      "zone_key entry" "(ds, cls) \<in> set es" "ds_matches_dnskey C ds entry name" "sig_valid C rrset name 48 cls now_ts entry sig"
      by (elim bexE exE conjE)
    have "find_ds cache name = Some (DsPositive es)"
    proof (cases "find_ds cache name")
      case (Some d)
      then show ?thesis using e(3) unfolding es_def by (cases d) simp_all
    qed (use e(3) in \<open>simp add: es_def\<close>)
    from find_ds_trusted [OF assms(1) this e(3)] have "trusted_ds C lower anchors (norm_name name) ds cls" .
    from trusted_ds_trusted_key.zone_keys [OF this e(1,2,4,5)]
    show ?thesis unfolding t(2) by (rule store_keys_trusted [OF assms(1)])
  qed (use assms(1) in simp)
qed

text \<open>All DS records of the answer belong to the name that was asked for.\<close>

definition own_ds :: "dns_rr list \<Rightarrow> rstr \<Rightarrow> u16 \<Rightarrow> bool" where
  "own_ds ans name cls \<longleftrightarrow>
     list_all (\<lambda>r. rr_type r = 43 \<and> rr_class r = cls \<longrightarrow> norm_name (rr_name r) = norm_name name) ans"

lemma secure_ds_trusted:
  assumes "str_lower lower" "plain_names (ans @ auth)" "store_trusted C lower anchors cache" "own_ds ans name cls"
    and "covered C lower ans (ans @ auth) now_ts cache ds_mode (ans @ auth) []"
    and "(ds, c) \<in> set (supported_ds ans cls)"
  shows "c = cls \<and> trusted_ds C lower anchors (norm_name name) ds cls"
proof -
  obtain r where r: "r \<in> set ans" "rr_type r = 43" "rr_class r = cls" "parse_ds_rdata (rr_data r) = Inr ds" "c = cls"
    using assms(6) by (auto simp: supported_ds_def split: sum.splits if_splits)
  have "list_ex (record_at (norm_name (rr_name r)) (rr_type r) (rr_class r)) ans"
    using r(1) by (auto simp: list_ex_iff record_at_def)
  then have "\<not> exempt ans ds_mode r" by (simp add: exempt_def)
  from covered_authentic [OF assms(1,2,5) _ _ this] r have "authentic C lower cache (ans @ auth) now_ts r" by simp
  then obtain owner zone key sig where a: "lower owner = lower (rr_name r)" "norm_name owner = norm_name (rr_name r)"
    "covering_sig lower owner 43 sig" "eq_ignore_ascii_case zone (sig_signer (rr_data sig))"
    "key \<in> set (find_dnskeys cache zone cls)"
    "sig_valid C (fst (explore_rrset lower (ans @ auth) owner cls 43)) owner 43 cls now_ts key sig"
    unfolding authentic_def r(2,3) by blast
  have "r \<in> set (fst (explore_rrset lower (ans @ auth) owner cls 43))"
    using r a(1) by (simp add: explore_rrset_def Let_def)
  moreover have "norm_name owner = norm_name name" using assms(4) r a(2) by (auto simp: own_ds_def list_all_iff)
  ultimately show ?thesis
    using trusted_ds_trusted_key.delegation [OF find_dnskeys_trusted [OF assms(3) a(5)] a(3,4,6)] r(4,5) by blast
qed

lemma validate_ds_trusted:
  assumes "str_lower lower" "plain_names (ans @ auth)" "store_trusted C lower anchors cache" "own_ds ans name cls" "0 \<le> counter"
    and "dnssec_validate_ds C lower ans auth name cls rcode now_ts cache counter limit = (st, cache', counter')"
  shows "store_trusted C lower anchors cache'"
proof -
  let ?neg = "\<not> list_ex (\<lambda>r. rr_type r = 43 \<and> rr_class r = cls) ans"
  obtain rc nons c1 where v: "dnssec_validate_reply C lower ans auth name 43 cls rcode now_ts cache counter False
      (Some False) limit = (rc, nons, c1)" by (metis prod_cases3)
  have neg: "store_trusted C lower anchors (store_ds name cls ans sf True nons cache)"
    "store_trusted C lower anchors (store_ds name cls ans True ng nons cache)" for sf ng nons
    using assms(3) by (auto simp: store_ds_def store_trusted_def insert_ds_neg_not_zone_cut_def insert_ds_neg_insecure_def)
  have "cache' = cache \<or> cache' = store_ds name cls ans True ?neg False cache
      \<or> (\<exists>nons. cache' = store_ds name cls ans False True nons cache)
      \<or> vs_code rc = Secure \<and> cache' = store_ds name cls ans False ?neg nons cache"
    using assms(6) unfolding dnssec_validate_ds_def v
    by (auto simp: Let_def split: if_splits stat_code.splits)
  moreover have "store_trusted C lower anchors (store_ds name cls ans False ?neg nons cache)" if s: "vs_code rc = Secure"
  proof -
    obtain target answered c0 where "covered C lower ans (ans @ auth) now_ts cache (Some False \<noteq> None) (ans @ auth) []"
      by (rule reply_secure_cases [OF v s assms(5)])
    note t = secure_ds_trusted [OF assms(1-4) this]
    have "store_trusted C lower anchors (insert_ds_positive name (supported_ds ans cls) cache)"
      using assms(3) t by (auto simp: store_trusted_def insert_ds_positive_def)
    then show ?thesis using neg [of False nons] assms(3)
      by (auto simp: store_ds_def store_trusted_def insert_ds_neg_not_zone_cut_def insert_ds_neg_insecure_def)
  qed
  ultimately show ?thesis using assms(3) neg(1) [of False] neg(2) [of ?neg False] by (elim disjE exE conjE) simp_all
qed

text \<open>Every operation on the trust store, from the empty one.\<close>

inductive store_reachable ::
    "'k crypto_crates \<Rightarrow> (rstr \<Rightarrow> rstr) \<Rightarrow> (rstr \<times> ds_data \<times> u16) set \<Rightarrow> dnssec_cache \<Rightarrow> bool"
  for C :: "'k crypto_crates" and lower :: "rstr \<Rightarrow> rstr" and anchors :: "(rstr \<times> ds_data \<times> u16) set" where
  fresh_store: "store_reachable C lower anchors dnssec_cache_new"
| trust_anchor: "store_reachable C lower anchors cache \<Longrightarrow> (zone, ds, cls) \<in> anchors \<Longrightarrow>
    store_reachable C lower anchors (insert_trust_anchor zone ds cls cache)"
| dnskey_reply: "store_reachable C lower anchors cache \<Longrightarrow> 0 \<le> counter \<Longrightarrow>
    store_reachable C lower anchors (fst (snd (dnssec_validate_by_ds C lower rrs name cls now_ts cache counter)))"
| ds_reply: "store_reachable C lower anchors cache \<Longrightarrow> 0 \<le> counter \<Longrightarrow> plain_names (ans @ auth) \<Longrightarrow> own_ds ans name cls \<Longrightarrow>
    store_reachable C lower anchors (fst (snd (dnssec_validate_ds C lower ans auth name cls rcode now_ts cache counter limit)))"

lemma reachable_store_trusted:
  assumes "store_reachable C lower anchors cache" "str_lower lower"
  shows "store_trusted C lower anchors cache"
  using assms(1)
proof induction
  case fresh_store
  show ?case by (rule store_trusted_new)
next
  case (trust_anchor cache zone ds cls)
  then show ?case using store_trusted_anchor by blast
next
  case (dnskey_reply cache counter rrs name cls now_ts)
  then show ?case using validate_by_ds_trusted by (metis prod.collapse)
next
  case (ds_reply cache counter ans auth name cls rcode now_ts limit)
  obtain st cache' counter' where v: "dnssec_validate_ds C lower ans auth name cls rcode now_ts cache counter limit
      = (st, cache', counter')" by (metis prod_cases3)
  show ?case
    using validate_ds_trusted [OF assms(2) ds_reply.hyps(3) ds_reply.IH ds_reply.hyps(4) ds_reply.hyps(2) v] v by simp
qed

section \<open>Key tags\<close>

lemma keytag_of_rdata:
  assumes "parse_dnskey_rdata rdata = Inr k" "dk_protocol k = 3" "dk_algorithm k \<noteq> 1"
  shows "dnskey_keytag (dk_algorithm k) (dk_flags k) (dk_public_key k) = compute_key_tag rdata"
proof -
  obtain a b c d ks where r: "rdata = a # b # c # d # ks"
    using assms(1) by (auto simp: parse_dnskey_rdata_def numeral_eq_Suc not_less Suc_le_length_iff split: if_splits)
  then have k: "dk_flags k = from_be16 a b" "c = 3" "dk_algorithm k = d" "dk_public_key k = ks"
    using assms(1,2) by (auto simp: parse_dnskey_rdata_def)
  have f: "ucast (from_be16 a b) = push_bit 8 (ucast a) + (ucast b :: u32)"
  proof -
    have "ucast (from_be16 a b) = (word_of_nat (unat (from_be16 a b)) :: u32)" by (rule of_nat_unat [symmetric])
    also have "\<dots> = word_of_nat (unat a) * 256 + word_of_nat (unat b)" unfolding unat_from_be16 by simp
    finally show ?thesis by (simp add: push_bit_eq_mult mult.commute)
  qed
  have "ucast (dk_flags k) + 0x300 + ucast (dk_algorithm k) + tag_sum True (dk_public_key k) = tag_sum True rdata"
    unfolding k f r tag_sum.simps by (simp add: push_bit_eq_mult add.assoc)
  then show ?thesis using assms(3) by (simp add: dnskey_keytag_def compute_key_tag_def)
qed

section \<open>Failures\<close>

text \<open>The root is written as two zero octets, so the digest of a root key is taken over another name.\<close>

lemma root_name_on_wire: "name_to_wire [] = Some [0, 0]" "name_to_wire [DOT] = Some [0, 0]"
  by code_simp+

text \<open>Every supported DS record of a secure reply is stored under the name asked for, whoever owns it.\<close>

lemma foreign_ds_stored:
  assumes "rcode \<noteq> 2" "rr_type r = 43" "rr_class r = cls" "r \<in> set ans" "parse_ds_rdata (rr_data r) = Inr ds"
    "ds_entry_supported ds"
    and "dnssec_validate_reply C lower ans auth name 43 cls rcode now_ts cache counter False (Some False) limit = (rc, nons, c1)"
    "vs_code rc = Secure"
  shows "\<exists>es. find_ds (fst (snd (dnssec_validate_ds C lower ans auth name cls rcode now_ts cache counter limit))) name
    = Some (DsPositive es) \<and> (ds, cls) \<in> set es"
proof -
  have n: "list_ex (\<lambda>r. rr_type r = 43 \<and> rr_class r = cls) ans" using assms(2-4) by (auto simp: list_ex_iff)
  have m: "(ds, cls) \<in> set (supported_ds ans cls)"
    using assms(2-6) by (force simp: supported_ds_def ds_entry_supported_def)
  then have "supported_ds ans cls \<noteq> []" by auto
  then have "fst (snd (dnssec_validate_ds C lower ans auth name cls rcode now_ts cache counter limit))
      = insert_ds_positive name (supported_ds ans cls) cache"
    using assms(1,7,8) n by (simp add: dnssec_validate_ds_def store_ds_def Let_def)
  then show ?thesis using m by (simp add: insert_ds_positive_def find_ds_def)
qed

text \<open>A record whose owner differs from one already checked by a trailing dot is not checked at all.\<close>

lemma dotted_owner_unchecked:
  assumes "norm_name (rr_name r') = norm_name (rr_name r)" "rr_type r' = rr_type r" "rr_class r' = rr_class r"
  shows "check_rrsets C lower ans rrs now_ts cache check_unsigned ds_mode (r # r' # todo) seen insecure counter
    = check_rrsets C lower ans rrs now_ts cache check_unsigned ds_mode (r # todo) seen insecure counter"
  using assms by (auto simp: Let_def split: prod.split sum.split)

end
