(* ===== verification/Dnssec_Props.thy ===== *)
theory Dnssec_Props
  imports Dnssec_Chain
begin

unbundle bit_operations_syntax

text \<open>
  The properties of DNSSEC validation, over the lemmas on signatures, zones and the chain of trust,
  with an instance of the cryptographic crates on which their hypotheses hold.
\<close>

section \<open>An instance of the crates\<close>

definition demo_crates :: "u8 list crypto_crates" where
  "demo_crates =
     \<lparr>rsa_public_key = (\<lambda>_ _. None), rsa_signature_ok = (\<lambda>_. False), rsa_verify = (\<lambda>_ _ _ _. False),
      p256_key = (\<lambda>_. None), p256_signature_ok = (\<lambda>_. False), p256_verify = (\<lambda>_ _ _. False),
      p384_key = (\<lambda>_. None), p384_signature_ok = (\<lambda>_. False), p384_verify = (\<lambda>_ _ _. False),
      ed25519_key = Some, ed25519_verify = (\<lambda>k data sig. take 32 sig = k \<and> data \<noteq> []),
      sha1_digest = (\<lambda>_. []), sha256_digest = rev, sha384_digest = (\<lambda>_. [])\<rparr>"

text \<open>A zone \<open>a\<close> with one key, the DS record for it, and a signed address.\<close>

definition demo_key :: "u8 list" where
  "demo_key = [1, 1, 3, 15] @ replicate 32 7"

definition demo_sig :: "u8 \<Rightarrow> u8 list" where
  "demo_sig ty = [0, ty, 15, 1, 0, 0, 0, 60, 0, 0, 0, 200, 0, 0, 0, 100, 0, 9] @ [1, 97, 0] @ replicate 64 7"

definition demo_rec :: "u16 \<Rightarrow> u8 list \<Rightarrow> dns_rr" where
  "demo_rec ty rdata = \<lparr>rr_name = [97], rr_type = ty, rr_class = 1, rr_ttl = 60, rr_data = rdata\<rparr>"

definition demo_ds :: ds_data where
  "demo_ds = \<lparr>ds_key_tag = compute_key_tag demo_key, ds_algorithm = 15, ds_digest_type = 2,
              ds_digest = rev ([1, 97, 0] @ demo_key)\<rparr>"

definition demo_store :: dnssec_cache where
  "demo_store = insert_trust_anchor [97] demo_ds 1 dnssec_cache_new"

definition demo_keyed :: dnssec_cache where
  "demo_keyed = fst (snd (dnssec_validate_by_ds demo_crates to_ascii_lowercase
     [demo_rec 48 demo_key, demo_rec 46 (demo_sig 48)] [97] 1 150 demo_store 10))"

lemma demo_signer: "sig_signer (demo_sig t) = [97]"
  by (simp add: sig_signer_def demo_sig_def) code_simp

lemma demo_wire: "name_to_wire [97] = Some [1, 97, 0]"
  by code_simp

lemma demo_key_data: "parse_dnskey_rdata demo_key =
    Inr \<lparr>dk_flags = 257, dk_protocol = 3, dk_algorithm = 15, dk_public_key = replicate 32 7\<rparr>"
  by (simp add: parse_dnskey_rdata_def demo_key_def from_be16_def)

lemma demo_sig_valid: "sig_valid demo_crates rrset [97] ty 1 150 demo_key (demo_rec 46 (demo_sig t))"
proof -
  let ?rd = "demo_sig t"
  have l: "length ?rd = 85" by (simp add: demo_sig_def)
  have nth: "?rd ! 2 = 15" "?rd ! 3 = 1" "from_be32 (?rd ! 12) (?rd ! 13) (?rd ! 14) (?rd ! 15) = 100"
    "from_be32 (?rd ! 8) (?rd ! 9) (?rd ! 10) (?rd ! 11) = 200"
    by (simp_all add: demo_sig_def from_be32_def)
  have "count_labels [97] = 1" by code_simp
  moreover have "algorithm_try_from 15 = Inr Ed25519" by code_simp
  moreover have "parse_dnskey demo_crates 15 (replicate 32 7) = Inr (KeyEd25519 (replicate 32 7))"
    by (simp add: parse_dnskey_def demo_crates_def \<open>algorithm_try_from 15 = Inr Ed25519\<close>)
  moreover have "verify_sig demo_crates (signed_octets rrset ?rd [1, 97, 0] [1, 97, 0] ty 1) (drop 21 ?rd)
      (KeyEd25519 (replicate 32 7)) Ed25519 = Inr True"
    by (simp add: checked_verify_def demo_crates_def signed_octets_def demo_sig_def)
  ultimately show ?thesis
    unfolding sig_valid_def
    by (intro exI [of _ Ed25519] exI [of _ "[1, 97, 0]"] 
        exI [of _ "\<lparr>dk_flags = 257, dk_protocol = 3, dk_algorithm = 15, dk_public_key = replicate 32 7\<rparr>"]
        exI [of _ "KeyEd25519 (replicate 32 7)"])
      (use l nth demo_signer [of t] demo_wire demo_key_data in \<open>simp add: demo_rec_def signed_owner_def\<close>)
qed

lemma demo_validate:
  "\<exists>ttl tag. validate_rrset demo_crates rrset [demo_rec 46 (demo_sig t)] [97] ty 1 150 (Some demo_key) 10 = (RvSecure ttl tag, 9)"
  using check_sigs_key [of 10 demo_crates rrset "[97]" ty 1 150 demo_key "[demo_rec 46 (demo_sig t)]"]
  by (simp add: validate_rrset_def demo_sig_valid)

lemma demo_covering: "t < 128 \<Longrightarrow> covering_sig to_ascii_lowercase [97] (ucast t) (demo_rec 46 (demo_sig t))"
proof -
  have "parse_wire_name ([1, 97, 0] @ replicate 64 7) = Inr ([97], 3)" by code_simp
  moreover have "signer_encloses to_ascii_lowercase [97] [97]" by (simp add: signer_encloses_def Let_def)
  moreover have "from_be16 0 t = ucast t" by (simp add: from_be16_def)
  ultimately show ?thesis by (simp add: covering_sig_def demo_rec_def demo_sig_def)
qed

lemma demo_explore:
  "explore_rrset to_ascii_lowercase [demo_rec 48 d, demo_rec 46 (demo_sig 48)] [97] 1 48 = ([demo_rec 48 d], [demo_rec 46 (demo_sig 48)])"
  "explore_rrset to_ascii_lowercase [demo_rec 1 d, demo_rec 46 (demo_sig 1)] [97] 1 1 = ([demo_rec 1 d], [demo_rec 46 (demo_sig 1)])"
  using demo_covering [of 48] demo_covering [of 1]
  by (simp_all add: explore_rrset_def Let_def) (simp_all add: demo_rec_def)

lemma demo_norm: "norm_name [97] = [97]"
  by code_simp

lemma demo_keyed_eq: "demo_keyed = insert_dnskey [97] demo_key 1 demo_store"
proof -
  have ds: "find_ds demo_store [97] = Some (DsPositive [(demo_ds, 1)])"
    by (simp add: find_ds_def demo_store_def insert_trust_anchor_def dnssec_cache_new_def)
  have m: "ds_matches_dnskey demo_crates demo_ds demo_key [97]" "ds_digest_supported 2"
    by (simp_all add: ds_matches_dnskey_def demo_wire demo_ds_def demo_crates_def ds_digest_supported_def ds_digest_name_def)
  obtain ttl tag where v: "validate_rrset demo_crates [demo_rec 48 demo_key] [demo_rec 46 (demo_sig 48)] [97] 48 1 150
      (Some demo_key) 9 = (RvSecure ttl tag, 8)"
    using check_sigs_key [of 9 demo_crates "[demo_rec 48 demo_key]" "[97]" 48 1 150 demo_key "[demo_rec 46 (demo_sig 48)]"]
    by (simp add: validate_rrset_def demo_sig_valid)
  have p: "is_protocol_3 demo_key" by (simp add: is_protocol_3_def demo_key_data)
  have d: "rr_data (demo_rec ty x) = x" for ty x by (simp add: demo_rec_def)
  have "dnssec_validate_by_ds demo_crates to_ascii_lowercase [demo_rec 48 demo_key, demo_rec 46 (demo_sig 48)] [97] 1 150
      demo_store 10 = (vs_secure, store_keys [97] 1 [demo_rec 48 demo_key] demo_store, 8)"
    using m v by (simp add: dnssec_validate_by_ds_def demo_explore ds d demo_key_data dec_counter_def)
      (simp add: demo_ds_def dec_counter_def)
  then show ?thesis by (simp add: demo_keyed_def store_keys_def d p)
qed

lemma demo_reply:
  "\<exists>c. dnssec_validate_reply demo_crates to_ascii_lowercase [demo_rec 1 [1, 2, 3, 4], demo_rec 46 (demo_sig 1)] [] [97] 1 1 0 150
     demo_keyed 10 True None 150 = (vs_secure, True, c)"
proof -
  let ?ans = "[demo_rec 1 [1, 2, 3, 4], demo_rec 46 (demo_sig 1)]"
  have n: "rr_name (demo_rec ty x) = [97]" "rr_type (demo_rec ty x) = ty" "rr_class (demo_rec ty x) = 1"
    "rr_data (demo_rec ty x) = x" for ty x by (simp_all add: demo_rec_def)
  have t: "find_target ?ans [97] 1 1 = ([97], True)"
    by (simp add: find_target_def chase_cnames.simps record_at_def n demo_norm)
  have keys: "find_dnskeys demo_keyed [97] 1 = [demo_key]"
    by (simp add: demo_keyed_eq find_dnskeys_def insert_dnskey_def demo_store_def insert_trust_anchor_def dnssec_cache_new_def)
  have "algo_supported 15" "ds_digest_supported 2"
    by (simp_all add: algo_supported_def algo_digest_name_def ds_digest_supported_def ds_digest_name_def)
  then have zone: "vs_code (zone_status [97] 1 demo_keyed) = Secure"
    by (simp add: zone_secure demo_keyed_eq find_ds_def insert_dnskey_def demo_store_def insert_trust_anchor_def
        dnssec_cache_new_def ds_entry_supported_def demo_ds_def)
  have "common_signer [demo_rec 46 (demo_sig 1)] None = Inr (Some [97])"
  proof -
    have "parse_wire_name ([1, 97, 0] @ replicate 64 7) = Inr ([97], 3)" by code_simp
    then show ?thesis by (simp add: n demo_sig_def)
  qed
  moreover obtain ttl tag where "validate_rrset demo_crates [demo_rec 1 [1, 2, 3, 4]] [demo_rec 46 (demo_sig 1)] [97] 1 1 150
      (Some demo_key) 10 = (RvSecure ttl tag, 9)" using demo_validate by blast
  ultimately have "check_one demo_crates to_ascii_lowercase ?ans ?ans (demo_rec 1 [1, 2, 3, 4]) 150 demo_keyed True False 10
      = (Inr False, 9)"
    using zone by (simp add: check_one_def check_signed_def n demo_explore Let_def keys)
  then have "check_rrsets demo_crates to_ascii_lowercase ?ans ?ans 150 demo_keyed True False ?ans [] False 10 = (Inr False, 9)"
    by (simp add: n)
  then show ?thesis by (simp add: dnssec_validate_reply_def t flag_status_def Let_def)
qed

section \<open>Denial by NSEC records\<close>

text \<open>The canonical position of a name: its labels in lower case, the last one first.\<close>

definition canonical_key :: "rstr \<Rightarrow> rstr list" where
  "canonical_key name = map to_ascii_lowercase (rev (split_on DOT (trim_end_dots name)))"

lemma cmp_labels_cmp: "cmp_labels as bs = cmp (map to_ascii_lowercase as) (map to_ascii_lowercase bs)"
  by (induction as bs rule: cmp_labels.induct) (auto simp: cmp_def Let_def)

lemma hostname_cmp_key: "hostname_cmp a b = cmp (canonical_key a) (canonical_key b)"
  by (simp add: hostname_cmp_def cmp_labels_cmp canonical_key_def)

text \<open>The record leaves no room for the name: it is the name without the type and without a CNAME, or the name lies
  strictly between the owner and the next name, counted around the end of the zone.\<close>

definition nsec_denies :: "parsed_nsec \<Rightarrow> rstr \<Rightarrow> u16 \<Rightarrow> bool" where
  "nsec_denies nsec name qtype \<longleftrightarrow>
     (let own = canonical_key (nsec_owner nsec); nxt = canonical_key (pn_next nsec); k = canonical_key name
      in if own = k then \<not> type_in_bitmap (pn_bitmap nsec) qtype \<and> \<not> type_in_bitmap (pn_bitmap nsec) 5
         else own < k \<and> k < nxt \<or> nxt \<le> own \<and> (own < k \<or> k < nxt))"

text \<open>What the code accepts: any record of the name when a signature or an NSEC record is asked for, and an interval that
  includes its end.\<close>

definition nsec_accepted :: "parsed_nsec \<Rightarrow> rstr \<Rightarrow> u16 \<Rightarrow> bool" where
  "nsec_accepted nsec name qtype \<longleftrightarrow>
     nsec_denies nsec name qtype \<or> canonical_key (pn_next nsec) = canonical_key name \<or> qtype = 47 \<or> qtype = 46"

lemma type_in_bitmap_Nil [simp]: "\<not> type_in_bitmap [] ty"
  by (simp add: type_in_bitmap.simps)

lemma prove_nsec_loop_accepted:
  "prove_nsec_loop lower nsecs name qtype nons = (Inr (), nons1) \<Longrightarrow>
     \<exists>nsec \<in> set nsecs. nsec_accepted nsec name qtype
       \<and> \<not> (type_in_bitmap (pn_bitmap nsec) 39 \<and> is_subdomain lower name (nsec_owner nsec))"
proof (induction nsecs)
  case (Cons nsec nsecs)
  let ?own = "canonical_key (nsec_owner nsec)" and ?k = "canonical_key name" and ?nxt = "canonical_key (pn_next nsec)"
  have d: "\<not> (type_in_bitmap (pn_bitmap nsec) 39 \<and> is_subdomain lower name (nsec_owner nsec))"
    using Cons.prems by (auto simp: Let_def)
  have step: "nsec_accepted nsec name qtype \<or> prove_nsec_loop lower nsecs name qtype nons = (Inr (), nons1)"
  proof (cases "hostname_cmp (nsec_owner nsec) name")
    case OrdEqual
    then have "?own = ?k" by (auto simp: hostname_cmp_key cmp_def split: if_splits)
    then show ?thesis using Cons.prems d OrdEqual
      by (auto simp: Let_def nsec_accepted_def nsec_denies_def bitmap_denies_def split: if_splits)
  next
    case OrdLess
    then have "?own < ?k" by (auto simp: hostname_cmp_key cmp_def split: if_splits)
    then show ?thesis using Cons.prems d OrdLess
      by (auto simp: Let_def nsec_accepted_def nsec_denies_def hostname_cmp_key cmp_def split: if_splits)
  next
    case OrdGreater
    then have "?k < ?own" by (auto simp: hostname_cmp_key cmp_def split: if_splits)
    then show ?thesis using Cons.prems d OrdGreater
      by (auto simp: Let_def nsec_accepted_def nsec_denies_def hostname_cmp_key cmp_def split: if_splits)
  qed
  then show ?case using Cons.IH d by auto
qed simp

text \<open>The interval includes its end: a record whose next name is the one in question is taken as a proof
  that this name does not exist, although it shows the opposite.\<close>

lemma nsec_denies_its_next_name:
  assumes "canonical_key (nsec_owner nsec) < canonical_key (pn_next nsec)" "\<not> type_in_bitmap (pn_bitmap nsec) 39"
  shows "prove_non_existence_nsec lower [nsec] (pn_next nsec) qtype = (Inr (), True)"
  using assms by (simp add: prove_non_existence_nsec_def hostname_cmp_key cmp_def Let_def)

section \<open>Properties\<close>

text \<open>C3: a reply in which every owner name is ASCII and has no trailing dot (\<open>plain_names\<close>; by
  \<open>dotted_owner_unchecked\<close> a record with a trailing dot may go unchecked) is declared secure only when it is: each of its records, apart from the signatures and what may stay unsigned in a reply to a DS query, belongs to a set that a stored key of a signed zone enclosing
  the owner has signed, within the validity of the signature; and where the answer to the question
  is missing, the authority section proves that it does not exist.\<close>

theorem secure_reply_authentic:
  assumes "str_lower lower" "plain_names (ans @ auth)" "0 \<le> counter"
    and "dnssec_validate_reply C lower ans auth qname qtype qclass rcode now_ts cache counter check_unsigned nons limit
      = (st, nons1, counter1)" "vs_code st = Secure"
  shows "(\<forall>rr \<in> set (ans @ auth). rr_type rr = 46 \<or> exempt ans (nons \<noteq> None) rr
            \<or> authentic C lower cache (ans @ auth) now_ts rr)
    \<and> (\<exists>target answered counter0. find_target ans qname qtype qclass = (target, answered)
         \<and> (answered \<or> fst (prove_non_existence C lower auth target qtype qclass 0
              (case nons of None \<Rightarrow> True | Some n \<Rightarrow> n) counter0 limit) = Inr ()))"
proof -
  obtain target answered counter0 where r: "find_target ans qname qtype qclass = (target, answered)"
    "covered C lower ans (ans @ auth) now_ts cache (nons \<noteq> None) (ans @ auth) []"
    "answered \<or> fst (prove_non_existence C lower auth target qtype qclass 0
        (case nons of None \<Rightarrow> True | Some n \<Rightarrow> n) counter0 limit) = Inr ()"
    by (rule reply_secure_cases [OF assms(4,5,3)])
  from covered_authentic [OF assms(1,2) r(2)] r(1,3) show ?thesis by auto
qed

theorem secure_reply_authentic_witness:
  "authentic demo_crates to_ascii_lowercase demo_keyed [demo_rec 1 [1, 2, 3, 4], demo_rec 46 (demo_sig 1)] 150
     (demo_rec 1 [1, 2, 3, 4])"
proof -
  let ?ans = "[demo_rec 1 [1, 2, 3, 4], demo_rec 46 (demo_sig 1)]"
  have p: "plain_names (?ans @ [])" by code_simp
  obtain c where r: "dnssec_validate_reply demo_crates to_ascii_lowercase ?ans [] [97] 1 1 0 150 demo_keyed 10 True None 150
      = (vs_secure, True, c)" using demo_reply by blast
  from secure_reply_authentic [OF ascii_lc.str_lower_axioms p _ r] show ?thesis
    by (simp add: vs_secure_def exempt_def) (simp add: demo_rec_def)
qed

text \<open>C4: the trust store is linked to the configured anchors: after any sequence of anchors, DNSKEY replies and DS
  replies whose answers hold DS records of the queried name only and whose owner names are ASCII without a trailing dot, each stored key belongs to a key
  set signed by one of its zone keys that matches a trusted DS record, and each stored DS record is
  an anchor or was signed by such a key of an enclosing zone.\<close>

theorem trust_store_chained:
  assumes "store_reachable C lower anchors cache" "str_lower lower"
  shows "(\<forall>zone k cls. k \<in> set (find_dnskeys cache zone cls) \<longrightarrow> trusted_key C lower anchors (norm_name zone) k cls)
    \<and> (\<forall>zone es ds cls. find_ds cache zone = Some (DsPositive es) \<and> (ds, cls) \<in> set es
          \<longrightarrow> trusted_ds C lower anchors (norm_name zone) ds cls)"
  using find_dnskeys_trusted [OF reachable_store_trusted [OF assms]] find_ds_trusted [OF reachable_store_trusted [OF assms]]
  by simp

theorem trust_store_chained_witness:
  "trusted_key demo_crates to_ascii_lowercase {([97], demo_ds, 1)} (norm_name [97]) demo_key 1"
proof -
  have "store_reachable demo_crates to_ascii_lowercase {([97], demo_ds, 1)} demo_keyed"
    unfolding demo_keyed_def demo_store_def
    by (intro store_reachable.dnskey_reply store_reachable.trust_anchor store_reachable.fresh_store) simp_all
  from trust_store_chained [OF this ascii_lc.str_lower_axioms] have "demo_key \<in> set (find_dnskeys demo_keyed [97] 1) \<longrightarrow> ?thesis"
    by auto
  moreover have "demo_key \<in> set (find_dnskeys demo_keyed [97] 1)"
    by (simp add: demo_keyed_eq find_dnskeys_def insert_dnskey_def demo_store_def insert_trust_anchor_def dnssec_cache_new_def)
  ultimately show ?thesis by simp
qed

lemma rrset_ttl_le: "r \<in> set rrs \<Longrightarrow> rrset_ttl rrs \<le> rr_ttl r"
proof -
  have "fold (\<lambda>r. min (rr_ttl r)) xs m \<le> m \<and> (\<forall>x \<in> set xs. fold (\<lambda>r. min (rr_ttl r)) xs m \<le> rr_ttl x)" for xs m
  proof (induction xs arbitrary: m)
    case (Cons x xs)
    have "fold (\<lambda>r. min (rr_ttl r)) xs (min (rr_ttl x) m) \<le> min (rr_ttl x) m" using Cons by blast
    then show ?case using Cons [of "min (rr_ttl x) m"] by simp
  qed simp
  then show "r \<in> set rrs \<Longrightarrow> rrset_ttl rrs \<le> rr_ttl r" by (cases rrs) (auto simp: rrset_ttl_def)
qed

lemma granted_ttl_le:
  "granted_ttl rrset rdata now_ts \<le> from_be32 (rdata ! 4) (rdata ! 5) (rdata ! 6) (rdata ! 7)"
  "granted_ttl rrset rdata now_ts \<le> from_be32 (rdata ! 8) (rdata ! 9) (rdata ! 10) (rdata ! 11) - now_ts"
  "r \<in> set (sort_rrset rrset) \<Longrightarrow> granted_ttl rrset rdata now_ts \<le> rr_ttl r"
  using rrset_ttl_le [of r "sort_rrset rrset"] unfolding granted_ttl_def by (simp_all add: min_le_iff_disj)

lemma validate_rrset_secure_sig:
  assumes "0 \<le> counter" "fst (validate_rrset C rrset sigs name ty cls now_ts (Some key) counter) = RvSecure ttl tag"
  shows "\<exists>sig \<in> set sigs. sig_valid C rrset name ty cls now_ts key sig \<and> ttl = granted_ttl rrset (rr_data sig) now_ts"
proof -
  let ?P = "sig_valid C rrset name ty cls now_ts key"
  note e = check_sigs_key [OF assms(1), of C rrset name ty cls now_ts key sigs]
  have ne: "sigs \<noteq> []" using assms(2) by (auto simp: validate_rrset_def)
  show ?thesis
  proof (cases "find ?P (take (nat counter) sigs)")
    case (Some sig)
    then have "sig \<in> set (take (nat counter) sigs)" "?P sig" by (auto simp: find_Some_iff in_set_conv_nth)
    moreover have "ttl = granted_ttl rrset (rr_data sig) now_ts" using assms(2) e Some ne by (simp add: validate_rrset_def)
    ultimately show ?thesis by (blast dest: in_set_takeD)
  qed (use assms(2) e ne in \<open>simp add: validate_rrset_def\<close>)
qed

text \<open>C8: with a key at hand an RRset is declared secure exactly when one of the signatures that the work budget
  admits is valid over the octets that the code builds: the distinct data in ascending order, owner and data in the letter case in
  which they were received. The lifetime then outlasts neither the signature nor its original lifetime nor any record that remains
  when duplicates are removed, and the budget never grows or becomes negative.\<close>

theorem validate_rrset_exact:
  assumes "0 \<le> counter"
  shows "((\<exists>ttl tag. fst (validate_rrset C rrset sigs name ty cls now_ts (Some key) counter) = RvSecure ttl tag)
        \<longleftrightarrow> (\<exists>sig \<in> set (take (nat counter) sigs). sig_valid C rrset name ty cls now_ts key sig))
    \<and> (\<forall>ttl tag. fst (validate_rrset C rrset sigs name ty cls now_ts (Some key) counter) = RvSecure ttl tag \<longrightarrow>
         (\<exists>sig \<in> set sigs. sig_valid C rrset name ty cls now_ts key sig
            \<and> ttl \<le> from_be32 (rr_data sig ! 4) (rr_data sig ! 5) (rr_data sig ! 6) (rr_data sig ! 7)
            \<and> ttl \<le> from_be32 (rr_data sig ! 8) (rr_data sig ! 9) (rr_data sig ! 10) (rr_data sig ! 11) - now_ts)
         \<and> (\<forall>r \<in> set (sort_rrset rrset). ttl \<le> rr_ttl r))
    \<and> snd (validate_rrset C rrset sigs name ty cls now_ts (Some key) counter) \<in> {0..counter}"
  using validate_rrset_key [OF assms, of C rrset sigs name ty cls now_ts key]
    validate_rrset_secure_sig [OF assms, of C rrset sigs name ty cls now_ts key] granted_ttl_le
  by (intro conjI allI impI) (fastforce+)

theorem validate_rrset_exact_witness:
  "\<exists>ttl tag. fst (validate_rrset demo_crates [demo_rec 1 [1, 2, 3, 4]] [demo_rec 46 (demo_sig 1)] [97] 1 1 150 (Some demo_key) 3)
     = RvSecure ttl tag"
proof -
  have "\<exists>sig \<in> set (take (nat 3) [demo_rec 46 (demo_sig 1)]).
      sig_valid demo_crates [demo_rec 1 [1, 2, 3, 4]] [97] 1 1 150 demo_key sig"
    by (simp add: demo_sig_valid)
  with validate_rrset_exact [of 3 demo_crates "[demo_rec 1 [1, 2, 3, 4]]" "[demo_rec 46 (demo_sig 1)]" "[97]" 1 1 150 demo_key]
  show ?thesis by simp
qed

text \<open>C24: the bubble sort terminates and yields the canonical RRset of RFC 4034: the distinct data in ascending order,
  carried by records of the set.\<close>

theorem sort_rrset_canonical:
  "map rr_data (sort_rrset rrs) = sorted_list_of_set (rr_data ` set rrs) \<and> set (sort_rrset rrs) \<subseteq> set rrs"
  by (simp add: sort_rrset_canonical_data sort_rrset_data(2))

text \<open>C9: an accepted NSEC proof rests on one record that leaves no room for the question: it is the name itself without
  the type and without a CNAME, or the name lies in the canonical order strictly between the owner and the next name,
  counted around the end of the zone; and no DNAME above the name is listed. Two cases are outside of this statement, because
  the code accepts any record in them: a question for an NSEC record or a signature (types 47 and 46) at the owner,
  and a record whose next name is the name in question (\<open>nsec_denies_its_next_name\<close>).\<close>

theorem nsec_proof_denies:
  assumes "prove_non_existence_nsec lower nsecs name qtype = (Inr (), nons)"
    and "qtype \<noteq> 46" "qtype \<noteq> 47" "\<forall>nsec \<in> set nsecs. canonical_key (pn_next nsec) \<noteq> canonical_key name"
  shows "\<exists>nsec \<in> set nsecs. nsec_denies nsec name qtype
    \<and> (if type_in_bitmap (pn_bitmap nsec) 39 then \<not> is_subdomain lower name (nsec_owner nsec) else True)"
  using prove_nsec_loop_accepted [of lower nsecs name qtype True nons] assms
  by (auto simp: prove_non_existence_nsec_def nsec_accepted_def)

theorem nsec_proof_denies_witness:
  "nsec_denies \<lparr>pn_owner = str_lit ''a.b'', pn_next = str_lit ''c.b'', pn_bitmap = [], pn_sig_labels = 2\<rparr> (str_lit ''B.b'') 1"
proof -
  let ?n = "\<lparr>pn_owner = str_lit ''a.b'', pn_next = str_lit ''c.b'', pn_bitmap = [], pn_sig_labels = 2\<rparr>"
  have "prove_non_existence_nsec to_ascii_lowercase [?n] (str_lit ''B.b'') 1 = (Inr (), True)" by code_simp
  moreover have "canonical_key (pn_next ?n) \<noteq> canonical_key (str_lit ''B.b'')" by code_simp
  ultimately show ?thesis using nsec_proof_denies [of to_ascii_lowercase "[?n]" "str_lit ''B.b''" 1 True] by simp
qed

text \<open>The two computations of a key tag, over the fields and over the data of the record, agree for every key of
  protocol 3 other than RSA/MD5.\<close>

lemma dnskey_tag_agrees:
  assumes "parse_dnskey_rdata rdata = Inr k" "dk_protocol k = 3" "dk_algorithm k \<noteq> 1"
  shows "dnskey_keytag (dk_algorithm k) (dk_flags k) (dk_public_key k) = compute_key_tag rdata"
  by (rule keytag_of_rdata [OF assms])

text \<open>A zone counts as secure exactly when the DS entry cached at its own name is a supported DS record of the class
  or the mark that the name is no zone cut; without an entry at the name it is never secure.\<close>

lemma zone_status_by_own_entry:
  "vs_code (zone_status name cls cache) = Secure \<longleftrightarrow>
     (case find_ds cache name of
        None \<Rightarrow> False
      | Some (DsPositive es) \<Rightarrow> (\<exists>(ds, c) \<in> set es. c = cls \<and> ds_entry_supported ds)
      | Some DsNegInsecure \<Rightarrow> False
      | Some DsNegNotZoneCut \<Rightarrow> True)"
  by (auto simp: zone_secure list_ex_iff split: option.split ds_state.split)

end
