(* ===== verification/Dhcp_Config.thy ===== *)
theory Dhcp_Config
  imports Addr_Net
begin

unbundle bit_operations_syntax

text \<open>
  The configuration of the DHCPv4 server and what is matched against it: tags, static host entries
  and address ranges. \<open>DhcpConfig\<close>, \<open>HwaddrConfig\<close> and \<open>DhcpContext\<close> are those of
  \<open>src/types/dhcp.rs\<close>; the matching is that of \<open>src/dhcp_common.rs\<close> (\<open>match_netid\<close>,
  \<open>match_netid_wild\<close>, \<open>run_tag_if\<close>, \<open>config_has_mac\<close>, \<open>find_config\<close>), of \<open>src/dhcp.rs\<close>
  (\<open>context_filter_matches\<close>, \<open>address_available\<close>, \<open>narrow_context\<close>, \<open>config_find_by_address\<close>) and of
  \<open>memcmp_masked\<close> in \<open>src/util.rs\<close>. A \<open>DhcpNetid\<close> is the tag it wraps. A reference into the list of
  host entries is the position in that list, because the callers compare such references. The
  DHCPv6 fields of a context are not used by the DHCPv4 server and are left out.
\<close>

section \<open>Tags\<close>

type_synonym netid = rstr

definition starts_with :: "rstr \<Rightarrow> rstr \<Rightarrow> bool" where
  "starts_with s t \<longleftrightarrow> take (length t) s = t"

definition match_netid :: "netid list \<Rightarrow> netid list \<Rightarrow> bool" where
  "match_netid tags ids \<longleftrightarrow> list_ex (\<lambda>t. t \<in> set ids) tags"

text \<open>A tag that starts with \<open>!\<close> or \<open>#\<close> is negated, one that ends with \<open>*\<close> stands for its extensions.\<close>

definition negated :: "netid \<Rightarrow> bool" where
  "negated net \<longleftrightarrow> starts_with net [33] \<or> starts_with net [35]"

definition tag_found :: "netid \<Rightarrow> netid list \<Rightarrow> bool" where
  "tag_found effective pool =
     (if ends_with effective [42] then list_ex (\<lambda>p. starts_with p (butlast effective)) pool
      else effective \<in> set pool)"

fun match_netid_wild :: "netid list \<Rightarrow> netid list \<Rightarrow> bool" where
  "match_netid_wild [] pool = True"
| "match_netid_wild (net # check) pool =
     (if tag_found (if negated net then tl net else net) pool = negated net then False
      else match_netid_wild check pool)"

definition context_filter_matches :: "netid list \<Rightarrow> netid list \<Rightarrow> bool \<Rightarrow> bool" where
  "context_filter_matches flt netids tagnotneeded =
     (if flt = [] then tagnotneeded
      else list_all (\<lambda>check. if negated check then tl check \<notin> set netids else check \<in> set netids) flt)"

record tag_if =
  ti_tag :: "netid list"
  ti_set :: "netid list"

definition add_tag :: "netid \<Rightarrow> netid list \<Rightarrow> netid list" where
  "add_tag t tags = (if t \<in> set tags then tags else tags @ [t])"

fun run_tag_if :: "netid list \<Rightarrow> tag_if list \<Rightarrow> netid list" where
  "run_tag_if tags [] = tags"
| "run_tag_if tags (rule # rules) =
     run_tag_if (if match_netid_wild (ti_tag rule) tags then fold add_tag (ti_set rule) tags else tags) rules"

section \<open>Static host entries\<close>

definition CONFIG_DISABLE :: u32 where "CONFIG_DISABLE = 0x1"
definition CONFIG_CLID :: u32 where "CONFIG_CLID = 0x2"
definition CONFIG_TIME :: u32 where "CONFIG_TIME = 0x8"
definition CONFIG_NAME :: u32 where "CONFIG_NAME = 0x10"
definition CONFIG_ADDR :: u32 where "CONFIG_ADDR = 0x20"

lemmas config_flags = CONFIG_DISABLE_def CONFIG_CLID_def CONFIG_TIME_def CONFIG_NAME_def CONFIG_ADDR_def

definition DHCP_CHADDR_MAX :: nat where
  "DHCP_CHADDR_MAX = 16"

record hwaddr_config =
  hc_hwaddr :: "u8 list"
  hc_hwaddr_len :: int
  hc_hwaddr_type :: int
  hc_wildcard_mask :: u32

record dhcp_config =
  dc_flags :: u32
  dc_clid :: "u8 list option"
  dc_hostname :: "rstr option"
  dc_domain :: "rstr option"
  dc_netid :: "netid list"
  dc_filter :: "netid list"
  dc_addr :: ipv4
  dc_lease_time :: u32
  dc_hwaddrs :: "hwaddr_config list"

fun masked_loop :: "(u8 \<times> u8) list \<Rightarrow> u32 \<Rightarrow> nat \<Rightarrow> nat" where
  "masked_loop [] m count = count"
| "masked_loop ((x, y) # ps) m count =
     (if m AND 1 = 0 then if x = y then masked_loop ps (drop_bit 1 m) (count + 1) else 0
      else masked_loop ps (drop_bit 1 m) count)"

definition memcmp_masked :: "u8 list \<Rightarrow> u8 list \<Rightarrow> u32 \<Rightarrow> nat" where
  "memcmp_masked a b mask_bits = masked_loop (rev (zip a b)) mask_bits 1"

definition same_hardware :: "hwaddr_config \<Rightarrow> u8 list \<Rightarrow> int \<Rightarrow> bool" where
  "same_hardware c hwaddr hw_type \<longleftrightarrow>
     hc_hwaddr_len c = int (length hwaddr) \<and> (hc_hwaddr_type c = hw_type \<or> hc_hwaddr_type c = 0)"

definition config_has_mac :: "dhcp_config \<Rightarrow> u8 list \<Rightarrow> int \<Rightarrow> bool" where
  "config_has_mac config hwaddr hw_type =
     list_ex (\<lambda>c. hc_wildcard_mask c = 0 \<and> same_hardware c hwaddr hw_type
                  \<and> take (length hwaddr) (hc_hwaddr c) = hwaddr) (dc_hwaddrs config)"

fun find_index :: "('a \<Rightarrow> bool) \<Rightarrow> 'a list \<Rightarrow> nat option" where
  "find_index P [] = None"
| "find_index P (x # xs) = (if P x then Some 0 else map_option Suc (find_index P xs))"

definition clid_matches :: "u8 list \<Rightarrow> dhcp_config \<Rightarrow> bool" where
  "clid_matches clid config \<longleftrightarrow>
     dc_flags config AND CONFIG_CLID \<noteq> 0
     \<and> (case dc_clid config of
          None \<Rightarrow> False
        | Some c \<Rightarrow> c = clid \<or> (length clid > 1 \<and> hd clid = 0 \<and> c = tl clid))"

definition name_matches :: "rstr \<Rightarrow> dhcp_config \<Rightarrow> bool" where
  "name_matches hostname config \<longleftrightarrow>
     dc_flags config AND CONFIG_NAME \<noteq> 0
     \<and> (case dc_hostname config of None \<Rightarrow> False | Some n \<Rightarrow> eq_ignore_ascii_case n hostname)"

text \<open>The best wildcard match so far, as its position and its count.\<close>

definition wildcard_count :: "hwaddr_config \<Rightarrow> u8 list \<Rightarrow> int \<Rightarrow> nat" where
  "wildcard_count c hwaddr hw_type =
     (if hc_wildcard_mask c \<noteq> 0 \<and> same_hardware c hwaddr hw_type
      then memcmp_masked (take (length hwaddr) (hc_hwaddr c)) hwaddr (hc_wildcard_mask c) else 0)"

definition better_wildcard ::
    "u8 list \<Rightarrow> int \<Rightarrow> nat \<Rightarrow> hwaddr_config \<Rightarrow> nat option \<times> nat \<Rightarrow> nat option \<times> nat" where
  "better_wildcard hwaddr hw_type i c best =
     (if wildcard_count c hwaddr hw_type > snd best then (Some i, wildcard_count c hwaddr hw_type) else best)"

fun best_wildcard ::
    "(dhcp_config \<Rightarrow> bool) \<Rightarrow> u8 list \<Rightarrow> int \<Rightarrow> nat \<Rightarrow> dhcp_config list \<Rightarrow> nat option \<times> nat \<Rightarrow> nat option \<times> nat" where
  "best_wildcard ok hwaddr hw_type i [] best = best"
| "best_wildcard ok hwaddr hw_type i (config # configs) best =
     best_wildcard ok hwaddr hw_type (Suc i) configs
       (if ok config then fold (better_wildcard hwaddr hw_type i) (dc_hwaddrs config) best else best)"

definition opt_or :: "'a option \<Rightarrow> 'a option \<Rightarrow> 'a option" where
  "opt_or x y = (case x of None \<Rightarrow> y | Some v \<Rightarrow> Some v)"

definition find_config ::
    "dhcp_config list \<Rightarrow> u8 list option \<Rightarrow> u8 list option \<Rightarrow> int \<Rightarrow> rstr option \<Rightarrow> netid list \<Rightarrow> nat option" where
  "find_config configs clid hwaddr hw_type hostname tags =
     (let ok = (\<lambda>c. dc_filter c = [] \<or> match_netid_wild (dc_filter c) tags)
      in opt_or (Option.bind clid (\<lambda>cl. find_index (\<lambda>c. ok c \<and> clid_matches cl c) configs))
        (opt_or (Option.bind hwaddr (\<lambda>hw. find_index (\<lambda>c. ok c \<and> config_has_mac c hw hw_type) configs))
        (opt_or (Option.bind hostname (\<lambda>h. find_index (\<lambda>c. ok c \<and> name_matches h c) configs))
          (Option.bind hwaddr (\<lambda>hw. fst (best_wildcard ok hw hw_type 0 configs (None, 0)))))))"

definition config_find_by_address :: "dhcp_config list \<Rightarrow> ipv4 \<Rightarrow> nat option" where
  "config_find_by_address configs addr =
     find_index (\<lambda>c. dc_flags c AND CONFIG_ADDR \<noteq> 0 \<and> dc_addr c = addr) configs"

section \<open>Address ranges\<close>

definition CONTEXT_STATIC :: u32 where "CONTEXT_STATIC = 0x1"
definition CONTEXT_NETMASK :: u32 where "CONTEXT_NETMASK = 0x2"
definition CONTEXT_BRDCAST :: u32 where "CONTEXT_BRDCAST = 0x4"
definition CONTEXT_PROXY :: u32 where "CONTEXT_PROXY = 0x8"

lemmas context_flags = CONTEXT_STATIC_def CONTEXT_NETMASK_def CONTEXT_BRDCAST_def CONTEXT_PROXY_def

record dhcp_context =
  cx_lease_time :: u32
  cx_addr_epoch :: u32
  cx_netmask :: ipv4
  cx_broadcast :: ipv4
  cx_local :: ipv4
  cx_router :: ipv4
  cx_start :: ipv4
  cx_end :: ipv4
  cx_flags :: u32
  cx_netid :: netid
  cx_filter :: "netid list"

definition dynamic_range :: "dhcp_context \<Rightarrow> bool" where
  "dynamic_range ctx \<longleftrightarrow> cx_flags ctx AND (CONTEXT_STATIC OR CONTEXT_PROXY) = 0"

definition in_range :: "dhcp_context \<Rightarrow> ipv4 \<Rightarrow> bool" where
  "in_range ctx addr \<longleftrightarrow> cx_start ctx \<le> addr \<and> addr \<le> cx_end ctx"

definition address_available :: "dhcp_context list \<Rightarrow> ipv4 \<Rightarrow> bool" where
  "address_available contexts addr =
     (if list_ex (\<lambda>ctx. addr = cx_router ctx) contexts then False
      else list_ex (\<lambda>ctx. dynamic_range ctx \<and> in_range ctx addr) contexts)"

definition on_subnet :: "ipv4 \<Rightarrow> dhcp_context \<Rightarrow> bool" where
  "on_subnet addr ctx \<longleftrightarrow> cx_netmask ctx \<noteq> 0 \<and> is_same_net addr (cx_start ctx) (cx_netmask ctx)"

definition narrow_context :: "dhcp_context list \<Rightarrow> ipv4 \<Rightarrow> dhcp_context option" where
  "narrow_context contexts addr =
     opt_or (if address_available contexts addr then find (\<lambda>ctx. dynamic_range ctx \<and> in_range ctx addr) contexts else None)
       (opt_or (find (\<lambda>ctx. cx_flags ctx AND CONTEXT_STATIC \<noteq> 0 \<and> on_subnet addr ctx) contexts)
         (find (\<lambda>ctx. cx_flags ctx AND CONTEXT_PROXY = 0 \<and> on_subnet addr ctx) contexts))"

record arrival_interface =
  ai_local :: ipv4
  ai_netmask :: ipv4
  ai_broadcast :: ipv4
  ai_if_index :: int

definition guess_netmask :: "arrival_interface \<Rightarrow> dhcp_context \<Rightarrow> dhcp_context" where
  "guess_netmask iface ctx =
     (if cx_flags ctx AND CONTEXT_NETMASK = 0
         \<and> (is_same_net (ai_local iface) (cx_start ctx) (ai_netmask iface)
            \<or> is_same_net (ai_local iface) (cx_end ctx) (ai_netmask iface))
      then ctx\<lparr>cx_netmask := ai_netmask iface\<rparr> else ctx)"

definition is_linked :: "arrival_interface \<Rightarrow> dhcp_context \<Rightarrow> bool" where
  "is_linked iface ctx \<longleftrightarrow>
     cx_netmask ctx \<noteq> 0 \<and> is_same_net (ai_local iface) (cx_start ctx) (cx_netmask ctx)
     \<and> is_same_net (ai_local iface) (cx_end ctx) (cx_netmask ctx)"

definition link_context :: "arrival_interface \<Rightarrow> dhcp_context \<Rightarrow> dhcp_context" where
  "link_context iface ctx =
     (let c1 = ctx\<lparr>cx_router := ai_local iface, cx_local := ai_local iface\<rparr>
      in if cx_flags c1 AND CONTEXT_BRDCAST = 0
         then c1\<lparr>cx_broadcast := if is_same_net (ai_broadcast iface) (cx_start c1) (cx_netmask c1) then ai_broadcast iface
                                 else cx_start c1 OR NOT (cx_netmask c1)\<rparr>
         else c1)"

definition link_contexts_for_interface ::
    "dhcp_context list \<Rightarrow> arrival_interface \<Rightarrow> dhcp_context list \<times> nat list" where
  "link_contexts_for_interface contexts iface =
     (let guessed = map (guess_netmask iface) contexts
      in (map (\<lambda>ctx. if is_linked iface ctx then link_context iface ctx else ctx) guessed,
          filter (\<lambda>i. is_linked iface (guessed ! i)) [0..<length guessed]))"

section \<open>Searching\<close>

lemma find_index_Some: "find_index P xs = Some i \<Longrightarrow> i < length xs \<and> P (xs ! i) \<and> (\<forall>j < i. \<not> P (xs ! j))"
proof (induction xs arbitrary: i)
  case (Cons x xs)
  then show ?case by (cases i) (auto simp: less_Suc_eq_0_disj split: if_splits)
qed simp

lemma find_index_None: "find_index P xs = None \<longleftrightarrow> (\<forall>x \<in> set xs. \<not> P x)"
  by (induction xs) auto

lemma config_find_by_address_None:
  "config_find_by_address configs addr = None \<longleftrightarrow>
     (\<forall>c \<in> set configs. dc_flags c AND CONFIG_ADDR \<noteq> 0 \<longrightarrow> dc_addr c \<noteq> addr)"
  by (auto simp: config_find_by_address_def find_index_None)

lemma find_SomeD: "find P xs = Some x \<Longrightarrow> x \<in> set xs \<and> P x"
  by (auto simp: find_Some_iff)

text \<open>The context chosen for an address is one of the list, and a range that holds the address when
  the address is available.\<close>

lemma narrow_context_available:
  assumes "address_available contexts addr"
  shows "\<exists>ctx \<in> set contexts. narrow_context contexts addr = Some ctx \<and> dynamic_range ctx \<and> in_range ctx addr"
proof -
  obtain ctx where f: "find (\<lambda>ctx. dynamic_range ctx \<and> in_range ctx addr) contexts = Some ctx"
    using assms by (auto simp: address_available_def list_ex_iff find_None_iff split: if_splits
        intro: option.exhaust [of "find (\<lambda>ctx. dynamic_range ctx \<and> in_range ctx addr) contexts"])
  with find_SomeD [OF f] assms show ?thesis by (auto simp: narrow_context_def opt_or_def)
qed

lemma narrow_context_member: "narrow_context contexts addr = Some ctx \<Longrightarrow> ctx \<in> set contexts"
  by (auto simp: narrow_context_def opt_or_def dest!: find_SomeD split: option.splits if_splits)

text \<open>A positive tag list is matched exactly when every tag has a counterpart, a negated tag when none has.\<close>

lemma match_netid_wild_iff:
  "match_netid_wild check pool \<longleftrightarrow>
     (\<forall>net \<in> set check. tag_found (if negated net then tl net else net) pool \<noteq> negated net)"
  by (induction check) auto

lemma run_tag_if_subset: "set tags \<subseteq> set (run_tag_if tags rules)"
proof (induction rules arbitrary: tags)
  case (Cons r rules)
  have "set tags \<subseteq> set (fold add_tag ts tags)" for ts
  proof (induction ts arbitrary: tags)
    case (Cons t ts)
    from Cons [of "add_tag t tags"] show ?case by (auto simp: add_tag_def split: if_splits)
  qed simp
  with Cons show ?case by (simp, blast)
qed simp

end
