(* ===== verification/Lease_Db.thy ===== *)
theory Lease_Db
  imports Dhcp_Config Hostname "HOL-Library.AList" "HOL-Library.Multiset"
begin

unbundle bit_operations_syntax

text \<open>
  The lease database, \<open>src/lease.rs\<close>. Leases are filed under a key of sixteen octets, made from the
  client identifier or the hardware address, and indexed by their IPv4 address. A \<open>HashMap\<close> is an
  association list with distinct keys; the order in which it yields its keys is not specified, so the
  operations that iterate take it as a parameter \<open>ord\<close>, of which the locale \<open>hash_order\<close> only says
  that it yields each key once. \<open>SystemTime\<close> is an integer number of nanoseconds since the Unix epoch;
  \<open>SystemTime::now()\<close> is an argument. A mutable reference into the map is the key of its lease, and
  what is written through it is written back under that key. \<open>run_lease_scripts\<close> returns the script
  calls it makes. The file format is in \<open>Lease_File\<close>; the three functions that hand the leases to
  \<open>src/slaac.rs\<close> and the SLAAC addresses of a lease are left out.
\<close>

section \<open>Leases\<close>

definition LEASE_NEW :: u32 where "LEASE_NEW = 0x1"
definition LEASE_CHANGED :: u32 where "LEASE_CHANGED = 0x2"
definition LEASE_AUX_CHANGED :: u32 where "LEASE_AUX_CHANGED = 0x4"
definition LEASE_AUTH_NAME :: u32 where "LEASE_AUTH_NAME = 0x8"
definition LEASE_USED :: u32 where "LEASE_USED = 0x10"
definition LEASE_NA :: u32 where "LEASE_NA = 0x20"
definition LEASE_TA :: u32 where "LEASE_TA = 0x40"
definition LEASE_HAVE_HWADDR :: u32 where "LEASE_HAVE_HWADDR = 0x80"
definition LEASE_EXP_CHANGED :: u32 where "LEASE_EXP_CHANGED = 0x100"

lemmas lease_flags = LEASE_NEW_def LEASE_CHANGED_def LEASE_AUX_CHANGED_def LEASE_AUTH_NAME_def LEASE_USED_def
  LEASE_NA_def LEASE_TA_def LEASE_HAVE_HWADDR_def LEASE_EXP_CHANGED_def

type_synonym lkey = "u8 list"

record dhcp_lease =
  l_clid :: "u8 list option"
  l_hostname :: "rstr option"
  l_fqdn :: "rstr option"
  l_old_hostname :: "rstr option"
  l_flags :: u32
  l_expires :: "int option"
  l_hwaddr :: "u8 list"
  l_hwaddr_len :: nat
  l_hwaddr_type :: int
  l_addr :: ipv4
  l_giaddr :: ipv4
  l_extradata :: "u8 list"
  l_last_interface :: int
  l_new_interface :: int
  l_new_prefixlen :: int
  l_agent_id :: "u8 list option"
  l_vendorclass :: "u8 list option"
  l_addr6 :: ipv6
  l_iaid :: u32
  l_vendorclass_count :: int

definition default_lease :: dhcp_lease where
  "default_lease =
     \<lparr>l_clid = None, l_hostname = None, l_fqdn = None, l_old_hostname = None, l_flags = 0, l_expires = None,
      l_hwaddr = replicate 16 0, l_hwaddr_len = 0, l_hwaddr_type = 0, l_addr = 0, l_giaddr = 0, l_extradata = [],
      l_last_interface = 0, l_new_interface = 0, l_new_prefixlen = 0, l_agent_id = None, l_vendorclass = None,
      l_addr6 = 0, l_iaid = 0, l_vendorclass_count = 0\<rparr>"

definition to_key :: "u8 list \<Rightarrow> lkey" where
  "to_key i = take 16 i @ replicate (16 - length i) 0"

definition hw_bytes :: "dhcp_lease \<Rightarrow> u8 list" where
  "hw_bytes l = take (min (l_hwaddr_len l) DHCP_CHADDR_MAX) (l_hwaddr l)"

definition lease_key :: "dhcp_lease \<Rightarrow> lkey" where
  "lease_key l =
     (case l_clid l of
        None \<Rightarrow> to_key (hw_bytes l)
      | Some clid \<Rightarrow> if clid \<noteq> [] then to_key clid else to_key (hw_bytes l))"

definition is_v6 :: "dhcp_lease \<Rightarrow> bool" where
  "is_v6 l \<longleftrightarrow> l_flags l AND (LEASE_TA OR LEASE_NA) \<noteq> 0"

definition set_flags :: "u32 \<Rightarrow> dhcp_lease \<Rightarrow> dhcp_lease" where
  "set_flags f l = l\<lparr>l_flags := l_flags l OR f\<rparr>"

definition clear_flags :: "u32 \<Rightarrow> dhcp_lease \<Rightarrow> dhcp_lease" where
  "clear_flags f l = l\<lparr>l_flags := l_flags l AND NOT f\<rparr>"

section \<open>The database\<close>

record lease_db =
  leases :: "(lkey \<times> dhcp_lease) list"
  addr_index :: "ipv4 \<Rightarrow> lkey option"
  max_leases :: nat
  file_dirty :: bool
  dns_dirty :: bool
  old_leases :: "dhcp_lease list"

definition lease_db_new :: lease_db where
  "lease_db_new =
     \<lparr>leases = [], addr_index = Map.empty, max_leases = 1000, file_dirty = False, dns_dirty = False, old_leases = []\<rparr>"

text \<open>Iteration over the map, in the order of the keys that the map yields.\<close>

definition hm_iter :: "(lkey list \<Rightarrow> lkey list) \<Rightarrow> (lkey \<times> 'v) list \<Rightarrow> (lkey \<times> 'v) list" where
  "hm_iter ord m = map (\<lambda>k. (k, the (map_of m k))) (ord (map fst m))"

definition lease_values :: "(lkey list \<Rightarrow> lkey list) \<Rightarrow> lease_db \<Rightarrow> dhcp_lease list" where
  "lease_values ord db = map snd (hm_iter ord (leases db))"

definition map_leases :: "(dhcp_lease \<Rightarrow> dhcp_lease) \<Rightarrow> lease_db \<Rightarrow> lease_db" where
  "map_leases f db = db\<lparr>leases := map (\<lambda>(k, l). (k, f l)) (leases db)\<rparr>"

definition put_lease :: "lkey \<Rightarrow> dhcp_lease \<Rightarrow> lease_db \<Rightarrow> lease_db" where
  "put_lease k l db = db\<lparr>leases := AList.update k l (leases db)\<rparr>"

definition index_addr :: "ipv4 \<Rightarrow> lkey \<Rightarrow> lease_db \<Rightarrow> lease_db" where
  "index_addr addr key db = (if addr \<noteq> 0 then db\<lparr>addr_index := (addr_index db)(addr := Some key)\<rparr> else db)"

definition unindex_addr :: "ipv4 \<Rightarrow> lease_db \<Rightarrow> lease_db" where
  "unindex_addr addr db = (if addr \<noteq> 0 then db\<lparr>addr_index := (addr_index db)(addr := None)\<rparr> else db)"

definition get_mut_by_addr :: "lease_db \<Rightarrow> ipv4 \<Rightarrow> (lkey \<times> dhcp_lease) option" where
  "get_mut_by_addr db addr =
     (case addr_index db addr of None \<Rightarrow> None | Some key \<Rightarrow> map_option (Pair key) (map_of (leases db) key))"

definition insert_raw :: "lkey \<Rightarrow> dhcp_lease \<Rightarrow> lease_db \<Rightarrow> lease_db" where
  "insert_raw key lease db =
     (let db1 = (case map_of (leases db) key of
                   None \<Rightarrow> db
                 | Some old \<Rightarrow> if l_addr old \<noteq> l_addr lease then unindex_addr (l_addr old) db else db)
      in put_lease key lease (index_addr (l_addr lease) key db1))"

definition lease_insert :: "dhcp_lease \<Rightarrow> lease_db \<Rightarrow> lease_db" where
  "lease_insert lease db = insert_raw (lease_key lease) lease db"

definition find_by_addr :: "lease_db \<Rightarrow> ipv4 \<Rightarrow> dhcp_lease option" where
  "find_by_addr db addr = (case addr_index db addr of None \<Rightarrow> None | Some key \<Rightarrow> map_of (leases db) key)"

definition find_by_client_id :: "lease_db \<Rightarrow> u8 list \<Rightarrow> dhcp_lease option" where
  "find_by_client_id db client_id = map_of (leases db) (to_key client_id)"

text \<open>\<open>UNIX_EPOCH + Duration::from_secs(n)\<close>, which panics when the seconds do not fit into an \<open>i64\<close>.\<close>

definition epoch_plus :: "nat \<Rightarrow> int exec" where
  "epoch_plus secs = (if secs < 2 ^ 63 then Done (int secs * 1000000000) else Panic)"

definition lease_expired :: "int \<Rightarrow> dhcp_lease \<Rightarrow> bool" where
  "lease_expired now l \<longleftrightarrow> (case l_expires l of None \<Rightarrow> False | Some e \<Rightarrow> e < now)"

definition lease_prune :: "(lkey list \<Rightarrow> lkey list) \<Rightarrow> nat \<Rightarrow> lease_db \<Rightarrow> (dhcp_lease list \<times> lease_db) exec" where
  "lease_prune ord now_secs db =
     bind_exec (epoch_plus now_secs) (\<lambda>now.
       let pruned = filter (lease_expired now) (lease_values ord db)
       in Done (pruned,
            (fold (\<lambda>l. unindex_addr (l_addr l)) pruned db)
              \<lparr>leases := filter (\<lambda>(k, l). \<not> lease_expired now l) (leases db),
               old_leases := old_leases db @ pruned\<rparr>))"

definition mark_dirty :: "lease_db \<Rightarrow> lease_db" where
  "mark_dirty db = db\<lparr>file_dirty := True, dns_dirty := True\<rparr>"

definition allocate_v4 :: "ipv4 \<Rightarrow> lease_db \<Rightarrow> lkey option \<times> lease_db" where
  "allocate_v4 addr db =
     (if length (leases db) \<ge> max_leases db then (None, db)
      else let lease = default_lease\<lparr>l_flags := LEASE_NEW, l_addr := addr\<rparr>; key = lease_key lease
           in (Some key, mark_dirty (insert_raw key lease db)))"

text \<open>The lease of an address is changed through a reference; nothing happens without one.\<close>

definition change_lease ::
    "ipv4 \<Rightarrow> (dhcp_lease \<Rightarrow> dhcp_lease \<times> bool) \<Rightarrow> lease_db \<Rightarrow> lease_db" where
  "change_lease addr f db =
     (case get_mut_by_addr db addr of
        None \<Rightarrow> db
      | Some (key, lease) \<Rightarrow>
          (case f lease of (lease1, dirty) \<Rightarrow>
             (put_lease key lease1 db)\<lparr>file_dirty := file_dirty db \<or> dirty\<rparr>))"

definition set_expires :: "int \<Rightarrow> ipv4 \<Rightarrow> u32 \<Rightarrow> lease_db \<Rightarrow> lease_db" where
  "set_expires now addr duration_secs db =
     (let new_expires = (if duration_secs = 0xFFFFFFFF then None else Some (now + int (unat duration_secs) * 1000000000))
      in change_lease addr (\<lambda>l.
           if l_expires l \<noteq> new_expires
           then (set_flags (LEASE_AUX_CHANGED OR LEASE_EXP_CHANGED) (l\<lparr>l_expires := new_expires\<rparr>), True)
           else (l, False)) db)"

definition write_hwaddr :: "u8 list \<Rightarrow> int \<Rightarrow> dhcp_lease \<Rightarrow> dhcp_lease" where
  "write_hwaddr hw hw_type l =
     set_flags LEASE_CHANGED
       (l\<lparr>l_hwaddr := hw @ replicate (16 - length hw) 0, l_hwaddr_len := length hw, l_hwaddr_type := hw_type\<rparr>)"

definition hw_changed :: "u8 list \<Rightarrow> int \<Rightarrow> dhcp_lease \<Rightarrow> bool" where
  "hw_changed hw hw_type l \<longleftrightarrow>
     l_hwaddr_len l \<noteq> length hw \<or> l_hwaddr_type l \<noteq> hw_type \<or> take (length hw) (l_hwaddr l) \<noteq> hw"

definition set_hwaddr :: "ipv4 \<Rightarrow> u8 list \<Rightarrow> int \<Rightarrow> u8 list option \<Rightarrow> bool \<Rightarrow> lease_db \<Rightarrow> bool \<times> lease_db" where
  "set_hwaddr addr hwaddr hw_type clid force db =
     (case get_mut_by_addr db addr of
        None \<Rightarrow> (False, db)
      | Some (key, lease) \<Rightarrow>
          if l_addr lease \<noteq> addr then (False, db)
          else
            let hw = take DHCP_CHADDR_MAX hwaddr;
                lease1 = set_flags LEASE_HAVE_HWADDR lease;
                lease2 = (if hw_changed hw hw_type lease1 then write_hwaddr hw hw_type lease1 else lease1);
                db1 = (put_lease key lease2 db)\<lparr>file_dirty := file_dirty db \<or> hw_changed hw hw_type lease1\<rparr>
            in (case clid of
                  None \<Rightarrow> (force, db1)
                | Some c \<Rightarrow>
                    if l_clid lease2 = Some c then (force, db1)
                    else
                      let lease3 = set_flags LEASE_AUX_CHANGED (lease2\<lparr>l_clid := Some c\<rparr>)
                      in (True, insert_raw (lease_key lease3) lease3
                                  (db1\<lparr>leases := AList.delete key (leases db1), file_dirty := True\<rparr>))))"

text \<open>A name that is given to one lease is taken from every other lease that has it.\<close>

definition has_name :: "rstr \<Rightarrow> dhcp_lease \<Rightarrow> bool" where
  "has_name name l \<longleftrightarrow> (case l_hostname l of None \<Rightarrow> False | Some h \<Rightarrow> hostname_isequal h name)"

definition take_name :: "ipv4 \<Rightarrow> lease_db \<Rightarrow> lease_db" where
  "take_name dup_addr db =
     change_lease dup_addr (\<lambda>l. (set_flags LEASE_CHANGED (l\<lparr>l_old_hostname := l_hostname l, l_hostname := None\<rparr>), False)) db"

definition name_changed :: "rstr option \<Rightarrow> rstr option \<Rightarrow> bool" where
  "name_changed old_name name =
     (case (old_name, name) of
        (Some old, Some new) \<Rightarrow> \<not> hostname_isequal old new
      | (None, None) \<Rightarrow> False
      | _ \<Rightarrow> True)"

definition set_hostname :: "(lkey list \<Rightarrow> lkey list) \<Rightarrow> ipv4 \<Rightarrow> rstr option \<Rightarrow> bool \<Rightarrow> lease_db \<Rightarrow> lease_db" where
  "set_hostname ord addr name auth db =
     (let duplicates = (case name of
            None \<Rightarrow> []
          | Some n \<Rightarrow> map l_addr (filter (\<lambda>l. l_addr l \<noteq> addr \<and> has_name n l) (lease_values ord db)));
          db1 = fold take_name duplicates db
      in (case get_mut_by_addr db1 addr of
            None \<Rightarrow> db1
          | Some (key, lease) \<Rightarrow>
              let changed = name_changed (l_hostname lease) name;
                  lease1 = (if changed
                            then set_flags LEASE_CHANGED (lease\<lparr>l_old_hostname := l_hostname lease, l_hostname := name\<rparr>)
                            else lease);
                  db2 = (if changed then mark_dirty db1 else db1)
              in put_lease key (if auth then set_flags LEASE_AUTH_NAME lease1 else clear_flags LEASE_AUTH_NAME lease1) db2))"

definition lease_rename :: "dhcp_config list \<Rightarrow> dhcp_lease \<Rightarrow> (ipv4 \<times> rstr) option" where
  "lease_rename configs l =
     (case find_config configs (l_clid l) (Some (hw_bytes l)) (l_hwaddr_type l) None [] of
        None \<Rightarrow> None
      | Some i \<Rightarrow>
          let config = configs ! i
          in if dc_flags config AND CONFIG_NAME = 0 then None
             else if dc_flags config AND CONFIG_ADDR \<noteq> 0 \<and> dc_addr config \<noteq> l_addr l then None
             else map_option (Pair (l_addr l)) (dc_hostname config))"

definition update_from_configs :: "(lkey list \<Rightarrow> lkey list) \<Rightarrow> dhcp_config list \<Rightarrow> lease_db \<Rightarrow> lease_db" where
  "update_from_configs ord configs db =
     fold (\<lambda>(addr, hostname). set_hostname ord addr (Some hostname) True)
       (List.map_filter (lease_rename configs) (filter (\<lambda>l. \<not> is_v6 l) (lease_values ord db))) db"

definition set_interface :: "ipv4 \<Rightarrow> int \<Rightarrow> lease_db \<Rightarrow> lease_db" where
  "set_interface addr interface db = change_lease addr (\<lambda>l. (l\<lparr>l_last_interface := interface\<rparr>, False)) db"

definition set_agent_id :: "ipv4 \<Rightarrow> u8 list option \<Rightarrow> lease_db \<Rightarrow> lease_db" where
  "set_agent_id addr agent_id db =
     change_lease addr (\<lambda>l. if l_agent_id l \<noteq> agent_id
                            then (set_flags LEASE_AUX_CHANGED (l\<lparr>l_agent_id := agent_id\<rparr>), True) else (l, False)) db"

definition set_vendorclass :: "ipv4 \<Rightarrow> u8 list option \<Rightarrow> lease_db \<Rightarrow> lease_db" where
  "set_vendorclass addr vendorclass db =
     change_lease addr (\<lambda>l. if l_vendorclass l \<noteq> vendorclass
                            then (set_flags LEASE_AUX_CHANGED (l\<lparr>l_vendorclass := vendorclass\<rparr>), True) else (l, False)) db"

definition find_max_addr :: "lease_db \<Rightarrow> ipv4 \<Rightarrow> ipv4 \<Rightarrow> ipv4" where
  "find_max_addr db lo hi =
     (case filter (\<lambda>a. lo \<le> a \<and> a \<le> hi) (map (\<lambda>(k, l). l_addr l) (leases db)) of
        [] \<Rightarrow> lo
      | a # as \<Rightarrow> fold max as a)"

definition rerun_scripts :: "lease_db \<Rightarrow> lease_db" where
  "rerun_scripts db = (map_leases (set_flags LEASE_CHANGED) db)\<lparr>file_dirty := True\<rparr>"

definition remove_by_addr :: "ipv4 \<Rightarrow> lease_db \<Rightarrow> dhcp_lease option \<times> lease_db" where
  "remove_by_addr addr db =
     (case addr_index db addr of
        None \<Rightarrow> (None, db)
      | Some key \<Rightarrow>
          (case map_of (leases db) key of
             None \<Rightarrow> (None, mark_dirty db)
           | Some removed \<Rightarrow>
               let db1 = unindex_addr addr ((mark_dirty db)\<lparr>leases := AList.delete key (leases db)\<rparr>)
               in (Some removed, db1\<lparr>old_leases := old_leases db1 @ [removed]\<rparr>)))"

definition lease_count :: "lease_db \<Rightarrow> nat" where
  "lease_count db = length (leases db)"

definition calc_fqdns :: "rstr \<Rightarrow> lease_db \<Rightarrow> lease_db" where
  "calc_fqdns domain db =
     map_leases (\<lambda>l. case l_hostname l of
                       None \<Rightarrow> l
                     | Some h \<Rightarrow> l\<lparr>l_fqdn := if domain \<noteq> [] then Some (h @ DOT # domain) else None\<rparr>) db"

section \<open>DHCPv6 leases\<close>

definition find_v6_by_clid_iaid :: "(lkey list \<Rightarrow> lkey list) \<Rightarrow> lease_db \<Rightarrow> u8 list \<Rightarrow> u32 \<Rightarrow> ipv6 \<Rightarrow> dhcp_lease option" where
  "find_v6_by_clid_iaid ord db clid iaid addr =
     find (\<lambda>l. is_v6 l \<and> l_iaid l = iaid \<and> l_addr6 l = addr \<and> l_clid l = Some clid) (lease_values ord db)"

definition find_v6_by_client_iaid :: "(lkey list \<Rightarrow> lkey list) \<Rightarrow> lease_db \<Rightarrow> u8 list \<Rightarrow> u32 \<Rightarrow> dhcp_lease option" where
  "find_v6_by_client_iaid ord db clid iaid =
     find (\<lambda>l. is_v6 l \<and> l_iaid l = iaid \<and> l_clid l = Some clid) (lease_values ord db)"

definition find_v6_by_addr :: "(lkey list \<Rightarrow> lkey list) \<Rightarrow> lease_db \<Rightarrow> ipv6 \<Rightarrow> dhcp_lease option" where
  "find_v6_by_addr ord db addr = find (\<lambda>l. is_v6 l \<and> l_addr6 l = addr) (lease_values ord db)"

definition allocate_v6 :: "ipv6 \<Rightarrow> u32 \<Rightarrow> lease_db \<Rightarrow> lkey option \<times> lease_db" where
  "allocate_v6 addr lease_type db =
     (if length (leases db) \<ge> max_leases db then (None, db)
      else let lease = default_lease\<lparr>l_flags := LEASE_NEW OR lease_type, l_addr6 := addr\<rparr>; key = lease_key lease
           in (Some key, mark_dirty (insert_raw key lease db)))"

definition reset_v6_used :: "lease_db \<Rightarrow> lease_db" where
  "reset_v6_used db = map_leases (\<lambda>l. if is_v6 l then clear_flags LEASE_USED l else l) db"

definition bind_v6 ::
    "(lkey list \<Rightarrow> lkey list) \<Rightarrow> ipv6 \<Rightarrow> u8 list \<Rightarrow> u32 \<Rightarrow> u32 \<Rightarrow> int option \<Rightarrow> lease_db \<Rightarrow> lkey option \<times> lease_db" where
  "bind_v6 ord addr clid iaid lease_type expires db =
     (let bound = (\<lambda>(lease, db1).
            let lease1 = lease\<lparr>l_clid := Some clid, l_iaid := iaid, l_expires := expires\<rparr>; key = lease_key lease1
            in (Some key, mark_dirty (insert_raw key lease1 db1)))
      in (case find (\<lambda>(k, l). is_v6 l \<and> l_addr6 l = addr) (hm_iter ord (leases db)) of
            Some (k, l) \<Rightarrow> bound (l, db\<lparr>leases := AList.delete k (leases db)\<rparr>)
          | None \<Rightarrow>
              if length (leases db) \<ge> max_leases db then (None, db)
              else bound (default_lease\<lparr>l_flags := LEASE_NEW OR lease_type, l_addr6 := addr\<rparr>, db)))"

definition remove_v6_by_clid_iaid_addr ::
    "(lkey list \<Rightarrow> lkey list) \<Rightarrow> u8 list \<Rightarrow> u32 \<Rightarrow> ipv6 \<Rightarrow> lease_db \<Rightarrow> bool \<times> lease_db" where
  "remove_v6_by_clid_iaid_addr ord clid iaid addr db =
     (case find (\<lambda>(k, l). is_v6 l \<and> l_iaid l = iaid \<and> l_addr6 l = addr \<and> l_clid l = Some clid) (hm_iter ord (leases db)) of
        Some (k, l) \<Rightarrow> (True, db\<lparr>leases := AList.delete k (leases db), file_dirty := True\<rparr>)
      | None \<Rightarrow> (False, db))"

section \<open>Script calls\<close>

datatype lease_action = ActionDel | ActionOld | ActionAdd

record script_event =
  ev_action :: lease_action
  ev_lease :: dhcp_lease
  ev_hostname :: "rstr option"

definition build_script_event :: "dhcp_lease \<Rightarrow> lease_action \<Rightarrow> rstr option \<Rightarrow> script_event" where
  "build_script_event lease action hostname_override =
     \<lparr>ev_action = action, ev_lease = lease,
      ev_hostname = (if action = ActionDel then None
                     else opt_or hostname_override (opt_or (l_fqdn lease) (l_hostname lease)))\<rparr>"

text \<open>A call is made only when a command is configured.\<close>

definition script_call :: "bool \<Rightarrow> dhcp_lease \<Rightarrow> lease_action \<Rightarrow> rstr option \<Rightarrow> script_event list" where
  "script_call command lease action hostname_override =
     (if command then [build_script_event lease action hostname_override] else [])"

definition lost_name_calls :: "bool \<Rightarrow> dhcp_lease \<Rightarrow> script_event list" where
  "lost_name_calls command lease =
     (case l_old_hostname lease of
        None \<Rightarrow> []
      | Some old \<Rightarrow> script_call command (lease\<lparr>l_old_hostname := None\<rparr>) ActionOld (Some old))"

definition removed_calls :: "bool \<Rightarrow> dhcp_lease \<Rightarrow> script_event list" where
  "removed_calls command lease =
     lost_name_calls command lease @ script_call command (lease\<lparr>l_old_hostname := None\<rparr>) ActionDel None"

definition script_pending :: "bool \<Rightarrow> bool \<Rightarrow> dhcp_lease \<Rightarrow> bool" where
  "script_pending leasefile_ro script_on_renewal l \<longleftrightarrow>
     l_flags l AND (LEASE_NEW OR LEASE_CHANGED) \<noteq> 0
     \<or> l_flags l AND LEASE_AUX_CHANGED \<noteq> 0 \<and> leasefile_ro
     \<or> l_flags l AND LEASE_EXP_CHANGED \<noteq> 0 \<and> script_on_renewal"

definition pending_calls :: "bool \<Rightarrow> bool \<Rightarrow> bool \<Rightarrow> dhcp_lease \<Rightarrow> script_event list" where
  "pending_calls command leasefile_ro script_on_renewal l =
     (if script_pending leasefile_ro script_on_renewal l
      then script_call command l (if l_flags l AND LEASE_NEW \<noteq> 0 then ActionAdd else ActionOld) None else [])"

definition after_calls :: "bool \<Rightarrow> bool \<Rightarrow> dhcp_lease \<Rightarrow> dhcp_lease" where
  "after_calls leasefile_ro script_on_renewal l =
     (if script_pending leasefile_ro script_on_renewal l
      then clear_flags (LEASE_NEW OR LEASE_CHANGED OR LEASE_AUX_CHANGED OR LEASE_EXP_CHANGED) l else l)"

definition run_lease_scripts ::
    "(lkey list \<Rightarrow> lkey list) \<Rightarrow> bool \<Rightarrow> bool \<Rightarrow> bool \<Rightarrow> lease_db \<Rightarrow> script_event list \<times> lease_db" where
  "run_lease_scripts ord command leasefile_ro script_on_renewal db =
     (let db1 = map_leases (\<lambda>l. l\<lparr>l_old_hostname := None\<rparr>) (db\<lparr>old_leases := []\<rparr>)
      in (concat (map (removed_calls command) (old_leases db))
            @ concat (map (lost_name_calls command) (lease_values ord db))
            @ concat (map (pending_calls command leasefile_ro script_on_renewal) (lease_values ord db1)),
          map_leases (after_calls leasefile_ro script_on_renewal) db1))"

section \<open>Order of iteration\<close>

locale hash_order =
  fixes ord :: "lkey list \<Rightarrow> lkey list"
  assumes ord_keys: "mset (ord ks) = mset ks"
begin

lemma ord_set: "set (ord ks) = set ks"
  using ord_keys [of ks] mset_eq_setD by blast

lemma hm_iter_set:
  assumes "distinct (map fst m)"
  shows "set (hm_iter ord m) = set m"
proof -
  have "(k, v) \<in> set (hm_iter ord m) \<longleftrightarrow> (k, v) \<in> set m" for k v
  proof -
    have "(k, v) \<in> set (hm_iter ord m) \<longleftrightarrow> k \<in> fst ` set m \<and> v = the (map_of m k)" by (auto simp: hm_iter_def ord_set)
    also have "\<dots> \<longleftrightarrow> map_of m k = Some v"
      by (metis map_of_eq_None_iff option.collapse option.distinct(1) option.sel)
    also have "\<dots> \<longleftrightarrow> (k, v) \<in> set m" using assms by simp
    finally show ?thesis .
  qed
  then show ?thesis by auto
qed

lemma values_set: "distinct (map fst (leases db)) \<Longrightarrow> set (lease_values ord db) = snd ` set (leases db)"
  by (simp add: lease_values_def hm_iter_set)

end

interpretation id_order: hash_order "\<lambda>ks. ks"
  by unfold_locales simp

interpretation rev_order: hash_order rev
  by unfold_locales simp

section \<open>Invariant\<close>

text \<open>
  The keys are distinct; the index leads from an address exactly to the lease of that address, so
  that no address is leased twice; DHCPv6 leases have no IPv4 address.
\<close>

definition indexed_at :: "lease_db \<Rightarrow> ipv4 \<Rightarrow> bool" where
  "indexed_at db a \<longleftrightarrow>
     (\<forall>k. addr_index db a = Some k \<longleftrightarrow> a \<noteq> 0 \<and> (\<exists>l. map_of (leases db) k = Some l \<and> l_addr l = a))"

definition lease_ok :: "lease_db \<Rightarrow> bool" where
  "lease_ok db \<longleftrightarrow>
     distinct (map fst (leases db)) \<and> (\<forall>a. indexed_at db a)
     \<and> (\<forall>k l. map_of (leases db) k = Some l \<and> is_v6 l \<longrightarrow> l_addr l = 0)"

lemma update_distinct: "distinct (map fst (AList.update k v m)) \<longleftrightarrow> distinct (map fst m)"
  unfolding AList.update_keys by (cases "k \<in> set (map fst m)") simp_all

lemma put_lease_sel [simp]:
  "map_of (leases (put_lease k l db)) = (map_of (leases db))(k \<mapsto> l)"
  "addr_index (put_lease k l db) = addr_index db"
  "max_leases (put_lease k l db) = max_leases db"
  "old_leases (put_lease k l db) = old_leases db"
  "file_dirty (put_lease k l db) = file_dirty db"
  "dns_dirty (put_lease k l db) = dns_dirty db"
  "distinct (map fst (leases (put_lease k l db))) \<longleftrightarrow> distinct (map fst (leases db))"
  by (simp_all add: put_lease_def update_conv' update_distinct)

lemma index_sel [simp]:
  "leases (index_addr a k db) = leases db" "leases (unindex_addr a db) = leases db"
  "max_leases (index_addr a k db) = max_leases db" "max_leases (unindex_addr a db) = max_leases db"
  "old_leases (index_addr a k db) = old_leases db" "old_leases (unindex_addr a db) = old_leases db"
  by (simp_all add: index_addr_def unindex_addr_def)

lemma index_addr_index: "addr_index (index_addr a k db) b = (if b = a \<and> a \<noteq> 0 then Some k else addr_index db b)"
  by (simp add: index_addr_def)

lemma unindex_addr_index: "addr_index (unindex_addr a db) b = (if b = a \<and> a \<noteq> 0 then None else addr_index db b)"
  by (simp add: unindex_addr_def)

lemma mark_dirty_sel [simp]:
  "leases (mark_dirty db) = leases db" "addr_index (mark_dirty db) = addr_index db"
  "max_leases (mark_dirty db) = max_leases db" "old_leases (mark_dirty db) = old_leases db"
  by (simp_all add: mark_dirty_def)

lemma insert_raw_sel [simp]:
  "map_of (leases (insert_raw k l db)) = (map_of (leases db))(k \<mapsto> l)"
  "max_leases (insert_raw k l db) = max_leases db" "old_leases (insert_raw k l db) = old_leases db"
  "distinct (map fst (leases (insert_raw k l db))) \<longleftrightarrow> distinct (map fst (leases db))"
  by (auto simp: insert_raw_def Let_def split: option.split)

lemma insert_raw_index:
  "addr_index (insert_raw k l db) a =
     (if a = l_addr l \<and> a \<noteq> 0 then Some k
      else if (\<exists>old. map_of (leases db) k = Some old \<and> l_addr old = a \<and> a \<noteq> l_addr l \<and> a \<noteq> 0) then None
      else addr_index db a)"
  by (auto simp: insert_raw_def Let_def index_addr_index unindex_addr_index split: option.split)

text \<open>
  Filing a lease keeps the index exact, also when the address of the lease was indexed under the key
  of an entry that has just been taken out.
\<close>

lemma indexed_unique:
  "indexed_at db a \<Longrightarrow> a \<noteq> 0 \<Longrightarrow> map_of (leases db) k = Some l \<Longrightarrow> l_addr l = a
    \<Longrightarrow> map_of (leases db) k' = Some l' \<Longrightarrow> l_addr l' = a \<Longrightarrow> k = k'"
  unfolding indexed_at_def by (metis option.inject)

lemma insert_raw_indexed:
  assumes "\<And>a. a \<noteq> l_addr l \<Longrightarrow> indexed_at db a"
    and "\<And>k' l'. map_of (leases db) k' = Some l' \<Longrightarrow> l_addr l' = l_addr l \<Longrightarrow> l_addr l \<noteq> 0 \<Longrightarrow> k' = k"
    and "addr_index db 0 = None"
  shows "indexed_at (insert_raw k l db) a"
proof (cases "a = l_addr l")
  case True
  with assms(2,3) show ?thesis by (auto simp: indexed_at_def insert_raw_index)
next
  case False
  note i = assms(1) [OF False]
  show ?thesis
  proof (cases "\<exists>old. map_of (leases db) k = Some old \<and> l_addr old = a \<and> a \<noteq> 0")
    case True
    then obtain old where "map_of (leases db) k = Some old" "l_addr old = a" "a \<noteq> 0" by blast
    note old = this
    have "addr_index (insert_raw k l db) a = None" unfolding insert_raw_index using old False by auto
    moreover have "l_addr l' \<noteq> a" if "map_of (leases (insert_raw k l db)) k' = Some l'" for k' l'
      using that False indexed_unique [OF i old(3,1,2), of k' l'] by (cases "k' = k") auto
    ultimately show ?thesis unfolding indexed_at_def by (metis option.distinct(1))
  next
    case no: False
    have "addr_index (insert_raw k l db) a = addr_index db a" using False no by (auto simp: insert_raw_index)
    with False no i show ?thesis by (auto simp: indexed_at_def)
  qed
qed

lemma lease_ok_index: "lease_ok db \<Longrightarrow> addr_index db a = Some k \<longleftrightarrow> a \<noteq> 0 \<and> (\<exists>l. map_of (leases db) k = Some l \<and> l_addr l = a)"
  by (simp add: lease_ok_def indexed_at_def)

lemma lease_ok_distinct: "lease_ok db \<Longrightarrow> distinct (map fst (leases db))"
  by (simp add: lease_ok_def)

lemma lease_ok_zero: "lease_ok db \<Longrightarrow> addr_index db 0 = None"
  using lease_ok_index [of db 0] by (cases "addr_index db 0") auto

lemma lease_ok_new [simp]: "lease_ok lease_db_new"
  by (simp add: lease_ok_def indexed_at_def lease_db_new_def)

text \<open>What \<open>find_by_addr\<close> returns under the invariant.\<close>

lemma find_by_addr_exact:
  assumes "lease_ok db"
  shows "find_by_addr db a = Some l \<longleftrightarrow> a \<noteq> 0 \<and> (\<exists>k. map_of (leases db) k = Some l \<and> l_addr l = a)"
proof (cases "addr_index db a")
  case None
  then show ?thesis using lease_ok_index [OF assms, of a] by (auto simp: find_by_addr_def)
next
  case (Some k)
  then obtain l' where "a \<noteq> 0" "map_of (leases db) k = Some l'" "l_addr l' = a"
    using lease_ok_index [OF assms, of a k] by auto
  note l' = this
  have "find_by_addr db a = Some l'" using Some l' by (simp add: find_by_addr_def)
  moreover have "indexed_at db a" using assms by (simp add: lease_ok_def)
  ultimately show ?thesis using l' indexed_unique [of db a k l'] by (metis option.inject)
qed

lemma find_by_addr_None:
  assumes "lease_ok db"
  shows "find_by_addr db a = None \<longleftrightarrow> addr_index db a = None"
  using lease_ok_index [OF assms, of a] by (cases "addr_index db a") (auto simp: find_by_addr_def)

lemma lease_ok_insert_raw:
  assumes ok: "lease_ok db" and a: "addr_index db (l_addr l) = None \<or> addr_index db (l_addr l) = Some k"
    and v6: "is_v6 l \<Longrightarrow> l_addr l = 0"
  shows "lease_ok (insert_raw k l db)"
proof -
  have "indexed_at (insert_raw k l db) b" for b
  proof (rule insert_raw_indexed)
    show "indexed_at db a" for a using ok by (simp add: lease_ok_def)
    show "k' = k" if "map_of (leases db) k' = Some l'" "l_addr l' = l_addr l" "l_addr l \<noteq> 0" for k' l'
      using lease_ok_index [OF ok, of "l_addr l" k'] that a by auto
    show "addr_index db 0 = None" by (rule lease_ok_zero [OF ok])
  qed
  moreover have "l_addr l' = 0" if "map_of (leases (insert_raw k l db)) k' = Some l'" "is_v6 l'" for k' l'
    using that v6 ok by (auto simp: lease_ok_def split: if_splits)
  moreover have "distinct (map fst (leases (insert_raw k l db)))" using ok by (simp add: lease_ok_def)
  ultimately show ?thesis unfolding lease_ok_def by blast
qed

end
