(* ===== verification/Lease_Invariant.thy ===== *)
theory Lease_Invariant
  imports Lease_Db
begin

unbundle bit_operations_syntax

text \<open>
  Every operation of the lease database keeps the invariant: the index is exact, and a host name
  belongs to one lease at most. The states the operations can build are the inductive predicate
  \<open>lease_reachable\<close>.
\<close>

lemma lease_okI:
  assumes "distinct (map fst (leases db))"
    and "\<And>a k. addr_index db a = Some k \<longleftrightarrow> a \<noteq> 0 \<and> (\<exists>l. map_of (leases db) k = Some l \<and> l_addr l = a)"
    and "\<And>k l. map_of (leases db) k = Some l \<Longrightarrow> is_v6 l \<Longrightarrow> l_addr l = 0"
  shows "lease_ok db"
  using assms unfolding lease_ok_def indexed_at_def by blast

section \<open>Changes in place\<close>

text \<open>A change that keeps the address and makes no DHCPv6 lease of one that was none.\<close>

definition same_place :: "dhcp_lease \<Rightarrow> dhcp_lease \<Rightarrow> bool" where
  "same_place l l' \<longleftrightarrow> l_addr l' = l_addr l \<and> (is_v6 l' \<longrightarrow> is_v6 l)"

lemma or_and_zero: "f AND m = 0 \<Longrightarrow> (x OR f) AND m = x AND (m :: u32)"
  by (simp add: bit.conj_disj_distrib2)

lemma same_place_flags [simp]:
  "f AND (LEASE_TA OR LEASE_NA) = 0 \<Longrightarrow> same_place l (set_flags f l') \<longleftrightarrow> same_place l l'"
  by (simp add: same_place_def set_flags_def is_v6_def or_and_zero)

lemma same_place_clear: "same_place l l' \<Longrightarrow> same_place l (clear_flags f l')"
  by (auto simp: same_place_def clear_flags_def is_v6_def) (metis and.assoc and.commute and_zero_eq)

lemma lease_flag_masks:
  "LEASE_CHANGED AND (LEASE_TA OR LEASE_NA) = 0" "LEASE_HAVE_HWADDR AND (LEASE_TA OR LEASE_NA) = 0"
  "LEASE_AUX_CHANGED AND (LEASE_TA OR LEASE_NA) = 0" "LEASE_AUTH_NAME AND (LEASE_TA OR LEASE_NA) = 0"
  "(LEASE_AUX_CHANGED OR LEASE_EXP_CHANGED) AND (LEASE_TA OR LEASE_NA) = 0" "LEASE_NEW AND (LEASE_TA OR LEASE_NA) = 0"
  by (simp_all add: lease_flags)

lemma same_place_refl [simp]: "same_place l l"
  by (simp add: same_place_def)

lemma same_place_upd [simp]:
  "same_place l (l'\<lparr>l_clid := c\<rparr>) \<longleftrightarrow> same_place l l'" "same_place l (l'\<lparr>l_hostname := n\<rparr>) \<longleftrightarrow> same_place l l'"
  "same_place l (l'\<lparr>l_fqdn := n\<rparr>) \<longleftrightarrow> same_place l l'" "same_place l (l'\<lparr>l_old_hostname := n\<rparr>) \<longleftrightarrow> same_place l l'"
  "same_place l (l'\<lparr>l_expires := e\<rparr>) \<longleftrightarrow> same_place l l'" "same_place l (l'\<lparr>l_hwaddr := h\<rparr>) \<longleftrightarrow> same_place l l'"
  "same_place l (l'\<lparr>l_hwaddr_len := n'\<rparr>) \<longleftrightarrow> same_place l l'" "same_place l (l'\<lparr>l_hwaddr_type := t\<rparr>) \<longleftrightarrow> same_place l l'"
  "same_place l (l'\<lparr>l_last_interface := i\<rparr>) \<longleftrightarrow> same_place l l'" "same_place l (l'\<lparr>l_agent_id := a\<rparr>) \<longleftrightarrow> same_place l l'"
  "same_place l (l'\<lparr>l_vendorclass := a\<rparr>) \<longleftrightarrow> same_place l l'" "same_place l (l'\<lparr>l_iaid := j\<rparr>) \<longleftrightarrow> same_place l l'"
  by (simp_all add: same_place_def is_v6_def)

text \<open>The invariant only depends on the map, the index and, per lease, the address and the kind.\<close>

lemma lease_ok_cong:
  assumes "lease_ok db" "addr_index db' = addr_index db" "distinct (map fst (leases db'))"
    and "\<And>k. map_of (leases db') k = None \<longleftrightarrow> map_of (leases db) k = None"
    and "\<And>k l'. map_of (leases db') k = Some l' \<Longrightarrow> \<exists>l. map_of (leases db) k = Some l \<and> same_place l l'"
  shows "lease_ok db'"
proof -
  have ex: "(\<exists>l. map_of (leases db') k = Some l \<and> l_addr l = a) \<longleftrightarrow> (\<exists>l. map_of (leases db) k = Some l \<and> l_addr l = a)" for k a
    using assms(4) [of k] assms(5) [of k] by (cases "map_of (leases db') k") (auto simp: same_place_def)
  have "indexed_at db' a" for a
    using assms(1) unfolding lease_ok_def indexed_at_def ex assms(2) by blast
  moreover have "l_addr l' = 0" if "map_of (leases db') k = Some l'" "is_v6 l'" for k l'
  proof -
    from assms(5) [OF that(1)] obtain l where "map_of (leases db) k = Some l" "same_place l l'" by blast
    with that(2) assms(1) show ?thesis unfolding lease_ok_def same_place_def by metis
  qed
  ultimately show ?thesis using assms(3) unfolding lease_ok_def by blast
qed

lemma lease_ok_put:
  assumes "lease_ok db" "map_of (leases db) k = Some l" "same_place l l'"
  shows "lease_ok (put_lease k l' db)"
proof (rule lease_ok_cong [OF assms(1)])
  fix k2 l2
  assume "map_of (leases (put_lease k l' db)) k2 = Some l2"
  then show "\<exists>l. map_of (leases db) k2 = Some l \<and> same_place l l2"
    using assms(2,3) by (cases "k2 = k") auto
qed (use assms in \<open>simp_all add: lease_ok_distinct\<close>)

lemma lease_ok_map:
  assumes "lease_ok db" "\<And>l. same_place l (f l)"
  shows "lease_ok (map_leases f db)"
proof -
  have m: "map_of (leases (map_leases f db)) k = map_option f (map_of (leases db) k)" for k
    by (simp add: map_leases_def map_of_map)
  have d: "map fst (leases (map_leases f db)) = map fst (leases db)" by (simp add: map_leases_def comp_def case_prod_unfold)
  show ?thesis
  proof (rule lease_ok_cong [OF assms(1)])
    show "distinct (map fst (leases (map_leases f db)))" using lease_ok_distinct [OF assms(1)] unfolding d .
    show "addr_index (map_leases f db) = addr_index db" by (simp add: map_leases_def)
  qed (use assms(2) in \<open>auto simp: m\<close>)
qed

lemma lease_ok_sel:
  assumes "leases db' = leases db" "addr_index db' = addr_index db"
  shows "lease_ok db' \<longleftrightarrow> lease_ok db"
  by (simp add: lease_ok_def indexed_at_def assms)

lemma lease_ok_dirty [simp]:
  "lease_ok (mark_dirty db) \<longleftrightarrow> lease_ok db" "lease_ok (db\<lparr>file_dirty := b\<rparr>) \<longleftrightarrow> lease_ok db"
  "lease_ok (db\<lparr>dns_dirty := b\<rparr>) \<longleftrightarrow> lease_ok db" "lease_ok (db\<lparr>old_leases := ls\<rparr>) \<longleftrightarrow> lease_ok db"
  "lease_ok (db\<lparr>max_leases := n\<rparr>) \<longleftrightarrow> lease_ok db"
  by (rule lease_ok_sel; simp)+

lemma get_mut_by_addr_Some:
  "get_mut_by_addr db a = Some (k, l) \<longleftrightarrow> addr_index db a = Some k \<and> map_of (leases db) k = Some l"
  by (auto simp: get_mut_by_addr_def split: option.splits)

lemma lease_ok_change:
  assumes "lease_ok db" "\<And>l. same_place l (fst (f l))"
  shows "lease_ok (change_lease a f db)"
proof (cases "get_mut_by_addr db a")
  case None
  with assms(1) show ?thesis by (simp add: change_lease_def)
next
  case (Some kl)
  obtain k l where kl: "kl = (k, l)" by (cases kl)
  obtain l1 d where f: "f l = (l1, d)" by (cases "f l")
  from Some kl have "map_of (leases db) k = Some l" by (simp add: get_mut_by_addr_Some)
  moreover have "same_place l l1" using assms(2) [of l] f by simp
  ultimately show ?thesis using Some kl f lease_ok_put [OF assms(1)] by (simp add: change_lease_def)
qed

section \<open>Entries that go\<close>

lemma map_of_filter_key:
  assumes "distinct (map fst m)"
  shows "map_of (filter (\<lambda>(k, v). P v) m) k = Some v \<longleftrightarrow> map_of m k = Some v \<and> P v"
proof -
  have "distinct (map fst (filter (\<lambda>(k, v). P v) m))" by (rule distinct_map_filter [OF assms])
  with assms show ?thesis by auto
qed

lemma fold_unindex:
  "addr_index (fold (\<lambda>l. unindex_addr (l_addr l)) ls db) a =
     (if a \<noteq> 0 \<and> a \<in> l_addr ` set ls then None else addr_index db a)"
  by (induction ls arbitrary: db) (auto simp: unindex_addr_index)

text \<open>Leases are taken out together with the index entries of their addresses.\<close>

lemma lease_ok_take_out:
  assumes ok: "lease_ok db" and d: "distinct (map fst m)"
    and m: "\<And>k l. map_of m k = Some l \<longleftrightarrow> map_of (leases db) k = Some l \<and> keep l"
    and i: "\<And>a. i a = (if a \<noteq> 0 \<and> (\<exists>k l. map_of (leases db) k = Some l \<and> \<not> keep l \<and> l_addr l = a) then None else addr_index db a)"
  shows "lease_ok (db\<lparr>leases := m, addr_index := i\<rparr>)"
proof -
  have "(i a = Some k) \<longleftrightarrow> a \<noteq> 0 \<and> (\<exists>l. map_of m k = Some l \<and> l_addr l = a)" for a k
  proof (cases "a \<noteq> 0 \<and> (\<exists>k l. map_of (leases db) k = Some l \<and> \<not> keep l \<and> l_addr l = a)")
    case True
    then obtain k' l' where k': "map_of (leases db) k' = Some l'" "\<not> keep l'" "l_addr l' = a" "a \<noteq> 0" by blast
    have "\<not> (map_of m k = Some l \<and> l_addr l = a)" for l
    proof
      assume "map_of m k = Some l \<and> l_addr l = a"
      with m have "map_of (leases db) k = Some l" "keep l" "l_addr l = a" by auto
      moreover have "indexed_at db a" using ok by (simp add: lease_ok_def)
      ultimately show False using indexed_unique [of db a k l k' l'] k' by simp
    qed
    with True i [of a] show ?thesis by auto
  next
    case False
    then have "i a = addr_index db a" using i [of a] by auto
    with lease_ok_index [OF ok, of a k] False show ?thesis by (auto simp: m)
  qed
  moreover have "l_addr l = 0" if "map_of m k = Some l" "is_v6 l" for k l
    using ok that m unfolding lease_ok_def by metis
  ultimately show ?thesis using d by (intro lease_okI) simp_all
qed

lemma lease_ok_delete_v6:
  assumes "lease_ok db" "map_of (leases db) k = Some l" "l_addr l = 0"
  shows "lease_ok (db\<lparr>leases := AList.delete k (leases db)\<rparr>)"
proof -
  have "distinct (map fst (AList.delete k (leases db)))" using assms(1) by (simp add: distinct_delete lease_ok_distinct)
  moreover have "(addr_index db a = Some k') \<longleftrightarrow> a \<noteq> 0 \<and> (\<exists>l. map_of (AList.delete k (leases db)) k' = Some l \<and> l_addr l = a)" for a k'
    using lease_ok_index [OF assms(1), of a k'] assms(2,3) by (auto simp: delete_conv')
  moreover have "l_addr l' = 0" if "map_of (AList.delete k (leases db)) k' = Some l'" "is_v6 l'" for k' l'
    using assms(1) that unfolding lease_ok_def by (metis (no_types, lifting) delete_conv' fun_upd_apply option.distinct(1))
  ultimately show ?thesis by (intro lease_okI) simp_all
qed

section \<open>Operations\<close>

lemma lease_ok_insert:
  assumes "lease_ok db" "addr_index db (l_addr l) = None \<or> addr_index db (l_addr l) = Some (lease_key l)"
    and "is_v6 l \<Longrightarrow> l_addr l = 0"
  shows "lease_ok (lease_insert l db)"
  unfolding lease_insert_def by (rule lease_ok_insert_raw [OF assms])

lemma lease_ok_allocate_v4:
  assumes "lease_ok db" "find_by_addr db a = None"
  shows "lease_ok (snd (allocate_v4 a db))"
proof -
  have "addr_index db a = None" using assms by (simp add: find_by_addr_None)
  then have "lease_ok (insert_raw k (default_lease\<lparr>l_flags := LEASE_NEW, l_addr := a\<rparr>) db)" for k
    by (intro lease_ok_insert_raw [OF assms(1)]) (simp_all add: is_v6_def lease_flag_masks)
  then show ?thesis using assms(1) by (simp add: allocate_v4_def Let_def)
qed

lemma lease_ok_simple:
  assumes "lease_ok db"
  shows "lease_ok (set_expires now a d db)" "lease_ok (set_interface a i db)" "lease_ok (set_agent_id a ag db)"
    "lease_ok (set_vendorclass a v db)" "lease_ok (rerun_scripts db)" "lease_ok (calc_fqdns domain db)"
    "lease_ok (reset_v6_used db)" "lease_ok (take_name a db)"
proof -
  show "lease_ok (set_expires now a d db)"
    unfolding set_expires_def Let_def by (rule lease_ok_change [OF assms]) (simp add: lease_flag_masks)
  show "lease_ok (set_interface a i db)" unfolding set_interface_def by (rule lease_ok_change [OF assms]) simp
  show "lease_ok (set_agent_id a ag db)"
    unfolding set_agent_id_def by (rule lease_ok_change [OF assms]) (simp add: lease_flag_masks)
  show "lease_ok (set_vendorclass a v db)"
    unfolding set_vendorclass_def by (rule lease_ok_change [OF assms]) (simp add: lease_flag_masks)
  show "lease_ok (rerun_scripts db)"
    unfolding rerun_scripts_def lease_ok_dirty by (rule lease_ok_map [OF assms]) (simp add: lease_flag_masks)
  show "lease_ok (calc_fqdns domain db)"
    unfolding calc_fqdns_def by (rule lease_ok_map [OF assms]) (simp split: option.split)
  show "lease_ok (reset_v6_used db)"
    unfolding reset_v6_used_def by (rule lease_ok_map [OF assms]) (simp add: same_place_clear)
  show "lease_ok (take_name a db)"
    unfolding take_name_def by (rule lease_ok_change [OF assms]) (simp add: lease_flag_masks)
qed

lemma lease_ok_scripts:
  assumes "lease_ok db"
  shows "lease_ok (snd (run_lease_scripts ord c ro rn db))"
proof -
  have "lease_ok (map_leases (\<lambda>l. l\<lparr>l_old_hostname := None\<rparr>) (db\<lparr>old_leases := []\<rparr>))"
    by (rule lease_ok_map) (simp_all add: assms)
  then have "lease_ok (map_leases (after_calls ro rn) (map_leases (\<lambda>l. l\<lparr>l_old_hostname := None\<rparr>) (db\<lparr>old_leases := []\<rparr>)))"
    by (rule lease_ok_map) (simp add: after_calls_def same_place_clear)
  then show ?thesis by (simp add: run_lease_scripts_def Let_def)
qed

lemma lease_ok_fold_take_name: "lease_ok db \<Longrightarrow> lease_ok (fold take_name as db)"
  by (induction as arbitrary: db) (simp_all add: lease_ok_simple(8))

lemma lease_ok_set_hostname:
  assumes "lease_ok db"
  shows "lease_ok (set_hostname ord a name auth db)"
proof -
  define as where "as = (case name of None \<Rightarrow> []
    | Some n \<Rightarrow> map l_addr (filter (\<lambda>l. l_addr l \<noteq> a \<and> has_name n l) (lease_values ord db)))"
  have ok1: "lease_ok (fold take_name as db)" by (rule lease_ok_fold_take_name [OF assms])
  show ?thesis
  proof (cases "get_mut_by_addr (fold take_name as db) a")
    case None
    with ok1 show ?thesis by (simp add: set_hostname_def as_def Let_def)
  next
    case (Some kl)
    obtain k l where kl: "kl = (k, l)" by (cases kl)
    from Some kl have m: "map_of (leases (fold take_name as db)) k = Some l" by (simp add: get_mut_by_addr_Some)
    have "lease_ok (put_lease k l' (if b then mark_dirty (fold take_name as db) else fold take_name as db))"
      if "same_place l l'" for l' b
      using lease_ok_put [of "mark_dirty (fold take_name as db)" k l l'] lease_ok_put [OF ok1 m that] ok1 m that by simp
    then show ?thesis using Some kl
      by (simp add: set_hostname_def as_def [symmetric] Let_def lease_flag_masks same_place_clear)
  qed
qed

lemma lease_ok_update_from_configs:
  assumes "lease_ok db"
  shows "lease_ok (update_from_configs ord configs db)"
proof -
  have "lease_ok (fold (\<lambda>(addr, h). set_hostname ord addr (Some h) True) rs db)" for rs
    using assms by (induction rs arbitrary: db) (auto simp: lease_ok_set_hostname)
  then show ?thesis by (simp add: update_from_configs_def)
qed

lemma lease_ok_remove:
  assumes "lease_ok db"
  shows "lease_ok (snd (remove_by_addr a db))"
proof (cases "addr_index db a")
  case None
  with assms show ?thesis by (simp add: remove_by_addr_def)
next
  case (Some k)
  then obtain l where l: "map_of (leases db) k = Some l" "l_addr l = a" "a \<noteq> 0"
    using lease_ok_index [OF assms, of a k] by auto
  have ix: "indexed_at db a" using assms by (simp add: lease_ok_def)
  have "lease_ok (db\<lparr>leases := AList.delete k (leases db), addr_index := (addr_index db)(a := None)\<rparr>)"
  proof (rule lease_ok_take_out [OF assms, where keep = "\<lambda>l. l_addr l \<noteq> a"])
    show "distinct (map fst (AList.delete k (leases db)))" using assms by (simp add: distinct_delete lease_ok_distinct)
    show "map_of (AList.delete k (leases db)) k' = Some l' \<longleftrightarrow> map_of (leases db) k' = Some l' \<and> l_addr l' \<noteq> a" for k' l'
      using l indexed_unique [OF ix l(3,1,2), of k' l'] by (cases "k' = k") (auto simp: delete_conv')
  qed (use l in auto)
  moreover have "leases (snd (remove_by_addr a db)) = AList.delete k (leases db)"
    "addr_index (snd (remove_by_addr a db)) = (addr_index db)(a := None)"
    using Some l by (simp_all add: remove_by_addr_def Let_def unindex_addr_def mark_dirty_def)
  ultimately show ?thesis
    by (subst lease_ok_sel [of _ "db\<lparr>leases := AList.delete k (leases db), addr_index := (addr_index db)(a := None)\<rparr>"]) simp_all
qed

lemma put_replaces: "map_of m k = Some l \<Longrightarrow> map_of (AList.delete k (AList.update k l' m)) = (map_of m)(k := None)"
  by (simp add: delete_conv' update_conv')

lemma lease_ok_set_hwaddr:
  assumes "lease_ok db"
  shows "lease_ok (snd (set_hwaddr a hw t clid force db))"
proof (cases "get_mut_by_addr db a")
  case None
  with assms show ?thesis by (simp add: set_hwaddr_def)
next
  case (Some kl)
  obtain k l where kl: "kl = (k, l)" by (cases kl)
  with Some have i: "addr_index db a = Some k" "map_of (leases db) k = Some l" by (simp_all add: get_mut_by_addr_Some)
  have a: "a \<noteq> 0" "l_addr l = a" using lease_ok_index [OF assms, of a k] i by auto
  define l1 where "l1 = set_flags LEASE_HAVE_HWADDR l"
  define hb where "hb = take DHCP_CHADDR_MAX hw"
  define l2 where "l2 = (if hw_changed hb t l1 then write_hwaddr hb t l1 else l1)"
  define db1 where "db1 = (put_lease k l2 db)\<lparr>file_dirty := file_dirty db \<or> hw_changed hb t l1\<rparr>"
  have s2: "same_place l l2" by (simp add: l2_def l1_def write_hwaddr_def lease_flag_masks)
  have ok1: "lease_ok db1" using lease_ok_put [OF assms i(2) s2] by (simp add: db1_def)
  have whole: "set_hwaddr a hw t clid force db = (case clid of None \<Rightarrow> (force, db1)
      | Some c \<Rightarrow> if l_clid l2 = Some c then (force, db1)
                 else let l3 = set_flags LEASE_AUX_CHANGED (l2\<lparr>l_clid := Some c\<rparr>)
                      in (True, insert_raw (lease_key l3) l3 (db1\<lparr>leases := AList.delete k (leases db1), file_dirty := True\<rparr>)))"
    unfolding set_hwaddr_def Some kl option.case prod.case Let_def db1_def l2_def l1_def hb_def
    by (simp only: a(2) simp_thms if_False not_True_eq_False)
  show ?thesis
  proof (cases "clid = None \<or> l_clid l2 = clid")
    case True
    then have "snd (set_hwaddr a hw t clid force db) = db1"
      unfolding whole by (auto split: option.split)
    with ok1 show ?thesis by simp
  next
    case False
    then obtain c where c: "clid = Some c" "l_clid l2 \<noteq> Some c" by auto
    define l3 where "l3 = set_flags LEASE_AUX_CHANGED (l2\<lparr>l_clid := Some c\<rparr>)"
    define db2 where "db2 = db1\<lparr>leases := AList.delete k (leases db1), file_dirty := True\<rparr>"
    have eq: "snd (set_hwaddr a hw t clid force db) = insert_raw (lease_key l3) l3 db2"
      unfolding whole using c by (simp add: Let_def l3_def db2_def)
    have s3: "same_place l l3" using s2 by (simp add: l3_def lease_flag_masks)
    have m2: "map_of (leases db2) = (map_of (leases db))(k := None)"
      by (simp add: db2_def db1_def put_lease_def put_replaces [OF i(2)])
    have i2: "addr_index db2 = addr_index db" by (simp add: db2_def db1_def)
    have ad: "l_addr l3 = a" using s3 a by (simp add: same_place_def)
    have ix: "indexed_at db b" for b using assms by (simp add: lease_ok_def)
    have "indexed_at (insert_raw (lease_key l3) l3 db2) b" for b
    proof (rule insert_raw_indexed)
      show "indexed_at db2 b" if "b \<noteq> l_addr l3" for b
        using ix [of b] that i(2) a ad unfolding indexed_at_def i2 m2 by (auto simp: indexed_at_def)
      show "k' = lease_key l3" if "map_of (leases db2) k' = Some l'" "l_addr l' = l_addr l3" for k' l'
        using that a ad indexed_unique [OF ix a(1) i(2) a(2), of k' l'] unfolding m2 by (cases "k' = k") auto
      show "addr_index db2 0 = None" using lease_ok_zero [OF assms] by (simp add: i2)
    qed
    moreover have "distinct (map fst (leases (insert_raw (lease_key l3) l3 db2)))"
      using lease_ok_distinct [OF ok1] by (simp add: db2_def distinct_delete)
    moreover have "l_addr l' = 0" if "map_of (leases (insert_raw (lease_key l3) l3 db2)) k' = Some l'" "is_v6 l'" for k' l'
    proof (cases "k' = lease_key l3")
      case True
      with that s3 assms i(2) show ?thesis by (simp add: lease_ok_def same_place_def)
    next
      case False
      with that assms show ?thesis unfolding lease_ok_def by (simp add: m2 split: if_splits)
    qed
    ultimately show ?thesis unfolding eq lease_ok_def by blast
  qed
qed

lemma lease_ok_prune:
  assumes "lease_ok db" "hash_order ord" "lease_prune ord n db = Done (ls, db')"
  shows "lease_ok db'"
proof -
  from assms(3) obtain now where now: "ls = filter (lease_expired now) (lease_values ord db)"
    "db' = (fold (\<lambda>l. unindex_addr (l_addr l)) ls db)
              \<lparr>leases := filter (\<lambda>(k, l). \<not> lease_expired now l) (leases db), old_leases := old_leases db @ ls\<rparr>"
    by (cases "epoch_plus n") (auto simp: lease_prune_def Let_def)
  have d: "distinct (map fst (leases db))" by (rule lease_ok_distinct [OF assms(1)])
  have v: "set ls = {l. \<exists>k. map_of (leases db) k = Some l \<and> lease_expired now l}"
    using hash_order.values_set [OF assms(2) d] d by (force simp: now(1))
  have "lease_ok (db\<lparr>leases := filter (\<lambda>(k, l). \<not> lease_expired now l) (leases db),
      addr_index := \<lambda>a. if a \<noteq> 0 \<and> a \<in> l_addr ` set ls then None else addr_index db a\<rparr>)"
    by (rule lease_ok_take_out [OF assms(1), where keep = "\<lambda>l. \<not> lease_expired now l"])
       (auto simp: map_of_filter_key [OF d] distinct_map_filter [OF d] v)
  then show ?thesis
    by (subst lease_ok_sel [of _ "db\<lparr>leases := filter (\<lambda>(k, l). \<not> lease_expired now l) (leases db),
      addr_index := \<lambda>a. if a \<noteq> 0 \<and> a \<in> l_addr ` set ls then None else addr_index db a\<rparr>"])
       (simp_all add: now(2) fold_unindex fun_eq_iff)
qed

lemma found_entry:
  assumes "hash_order ord" "distinct (map fst m)" "find P (hm_iter ord m) = Some (k, l)"
  shows "map_of m k = Some l" "P (k, l)"
  using find_SomeD [OF assms(3)] hash_order.hm_iter_set [OF assms(1,2)] assms(2) by auto

lemma lease_ok_v6:
  assumes "lease_ok db"
  shows "lease_ok (snd (allocate_v6 a6 ty db))"
    and "hash_order ord \<Longrightarrow> lease_ok (snd (bind_v6 ord a6 clid iaid ty e db))"
    and "hash_order ord \<Longrightarrow> lease_ok (snd (remove_v6_by_clid_iaid_addr ord clid iaid a6 db))"
proof -
  have ins: "lease_ok (insert_raw k l db')" if "lease_ok db'" "l_addr l = 0" for k l db'
    by (rule lease_ok_insert_raw [OF that(1)]) (simp_all add: that lease_ok_zero)
  have zero: "l_addr default_lease = 0" by (simp add: default_lease_def)
  show "lease_ok (snd (allocate_v6 a6 ty db))" using assms by (simp add: allocate_v6_def Let_def ins zero)
  have del: "lease_ok (db\<lparr>leases := AList.delete k (leases db)\<rparr>) \<and> l_addr l = 0"
    if "hash_order ord" "find P (hm_iter ord (leases db)) = Some (k, l)" "\<And>k l. P (k, l) \<Longrightarrow> is_v6 l" for P k l
  proof -
    note f = found_entry [OF that(1) lease_ok_distinct [OF assms] that(2)]
    then have "l_addr l = 0" using that(3) assms unfolding lease_ok_def by blast
    with lease_ok_delete_v6 [OF assms f(1)] show ?thesis by simp
  qed
  show "lease_ok (snd (bind_v6 ord a6 clid iaid ty e db))" if "hash_order ord"
  proof (cases "find (\<lambda>(k, l). is_v6 l \<and> l_addr6 l = a6) (hm_iter ord (leases db))")
    case None
    then show ?thesis using assms by (simp add: bind_v6_def Let_def ins zero)
  next
    case (Some kl)
    obtain k l where kl: "kl = (k, l)" by (cases kl)
    have d: "lease_ok (db\<lparr>leases := AList.delete k (leases db)\<rparr>) \<and> l_addr l = 0"
      by (rule del [OF that Some [unfolded kl]]) simp
    have "lease_ok (insert_raw k' (l\<lparr>l_clid := c, l_iaid := i, l_expires := x\<rparr>) (db\<lparr>leases := AList.delete k (leases db)\<rparr>))"
      for k' c i x
      using d by (intro ins) simp_all
    then show ?thesis by (simp add: bind_v6_def Let_def Some kl)
  qed
  show "lease_ok (snd (remove_v6_by_clid_iaid_addr ord clid iaid a6 db))" if "hash_order ord"
  proof (cases "find (\<lambda>(k, l). is_v6 l \<and> l_iaid l = iaid \<and> l_addr6 l = a6 \<and> l_clid l = Some clid) (hm_iter ord (leases db))")
    case None
    then show ?thesis using assms by (simp add: remove_v6_by_clid_iaid_addr_def)
  next
    case (Some kl)
    obtain k l where kl: "kl = (k, l)" by (cases kl)
    have "lease_ok (db\<lparr>leases := AList.delete k (leases db)\<rparr>) \<and> l_addr l = 0"
      by (rule del [OF that Some [unfolded kl]]) simp
    then have "lease_ok ((db\<lparr>leases := AList.delete k (leases db)\<rparr>)\<lparr>file_dirty := True\<rparr>)" unfolding lease_ok_dirty by blast
    then show ?thesis by (simp add: remove_v6_by_clid_iaid_addr_def Some kl)
  qed
qed

section \<open>Host names\<close>

lemma hostname_isequal_iff: "hostname_isequal a b \<longleftrightarrow> length a = length b \<and> name_key a = name_key b"
  by (auto simp: hostname_isequal_def hostname_order_key)

text \<open>A named lease has an IPv4 address, and no two leases have the same name.\<close>

definition names_ok :: "lease_db \<Rightarrow> bool" where
  "names_ok db \<longleftrightarrow>
     (\<forall>k l h. map_of (leases db) k = Some l \<and> l_hostname l = Some h \<longrightarrow> l_addr l \<noteq> 0)
     \<and> (\<forall>k l h k' l' h'. map_of (leases db) k = Some l \<and> l_hostname l = Some h
          \<and> map_of (leases db) k' = Some l' \<and> l_hostname l' = Some h' \<and> hostname_isequal h h' \<longrightarrow> k = k')"

text \<open>The names of a later state come from the earlier one, each from a lease of its own.\<close>

lemma names_ok_from:
  assumes "names_ok db"
    and "\<And>k l' h. map_of (leases db') k = Some l' \<Longrightarrow> l_hostname l' = Some h
           \<Longrightarrow> \<exists>l. map_of (leases db) (src k) = Some l \<and> l_hostname l = Some h \<and> l_addr l' = l_addr l"
    and "\<And>k l k' l'. map_of (leases db') k = Some l \<Longrightarrow> map_of (leases db') k' = Some l' \<Longrightarrow> src k = src k' \<Longrightarrow> k = k'"
  shows "names_ok db'"
proof -
  have "l_addr l \<noteq> 0" if "map_of (leases db') k = Some l" "l_hostname l = Some h" for k l h
    using assms(2) [OF that] assms(1) unfolding names_ok_def by metis
  moreover have "k = k'" if "map_of (leases db') k = Some l" "l_hostname l = Some h"
    "map_of (leases db') k' = Some l'" "l_hostname l' = Some h'" "hostname_isequal h h'" for k l h k' l' h'
  proof -
    from assms(2) [OF that(1,2)] assms(2) [OF that(3,4)] that(5) assms(1) have "src k = src k'"
      unfolding names_ok_def by metis
    with assms(3) that(1,3) show ?thesis by blast
  qed
  ultimately show ?thesis unfolding names_ok_def by blast
qed

lemma names_ok_keep:
  assumes "names_ok db"
    and "\<And>k l'. map_of (leases db') k = Some l' \<Longrightarrow> l_hostname l' = None
           \<or> (\<exists>l. map_of (leases db) k = Some l \<and> l_hostname l' = l_hostname l \<and> l_addr l' = l_addr l)"
  shows "names_ok db'"
proof (rule names_ok_from [OF assms(1), where src = "\<lambda>k. k"])
  show "\<exists>l. map_of (leases db) k = Some l \<and> l_hostname l = Some h \<and> l_addr l' = l_addr l"
    if "map_of (leases db') k = Some l'" "l_hostname l' = Some h" for k l' h
    using assms(2) [OF that(1)] that(2) by fastforce
qed

lemma names_ok_put:
  assumes "names_ok db" "map_of (leases db) k = Some l" "l_hostname l' = None \<or> l_hostname l' = l_hostname l" "l_addr l' = l_addr l"
  shows "names_ok (put_lease k l' db)"
proof (rule names_ok_keep [OF assms(1)])
  show "l_hostname l2 = None \<or> (\<exists>l. map_of (leases db) k2 = Some l \<and> l_hostname l2 = l_hostname l \<and> l_addr l2 = l_addr l)"
    if "map_of (leases (put_lease k l' db)) k2 = Some l2" for k2 l2
    using that assms(2-4) by (cases "k2 = k") auto
qed

lemma names_ok_sel: "leases db' = leases db \<Longrightarrow> names_ok db' \<longleftrightarrow> names_ok db"
  by (simp add: names_ok_def)

lemma names_ok_dirty [simp]:
  "names_ok (mark_dirty db) \<longleftrightarrow> names_ok db" "names_ok (db\<lparr>file_dirty := b\<rparr>) \<longleftrightarrow> names_ok db"
  "names_ok (db\<lparr>dns_dirty := b\<rparr>) \<longleftrightarrow> names_ok db" "names_ok (db\<lparr>old_leases := ls\<rparr>) \<longleftrightarrow> names_ok db"
  "names_ok (db\<lparr>max_leases := n\<rparr>) \<longleftrightarrow> names_ok db" "names_ok (db\<lparr>addr_index := i\<rparr>) \<longleftrightarrow> names_ok db"
  by (rule names_ok_sel; simp)+

lemma names_ok_change:
  assumes "names_ok db"
    and "\<And>l. (l_hostname (fst (f l)) = None \<or> l_hostname (fst (f l)) = l_hostname l) \<and> l_addr (fst (f l)) = l_addr l"
  shows "names_ok (change_lease a f db)"
proof (cases "get_mut_by_addr db a")
  case None
  with assms(1) show ?thesis by (simp add: change_lease_def)
next
  case (Some kl)
  obtain k l where kl: "kl = (k, l)" by (cases kl)
  obtain l1 d where f: "f l = (l1, d)" by (cases "f l")
  from Some kl have "map_of (leases db) k = Some l" by (simp add: get_mut_by_addr_Some)
  with names_ok_put [OF assms(1), of k l l1] assms(2) [of l] f Some kl show ?thesis by (simp add: change_lease_def)
qed

lemma names_ok_map:
  assumes "names_ok db" "\<And>l. l_hostname (f l) = l_hostname l \<and> l_addr (f l) = l_addr l"
  shows "names_ok (map_leases f db)"
proof (rule names_ok_keep [OF assms(1)])
  show "l_hostname l2 = None \<or> (\<exists>l. map_of (leases db) k = Some l \<and> l_hostname l2 = l_hostname l \<and> l_addr l2 = l_addr l)"
    if "map_of (leases (map_leases f db)) k = Some l2" for k l2
    using that assms(2) by (auto simp: map_leases_def map_of_map)
qed

lemma names_ok_submap:
  assumes "names_ok db" "\<And>k l. map_of (leases db') k = Some l \<Longrightarrow> map_of (leases db) k = Some l"
  shows "names_ok db'"
  by (rule names_ok_keep [OF assms(1)]) (use assms(2) in blast)

lemma names_ok_insert_unnamed:
  assumes "names_ok db" "l_hostname l = None"
  shows "names_ok (insert_raw k l db)"
  by (rule names_ok_keep [OF assms(1)]) (auto simp: assms(2) split: if_splits)

text \<open>\<open>set_hwaddr\<close> rewrites one lease, possibly under another key, and keeps its name and address.\<close>

lemma set_hwaddr_map:
  "snd (set_hwaddr a hw t clid force db) = db
   \<or> (\<exists>k l k' l'. map_of (leases db) k = Some l \<and> l_hostname l' = l_hostname l \<and> l_addr l' = l_addr l
        \<and> map_of (leases (snd (set_hwaddr a hw t clid force db))) = (map_of (leases db))(k := None, k' \<mapsto> l'))"
proof (cases "get_mut_by_addr db a")
  case (Some kl)
  obtain k l where kl: "kl = (k, l)" by (cases kl)
  with Some have m: "map_of (leases db) k = Some l" by (simp add: get_mut_by_addr_Some)
  let ?hb = "take DHCP_CHADDR_MAX hw"
  let ?l1 = "set_flags LEASE_HAVE_HWADDR l"
  let ?l2 = "if hw_changed ?hb t ?l1 then write_hwaddr ?hb t ?l1 else ?l1"
  let ?db1 = "(put_lease k ?l2 db)\<lparr>file_dirty := file_dirty db \<or> hw_changed ?hb t ?l1\<rparr>"
  let ?l3 = "\<lambda>c. set_flags LEASE_AUX_CHANGED (?l2\<lparr>l_clid := Some c\<rparr>)"
  have n2: "l_hostname ?l2 = l_hostname l" "l_addr ?l2 = l_addr l" by (simp_all add: write_hwaddr_def set_flags_def)
  have n3: "l_hostname (?l3 c) = l_hostname l" "l_addr (?l3 c) = l_addr l" for c
    by (simp_all add: write_hwaddr_def set_flags_def)
  show ?thesis
  proof (cases "l_addr l = a \<and> (clid = None \<or> l_clid ?l2 = clid)")
    case True
    then have "snd (set_hwaddr a hw t clid force db) = ?db1"
      unfolding set_hwaddr_def Some kl option.case prod.case Let_def by (auto split: option.split)
    then have "map_of (leases (snd (set_hwaddr a hw t clid force db))) = (map_of (leases db))(k := None, k \<mapsto> ?l2)" by simp
    with m n2 show ?thesis by blast
  next
    case False
    show ?thesis
    proof (cases "l_addr l = a")
      case True
      with False obtain c where c: "clid = Some c" "l_clid ?l2 \<noteq> Some c" by auto
      then have "snd (set_hwaddr a hw t clid force db)
          = insert_raw (lease_key (?l3 c)) (?l3 c) (?db1\<lparr>leases := AList.delete k (leases ?db1), file_dirty := True\<rparr>)"
        unfolding set_hwaddr_def Some kl option.case prod.case Let_def using True by simp
      then have "map_of (leases (snd (set_hwaddr a hw t clid force db))) = (map_of (leases db))(k := None, lease_key (?l3 c) \<mapsto> ?l3 c)"
        by (simp only: insert_raw_sel) (simp add: put_lease_def put_replaces [OF m])
      with m n3 [of c] show ?thesis by blast
    next
      case False
      then show ?thesis unfolding set_hwaddr_def Some kl option.case prod.case by simp
    qed
  qed
qed (simp add: set_hwaddr_def)

lemma names_ok_set_hwaddr:
  assumes "names_ok db"
  shows "names_ok (snd (set_hwaddr a hw t clid force db))"
  using set_hwaddr_map [of a hw t clid force db]
proof
  assume "\<exists>k l k' l'. map_of (leases db) k = Some l \<and> l_hostname l' = l_hostname l \<and> l_addr l' = l_addr l
        \<and> map_of (leases (snd (set_hwaddr a hw t clid force db))) = (map_of (leases db))(k := None, k' \<mapsto> l')"
  then obtain k l k' l' where kl: "map_of (leases db) k = Some l" "l_hostname l' = l_hostname l" "l_addr l' = l_addr l"
    and m: "map_of (leases (snd (set_hwaddr a hw t clid force db))) = (map_of (leases db))(k := None, k' \<mapsto> l')" by blast
  show ?thesis
  proof (rule names_ok_from [OF assms, where src = "\<lambda>x. if x = k' then k else x"])
    show "\<exists>l. map_of (leases db) (if x = k' then k else x) = Some l \<and> l_hostname l = Some h \<and> l_addr lx = l_addr l"
      if "map_of (leases (snd (set_hwaddr a hw t clid force db))) x = Some lx" "l_hostname lx = Some h" for x lx h
      using that kl unfolding m by (cases "x = k'") (auto split: if_splits)
    show "x = y" if "map_of (leases (snd (set_hwaddr a hw t clid force db))) x = Some lx"
      "map_of (leases (snd (set_hwaddr a hw t clid force db))) y = Some ly"
      "(if x = k' then k else x) = (if y = k' then k else y)" for x lx y ly
      using that unfolding m by (auto split: if_splits)
  qed
qed (simp add: assms)

text \<open>Names are only taken away from the leases of the given addresses, and from all of them.\<close>

lemma take_name_keep:
  assumes "map_of (leases (take_name b db)) k = Some l'"
  shows "\<exists>l. map_of (leases db) k = Some l \<and> l_addr l' = l_addr l \<and> (l_hostname l' = None \<or> l_hostname l' = l_hostname l)"
proof (cases "get_mut_by_addr db b")
  case None
  with assms show ?thesis by (simp add: take_name_def change_lease_def)
next
  case (Some kl)
  obtain k0 l0 where kl: "kl = (k0, l0)" by (cases kl)
  with Some have "map_of (leases db) k0 = Some l0" by (simp add: get_mut_by_addr_Some)
  with assms show ?thesis
    unfolding take_name_def change_lease_def Some kl by (cases "k = k0") (auto simp: set_flags_def)
qed

lemma take_name_drop:
  assumes "lease_ok db" "map_of (leases (take_name b db)) k = Some l'" "l_addr l' = b" "b \<noteq> 0"
  shows "l_hostname l' = None"
proof -
  from take_name_keep [OF assms(2)] obtain l where l: "map_of (leases db) k = Some l" "l_addr l = b" using assms(3) by auto
  then have "addr_index db b = Some k" using lease_ok_index [OF assms(1), of b k] assms(4) by auto
  with l assms(2) show ?thesis by (auto simp: take_name_def change_lease_def get_mut_by_addr_def set_flags_def)
qed

lemma fold_take_name:
  assumes "lease_ok db" "map_of (leases (fold take_name as db)) k = Some l'"
  shows "\<exists>l. map_of (leases db) k = Some l \<and> l_addr l' = l_addr l \<and> (l_hostname l' = None \<or> l_hostname l' = l_hostname l)
    \<and> (l_addr l \<in> set as \<and> l_addr l \<noteq> 0 \<longrightarrow> l_hostname l' = None)"
  using assms
proof (induction as arbitrary: db)
  case (Cons b as)
  from Cons.IH [OF lease_ok_simple(8) [OF Cons.prems(1)], of b] Cons.prems(2)
  obtain l1 where l1: "map_of (leases (take_name b db)) k = Some l1" "l_addr l' = l_addr l1"
    "l_hostname l' = None \<or> l_hostname l' = l_hostname l1" "l_addr l1 \<in> set as \<and> l_addr l1 \<noteq> 0 \<longrightarrow> l_hostname l' = None" by auto
  from take_name_keep [OF l1(1)] obtain l where l: "map_of (leases db) k = Some l" "l_addr l1 = l_addr l"
    "l_hostname l1 = None \<or> l_hostname l1 = l_hostname l" by blast
  have "l_hostname l' = None" if "l_addr l = b" "b \<noteq> 0"
    using take_name_drop [OF Cons.prems(1) l1(1)] l(2) that l1(3) by auto
  with l l1 show ?case by auto
qed auto

lemma names_ok_fold_take_name:
  assumes "lease_ok db" "names_ok db"
  shows "names_ok (fold take_name as db)"
  by (rule names_ok_keep [OF assms(2)]) (use fold_take_name [OF assms(1)] in blast)

text \<open>What a lease is called after \<open>set_hostname\<close>: the new name, or an equal one it had before.\<close>

definition named_as :: "rstr option \<Rightarrow> rstr option \<Rightarrow> bool" where
  "named_as name h \<longleftrightarrow> (case (name, h) of (None, None) \<Rightarrow> True | (Some n, Some h') \<Rightarrow> hostname_isequal h' n | _ \<Rightarrow> False)"

lemma set_hostname_map:
  fixes ord :: "lkey list \<Rightarrow> lkey list" and db a name
  defines "as \<equiv> (case name of None \<Rightarrow> []
    | Some n \<Rightarrow> map l_addr (filter (\<lambda>l. l_addr l \<noteq> a \<and> has_name n l) (lease_values ord db)))"
  shows "(get_mut_by_addr (fold take_name as db) a = None \<and> set_hostname ord a name auth db = fold take_name as db)
   \<or> (\<exists>k l l'. get_mut_by_addr (fold take_name as db) a = Some (k, l) \<and> l_addr l' = l_addr l \<and> named_as name (l_hostname l')
        \<and> map_of (leases (set_hostname ord a name auth db)) = (map_of (leases (fold take_name as db)))(k \<mapsto> l'))"
proof (cases "get_mut_by_addr (fold take_name as db) a")
  case None
  then show ?thesis by (simp add: set_hostname_def as_def Let_def)
next
  case (Some kl)
  obtain k l where kl: "kl = (k, l)" by (cases kl)
  define l1 where "l1 = (if name_changed (l_hostname l) name
    then set_flags LEASE_CHANGED (l\<lparr>l_old_hostname := l_hostname l, l_hostname := name\<rparr>) else l)"
  define l2 where "l2 = (if auth then set_flags LEASE_AUTH_NAME l1 else clear_flags LEASE_AUTH_NAME l1)"
  have "l_addr l2 = l_addr l" "named_as name (l_hostname l2)"
    by (auto simp: l2_def l1_def set_flags_def clear_flags_def named_as_def name_changed_def hostname_isequal_iff
        split: option.splits)
  moreover have "map_of (leases (set_hostname ord a name auth db)) = (map_of (leases (fold take_name as db)))(k \<mapsto> l2)"
    unfolding set_hostname_def as_def [symmetric] Let_def Some kl option.case prod.case l1_def [symmetric] l2_def [symmetric]
    by simp
  ultimately show ?thesis using Some kl by blast
qed

lemma names_ok_set_hostname:
  assumes ok: "lease_ok db" and nm: "names_ok db" and ho: "hash_order ord"
  shows "names_ok (set_hostname ord a name auth db)"
proof -
  define as where "as = (case name of None \<Rightarrow> []
    | Some n \<Rightarrow> map l_addr (filter (\<lambda>l. l_addr l \<noteq> a \<and> has_name n l) (lease_values ord db)))"
  note nm1 = names_ok_fold_take_name [OF ok nm, of as] and ok1 = lease_ok_fold_take_name [OF ok, of as]
  from set_hostname_map [where ord = ord and db = db and a = a and name = name and auth = auth, folded as_def] show ?thesis
  proof
    assume "\<exists>k l l'. get_mut_by_addr (fold take_name as db) a = Some (k, l) \<and> l_addr l' = l_addr l \<and> named_as name (l_hostname l')
        \<and> map_of (leases (set_hostname ord a name auth db)) = (map_of (leases (fold take_name as db)))(k \<mapsto> l')"
    then obtain k l l' where g: "get_mut_by_addr (fold take_name as db) a = Some (k, l)" and l': "l_addr l' = l_addr l"
      and nn: "named_as name (l_hostname l')"
      and m: "map_of (leases (set_hostname ord a name auth db)) = (map_of (leases (fold take_name as db)))(k \<mapsto> l')" by blast
    have a: "a \<noteq> 0" "l_addr l = a" "map_of (leases (fold take_name as db)) k = Some l"
      using g lease_ok_index [OF ok1, of a k] by (auto simp: get_mut_by_addr_Some)
    have others: "\<not> hostname_isequal h n" if "map_of (leases (fold take_name as db)) k2 = Some l2" "l_hostname l2 = Some h"
      "k2 \<noteq> k" "name = Some n" for k2 l2 h n
    proof
      assume eq: "hostname_isequal h n"
      from fold_take_name [OF ok that(1)] that(2) obtain l0 where l0: "map_of (leases db) k2 = Some l0" "l_addr l2 = l_addr l0"
        "l_hostname l0 = Some h" "\<not> (l_addr l0 \<in> set as \<and> l_addr l0 \<noteq> 0)" by fastforce
      have nz: "l_addr l0 \<noteq> 0" using nm l0 unfolding names_ok_def by metis
      have "l_addr l0 \<noteq> a"
        using indexed_unique [of "fold take_name as db" a k l k2 l2] ok1 a that(1,3) l0(2) unfolding lease_ok_def by metis
      moreover have "l0 \<in> set (lease_values ord db)"
        using hash_order.values_set [OF ho lease_ok_distinct [OF ok]] l0(1) by (force dest: map_of_SomeD)
      ultimately have "l_addr l0 \<in> set as" using l0(3) eq that(4) by (auto simp: as_def has_name_def)
      with l0(4) nz show False by blast
    qed
    have "l_addr lx \<noteq> 0" if "map_of (leases (set_hostname ord a name auth db)) x = Some lx" "l_hostname lx = Some h" for x lx h
      using that nm1 l' a unfolding m names_ok_def by (cases "x = k") auto
    moreover have "x = y" if "map_of (leases (set_hostname ord a name auth db)) x = Some lx" "l_hostname lx = Some h"
      "map_of (leases (set_hostname ord a name auth db)) y = Some ly" "l_hostname ly = Some h'" "hostname_isequal h h'"
      for x lx h y ly h'
    proof (cases "x = k \<or> y = k")
      case True
      show ?thesis
      proof (rule ccontr)
        assume "x \<noteq> y"
        with True that nn others [of x lx h] others [of y ly h'] show False
          unfolding m by (auto simp: named_as_def hostname_isequal_iff split: option.splits)
      qed
    next
      case False
      with that nm1 show ?thesis unfolding m names_ok_def by simp
    qed
    ultimately show ?thesis unfolding names_ok_def by blast
  qed (simp add: nm1)
qed

section \<open>Reachable databases\<close>

text \<open>
  The databases that the DHCP servers build, starting from an empty one, with the operations of
  \<open>lease.rs\<close>. An address is allocated only when no lease has it, as \<open>record_lease\<close> does. The
  operation \<open>lease_insert\<close>, which stores a lease as it is given, is not among them: a lease file that
  was edited and the D-Bus method that adds a lease can store one address twice, as the lemma
  \<open>insert_breaks_index\<close> shows.
\<close>

inductive lease_reachable :: "(lkey list \<Rightarrow> lkey list) \<Rightarrow> lease_db \<Rightarrow> bool" for ord where
  fresh: "lease_reachable ord (lease_db_new\<lparr>max_leases := n\<rparr>)"
| allocated: "lease_reachable ord db \<Longrightarrow> find_by_addr db a = None \<Longrightarrow> lease_reachable ord (snd (allocate_v4 a db))"
| expiry_set: "lease_reachable ord db \<Longrightarrow> lease_reachable ord (set_expires now a d db)"
| hwaddr_set: "lease_reachable ord db \<Longrightarrow> lease_reachable ord (snd (set_hwaddr a hw t clid force db))"
| hostname_set: "lease_reachable ord db \<Longrightarrow> lease_reachable ord (set_hostname ord a name auth db)"
| configs_read: "lease_reachable ord db \<Longrightarrow> lease_reachable ord (update_from_configs ord configs db)"
| interface_set: "lease_reachable ord db \<Longrightarrow> lease_reachable ord (set_interface a i db)"
| agent_id_set: "lease_reachable ord db \<Longrightarrow> lease_reachable ord (set_agent_id a ag db)"
| vendorclass_set: "lease_reachable ord db \<Longrightarrow> lease_reachable ord (set_vendorclass a v db)"
| rerun: "lease_reachable ord db \<Longrightarrow> lease_reachable ord (rerun_scripts db)"
| scripts_run: "lease_reachable ord db \<Longrightarrow> lease_reachable ord (snd (run_lease_scripts ord c ro rn db))"
| fqdns_set: "lease_reachable ord db \<Longrightarrow> lease_reachable ord (calc_fqdns domain db)"
| removed: "lease_reachable ord db \<Longrightarrow> lease_reachable ord (snd (remove_by_addr a db))"
| pruned: "lease_reachable ord db \<Longrightarrow> lease_prune ord n db = Done (ls, db') \<Longrightarrow> lease_reachable ord db'"
| allocated_v6: "lease_reachable ord db \<Longrightarrow> lease_reachable ord (snd (allocate_v6 a6 ty db))"
| bound_v6: "lease_reachable ord db \<Longrightarrow> lease_reachable ord (snd (bind_v6 ord a6 clid iaid ty e db))"
| reset_v6: "lease_reachable ord db \<Longrightarrow> lease_reachable ord (reset_v6_used db)"
| removed_v6: "lease_reachable ord db \<Longrightarrow> lease_reachable ord (snd (remove_v6_by_clid_iaid_addr ord clid iaid a6 db))"

lemma names_ok_simple:
  assumes "names_ok db"
  shows "names_ok (set_expires now a d db)" "names_ok (set_interface a i db)" "names_ok (set_agent_id a ag db)"
    "names_ok (set_vendorclass a v db)" "names_ok (rerun_scripts db)" "names_ok (calc_fqdns domain db)"
    "names_ok (reset_v6_used db)" "names_ok (snd (run_lease_scripts ord c ro rn db))"
proof -
  note ch = names_ok_change [OF assms] and mp = names_ok_map [OF assms]
  show "names_ok (set_expires now a d db)" unfolding set_expires_def Let_def by (rule ch) (simp add: set_flags_def)
  show "names_ok (set_interface a i db)" unfolding set_interface_def by (rule ch) simp
  show "names_ok (set_agent_id a ag db)" unfolding set_agent_id_def by (rule ch) (simp add: set_flags_def)
  show "names_ok (set_vendorclass a v db)" unfolding set_vendorclass_def by (rule ch) (simp add: set_flags_def)
  show "names_ok (rerun_scripts db)" unfolding rerun_scripts_def names_ok_dirty by (rule mp) (simp add: set_flags_def)
  show "names_ok (calc_fqdns domain db)" unfolding calc_fqdns_def by (rule mp) (simp split: option.split)
  show "names_ok (reset_v6_used db)" unfolding reset_v6_used_def by (rule mp) (simp add: clear_flags_def)
  have "names_ok (map_leases (\<lambda>l. l\<lparr>l_old_hostname := None\<rparr>) (db\<lparr>old_leases := []\<rparr>))"
    by (rule names_ok_map) (simp_all add: assms)
  then have "names_ok (map_leases (after_calls ro rn) (map_leases (\<lambda>l. l\<lparr>l_old_hostname := None\<rparr>) (db\<lparr>old_leases := []\<rparr>)))"
    by (rule names_ok_map) (simp add: after_calls_def clear_flags_def)
  then show "names_ok (snd (run_lease_scripts ord c ro rn db))" by (simp add: run_lease_scripts_def Let_def)
qed

lemma names_ok_update_from_configs:
  assumes "lease_ok db" "names_ok db" "hash_order ord"
  shows "names_ok (update_from_configs ord configs db)"
proof -
  have "names_ok (fold (\<lambda>(addr, h). set_hostname ord addr (Some h) True) rs db)" for rs
    using assms(1,2) by (induction rs arbitrary: db) (auto simp: lease_ok_set_hostname names_ok_set_hostname [OF _ _ assms(3)])
  then show ?thesis by (simp add: update_from_configs_def)
qed

lemma names_ok_remove: "names_ok db \<Longrightarrow> names_ok (snd (remove_by_addr a db))"
proof (rule names_ok_submap)
  show "map_of (leases db) k = Some l" if "map_of (leases (snd (remove_by_addr a db))) k = Some l" for k l
    using that by (auto simp: remove_by_addr_def Let_def delete_conv' split: option.splits if_splits)
qed

lemma prune_leases:
  assumes "lease_prune ord n db = Done (ls, db')"
  obtains now where "epoch_plus n = Done now" "ls = filter (lease_expired now) (lease_values ord db)"
    "leases db' = filter (\<lambda>(k, l). \<not> lease_expired now l) (leases db)" "old_leases db' = old_leases db @ ls"
  using assms by (cases "epoch_plus n") (auto simp: lease_prune_def Let_def)

lemma names_ok_prune:
  assumes "lease_ok db" "names_ok db" "lease_prune ord n db = Done (ls, db')"
  shows "names_ok db'"
proof (rule names_ok_submap [OF assms(2)])
  from assms(3) obtain now where "leases db' = filter (\<lambda>(k, l). \<not> lease_expired now l) (leases db)" by (rule prune_leases)
  then show "map_of (leases db) k = Some l" if "map_of (leases db') k = Some l" for k l
    using that map_of_filter_key [OF lease_ok_distinct [OF assms(1)], of "\<lambda>l. \<not> lease_expired now l" k l] by simp
qed

lemma names_ok_delete: "names_ok db \<Longrightarrow> names_ok (db\<lparr>leases := AList.delete k (leases db)\<rparr>)"
  by (erule names_ok_submap) (simp add: delete_conv' split: if_splits)

lemma names_ok_v6:
  assumes "lease_ok db" "names_ok db"
  shows "names_ok (snd (allocate_v4 a db))" "names_ok (snd (allocate_v6 a6 ty db))"
    and "hash_order ord \<Longrightarrow> names_ok (snd (bind_v6 ord a6 clid iaid ty e db))"
    and "names_ok (snd (remove_v6_by_clid_iaid_addr ord clid iaid a6 db))"
proof -
  have un: "l_hostname default_lease = None" by (simp add: default_lease_def)
  show "names_ok (snd (allocate_v4 a db))" "names_ok (snd (allocate_v6 a6 ty db))"
    using assms(2) by (simp_all add: allocate_v4_def allocate_v6_def Let_def names_ok_insert_unnamed un)
  show "names_ok (snd (bind_v6 ord a6 clid iaid ty e db))" if "hash_order ord"
  proof (cases "find (\<lambda>(k, l). is_v6 l \<and> l_addr6 l = a6) (hm_iter ord (leases db))")
    case None
    then show ?thesis using assms(2) by (simp add: bind_v6_def Let_def names_ok_insert_unnamed un)
  next
    case (Some kl)
    obtain k l where kl: "kl = (k, l)" by (cases kl)
    note f = found_entry [OF that lease_ok_distinct [OF assms(1)] Some [unfolded kl]]
    have "l_addr l = 0" using f assms(1) unfolding lease_ok_def by auto
    then have "l_hostname l = None" using assms(2) f(1) unfolding names_ok_def by (cases "l_hostname l") auto
    then have "names_ok (insert_raw k' (l\<lparr>l_clid := c, l_iaid := i, l_expires := x\<rparr>) (db\<lparr>leases := AList.delete k (leases db)\<rparr>))"
      for k' c i x
      by (intro names_ok_insert_unnamed names_ok_delete assms(2)) simp
    then show ?thesis by (simp add: bind_v6_def Let_def Some kl)
  qed
  show "names_ok (snd (remove_v6_by_clid_iaid_addr ord clid iaid a6 db))"
  proof (rule names_ok_submap [OF assms(2)])
    show "map_of (leases db) k = Some l"
      if "map_of (leases (snd (remove_v6_by_clid_iaid_addr ord clid iaid a6 db))) k = Some l" for k l
      using that by (simp add: remove_v6_by_clid_iaid_addr_def delete_conv' split: option.splits prod.splits if_splits)
  qed
qed

lemma lease_reachable_ok:
  assumes "hash_order ord" "lease_reachable ord db"
  shows "lease_ok db \<and> names_ok db"
  using assms(2)
proof induction
  case (fresh n)
  show ?case by (simp add: names_ok_def lease_db_new_def lease_ok_def indexed_at_def)
next
  case (pruned db n ls db')
  then show ?case using lease_ok_prune [OF _ assms(1)] names_ok_prune by blast
qed (simp_all add: lease_ok_allocate_v4 names_ok_v6 lease_ok_simple names_ok_simple lease_ok_set_hwaddr names_ok_set_hwaddr
    lease_ok_set_hostname names_ok_set_hostname [OF _ _ assms(1)] lease_ok_update_from_configs
    names_ok_update_from_configs [OF _ _ assms(1)] lease_ok_scripts lease_ok_remove names_ok_remove lease_ok_v6 assms(1))

section \<open>Properties\<close>

lemma values_member:
  assumes "hash_order ord" "lease_ok db"
  shows "l \<in> set (lease_values ord db) \<longleftrightarrow> (\<exists>k. map_of (leases db) k = Some l)"
  using hash_order.values_set [OF assms(1) lease_ok_distinct [OF assms(2)]] lease_ok_distinct [OF assms(2)]
  by (force simp: map_of_eq_Some_iff)

text \<open>A database with two leases, built by the operations.\<close>

definition demo_leases :: lease_db where
  "demo_leases =
     set_hostname (\<lambda>ks. ks) 2 (Some [98]) True
       (snd (allocate_v4 2
         (set_expires 0 1 60 (snd (set_hwaddr 1 [1, 2] 1 (Some [7]) False (snd (allocate_v4 1 lease_db_new)))))))"

lemma demo_leases_reachable: "lease_reachable (\<lambda>ks. ks) demo_leases"
  unfolding demo_leases_def
proof (rule lease_reachable.hostname_set, rule lease_reachable.allocated,
    rule lease_reachable.expiry_set, rule lease_reachable.hwaddr_set, rule lease_reachable.allocated)
  show "lease_reachable (\<lambda>ks. ks) lease_db_new"
    using lease_reachable.fresh [of "\<lambda>ks. ks" 1000] by (simp add: lease_db_new_def)
  show "find_by_addr lease_db_new 1 = None" by (simp add: find_by_addr_def lease_db_new_def)
  show "find_by_addr (set_expires 0 1 60 (snd (set_hwaddr 1 [1, 2] 1 (Some [7]) False (snd (allocate_v4 1 lease_db_new))))) 2 = None"
    by code_simp
qed

lemma demo_find:
  "map_option l_expires (find_by_addr demo_leases 1) = Some (Some 60000000000)"
  "map_option l_hostname (find_by_addr demo_leases 2) = Some (Some [98])"
  by code_simp+

text \<open>Two leases of different clients stored with the same address: both stay in the database, and the index
  names the second only.\<close>

definition same_addr_leases :: lease_db where
  "same_addr_leases = lease_insert (default_lease\<lparr>l_clid := Some [2], l_addr := 7\<rparr>)
     (lease_insert (default_lease\<lparr>l_clid := Some [1], l_addr := 7\<rparr>) lease_db_new)"

lemma insert_breaks_index:
  "map l_clid (lease_values (\<lambda>ks. ks) same_addr_leases) = [Some [1], Some [2]]
   \<and> map l_addr (lease_values (\<lambda>ks. ks) same_addr_leases) = [7, 7]
   \<and> map_option l_clid (find_by_addr same_addr_leases 7) = Some (Some [2])"
  by code_simp

text \<open>C33: in every lease database that the operations of the DHCP servers build from an empty one, which allocate
  an address only while no lease has it, the address index is exact: \<open>find_by_addr\<close> returns a lease exactly when the
  lease is in the database and has that address. No address and no host name belongs to two leases. (Databases into
  which the unguarded \<open>lease_insert\<close> of the lease file reader or of D-Bus has put a lease are not included.)\<close>

theorem lease_index_exact:
  assumes "hash_order ord" "lease_reachable ord db"
  shows "(find_by_addr db a = Some l \<longleftrightarrow> a \<noteq> 0 \<and> l \<in> set (lease_values ord db) \<and> l_addr l = a)
    \<and> (l1 \<in> set (lease_values ord db) \<and> l2 \<in> set (lease_values ord db) \<and> l_addr l1 = l_addr l2 \<and> l_addr l1 \<noteq> 0 \<longrightarrow> l1 = l2)
    \<and> (l1 \<in> set (lease_values ord db) \<and> l2 \<in> set (lease_values ord db)
         \<and> l_hostname l1 = Some h1 \<and> l_hostname l2 = Some h2 \<and> hostname_isequal h1 h2 \<longrightarrow> l1 = l2)"
proof -
  note ok = lease_reachable_ok [OF assms]
  note v = values_member [OF assms(1) conjunct1 [OF ok]]
  have f: "find_by_addr db a = Some l \<longleftrightarrow> a \<noteq> 0 \<and> l \<in> set (lease_values ord db) \<and> l_addr l = a" for a l
    using find_by_addr_exact [of db a l] ok by (auto simp: v)
  have n: "l1 = l2" if "map_of (leases db) k1 = Some l1" "map_of (leases db) k2 = Some l2"
    "l_hostname l1 = Some h1" "l_hostname l2 = Some h2" "hostname_isequal h1 h2" for k1 k2
  proof -
    have "k1 = k2" using that conjunct2 [OF ok] unfolding names_ok_def by blast
    then show ?thesis using that by simp
  qed
  have "l1 = l2" if "l1 \<in> set (lease_values ord db)" "l2 \<in> set (lease_values ord db)" "l_addr l1 = l_addr l2" "l_addr l1 \<noteq> 0"
    using f [of "l_addr l1" l1] f [of "l_addr l1" l2] that by simp
  moreover have "l1 = l2" if "l1 \<in> set (lease_values ord db)" "l2 \<in> set (lease_values ord db)"
    "l_hostname l1 = Some h1" "l_hostname l2 = Some h2" "hostname_isequal h1 h2"
    using that n unfolding v by blast
  ultimately show ?thesis using f [of a l] by blast
qed

theorem lease_index_exact_witness:
  "find_by_addr demo_leases 2 = Some (the (find_by_addr demo_leases 2))
    \<and> the (find_by_addr demo_leases 2) \<in> set (lease_values (\<lambda>ks. ks) demo_leases)
    \<and> l_addr (the (find_by_addr demo_leases 2)) = 2"
  using lease_index_exact [OF id_order.hash_order_axioms demo_leases_reachable, of 2 "the (find_by_addr demo_leases 2)"] demo_find(2)
  by (cases "find_by_addr demo_leases 2") auto

lemma prune_values:
  assumes "hash_order ord" "lease_ok db" "lease_prune ord n db = Done (ls, db')" "epoch_plus n = Done now"
  shows "l \<in> set (lease_values ord db') \<longleftrightarrow> l \<in> set (lease_values ord db) \<and> \<not> lease_expired now l"
proof -
  obtain now' where n: "epoch_plus n = Done now'" and d: "leases db' = filter (\<lambda>(k, l). \<not> lease_expired now' l) (leases db)"
    using assms(3) by (rule prune_leases)
  note d = d [unfolded exec.inject(1) [THEN iffD1, OF trans [OF n [symmetric] assms(4)]]]
  have "lease_ok db'" by (rule lease_ok_prune [OF assms(2,1,3)])
  then have "l \<in> set (lease_values ord db') \<longleftrightarrow> (\<exists>k. map_of (leases db') k = Some l)"
    by (rule values_member [OF assms(1)])
  also have "\<dots> \<longleftrightarrow> (\<exists>k. map_of (leases db) k = Some l) \<and> \<not> lease_expired now l"
    unfolding d using map_of_filter_key [OF lease_ok_distinct [OF assms(2)], of "\<lambda>l. \<not> lease_expired now l"] by auto
  finally show ?thesis unfolding values_member [OF assms(1,2)] .
qed

text \<open>C34: pruning at a time that a \<open>SystemTime\<close> can hold does not panic, and removes exactly the leases whose
  expiry is earlier: they are returned, each once, and queued for the scripts, the others stay, and
  \<open>find_by_addr\<close> no longer finds an expired lease and finds every other one as before. At a later time pruning
  panics.\<close>

theorem lease_prune_exact:
  assumes "hash_order ord" "lease_reachable ord db"
  shows "if n < 2 ^ 63
     then \<exists>ls db'. lease_prune ord n db = Done (ls, db')
       \<and> ls = filter (lease_expired (int n * 1000000000)) (lease_values ord db) \<and> old_leases db' = old_leases db @ ls
       \<and> set (lease_values ord db') = {l \<in> set (lease_values ord db). \<not> lease_expired (int n * 1000000000) l}
       \<and> (\<forall>a. find_by_addr db' a =
            (case find_by_addr db a of
               None \<Rightarrow> None | Some l \<Rightarrow> if lease_expired (int n * 1000000000) l then None else Some l))
     else lease_prune ord n db = Panic"
proof (cases "n < 2 ^ 63")
  case True
  let ?now = "int n * 1000000000"
  have e: "epoch_plus n = Done ?now" using True by (simp add: epoch_plus_def)
  obtain ls db' where p: "lease_prune ord n db = Done (ls, db')" by (simp add: lease_prune_def e Let_def)
  note ok = conjunct1 [OF lease_reachable_ok [OF assms]]
  note ok' = lease_ok_prune [OF ok assms(1) p]
  note v = prune_values [OF assms(1) ok p e]
  have "find_by_addr db' a = Some l \<longleftrightarrow> find_by_addr db a = Some l \<and> \<not> lease_expired ?now l" for a l
    using find_by_addr_exact [OF ok, of a l] find_by_addr_exact [OF ok', of a l] v [of l]
    unfolding values_member [OF assms(1) ok] values_member [OF assms(1) ok'] by blast
  then have "find_by_addr db' a = (case find_by_addr db a of None \<Rightarrow> None | Some l \<Rightarrow> if lease_expired ?now l then None else Some l)"
    for a by (cases "find_by_addr db a") (simp, metis option.exhaust, simp, metis option.exhaust option.sel)
  moreover have "ls = filter (lease_expired ?now) (lease_values ord db)" "old_leases db' = old_leases db @ ls"
    using p by (auto simp: lease_prune_def e Let_def)
  moreover have "set (lease_values ord db') = {l \<in> set (lease_values ord db). \<not> lease_expired ?now l}" using v by blast
  ultimately show ?thesis using True p by auto
next
  case False
  then show ?thesis by (simp add: lease_prune_def epoch_plus_def)
qed

theorem lease_prune_exact_witness:
  "\<exists>ls db'. lease_prune (\<lambda>ks. ks) 61 demo_leases = Done (ls, db') \<and> find_by_addr db' 1 = None
     \<and> find_by_addr db' 2 = find_by_addr demo_leases 2"
proof -
  have "map_option (lease_expired 61000000000) (find_by_addr demo_leases 1) = Some True"
    "map_option (lease_expired 61000000000) (find_by_addr demo_leases 2) = Some False"
    by code_simp+
  then obtain l1 l2 where *: "find_by_addr demo_leases 1 = Some l1" "lease_expired 61000000000 l1"
    "find_by_addr demo_leases 2 = Some l2" "\<not> lease_expired 61000000000 l2" by auto
  have n: "int 61 * 1000000000 = 61000000000" by simp
  from lease_prune_exact [OF id_order.hash_order_axioms demo_leases_reachable, of 61, unfolded n] obtain ls db'
    where "lease_prune (\<lambda>ks. ks) 61 demo_leases = Done (ls, db')"
      "\<forall>a. find_by_addr db' a = (case find_by_addr demo_leases a of
         None \<Rightarrow> None | Some l \<Rightarrow> if lease_expired 61000000000 l then None else Some l)" by auto
  with * show ?thesis by auto
qed

lemma values_map_leases:
  assumes "hash_order ord"
  shows "lease_values ord (map_leases f db) = map f (lease_values ord db)"
proof -
  have keys: "map fst (map (\<lambda>(k, l). (k, f l)) (leases db)) = map fst (leases db)" by (simp add: comp_def case_prod_unfold)
  have "the (map_of (map (\<lambda>(k, l). (k, f l)) (leases db)) k) = f (the (map_of (leases db) k))"
    if "k \<in> set (ord (map fst (leases db)))" for k
  proof -
    have "k \<in> fst ` set (leases db)" using that by (simp add: hash_order.ord_set [OF assms])
    then obtain l where "map_of (leases db) k = Some l"
      by (metis map_of_eq_None_iff not_None_eq)
    then show ?thesis unfolding map_of_map by simp
  qed
  moreover have "leases (map_leases f db) = map (\<lambda>(k, l). (k, f l)) (leases db)" by (simp add: map_leases_def)
  ultimately show ?thesis by (simp only: lease_values_def hm_iter_def keys) simp
qed

lemma map_leases_old [simp]: "old_leases (map_leases f db) = old_leases db"
  by (simp add: map_leases_def)

lemma lease_values_old [simp]: "lease_values ord (db\<lparr>old_leases := x\<rparr>) = lease_values ord db"
  by (simp add: lease_values_def)

lemma after_calls_quiet: "\<not> script_pending ro renew (after_calls ro renew l)"
  by (auto simp: after_calls_def script_pending_def clear_flags_def lease_flags word_bw_assocs)

lemma after_calls_name:
  "l_old_hostname (after_calls ro renew l) = l_old_hostname l"
  "(after_calls ro renew (l\<lparr>l_old_hostname := None\<rparr>))\<lparr>l_old_hostname := None\<rparr> = after_calls ro renew (l\<lparr>l_old_hostname := None\<rparr>)"
  by (simp_all add: after_calls_def clear_flags_def)

lemma calls_del:
  "filter (\<lambda>e. ev_action e = ActionDel) (removed_calls True l) =
     [build_script_event (l\<lparr>l_old_hostname := None\<rparr>) ActionDel None]"
  "filter (\<lambda>e. ev_action e = ActionDel) (lost_name_calls True l) = []"
  "filter (\<lambda>e. ev_action e = ActionDel) (pending_calls True ro renew l) = []"
  by (simp_all add: removed_calls_def lost_name_calls_def pending_calls_def script_call_def build_script_event_def split: option.split)

lemma calls_add:
  "filter (\<lambda>e. ev_action e = ActionAdd) (removed_calls True l) = []"
  "filter (\<lambda>e. ev_action e = ActionAdd) (lost_name_calls True l) = []"
  "filter (\<lambda>e. ev_action e = ActionAdd) (pending_calls True ro renew l) =
     (if l_flags l AND LEASE_NEW \<noteq> 0 then [build_script_event l ActionAdd None] else [])"
  by (auto simp: removed_calls_def lost_name_calls_def pending_calls_def script_call_def build_script_event_def script_pending_def
      bit.conj_disj_distrib or_eq_0_iff split: option.split)

lemma scripts_calls:
  assumes "hash_order ord"
  shows "fst (run_lease_scripts ord c ro renew db) = concat (map (removed_calls c) (old_leases db))
      @ concat (map (lost_name_calls c) (lease_values ord db))
      @ concat (map (\<lambda>l. pending_calls c ro renew (l\<lparr>l_old_hostname := None\<rparr>)) (lease_values ord db))"
  by (simp add: run_lease_scripts_def Let_def values_map_leases [OF assms] comp_def)

text \<open>C35: with a script configured, a run reports each removed lease with exactly one \<open>del\<close> call, in the order of
  removal, and each lease that is new with exactly one \<open>add\<close> call, in the order in which the database is
  read, under its qualified name or else its host name, and makes no other \<open>del\<close> or \<open>add\<close> call. After a run, with or
  without a script, nothing is pending, so that a second run with the same options makes no call.\<close>

theorem lease_scripts_once:
  assumes "hash_order ord"
  shows "filter (\<lambda>e. ev_action e = ActionDel) (fst (run_lease_scripts ord True ro renew db))
       = map (\<lambda>l. \<lparr>ev_action = ActionDel, ev_lease = l\<lparr>l_old_hostname := None\<rparr>, ev_hostname = None\<rparr>) (old_leases db)
   \<and> filter (\<lambda>e. ev_action e = ActionAdd) (fst (run_lease_scripts ord True ro renew db))
       = map (\<lambda>l. \<lparr>ev_action = ActionAdd, ev_lease = l\<lparr>l_old_hostname := None\<rparr>,
                    ev_hostname = (if l_fqdn l = None then l_hostname l else l_fqdn l)\<rparr>)
           (filter (\<lambda>l. l_flags l AND LEASE_NEW \<noteq> 0) (lease_values ord db))
   \<and> fst (run_lease_scripts ord command ro renew (snd (run_lease_scripts ord command' ro renew db))) = []"
proof (intro conjI)
  have f: "filter P (concat (map g xs)) = concat (map (\<lambda>x. filter P (g x)) xs)" for P and g :: "dhcp_lease \<Rightarrow> script_event list" and xs
    by (induction xs) auto
  have sel: "concat (map (\<lambda>x. if P x then [g x] else []) xs) = map g (filter P xs)" for P and g :: "dhcp_lease \<Rightarrow> script_event" and xs
    by (induction xs) auto
  have one: "concat (map (\<lambda>x. [g x]) xs) = map g xs" for g :: "dhcp_lease \<Rightarrow> script_event" and xs
    by (induction xs) auto
  have add: "build_script_event (l\<lparr>l_old_hostname := None\<rparr>) ActionAdd None = \<lparr>ev_action = ActionAdd,
      ev_lease = l\<lparr>l_old_hostname := None\<rparr>, ev_hostname = (if l_fqdn l = None then l_hostname l else l_fqdn l)\<rparr>" for l
    by (cases "l_fqdn l") (simp_all add: build_script_event_def opt_or_def)
  show "filter (\<lambda>e. ev_action e = ActionDel) (fst (run_lease_scripts ord True ro renew db))
      = map (\<lambda>l. \<lparr>ev_action = ActionDel, ev_lease = l\<lparr>l_old_hostname := None\<rparr>, ev_hostname = None\<rparr>) (old_leases db)"
    by (simp add: scripts_calls [OF assms] f calls_del one build_script_event_def)
  show "filter (\<lambda>e. ev_action e = ActionAdd) (fst (run_lease_scripts ord True ro renew db))
      = map (\<lambda>l. \<lparr>ev_action = ActionAdd, ev_lease = l\<lparr>l_old_hostname := None\<rparr>,
                    ev_hostname = (if l_fqdn l = None then l_hostname l else l_fqdn l)\<rparr>)
           (filter (\<lambda>l. l_flags l AND LEASE_NEW \<noteq> 0) (lease_values ord db))"
    by (simp add: scripts_calls [OF assms] f calls_add add sel)
  have s: "snd (run_lease_scripts ord c ro renew db) =
      map_leases (after_calls ro renew) (map_leases (l_old_hostname_update (\<lambda>_. None)) (db\<lparr>old_leases := []\<rparr>))" for c
    by (simp add: run_lease_scripts_def Let_def)
  show "fst (run_lease_scripts ord command ro renew (snd (run_lease_scripts ord command' ro renew db))) = []"
    by (simp add: scripts_calls [OF assms] s values_map_leases [OF assms] lost_name_calls_def after_calls_name pending_calls_def after_calls_quiet)
qed

theorem lease_scripts_once_witness:
  "map (l_addr \<circ> ev_lease) (filter (\<lambda>e. ev_action e = ActionAdd)
     (fst (run_lease_scripts (\<lambda>ks. ks) True False False demo_leases))) = [1, 2]"
proof -
  have "map l_addr (filter (\<lambda>l. l_flags l AND LEASE_NEW \<noteq> 0) (lease_values (\<lambda>ks. ks) demo_leases)) = [1, 2]" by code_simp
  then show ?thesis
    using lease_scripts_once [OF id_order.hash_order_axioms, of False False demo_leases True True] by (simp add: comp_def)
qed

end
