(* ===== verification/Lease_File.thy ===== *)
theory Lease_File
  imports Lease_Invariant Synth_Domain
begin

unbundle bit_operations_syntax

text \<open>
  The lease file, \<open>LeaseDb::serialize\<close> and \<open>LeaseDb::deserialize\<close> of \<open>src/lease.rs\<close>: one line per lease,
  with its expiry in seconds, its address, hardware address, host name and client identifier. Reading
  and writing the file itself (\<open>write_to_file\<close>, \<open>load_from_file\<close>) is left out. The expiry that is
  read is added to the Unix epoch, which panics when it does not fit, so \<open>deserialize\<close> returns its
  \<open>Result\<close> within \<open>exec\<close>.
\<close>

section \<open>Text\<close>

text \<open>\<open>char::is_whitespace\<close>, the \<open>White_Space\<close> characters of Unicode, and \<open>str::trim\<close>.\<close>

definition char_is_whitespace :: "nat \<Rightarrow> bool" where
  "char_is_whitespace c \<longleftrightarrow>
     9 \<le> c \<and> c \<le> 13 \<or> c = 32 \<or> c = 133 \<or> c = 160 \<or> c = 5760 \<or> 8192 \<le> c \<and> c \<le> 8202
     \<or> c = 8232 \<or> c = 8233 \<or> c = 8239 \<or> c = 8287 \<or> c = 12288"

definition white_octets :: "nat list \<Rightarrow> nat" where
  "white_octets cs = sum_list (map utf8_len (takeWhile char_is_whitespace cs))"

definition str_trim :: "rstr \<Rightarrow> rstr" where
  "str_trim s =
     (let t = drop (white_octets (str_chars s)) s
      in take (length t - white_octets (rev (str_chars t))) t)"

text \<open>\<open>str::lines\<close>: a line ends with a line feed, and with it a preceding carriage return is dropped.\<close>

definition strip_cr :: "rstr \<Rightarrow> rstr" where
  "strip_cr l = (if l \<noteq> [] \<and> last l = 13 then butlast l else l)"

definition str_lines :: "rstr \<Rightarrow> rstr list" where
  "str_lines s =
     (let ps = split_on 10 s in map strip_cr (butlast ps) @ (if last ps = [] then [] else [last ps]))"

text \<open>\<open>str::splitn(n, d)\<close>: at most \<open>n\<close> parts, the last with the separators it contains.\<close>

fun splitn :: "nat \<Rightarrow> u8 \<Rightarrow> rstr \<Rightarrow> rstr list" where
  "splitn 0 d s = []"
| "splitn (Suc 0) d s = [s]"
| "splitn (Suc (Suc n)) d s =
     (let w = takeWhile (\<lambda>b. b \<noteq> d) s
      in if length w = length s then [s] else w # splitn (Suc n) d (drop (length w + 1) s))"

text \<open>\<open>u8::from_str_radix(s, 16)\<close>: an optional plus sign, then hexadecimal digits.\<close>

fun hex_checked :: "nat \<Rightarrow> rstr \<Rightarrow> nat option" where
  "hex_checked acc [] = Some acc"
| "hex_checked acc (b # bs) =
     (case hex_value b of None \<Rightarrow> None | Some d \<Rightarrow> hex_checked (acc * 16 + d) bs)"

definition u8_from_hex :: "rstr \<Rightarrow> u8 option" where
  "u8_from_hex s =
     (let ds = (if s \<noteq> [] \<and> hd s = 43 then tl s else s)
      in if ds = [] then None
         else (case hex_checked 0 ds of
                 None \<Rightarrow> None
               | Some n \<Rightarrow> if n \<le> 255 then Some (word_of_nat n) else None))"

definition hex2 :: "u8 \<Rightarrow> rstr" where
  "hex2 b = [hex_digit (unat b div 16), hex_digit (unat b mod 16)]"

section \<open>The format\<close>

datatype lease_error = ParseError nat rstr

definition parse_hex_colon :: "rstr \<Rightarrow> u8 list option" where
  "parse_hex_colon s = those (map u8_from_hex (split_on 58 s))"

definition expires_secs :: "int option \<Rightarrow> nat" where
  "expires_secs e = (case e of None \<Rightarrow> 0 | Some t \<Rightarrow> if t < 0 then 0 else nat (t div 1000000000))"

definition lease_line :: "dhcp_lease \<Rightarrow> rstr" where
  "lease_line l =
     dec_digits (expires_secs (l_expires l)) @ [32] @ ipv4_to_string (l_addr l)
     @ [32] @ join [58] (map hex2 (hw_bytes l))
     @ [32] @ (case l_hostname l of None \<Rightarrow> [42] | Some h \<Rightarrow> h)
     @ [32] @ (case l_clid l of None \<Rightarrow> [42] | Some c \<Rightarrow> if c \<noteq> [] then join [58] (map hex2 c) else [42])
     @ [10]"

definition serialize :: "(lkey list \<Rightarrow> lkey list) \<Rightarrow> lease_db \<Rightarrow> rstr" where
  "serialize ord db = concat (map lease_line (lease_values ord db))"

text \<open>One line: \<open>None\<close> when it is blank, an error, or the lease it describes.\<close>

definition parse_lease_line :: "nat \<Rightarrow> rstr \<Rightarrow> (lease_error + dhcp_lease option) exec" where
  "parse_lease_line line_no raw =
     (let line = str_trim raw; fail = (\<lambda>msg. Done (Inl (ParseError (line_no + 1) msg)));
          parts = splitn 5 32 line
      in if line = [] then Done (Inr None)
         else if length parts \<noteq> 5 then fail (str_lit ''expected 5 fields, got '' @ dec_digits (length parts))
         else (case parse_uint (2 ^ 64 - 1) (parts ! 0) of
             None \<Rightarrow> fail (str_lit ''invalid expires'')
           | Some secs \<Rightarrow> (case parse_ipv4 (parts ! 1) of
             None \<Rightarrow> fail (str_lit ''invalid IP address'')
           | Some ip \<Rightarrow> (case parse_hex_colon (parts ! 2) of
             None \<Rightarrow> fail (str_lit ''invalid hwaddr'')
           | Some hw \<Rightarrow>
               let hostname = (if parts ! 3 = [42] then None else Some (parts ! 3));
                   hwaddr_len = min (length hw) DHCP_CHADDR_MAX;
                   finish = (\<lambda>clid expires. Done (Inr (Some (default_lease
                     \<lparr>l_clid := clid, l_hostname := hostname, l_expires := expires,
                      l_hwaddr := take hwaddr_len hw @ replicate (DHCP_CHADDR_MAX - hwaddr_len) 0,
                      l_hwaddr_len := hwaddr_len, l_hwaddr_type := 1, l_addr := ip\<rparr>))));
                   expiring = (\<lambda>clid. if secs = 0 then finish clid None
                                       else bind_exec (epoch_plus secs) (\<lambda>t. finish clid (Some t)))
               in if parts ! 4 = [42] then expiring None
                  else (case parse_hex_colon (parts ! 4) of
                          None \<Rightarrow> fail (str_lit ''invalid client-id'')
                        | Some c \<Rightarrow> expiring (Some c))))))"

fun read_leases :: "nat \<Rightarrow> rstr list \<Rightarrow> lease_db \<Rightarrow> (lease_error + lease_db) exec" where
  "read_leases n [] db = Done (Inr db)"
| "read_leases n (line # lines) db =
     bind_exec (parse_lease_line n line) (\<lambda>r.
       case r of
         Inl e \<Rightarrow> Done (Inl e)
       | Inr None \<Rightarrow> read_leases (n + 1) lines db
       | Inr (Some l) \<Rightarrow> read_leases (n + 1) lines (lease_insert l db))"

definition deserialize :: "rstr \<Rightarrow> (lease_error + lease_db) exec" where
  "deserialize text = read_leases 0 (str_lines text) lease_db_new"

section \<open>Reading what was written\<close>

lemma hex_digit_octet: "n < 16 \<Longrightarrow> 48 \<le> hex_digit n \<and> hex_digit n \<le> 57 \<or> 97 \<le> hex_digit n \<and> hex_digit n \<le> 102"
  by (auto simp: word_le_nat_alt unat_hex_digit)

lemma octet_nibbles: "unat b div 16 < 16" "unat b mod 16 < 16" "unat b \<le> 255" for b :: u8
proof -
  have "unat b < 256" by (rule unat_u8)
  then show "unat b div 16 < 16" "unat b mod 16 < 16" "unat b \<le> 255"
    using less_mult_imp_div_less [of "unat b" 16 16] by simp_all
qed

lemma u8_from_hex2: "u8_from_hex (hex2 b) = Some b"
proof -
  note b = octet_nibbles [of b]
  then have "hex_digit (unat b div 16) \<noteq> 43" using hex_digit_octet [of "unat b div 16"] by auto
  with b show ?thesis by (simp add: u8_from_hex_def hex2_def)
qed

text \<open>The octets of a field: printable and neither a separator nor white space.\<close>

definition field_octet :: "u8 \<Rightarrow> bool" where
  "field_octet b \<longleftrightarrow> 32 < b \<and> b < 128"

lemma hex2_set: "b \<in> set (hex2 x) \<Longrightarrow> field_octet b \<and> b \<noteq> 58 \<and> b \<noteq> 42"
proof -
  assume "b \<in> set (hex2 x)"
  then have "48 \<le> b \<and> b \<le> 57 \<or> 97 \<le> b \<and> b \<le> 102"
    using hex_digit_octet [OF octet_nibbles(1), of x] hex_digit_octet [OF octet_nibbles(2), of x] unfolding hex2_def by auto
  then have "48 \<le> unat b \<and> unat b \<le> 57 \<or> 97 \<le> unat b \<and> unat b \<le> 102" by (simp add: word_le_nat_alt)
  then have "32 < unat b \<and> unat b < 128 \<and> unat b \<noteq> 58 \<and> unat b \<noteq> 42" by linarith
  then show ?thesis by (auto simp: field_octet_def word_less_nat_alt)
qed

lemma parse_hex_colon_join:
  assumes "bs \<noteq> []"
  shows "parse_hex_colon (join [58] (map hex2 bs)) = Some bs"
proof -
  have "split_on 58 (join [58] (map hex2 bs)) = map hex2 bs"
    using assms hex2_set by (intro split_on_join) auto
  moreover have "those (map (\<lambda>b. u8_from_hex (hex2 b)) bs) = Some bs" by (induction bs) (simp_all add: u8_from_hex2)
  ultimately show ?thesis by (simp add: parse_hex_colon_def comp_def)
qed

lemma splitn_field: "d \<notin> set w \<Longrightarrow> splitn (Suc (Suc n)) d (w @ d # s) = w # splitn (Suc n) d s"
proof -
  assume "d \<notin> set w"
  then have "takeWhile (\<lambda>b. b \<noteq> d) (w @ d # s) = w" by (subst takeWhile_append2) auto
  then show ?thesis by (simp add: Let_def)
qed

lemma str_trim_id:
  assumes "is_ascii s" "s \<noteq> []" "field_octet (hd s)" "field_octet (last s)"
  shows "str_trim s = s"
proof -
  have w: "\<not> char_is_whitespace (unat b)" if "field_octet b" for b
    using that by (auto simp: field_octet_def char_is_whitespace_def word_less_nat_alt)
  have "white_octets (map unat s) = 0" using assms(2) w [OF assms(3)] by (cases s) (simp_all add: white_octets_def)
  moreover have "white_octets (rev (map unat s)) = 0"
    using assms(2) w [OF assms(4)] by (cases s rule: rev_cases) (simp_all add: white_octets_def)
  ultimately show ?thesis using assms(1) by (simp add: str_trim_def str_chars_ascii Let_def)
qed

lemma str_lines_concat:
  assumes "\<And>l. l \<in> set ls \<Longrightarrow> 10 \<notin> set l \<and> l \<noteq> [] \<and> last l \<noteq> 13"
  shows "str_lines (concat (map (\<lambda>l. l @ [10]) ls)) = ls"
proof -
  have "split_on 10 (concat (map (\<lambda>l. l @ [10]) ls)) = ls @ [[]]"
    using assms by (induction ls) (simp_all add: split_on_append)
  moreover have "map strip_cr ls = ls" using assms by (intro map_idI) (simp add: strip_cr_def)
  ultimately show ?thesis by (simp add: str_lines_def)
qed

text \<open>
  The leases that the format can represent, and what is left of them: the flags, interface, agent and
  vendor data are not written.
\<close>

definition name_writable :: "dhcp_lease \<Rightarrow> bool" where
  "name_writable l \<longleftrightarrow> (case l_hostname l of None \<Rightarrow> True | Some h \<Rightarrow> list_all field_octet h \<and> h \<noteq> [42])"

definition storable :: "dhcp_lease \<Rightarrow> bool" where
  "storable l \<longleftrightarrow>
     length (l_hwaddr l) = DHCP_CHADDR_MAX \<and> 0 < l_hwaddr_len l \<and> l_hwaddr_len l \<le> DHCP_CHADDR_MAX
     \<and> name_writable l
     \<and> l_clid l \<noteq> Some []
     \<and> (case l_expires l of
          None \<Rightarrow> True
        | Some t \<Rightarrow> t mod 1000000000 = 0 \<and> 0 < t \<and> t div 1000000000 < 2 ^ 63)"

definition stored :: "dhcp_lease \<Rightarrow> dhcp_lease" where
  "stored l =
     default_lease\<lparr>l_clid := l_clid l, l_hostname := l_hostname l, l_expires := l_expires l,
       l_hwaddr := hw_bytes l @ replicate (DHCP_CHADDR_MAX - l_hwaddr_len l) 0, l_hwaddr_len := l_hwaddr_len l,
       l_hwaddr_type := 1, l_addr := l_addr l\<rparr>"

definition name_text :: "rstr option \<Rightarrow> rstr" where
  "name_text h = (case h of None \<Rightarrow> [42] | Some n \<Rightarrow> n)"

definition clid_text :: "u8 list option \<Rightarrow> rstr" where
  "clid_text c = (case c of None \<Rightarrow> [42] | Some i \<Rightarrow> if i \<noteq> [] then join [58] (map hex2 i) else [42])"

definition lease_fields :: "dhcp_lease \<Rightarrow> rstr list" where
  "lease_fields l =
     [dec_digits (expires_secs (l_expires l)), ipv4_to_string (l_addr l), join [58] (map hex2 (hw_bytes l)),
      name_text (l_hostname l), clid_text (l_clid l)]"

lemma lease_line_fields: "lease_line l = join [32] (lease_fields l) @ [10]"
  by (simp add: lease_line_def lease_fields_def name_text_def clid_text_def)

lemma join_hex_set: "b \<in> set (join [58] (map hex2 bs)) \<Longrightarrow> field_octet b"
proof (induction bs rule: induct_list012)
  case (3 x y bs)
  then show ?case using hex2_set [of b x] by (auto simp: field_octet_def)
qed (use hex2_set in auto)

lemma field_octets:
  assumes "name_writable l" "f \<in> set (lease_fields l)" "b \<in> set f"
  shows "field_octet b"
proof -
  have d: "field_octet x" if "x \<in> set (dec_digits n)" for x n
  proof -
    have "48 \<le> x \<and> x \<le> 57" using dec_digits_set [OF that] by (simp add: is_ascii_digit_def)
    then show ?thesis by (simp add: field_octet_def word_le_nat_alt word_less_nat_alt)
  qed
  have "field_octet x" if "x \<in> set (join [DOT] (map (\<lambda>b. dec_digits (unat b)) bs))" for x and bs :: "u8 list"
    using that by (induction bs rule: induct_list012) (auto simp: field_octet_def dest!: d)
  then have "field_octet b" if "f = ipv4_to_string (l_addr l)" using that assms(3) by (simp add: ipv4_to_string_def)
  moreover have "field_octet b" if "f = clid_text (l_clid l)"
    using that assms(3) join_hex_set by (auto simp: clid_text_def field_octet_def split: option.splits if_splits)
  moreover have "field_octet b" if "f = name_text (l_hostname l)"
    using that assms(1,3) by (auto simp: name_text_def name_writable_def list_all_iff field_octet_def split: option.splits)
  ultimately show ?thesis using assms(2,3) d join_hex_set by (auto simp: lease_fields_def)
qed

lemma splitn_fields:
  assumes "\<And>f. f \<in> set [a, b, c, d] \<Longrightarrow> 32 \<notin> set f"
  shows "splitn 5 32 (join [32] [a, b, c, d, e]) = [a, b, c, d, e]"
  using assms by (simp add: eval_nat_numeral splitn_field del: splitn.simps(3))

lemma clid_text_parse:
  assumes "c \<noteq> Some []"
  shows "if clid_text c = [42] then c = None else parse_hex_colon (clid_text c) = c"
proof (cases c)
  case (Some i)
  with assms obtain x xs where i: "i = x # xs" by (cases i) auto
  have "hd (join [58] (map hex2 i)) \<in> set (hex2 x)" unfolding i by (cases xs) (simp_all add: hex2_def)
  then have "join [58] (map hex2 i) \<noteq> [42]" using hex2_set by force
  then show ?thesis using parse_hex_colon_join [of i] by (simp add: clid_text_def Some i)
qed (simp add: clid_text_def)

lemma line_text:
  assumes "name_writable l"
  shows "str_trim (join [32] (lease_fields l)) = join [32] (lease_fields l)" "join [32] (lease_fields l) \<noteq> []"
    "10 \<notin> set (join [32] (lease_fields l))" "last (join [32] (lease_fields l)) \<noteq> 13"
proof -
  let ?b = "join [32] (lease_fields l)"
  note f = field_octets [OF assms]
  have b: "x = 32 \<or> field_octet x" if "x \<in> set ?b" for x
    using that f by (auto simp: lease_fields_def)
  have "join [58] (map hex2 (x # xs)) \<noteq> []" for x xs by (cases xs) (simp_all add: hex2_def)
  then have "clid_text (l_clid l) \<noteq> []" by (auto simp: clid_text_def neq_Nil_conv simp del: list.map split: option.split)
  then have "last ?b \<in> set (clid_text (l_clid l))" "last ?b = last (clid_text (l_clid l))" by (simp_all add: lease_fields_def)
  then have la: "field_octet (last ?b)" using f [of "clid_text (l_clid l)"] by (simp add: lease_fields_def)
  have "hd ?b \<in> set (dec_digits (expires_secs (l_expires l)))" by (simp add: lease_fields_def)
  then have hd: "field_octet (hd ?b)" using f [of "dec_digits (expires_secs (l_expires l))"] by (simp add: lease_fields_def)
  show ne: "?b \<noteq> []" by (simp add: lease_fields_def)
  have "is_ascii ?b" unfolding is_ascii_def list_all_iff using b by (force simp: field_octet_def)
  then show "str_trim ?b = ?b" using ne hd la by (rule str_trim_id)
  show "10 \<notin> set ?b" using b [of 10] by (auto simp: field_octet_def)
  show "last ?b \<noteq> 13" using la by (auto simp: field_octet_def)
qed

lemma expires_back:
  assumes "storable l"
  shows "expires_secs (l_expires l) \<le> 2 ^ 64 - 1"
    and "if expires_secs (l_expires l) = 0 then l_expires l = None
         else \<exists>t. epoch_plus (expires_secs (l_expires l)) = Done t \<and> l_expires l = Some t"
proof -
  have t: "nat (t div 1000000000) < 2 ^ 63 \<and> nat (t div 1000000000) \<noteq> 0 \<and> int (nat (t div 1000000000)) * 1000000000 = t \<and> 0 < t"
    if "l_expires l = Some t" for t
  proof -
    define q where "q = t div 1000000000"
    from that assms have t: "t mod 1000000000 = 0" "0 < t" "q < 2 ^ 63" by (simp_all add: storable_def q_def)
    then have "q * 1000000000 = t" using div_mult_mod_eq [of t 1000000000] by (simp add: q_def)
    with t show ?thesis unfolding q_def [symmetric] by (auto simp: nat_less_iff)
  qed
  show "expires_secs (l_expires l) \<le> 2 ^ 64 - 1" using t by (cases "l_expires l") (force simp: expires_secs_def)+
  show "if expires_secs (l_expires l) = 0 then l_expires l = None
         else \<exists>t. epoch_plus (expires_secs (l_expires l)) = Done t \<and> l_expires l = Some t"
    using t by (cases "l_expires l") (auto simp: expires_secs_def epoch_plus_def)
qed

lemma splitn_line:
  assumes "name_writable l"
  shows "splitn 5 32 (join [32] (lease_fields l)) = lease_fields l"
  unfolding lease_fields_def by (rule splitn_fields) (use field_octets [OF assms] in \<open>auto simp: lease_fields_def field_octet_def\<close>)

lemma fields_nth:
  "lease_fields l ! 0 = dec_digits (expires_secs (l_expires l))" "lease_fields l ! 1 = ipv4_to_string (l_addr l)"
  "lease_fields l ! 2 = join [58] (map hex2 (hw_bytes l))" "lease_fields l ! 3 = name_text (l_hostname l)"
  "lease_fields l ! 4 = clid_text (l_clid l)" "length (lease_fields l) = 5"
  by (simp_all add: lease_fields_def)

lemma parse_stored_line:
  assumes "storable l"
  shows "parse_lease_line n (join [32] (lease_fields l)) = Done (Inr (Some (stored l)))"
proof -
  have w: "name_writable l" using assms by (simp add: storable_def)
  have hw: "hw_bytes l \<noteq> []" "length (hw_bytes l) = l_hwaddr_len l" "l_hwaddr_len l \<le> DHCP_CHADDR_MAX"
    using assms by (auto simp: storable_def hw_bytes_def DHCP_CHADDR_MAX_def)
  have nm: "(if name_text (l_hostname l) = [42] then None else Some (name_text (l_hostname l))) = l_hostname l"
    using w by (auto simp: name_writable_def name_text_def split: option.splits)
  have c: "l_clid l \<noteq> Some []" using assms by (simp add: storable_def)
  have m: "min (length (hw_bytes l)) DHCP_CHADDR_MAX = l_hwaddr_len l" "take (l_hwaddr_len l) (hw_bytes l) = hw_bytes l"
    using hw by simp_all
  note r = parse_uint_digits [OF expires_back(1) [OF assms]] parse_ipv4_to_string parse_hex_colon_join [OF hw(1)]
  have d: "clid_text (l_clid l) = [42] \<and> l_clid l = None
      \<or> clid_text (l_clid l) \<noteq> [42] \<and> (\<exists>i. parse_hex_colon (clid_text (l_clid l)) = Some i \<and> l_clid l = Some i)"
    using clid_text_parse [OF c] by (cases "l_clid l") (auto simp: clid_text_def split: if_splits)
  have "expires_secs (l_expires l) = 0 \<and> l_expires l = None
      \<or> expires_secs (l_expires l) \<noteq> 0 \<and> (\<exists>t. epoch_plus (expires_secs (l_expires l)) = Done t \<and> l_expires l = Some t)"
    using expires_back(2) [OF assms] by (simp split: if_splits)
  with d show ?thesis
    unfolding parse_lease_line_def line_text(1) [OF w] splitn_line [OF w] Let_def fields_nth r option.case m nm stored_def
    by (elim disjE conjE exE) (simp_all only: line_text(2) [OF w] if_False if_True option.case bind_exec.simps
        simp_thms not_True_eq_False)
qed

lemma stored_sel [simp]:
  "l_addr (stored l) = l_addr l" "l_hostname (stored l) = l_hostname l" "l_flags (stored l) = 0"
  by (simp_all add: stored_def default_lease_def)

lemma stored_key:
  assumes "storable l"
  shows "lease_key (stored l) = lease_key l"
proof -
  have "hw_bytes (stored l) = hw_bytes l" using assms by (auto simp: stored_def hw_bytes_def storable_def min_def)
  moreover have "l_clid (stored l) = l_clid l" by (simp add: stored_def)
  ultimately show ?thesis by (simp add: lease_key_def split: option.split)
qed

lemma read_stored:
  assumes "list_all storable ls"
  shows "read_leases n (map (\<lambda>l. join [32] (lease_fields l)) ls) db = Done (Inr (fold (\<lambda>l. lease_insert (stored l)) ls db))"
  using assms by (induction ls arbitrary: n db) (simp_all add: parse_stored_line)

text \<open>Leases with distinct keys and distinct addresses are filed one beside the other.\<close>

lemma fold_insert:
  assumes "lease_ok db" "list_all storable ls" "distinct (map lease_key ls)" "distinct (map l_addr ls)"
    and "\<And>l. l \<in> set ls \<Longrightarrow> map_of (leases db) (lease_key l) = None \<and> addr_index db (l_addr l) = None"
  shows "lease_ok (fold (\<lambda>l. lease_insert (stored l)) ls db) \<and>
    (\<forall>k. map_of (leases (fold (\<lambda>l. lease_insert (stored l)) ls db)) k =
       (case find (\<lambda>l. lease_key l = k) ls of None \<Rightarrow> map_of (leases db) k | Some l \<Rightarrow> Some (stored l)))"
  using assms
proof (induction ls arbitrary: db)
  case (Cons l ls)
  let ?db = "lease_insert (stored l) db"
  have k: "lease_key (stored l) = lease_key l" using Cons.prems(2) by (simp add: stored_key)
  have m: "map_of (leases ?db) = (map_of (leases db))(lease_key l \<mapsto> stored l)" by (simp add: lease_insert_def k)
  have i: "addr_index ?db a = (if a = l_addr l \<and> a \<noteq> 0 then Some (lease_key l) else addr_index db a)" for a
    using Cons.prems(5) [of l] by (auto simp: lease_insert_def insert_raw_index k)
  have "lease_ok ?db"
    using Cons.prems(1) Cons.prems(5) [of l] by (intro lease_ok_insert) (simp_all add: is_v6_def)
  moreover have "map_of (leases ?db) (lease_key x) = None \<and> addr_index ?db (l_addr x) = None" if "x \<in> set ls" for x
  proof -
    have "lease_key x \<noteq> lease_key l" using Cons.prems(3) imageI [OF that, of lease_key] by force
    moreover have "l_addr x \<noteq> l_addr l" using Cons.prems(4) imageI [OF that, of l_addr] by force
    ultimately show ?thesis using Cons.prems(5) [of x] that by (simp add: m i)
  qed
  ultimately have "lease_ok (fold (\<lambda>l. lease_insert (stored l)) ls ?db) \<and>
      (\<forall>k. map_of (leases (fold (\<lambda>l. lease_insert (stored l)) ls ?db)) k =
         (case find (\<lambda>l. lease_key l = k) ls of None \<Rightarrow> map_of (leases ?db) k | Some l \<Rightarrow> Some (stored l)))"
    using Cons.prems(2-4) by (intro Cons.IH) simp_all
  moreover have "find (\<lambda>x. lease_key x = lease_key l) ls = None" using Cons.prems(3) by (auto simp: find_None_iff image_iff)
  ultimately show ?case by (auto simp: m split: option.split)
qed simp

text \<open>A database that the file can hold: every lease is storable, filed under its own key, and has an address.\<close>

definition storable_db :: "lease_db \<Rightarrow> bool" where
  "storable_db db \<longleftrightarrow>
     list_all (\<lambda>(k, l). storable l \<and> lease_key l = k \<and> l_addr l \<noteq> 0) (leases db)"

lemma values_distinct:
  assumes "hash_order ord" "lease_ok db" "storable_db db"
  shows "distinct (map lease_key (lease_values ord db))" "distinct (map l_addr (lease_values ord db))"
    "list_all storable (lease_values ord db)"
proof -
  let ?ks = "ord (map fst (leases db))"
  have m: "mset ?ks = mset (map fst (leases db))" using assms(1) by (simp add: hash_order_def)
  then have d: "distinct ?ks" using lease_ok_distinct [OF assms(2)] mset_eq_imp_distinct_iff by blast
  have e: "\<exists>l. map_of (leases db) k = Some l \<and> storable l \<and> lease_key l = k \<and> l_addr l \<noteq> 0" if "k \<in> set ?ks" for k
  proof -
    have "k \<in> set (map fst (leases db))" using that mset_eq_setD [OF m] by blast
    then obtain l where "map_of (leases db) k = Some l" by (metis image_set map_of_eq_None_iff not_None_eq)
    with assms(3) show ?thesis unfolding storable_db_def list_all_iff by (auto dest: map_of_SomeD)
  qed
  have v: "map f (lease_values ord db) = map (\<lambda>k. f (the (map_of (leases db) k))) ?ks" for f :: "dhcp_lease \<Rightarrow> 'a"
    by (simp add: lease_values_def hm_iter_def)
  have "map lease_key (lease_values ord db) = ?ks" unfolding v by (rule map_idI) (use e in fastforce)
  then show "distinct (map lease_key (lease_values ord db))" using d by simp
  have "inj_on (\<lambda>k. l_addr (the (map_of (leases db) k))) (set ?ks)"
  proof (rule inj_onI)
    fix k k' assume k: "k \<in> set ?ks" "k' \<in> set ?ks" "l_addr (the (map_of (leases db) k)) = l_addr (the (map_of (leases db) k'))"
    from e [OF k(1)] e [OF k(2)] obtain l l' where "map_of (leases db) k = Some l" "map_of (leases db) k' = Some l'" "l_addr l \<noteq> 0"
      by blast
    with k(3) assms(2) show "k = k'" unfolding lease_ok_def using indexed_unique by (metis option.sel)
  qed
  with d show "distinct (map l_addr (lease_values ord db))" unfolding v by (simp add: distinct_map)
  show "list_all storable (lease_values ord db)"
    unfolding list_all_iff using v [of id] e by (fastforce simp: lease_values_def hm_iter_def)
qed

lemma lines_serialized:
  assumes "list_all name_writable (lease_values ord db)"
  shows "str_lines (serialize ord db) = map (\<lambda>l. join [32] (lease_fields l)) (lease_values ord db)"
proof -
  have "serialize ord db = concat (map (\<lambda>t. t @ [10]) (map (\<lambda>l. join [32] (lease_fields l)) (lease_values ord db)))"
    unfolding serialize_def map_map comp_def lease_line_fields [abs_def] ..
  also have "str_lines \<dots> = map (\<lambda>l. join [32] (lease_fields l)) (lease_values ord db)"
    by (rule str_lines_concat) (use assms line_text in \<open>auto simp: list_all_iff\<close>)
  finally show ?thesis .
qed

lemma deserialize_serialize:
  assumes "hash_order ord" "lease_ok db" "storable_db db"
  shows "deserialize (serialize ord db) = Done (Inr (fold (\<lambda>l. lease_insert (stored l)) (lease_values ord db) lease_db_new))"
proof -
  note s = values_distinct(3) [OF assms]
  then have "list_all name_writable (lease_values ord db)" by (simp add: list_all_iff storable_def)
  then show ?thesis by (simp add: deserialize_def lines_serialized read_stored [OF s])
qed

text \<open>C36: a database whose leases the file format can represent is read back from its file: reading the text that
  was written gives a database, without an error or a panic, with the same keys, in which every lease has the address,
  hardware address, host name, client identifier and expiry that it had, and in which the leases are found under
  the same addresses.\<close>

theorem lease_file_round_trip:
  assumes "hash_order ord" "lease_ok db" "storable_db db"
  shows "\<exists>db'. deserialize (serialize ord db) = Done (Inr db') \<and> lease_ok db'
    \<and> (\<forall>k. map_of (leases db') k = map_option stored (map_of (leases db) k))
    \<and> (\<forall>a. find_by_addr db' a = map_option stored (find_by_addr db a))"
proof -
  let ?vs = "lease_values ord db" and ?db = "fold (\<lambda>l. lease_insert (stored l)) (lease_values ord db) lease_db_new"
  note d = values_distinct [OF assms]
  have f: "lease_ok ?db \<and> (\<forall>k. map_of (leases ?db) k = (case find (\<lambda>l. lease_key l = k) ?vs of
      None \<Rightarrow> map_of (leases lease_db_new) k | Some l \<Rightarrow> Some (stored l)))"
    using d by (intro fold_insert lease_ok_new) (simp_all add: lease_db_new_def)
  have k: "map_of (leases ?db) k = map_option stored (map_of (leases db) k)" for k
  proof -
    have own: "lease_key l = k" if "map_of (leases db) k = Some l" for k l
      using assms(3) map_of_SomeD [OF that] unfolding storable_db_def list_all_iff by blast
    have "find (\<lambda>l. lease_key l = k) ?vs = map_of (leases db) k"
    proof (cases "map_of (leases db) k")
      case None
      then have "\<forall>l \<in> set ?vs. lease_key l \<noteq> k" using own by (auto simp: values_member [OF assms(1,2)])
      with None show ?thesis by (simp add: find_None_iff)
    next
      case (Some l)
      then have "l \<in> set ?vs" using values_member [OF assms(1,2)] by blast
      then obtain l' where f: "find (\<lambda>l. lease_key l = k) ?vs = Some l'" using own [OF Some] by (cases "find (\<lambda>l. lease_key l = k) ?vs") (auto simp: find_None_iff)
      from find_SomeD [OF f] obtain k' where "map_of (leases db) k' = Some l'" "lease_key l' = k"
        using values_member [OF assms(1,2)] by blast
      with own [of k' l'] Some f show ?thesis by simp
    qed
    then show ?thesis using f by (simp add: lease_db_new_def split: option.split)
  qed
  have "find_by_addr ?db a = map_option stored (find_by_addr db a)" for a
  proof -
    have "find_by_addr ?db a = Some l \<longleftrightarrow> (\<exists>l0. find_by_addr db a = Some l0 \<and> l = stored l0)" for l
      unfolding find_by_addr_exact [OF conjunct1 [OF f]] find_by_addr_exact [OF assms(2)] k by auto
    then show ?thesis by (cases "find_by_addr db a") (simp, metis option.exhaust, simp)
  qed
  with k f show ?thesis unfolding deserialize_serialize [OF assms] by blast
qed

definition demo_file :: lease_db where
  "demo_file =
     set_hostname (\<lambda>ks. ks) 1 (Some [98]) True
       (set_expires 0 1 60 (snd (set_hwaddr 1 [1, 2] 1 (Some [7]) False (snd (allocate_v4 1 lease_db_new)))))"

lemma demo_file_ok: "lease_ok demo_file"
proof -
  have "lease_reachable (\<lambda>ks. ks) lease_db_new"
    using lease_reachable.fresh [of "\<lambda>ks. ks" 1000] by (simp add: lease_db_new_def)
  moreover have "find_by_addr lease_db_new 1 = None" by (simp add: find_by_addr_def lease_db_new_def)
  ultimately have "lease_reachable (\<lambda>ks. ks) demo_file"
    unfolding demo_file_def
    by (rule lease_reachable.hostname_set [OF lease_reachable.expiry_set [OF lease_reachable.hwaddr_set [OF lease_reachable.allocated]]])
  then show ?thesis using lease_reachable_ok [OF id_order.hash_order_axioms] by blast
qed

lemma demo_file_storable: "storable_db demo_file"
  by code_simp

theorem lease_file_round_trip_witness:
  "\<exists>db'. deserialize (serialize rev demo_file) = Done (Inr db')
     \<and> map_option l_hostname (find_by_addr db' 1) = Some (Some [98])"
proof -
  have "map_option l_hostname (find_by_addr demo_file 1) = Some (Some [98])" by code_simp
  then obtain l where "find_by_addr demo_file 1 = Some l" "l_hostname l = Some [98]" by auto
  with lease_file_round_trip [OF rev_order.hash_order_axioms demo_file_ok demo_file_storable] show ?thesis by force
qed

section \<open>What the file cannot hold\<close>

text \<open>
  A lease without a hardware address, such as one that has just been allocated or a DHCPv6 lease, is
  written with an empty field, and the whole file is refused when it is read.
\<close>

lemma unreadable_line:
  assumes "name_writable l" "l_hwaddr_len l = 0" "expires_secs (l_expires l) \<le> 2 ^ 64 - 1"
  shows "parse_lease_line n (join [32] (lease_fields l)) = Done (Inl (ParseError (n + 1) (str_lit ''invalid hwaddr'')))"
proof -
  have hw: "hw_bytes l = []" using assms(2) by (simp add: hw_bytes_def)
  have h: "parse_hex_colon (join [58] (map hex2 [])) = None" by (simp add: parse_hex_colon_def u8_from_hex_def)
  note r = parse_uint_digits [OF assms(3)] parse_ipv4_to_string
  show ?thesis
    unfolding parse_lease_line_def line_text(1) [OF assms(1)] splitn_line [OF assms(1)] Let_def fields_nth r option.case hw h
    by (simp only: line_text(2) [OF assms(1)] if_False simp_thms)
qed

lemma unreadable_file:
  assumes "lease_values ord db = l # ls" "name_writable l" "l_hwaddr_len l = 0" "expires_secs (l_expires l) \<le> 2 ^ 64 - 1"
    "list_all name_writable ls"
  shows "deserialize (serialize ord db) = Done (Inl (ParseError 1 (str_lit ''invalid hwaddr'')))"
  using lines_serialized [of ord db] assms by (simp add: deserialize_def unreadable_line)

text \<open>
  The hardware address of a client without identifier is written into its lease, but the lease keeps
  the key it was allocated under, so that the allocation for the next such client replaces it.
\<close>

lemma anonymous_lease_replaced:
  "find_by_addr (snd (allocate_v4 1 lease_db_new)) 1 \<noteq> None
   \<and> find_by_addr (snd (allocate_v4 2 (snd (set_hwaddr 1 [1, 2, 3, 4, 5, 6] 1 None True (snd (allocate_v4 1 lease_db_new)))))) 1 = None"
  by code_simp

end
