(* ===== verification/Dhcp_Packet.thy ===== *)
theory Dhcp_Packet
  imports Dhcp_Config
begin

unbundle bit_operations_syntax

text \<open>
  DHCPv4 packets: the message types and the packet of \<open>src/dhcp_protocol/mod.rs\<close>, its wire format in
  \<open>src/dhcp.rs\<close>, and the option block, which is read and written by \<open>src/dhcp_common.rs\<close> and
  \<open>src/rfc2131.rs\<close>. A scan over an option block by index is a recursion over the octets that are left;
  where the source returns an index the recursion carries it. The option block is related to a list of
  codes with their values: reading it is a lookup in that list and writing to it appends to the list.
\<close>

section \<open>Packets\<close>

definition OPTION_PAD :: u8 where "OPTION_PAD = 0"
definition OPTION_NETMASK :: u8 where "OPTION_NETMASK = 1"
definition OPTION_ROUTER :: u8 where "OPTION_ROUTER = 3"
definition OPTION_DNSSERVER :: u8 where "OPTION_DNSSERVER = 6"
definition OPTION_HOSTNAME :: u8 where "OPTION_HOSTNAME = 12"
definition OPTION_DOMAINNAME :: u8 where "OPTION_DOMAINNAME = 15"
definition OPTION_BROADCAST :: u8 where "OPTION_BROADCAST = 28"
definition OPTION_VENDOR_CLASS_OPT :: u8 where "OPTION_VENDOR_CLASS_OPT = 43"
definition OPTION_REQUESTED_IP :: u8 where "OPTION_REQUESTED_IP = 50"
definition OPTION_LEASE_TIME :: u8 where "OPTION_LEASE_TIME = 51"
definition OPTION_OVERLOAD :: u8 where "OPTION_OVERLOAD = 52"
definition OPTION_MESSAGE_TYPE :: u8 where "OPTION_MESSAGE_TYPE = 53"
definition OPTION_SERVER_IDENTIFIER :: u8 where "OPTION_SERVER_IDENTIFIER = 54"
definition OPTION_REQUESTED_OPTIONS :: u8 where "OPTION_REQUESTED_OPTIONS = 55"
definition OPTION_MAXMESSAGE :: u8 where "OPTION_MAXMESSAGE = 57"
definition OPTION_T1 :: u8 where "OPTION_T1 = 58"
definition OPTION_T2 :: u8 where "OPTION_T2 = 59"
definition OPTION_VENDOR_ID :: u8 where "OPTION_VENDOR_ID = 60"
definition OPTION_CLIENT_ID :: u8 where "OPTION_CLIENT_ID = 61"
definition OPTION_SNAME :: u8 where "OPTION_SNAME = 66"
definition OPTION_FILENAME :: u8 where "OPTION_FILENAME = 67"
definition OPTION_USER_CLASS :: u8 where "OPTION_USER_CLASS = 77"
definition OPTION_RAPID_COMMIT :: u8 where "OPTION_RAPID_COMMIT = 80"
definition OPTION_CLIENT_FQDN :: u8 where "OPTION_CLIENT_FQDN = 81"
definition OPTION_AGENT_ID :: u8 where "OPTION_AGENT_ID = 82"
definition OPTION_LAST_TRANSACTION :: u8 where "OPTION_LAST_TRANSACTION = 91"
definition OPTION_ARCH :: u8 where "OPTION_ARCH = 93"
definition OPTION_PXE_UUID :: u8 where "OPTION_PXE_UUID = 97"
definition OPTION_SUBNET_SELECT :: u8 where "OPTION_SUBNET_SELECT = 118"
definition OPTION_END :: u8 where "OPTION_END = 255"
definition SUBOPT_REMOTE_ID :: u8 where "SUBOPT_REMOTE_ID = 2"
definition SUBOPT_SUBNET_SELECT :: u8 where "SUBOPT_SUBNET_SELECT = 5"
definition SUBOPT_FLAGS :: u8 where "SUBOPT_FLAGS = 10"
definition SUBOPT_SERVER_OR :: u8 where "SUBOPT_SERVER_OR = 11"

lemmas option_codes = OPTION_PAD_def OPTION_NETMASK_def OPTION_ROUTER_def OPTION_DNSSERVER_def OPTION_HOSTNAME_def
  OPTION_DOMAINNAME_def OPTION_BROADCAST_def OPTION_VENDOR_CLASS_OPT_def OPTION_REQUESTED_IP_def OPTION_LEASE_TIME_def
  OPTION_OVERLOAD_def OPTION_MESSAGE_TYPE_def OPTION_SERVER_IDENTIFIER_def OPTION_REQUESTED_OPTIONS_def
  OPTION_MAXMESSAGE_def OPTION_T1_def OPTION_T2_def OPTION_VENDOR_ID_def OPTION_CLIENT_ID_def OPTION_SNAME_def
  OPTION_FILENAME_def OPTION_USER_CLASS_def OPTION_RAPID_COMMIT_def OPTION_CLIENT_FQDN_def OPTION_AGENT_ID_def
  OPTION_LAST_TRANSACTION_def OPTION_ARCH_def OPTION_PXE_UUID_def OPTION_SUBNET_SELECT_def OPTION_END_def

definition BOOTREQUEST :: u8 where "BOOTREQUEST = 1"
definition BOOTREPLY :: u8 where "BOOTREPLY = 2"
definition DHCP_COOKIE :: u32 where "DHCP_COOKIE = 0x63825363"

datatype dhcp_msg_type = Bootp | Discover | Offer | Request | Decline | Ack | Nak | Release | Inform | ForceRenew
  | LeaseQuery | LeaseUnassigned | LeaseUnknown | LeaseActive

fun msg_type_code :: "dhcp_msg_type \<Rightarrow> u8" where
  "msg_type_code Bootp = 0"
| "msg_type_code Discover = 1"
| "msg_type_code Offer = 2"
| "msg_type_code Request = 3"
| "msg_type_code Decline = 4"
| "msg_type_code Ack = 5"
| "msg_type_code Nak = 6"
| "msg_type_code Release = 7"
| "msg_type_code Inform = 8"
| "msg_type_code ForceRenew = 9"
| "msg_type_code LeaseQuery = 10"
| "msg_type_code LeaseUnassigned = 11"
| "msg_type_code LeaseUnknown = 12"
| "msg_type_code LeaseActive = 13"

definition msg_type_from_u8 :: "u8 \<Rightarrow> dhcp_msg_type option" where
  "msg_type_from_u8 v =
     (if v = 1 then Some Discover else if v = 2 then Some Offer else if v = 3 then Some Request
      else if v = 4 then Some Decline else if v = 5 then Some Ack else if v = 6 then Some Nak
      else if v = 7 then Some Release else if v = 8 then Some Inform else if v = 9 then Some ForceRenew
      else if v = 10 then Some LeaseQuery else if v = 11 then Some LeaseUnassigned
      else if v = 12 then Some LeaseUnknown else if v = 13 then Some LeaseActive else None)"

record dhcp_packet =
  bp_op :: u8
  bp_htype :: u8
  bp_hlen :: u8
  bp_hops :: u8
  bp_xid :: u32
  bp_secs :: u16
  bp_flags :: u16
  bp_ciaddr :: ipv4
  bp_yiaddr :: ipv4
  bp_siaddr :: ipv4
  bp_giaddr :: ipv4
  bp_chaddr :: "u8 list"
  bp_sname :: "u8 list"
  bp_file :: "u8 list"
  bp_options :: "u8 list"

definition be32_at :: "u8 list \<Rightarrow> nat \<Rightarrow> u32" where
  "be32_at data i = from_be32 (data ! i) (data ! (i + 1)) (data ! (i + 2)) (data ! (i + 3))"

definition parse_dhcp_packet :: "u8 list \<Rightarrow> dhcp_packet option" where
  "parse_dhcp_packet data =
     (if length data < 240 then None
      else if be32_at data 236 \<noteq> DHCP_COOKIE then None
      else Some \<lparr>bp_op = data ! 0, bp_htype = data ! 1, bp_hlen = data ! 2, bp_hops = data ! 3,
        bp_xid = be32_at data 4, bp_secs = from_be16 (data ! 8) (data ! 9), bp_flags = from_be16 (data ! 10) (data ! 11),
        bp_ciaddr = be32_at data 12, bp_yiaddr = be32_at data 16, bp_siaddr = be32_at data 20, bp_giaddr = be32_at data 24,
        bp_chaddr = take 16 (drop 28 data), bp_sname = take 64 (drop 44 data), bp_file = take 128 (drop 108 data),
        bp_options = drop 240 data\<rparr>)"

definition end_and_pad :: "u8 list \<Rightarrow> u8 list \<Rightarrow> u8 list" where
  "end_and_pad buf options =
     (let b = buf @ options @ (if options \<noteq> [] \<and> last options = OPTION_END then [] else [OPTION_END])
      in b @ replicate (300 - length b) 0)"

definition dhcp_packet_to_wire :: "dhcp_packet \<Rightarrow> u8 list" where
  "dhcp_packet_to_wire pkt =
     end_and_pad ([bp_op pkt, bp_htype pkt, bp_hlen pkt, bp_hops pkt] @ to_be32 (bp_xid pkt) @ to_be16 (bp_secs pkt)
       @ to_be16 (bp_flags pkt) @ octets4 (bp_ciaddr pkt) @ octets4 (bp_yiaddr pkt) @ octets4 (bp_siaddr pkt)
       @ octets4 (bp_giaddr pkt) @ bp_chaddr pkt @ bp_sname pkt @ bp_file pkt @ to_be32 DHCP_COOKIE) (bp_options pkt)"

definition dhcp_packet_validate :: "u8 list \<Rightarrow> string + unit" where
  "dhcp_packet_validate data =
     (if length data < 240 then Inl ''packet too short''
      else if data ! 0 \<noteq> 1 then Inl ''not a BOOTREQUEST''
      else if data ! 2 > 16 then Inl ''hlen exceeds maximum''
      else if be32_at data 236 \<noteq> DHCP_COOKIE then Inl ''bad magic cookie''
      else Inr ())"

definition is_relayed :: "dhcp_packet \<Rightarrow> bool" where
  "is_relayed pkt \<longleftrightarrow> bp_giaddr pkt \<noteq> 0"

text \<open>The destination of a reply, as an address and a port.\<close>

definition reply_dest :: "dhcp_packet \<Rightarrow> ipv4 \<times> u16" where
  "reply_dest pkt =
     (if bp_giaddr pkt \<noteq> 0 then (bp_giaddr pkt, 67)
      else if bp_ciaddr pkt \<noteq> 0 then (bp_ciaddr pkt, 68)
      else (0xFFFFFFFF, 68))"

definition relay_reply_client_dest :: "dhcp_packet \<Rightarrow> ipv4 \<times> u16" where
  "relay_reply_client_dest pkt = (if bp_ciaddr pkt \<noteq> 0 then (bp_ciaddr pkt, 68) else (0xFFFFFFFF, 68))"

section \<open>Option blocks\<close>

function (sequential) find_option :: "u8 list \<Rightarrow> u8 \<Rightarrow> u8 list option" where
  "find_option [] code = None"
| "find_option (opt # rest) code =
     (if opt = OPTION_PAD then find_option rest code
      else if opt = OPTION_END then None
      else (case rest of
              [] \<Rightarrow> None
            | len # body \<Rightarrow>
                if length body < unat len then None
                else if opt = code then Some (take (unat len) body)
                else find_option (drop (unat len) body) code))"
  by pat_completeness auto
termination by (relation "measure (\<lambda>(options, code). length options)") auto

definition get_message_type :: "u8 list \<Rightarrow> dhcp_msg_type option" where
  "get_message_type options =
     (case find_option options OPTION_MESSAGE_TYPE of
        None \<Rightarrow> None
      | Some data \<Rightarrow> (case data of [] \<Rightarrow> None | v # _ \<Rightarrow> msg_type_from_u8 v))"

definition get_vendor_class :: "u8 list \<Rightarrow> rstr option" where
  "get_vendor_class options =
     (case find_option options OPTION_VENDOR_ID of
        None \<Rightarrow> None
      | Some data \<Rightarrow> if utf8_valid data then Some data else None)"

definition find_requested_ip :: "u8 list \<Rightarrow> ipv4 option" where
  "find_requested_ip options =
     (case find_option options OPTION_REQUESTED_IP of
        None \<Rightarrow> None
      | Some data \<Rightarrow> if length data < 4 then None else Some (ipv4_of data))"

text \<open>The index of an option with at least \<open>minsize\<close> octets of data; \<open>i\<close> is the index of the first octet.\<close>

function (sequential) option_find_from :: "nat \<Rightarrow> u8 list \<Rightarrow> u8 \<Rightarrow> nat \<Rightarrow> nat option" where
  "option_find_from i [] opt_type minsize = None"
| "option_find_from i (code # rest) opt_type minsize =
     (if code = OPTION_END then if opt_type = OPTION_END then Some i else None
      else if code = OPTION_PAD then option_find_from (i + 1) rest opt_type minsize
      else (case rest of
              [] \<Rightarrow> None
            | len # body \<Rightarrow>
                if length body < unat len then None
                else if code = opt_type \<and> unat len \<ge> minsize then Some i
                else option_find_from (i + 2 + unat len) (drop (unat len) body) opt_type minsize))"
  by pat_completeness auto
termination by (relation "measure (\<lambda>(i, buf, t, m). length buf)") auto

definition option_find1 :: "u8 list \<Rightarrow> u8 \<Rightarrow> nat \<Rightarrow> nat option" where
  "option_find1 buf opt_type minsize = option_find_from 0 buf opt_type minsize"

record option_ref =
  or_index :: nat
  or_data :: "u8 list"

definition option_uint :: "option_ref \<Rightarrow> nat \<Rightarrow> nat \<Rightarrow> u32" where
  "option_uint r off width =
     (let byte = (\<lambda>i. if i < 4 - width then 0
                      else if off + (i - (4 - width)) < length (or_data r) then or_data r ! (off + (i - (4 - width))) else 0)
      in from_be32 (byte 0) (byte 1) (byte 2) (byte 3))"

definition option_addr :: "option_ref \<Rightarrow> ipv4 option" where
  "option_addr r = (if length (or_data r) < 4 then None else Some (ipv4_of (or_data r)))"

text \<open>The two octets behind the index are only missing for the end marker, for which the source panics.\<close>

definition find_dhcp_option :: "u8 list \<Rightarrow> u8 \<Rightarrow> nat \<Rightarrow> option_ref option exec" where
  "find_dhcp_option buf opt_type minsize =
     (case option_find1 buf opt_type minsize of
        None \<Rightarrow> Done None
      | Some index \<Rightarrow>
          if index + 1 \<ge> length buf then Panic
          else let len = unat (buf ! (index + 1))
               in if index + 2 + len > length buf then Panic
                  else Done (Some \<lparr>or_index = index, or_data = take len (drop (index + 2) buf)\<rparr>))"

definition option_find :: "dhcp_packet \<Rightarrow> u8 \<Rightarrow> nat \<Rightarrow> option_ref option exec" where
  "option_find pkt opt_type minsize =
     (let opts = (if length (bp_options pkt) > 4 then drop 4 (bp_options pkt) else bp_options pkt)
      in bind_exec (find_dhcp_option opts opt_type minsize) (\<lambda>found.
         case found of
           Some r \<Rightarrow> Done (Some r)
         | None \<Rightarrow>
             bind_exec (find_dhcp_option opts OPTION_OVERLOAD 1) (\<lambda>overload.
               case overload of
                 None \<Rightarrow> Done None
               | Some ov \<Rightarrow>
                   let v = option_uint ov 0 1
                   in bind_exec (if v AND 1 \<noteq> 0 then find_dhcp_option (bp_file pkt) opt_type minsize else Done None) (\<lambda>in_file.
                      case in_file of
                        Some r \<Rightarrow> Done (Some r)
                      | None \<Rightarrow> if v AND 2 \<noteq> 0 then find_dhcp_option (bp_sname pkt) opt_type minsize else Done None))))"

subsection \<open>Writing\<close>

definition drop_end :: "u8 list \<Rightarrow> u8 list" where
  "drop_end opts = (if opts \<noteq> [] \<and> last opts = OPTION_END then butlast opts else opts)"

definition option_put :: "u8 list \<Rightarrow> u8 \<Rightarrow> u32 \<Rightarrow> nat \<Rightarrow> u8 list" where
  "option_put opts opt val len =
     drop_end opts @ [opt, word_of_nat len] @ map (\<lambda>i. ucast (drop_bit (8 * i) val)) (rev [0..<len]) @ [OPTION_END]"

definition option_put_string :: "u8 list \<Rightarrow> u8 \<Rightarrow> rstr \<Rightarrow> bool \<Rightarrow> u8 list" where
  "option_put_string opts opt s null_term =
     (let terminated = null_term \<and> length s < 255;
          len = min (if terminated then length s + 1 else length s) 255;
          data_len = len - (if terminated then 1 else 0)
      in drop_end opts @ [opt, word_of_nat len] @ take (min data_len (length s)) s
         @ (if terminated then [0] else []) @ [OPTION_END])"

definition option_put_raw :: "u8 list \<Rightarrow> u8 \<Rightarrow> u8 list \<Rightarrow> u8 list" where
  "option_put_raw opts opt data =
     (let len = min (length data) 255
      in drop_end opts @ [opt, word_of_nat len] @ take len data @ [OPTION_END])"

definition append_opt :: "u8 list \<Rightarrow> u8 \<Rightarrow> u8 list \<Rightarrow> u8 list" where
  "append_opt opts code data = drop_end opts @ [code, word_of_nat (length data)] @ data @ [OPTION_END]"

definition in_list :: "u8 list option \<Rightarrow> u8 \<Rightarrow> bool" where
  "in_list lst opt =
     (case lst of None \<Rightarrow> True | Some l \<Rightarrow> opt \<in> set (takeWhile (\<lambda>b. b \<noteq> OPTION_END) l))"

definition clear_packet :: "dhcp_packet \<Rightarrow> dhcp_packet" where
  "clear_packet pkt =
     pkt\<lparr>bp_sname := replicate 64 0, bp_file := replicate 128 0, bp_siaddr := 0,
         bp_options := if length (bp_options pkt) > 4 then take 4 (bp_options pkt) else bp_options pkt\<rparr>"

definition dhcp_packet_size :: "dhcp_packet \<Rightarrow> nat" where
  "dhcp_packet_size pkt = max (240 + length (bp_options pkt)) 300"

text \<open>How many octets of whole options fit into the budget; \<open>i\<close> octets are behind the scan.\<close>

function (sequential) fitting :: "nat \<Rightarrow> nat \<Rightarrow> u8 list \<Rightarrow> nat" where
  "fitting budget i [] = i"
| "fitting budget i (code # rest) =
     (if code = OPTION_END then i
      else if code = OPTION_PAD then if i + 1 > budget then i else fitting budget (i + 1) rest
      else (case rest of
              [] \<Rightarrow> i
            | len # body \<Rightarrow>
                if length body < unat len \<or> i + 2 + unat len > budget then i
                else fitting budget (i + 2 + unat len) (drop (unat len) body)))"
  by pat_completeness auto
termination by (relation "measure (\<lambda>(budget, i, options). length options)") auto

definition cap_vendor_area :: "u8 list \<Rightarrow> nat \<Rightarrow> u8 list" where
  "cap_vendor_area options max_len = take (fitting (max_len - 1) 0 options) options @ [OPTION_END]"

text \<open>\<open>has_opt_raw\<close> skips a cookie in front of the options.\<close>

function (sequential) has_opt_from :: "u8 list \<Rightarrow> u8 \<Rightarrow> bool" where
  "has_opt_from [] opt = False"
| "has_opt_from (c # rest) opt =
     (if c = OPTION_END then False
      else if c = OPTION_PAD then has_opt_from rest opt
      else if c = opt then True
      else (case rest of [] \<Rightarrow> False | len # body \<Rightarrow> has_opt_from (drop (unat len) body) opt))"
  by pat_completeness auto
termination by (relation "measure (\<lambda>(opts, opt). length opts)") auto

definition has_opt_raw :: "u8 list \<Rightarrow> u8 \<Rightarrow> bool" where
  "has_opt_raw opts opt = has_opt_from (if take 4 opts = [0x63, 0x82, 0x53, 0x63] then drop 4 opts else opts) opt"

section \<open>Option blocks as lists of options\<close>

text \<open>An option is its code with its value; a block is the options in order, then the end marker.\<close>

type_synonym opt_list = "(u8 \<times> u8 list) list"

definition opts_ok :: "opt_list \<Rightarrow> bool" where
  "opts_ok ts \<longleftrightarrow> list_all (\<lambda>(c, d). c \<noteq> OPTION_PAD \<and> c \<noteq> OPTION_END \<and> length d \<le> 255) ts"

definition encode_opts :: "opt_list \<Rightarrow> u8 list" where
  "encode_opts ts = concat (map (\<lambda>(c, d). c # word_of_nat (length d) # d) ts)"

definition opt_block :: "opt_list \<Rightarrow> u8 list" where
  "opt_block ts = encode_opts ts @ [OPTION_END]"

lemma unat_len8: "n \<le> 255 \<Longrightarrow> unat (word_of_nat n :: u8) = n"
  by (simp add: unat_u8_of_nat)

lemma opts_ok_simps [simp]:
  "opts_ok []" "opts_ok ((c, d) # ts) \<longleftrightarrow> c \<noteq> OPTION_PAD \<and> c \<noteq> OPTION_END \<and> length d \<le> 255 \<and> opts_ok ts"
  "opts_ok (ts @ us) \<longleftrightarrow> opts_ok ts \<and> opts_ok us"
  by (auto simp: opts_ok_def)

lemma encode_opts_simps [simp]:
  "encode_opts [] = []" "encode_opts ((c, d) # ts) = c # word_of_nat (length d) # d @ encode_opts ts"
  "encode_opts (ts @ us) = encode_opts ts @ encode_opts us"
  by (simp_all add: encode_opts_def)

lemma find_option_encode:
  assumes "opts_ok ts"
  shows "find_option (encode_opts ts @ rest) code = (case map_of ts code of None \<Rightarrow> find_option rest code | Some d \<Rightarrow> Some d)"
  using assms
proof (induction ts)
  case (Cons t ts)
  obtain c d where t: "t = (c, d)" by (cases t)
  with Cons show ?case by (simp add: unat_len8)
qed simp

text \<open>Looking up an option in a block is looking it up in the list.\<close>

lemma find_option_block: "opts_ok ts \<Longrightarrow> find_option (opt_block ts) code = map_of ts code"
  by (simp add: opt_block_def find_option_encode option_codes split: option.split)

lemma has_opt_encode:
  assumes "opts_ok ts"
  shows "has_opt_from (opt_block ts) code \<longleftrightarrow> map_of ts code \<noteq> None"
  using assms
proof (induction ts)
  case (Cons t ts)
  obtain c d where t: "t = (c, d)" by (cases t)
  with Cons show ?case by (simp add: unat_len8 opt_block_def)
qed (simp add: opt_block_def)

lemma drop_end_block [simp]: "drop_end (opt_block ts) = encode_opts ts"
  by (simp add: drop_end_def opt_block_def)

text \<open>Writing an option appends it to the list.\<close>

lemma option_put_block:
  "len \<le> 255 \<Longrightarrow> option_put (opt_block ts) opt val len
     = opt_block (ts @ [(opt, map (\<lambda>i. ucast (drop_bit (8 * i) val)) (rev [0..<len]))])"
  by (simp add: option_put_def opt_block_def[of "ts @ _"])

lemma option_put_raw_block:
  "option_put_raw (opt_block ts) opt data = opt_block (ts @ [(opt, take 255 data)])"
proof -
  have "take (min (length data) 255) data = take 255 data" by (cases "length data \<le> 255") simp_all
  then show ?thesis by (simp add: option_put_raw_def opt_block_def [of "ts @ _"] Let_def min.commute)
qed

lemma append_opt_block: "append_opt (opt_block ts) opt data = opt_block (ts @ [(opt, data)])"
  by (simp add: append_opt_def opt_block_def [of "ts @ _"])

section \<open>Truncation to the vendor area\<close>

lemma length_encode_opts: "length (encode_opts ts) = sum_list (map (\<lambda>(c, d). 2 + length d) ts)"
  by (induction ts) auto

lemma fitting_block:
  assumes "opts_ok ts"
  shows "\<exists>k \<le> length ts. fitting budget i (opt_block ts) = i + length (encode_opts (take k ts))
    \<and> (k > 0 \<longrightarrow> i + length (encode_opts (take k ts)) \<le> budget)
    \<and> (k < length ts \<longrightarrow> i + length (encode_opts (take (Suc k) ts)) > budget)"
  using assms
proof (induction ts arbitrary: i)
  case (Cons t ts)
  obtain c d where t: "t = (c, d)" by (cases t)
  with Cons.prems have c: "c \<noteq> OPTION_PAD" "c \<noteq> OPTION_END" "length d \<le> 255" and ok: "opts_ok ts" by auto
  have f: "fitting budget i (opt_block (t # ts)) =
      (if i + 2 + length d > budget then i else fitting budget (i + 2 + length d) (opt_block ts))"
    using c by (simp add: opt_block_def t unat_len8)
  show ?case
  proof (cases "i + 2 + length d > budget")
    case True
    then show ?thesis by (intro exI [of _ 0]) (simp add: f [unfolded t] t)
  next
    case False
    from Cons.IH [OF ok, of "i + 2 + length d"] obtain k where k: "k \<le> length ts"
      "fitting budget (i + 2 + length d) (opt_block ts) = i + 2 + length d + length (encode_opts (take k ts))"
      "k > 0 \<longrightarrow> i + 2 + length d + length (encode_opts (take k ts)) \<le> budget"
      "k < length ts \<longrightarrow> i + 2 + length d + length (encode_opts (take (Suc k) ts)) > budget" by blast
    then show ?thesis using False by (intro exI [of _ "Suc k"]) (cases k, auto simp: f [unfolded t] t)
  qed
qed (simp add: opt_block_def)

text \<open>C38: cutting an option block down to a vendor area keeps whole options, from the first on and as many as fit:
  the result is a block of at most the given length, it answers a lookup like the full block
  for the options that are kept, and the next option would not have fitted.\<close>

theorem cap_vendor_area_exact:
  assumes "opts_ok ts" "0 < max_len"
  shows "\<exists>k \<le> length ts. cap_vendor_area (opt_block ts) max_len = opt_block (take k ts)
    \<and> length (cap_vendor_area (opt_block ts) max_len) \<le> max_len
    \<and> (\<forall>code. find_option (cap_vendor_area (opt_block ts) max_len) code = map_of (take k ts) code)
    \<and> (k < length ts \<longrightarrow> length (opt_block (take (Suc k) ts)) > max_len)"
proof -
  obtain k where k: "k \<le> length ts" "fitting (max_len - 1) 0 (opt_block ts) = length (encode_opts (take k ts))"
    "k > 0 \<longrightarrow> length (encode_opts (take k ts)) \<le> max_len - 1"
    "k < length ts \<longrightarrow> length (encode_opts (take (Suc k) ts)) > max_len - 1"
    using fitting_block [OF assms(1), of "max_len - 1" 0] by auto
  have "opt_block ts = encode_opts (take k ts) @ encode_opts (drop k ts) @ [OPTION_END]"
    by (metis append.assoc append_take_drop_id encode_opts_simps(3) opt_block_def)
  then have "take (length (encode_opts (take k ts))) (opt_block ts) = encode_opts (take k ts)" by simp
  then have c: "cap_vendor_area (opt_block ts) max_len = opt_block (take k ts)"
    unfolding cap_vendor_area_def k(2) by (simp add: opt_block_def [of "take k ts"])
  have "opts_ok (take k ts)" using assms(1) by (metis append_take_drop_id opts_ok_simps(3))
  then have "\<forall>code. find_option (opt_block (take k ts)) code = map_of (take k ts) code" by (simp add: find_option_block)
  moreover have "length (opt_block (take k ts)) \<le> max_len"
    using k(3) assms(2) by (cases "k > 0") (simp_all add: opt_block_def)
  moreover have "k < length ts \<longrightarrow> length (opt_block (take (Suc k) ts)) > max_len" using k(4) by (auto simp: opt_block_def)
  ultimately show ?thesis using k(1) unfolding c by blast
qed

theorem cap_vendor_area_exact_witness:
  "\<exists>k \<le> length [(1 :: u8, [255, 255, 255, 0 :: u8]), (12, replicate 60 65)].
     cap_vendor_area (opt_block [(1, [255, 255, 255, 0]), (12, replicate 60 65)]) 64
       = opt_block (take k [(1, [255, 255, 255, 0]), (12, replicate 60 65)])"
proof -
  have "opts_ok [(1, [255, 255, 255, 0]), (12, replicate 60 65)]" by (simp add: option_codes)
  from cap_vendor_area_exact [OF this, of 64] show ?thesis by auto
qed

section \<open>The wire format\<close>

definition packet_ok :: "dhcp_packet \<Rightarrow> bool" where
  "packet_ok pkt \<longleftrightarrow> length (bp_chaddr pkt) = 16 \<and> length (bp_sname pkt) = 64 \<and> length (bp_file pkt) = 128"

lemma be32_at_append:
  "length pre = i \<Longrightarrow> be32_at (pre @ to_be32 x @ post) i = x"
proof -
  assume "length pre = i"
  then have "be32_at (pre @ to_be32 x @ post) i = from_be32 (to_be32 x ! 0) (to_be32 x ! 1) (to_be32 x ! 2) (to_be32 x ! 3)"
    by (simp add: be32_at_def nth_append to_be32_def)
  then show ?thesis using from_to_be32 [of x] by (simp add: to_be32_def)
qed

lemma be16_at_append:
  "length pre = i \<Longrightarrow> from_be16 ((pre @ to_be16 x @ post) ! i) ((pre @ to_be16 x @ post) ! Suc i) = x"
  by (simp add: nth_append to_be16_def)

text \<open>The octets in front of the options, field by field.\<close>

definition packet_head :: "dhcp_packet \<Rightarrow> u8 list" where
  "packet_head pkt =
     [bp_op pkt, bp_htype pkt, bp_hlen pkt, bp_hops pkt] @ to_be32 (bp_xid pkt) @ to_be16 (bp_secs pkt)
       @ to_be16 (bp_flags pkt) @ octets4 (bp_ciaddr pkt) @ octets4 (bp_yiaddr pkt) @ octets4 (bp_siaddr pkt)
       @ octets4 (bp_giaddr pkt) @ bp_chaddr pkt @ bp_sname pkt @ bp_file pkt @ to_be32 DHCP_COOKIE"

lemma parse_packet_head:
  assumes "packet_ok pkt"
  shows "parse_dhcp_packet (packet_head pkt @ rest) = Some (pkt\<lparr>bp_options := rest\<rparr>)"
proof -
  let ?d = "packet_head pkt @ rest"
  have l: "length (packet_head pkt) = 240" using assms by (simp add: packet_ok_def packet_head_def)
  have a: "be32_at ?d 4 = bp_xid pkt" "be32_at ?d 12 = bp_ciaddr pkt" "be32_at ?d 16 = bp_yiaddr pkt"
    "be32_at ?d 20 = bp_siaddr pkt" "be32_at ?d 24 = bp_giaddr pkt"
    by (simp_all add: packet_head_def be32_at_def to_be32_def to_be16_def octets4_def)
  have s: "from_be16 (?d ! 8) (?d ! 9) = bp_secs pkt" "from_be16 (?d ! 10) (?d ! 11) = bp_flags pkt"
    by (simp_all add: packet_head_def to_be32_def to_be16_def)
  have h: "?d ! 0 = bp_op pkt" "?d ! 1 = bp_htype pkt" "?d ! 2 = bp_hlen pkt" "?d ! 3 = bp_hops pkt"
    by (simp_all add: packet_head_def)
  let ?front = "[bp_op pkt, bp_htype pkt, bp_hlen pkt, bp_hops pkt] @ to_be32 (bp_xid pkt) @ to_be16 (bp_secs pkt)
       @ to_be16 (bp_flags pkt) @ octets4 (bp_ciaddr pkt) @ octets4 (bp_yiaddr pkt) @ octets4 (bp_siaddr pkt) @ octets4 (bp_giaddr pkt)"
  have f: "length ?front = 28" by simp
  have d1: "?d = ?front @ bp_chaddr pkt @ bp_sname pkt @ bp_file pkt @ to_be32 DHCP_COOKIE @ rest" by (simp add: packet_head_def)
  have c: "take 16 (drop 28 ?d) = bp_chaddr pkt" "take 64 (drop 44 ?d) = bp_sname pkt" "take 128 (drop 108 ?d) = bp_file pkt"
    using assms unfolding d1 packet_ok_def by (simp_all only: drop_append f) simp_all
  have k: "be32_at ?d 236 = DHCP_COOKIE"
    using be32_at_append [of "?front @ bp_chaddr pkt @ bp_sname pkt @ bp_file pkt" 236 DHCP_COOKIE rest] assms
    by (simp add: packet_head_def packet_ok_def)
  have "240 \<le> length ?d" "drop 240 ?d = rest" using l by simp_all
  then show ?thesis
    unfolding parse_dhcp_packet_def a s h c k by (auto intro: dhcp_packet.equality)
qed

lemma end_and_pad_block:
  "end_and_pad head (opt_block ts) = head @ opt_block ts @ replicate (300 - length (head @ opt_block ts)) 0"
  by (simp add: end_and_pad_def opt_block_def Let_def)

lemma find_option_padded: "opts_ok ts \<Longrightarrow> find_option (opt_block ts @ pad) code = map_of ts code"
  using find_option_encode [of ts "OPTION_END # pad" code] by (simp add: opt_block_def option_codes split: option.split)

lemma parse_padded_block:
  assumes "packet_ok pkt"
  obtains pad where "parse_dhcp_packet (end_and_pad (packet_head pkt) (opt_block ts)) = Some (pkt\<lparr>bp_options := opt_block ts @ pad\<rparr>)"
    "300 \<le> length (end_and_pad (packet_head pkt) (opt_block ts))"
  using that [of "replicate (300 - length (packet_head pkt @ opt_block ts)) 0"] parse_packet_head [OF assms]
  unfolding end_and_pad_block by simp

text \<open>C37: a packet whose fields have their fixed sizes is read back from its wire format: every field of the header
  is the same, and its options, when they form a block, are found with the same values; the packet has the
  minimum size of 300 octets.\<close>

theorem dhcp_wire_round_trip:
  assumes "packet_ok pkt" "bp_options pkt = opt_block ts" "opts_ok ts"
  shows "\<exists>pad. parse_dhcp_packet (dhcp_packet_to_wire pkt) = Some (pkt\<lparr>bp_options := bp_options pkt @ pad\<rparr>)
    \<and> (\<forall>code. find_option (bp_options pkt @ pad) code = map_of ts code)
    \<and> 300 \<le> length (dhcp_packet_to_wire pkt)"
proof -
  have w: "dhcp_packet_to_wire pkt = end_and_pad (packet_head pkt) (opt_block ts)"
    by (simp add: dhcp_packet_to_wire_def packet_head_def assms(2))
  from parse_padded_block [OF assms(1), of ts] obtain pad where
    "parse_dhcp_packet (dhcp_packet_to_wire pkt) = Some (pkt\<lparr>bp_options := bp_options pkt @ pad\<rparr>)"
    "300 \<le> length (dhcp_packet_to_wire pkt)" unfolding w assms(2) by blast
  then show ?thesis using find_option_padded [OF assms(3)] by (auto simp: assms(2))
qed

definition demo_dhcp_packet :: dhcp_packet where
  "demo_dhcp_packet =
     \<lparr>bp_op = 1, bp_htype = 1, bp_hlen = 6, bp_hops = 0, bp_xid = 7, bp_secs = 0, bp_flags = 0, bp_ciaddr = 0, bp_yiaddr = 0,
      bp_siaddr = 0, bp_giaddr = 0, bp_chaddr = [1, 2, 3, 4, 5, 6] @ replicate 10 0, bp_sname = replicate 64 0,
      bp_file = replicate 128 0, bp_options = opt_block [(53, [3]), (50, [10, 0, 0, 5])]\<rparr>"

theorem dhcp_wire_round_trip_witness:
  "\<exists>pad. parse_dhcp_packet (dhcp_packet_to_wire demo_dhcp_packet)
       = Some (demo_dhcp_packet\<lparr>bp_options := bp_options demo_dhcp_packet @ pad\<rparr>)
     \<and> find_option (bp_options demo_dhcp_packet @ pad) 50 = Some [10, 0, 0, 5]"
  using dhcp_wire_round_trip [of demo_dhcp_packet "[(53, [3]), (50, [10, 0, 0, 5])]"]
  by (force simp: demo_dhcp_packet_def packet_ok_def option_codes)

end
