(* ===== verification/Dhcp_Options.thy ===== *)
theory Dhcp_Options
  imports Dhcp_Packet
begin

unbundle bit_operations_syntax

text \<open>
  Configured options of the DHCPv4 server: which of them apply to a client (\<open>option_filter\<close>,
  \<open>match_bytes\<close> of \<open>src/dhcp_common.rs\<close>) and how they are written into a reply (\<open>do_options\<close> and its
  helpers of \<open>src/rfc2131.rs\<close>). A list that the source marks in place is returned.
\<close>

section \<open>Configured options\<close>

definition DHOPT_ADDR :: u32 where "DHOPT_ADDR = 0x1"
definition DHOPT_STRING :: u32 where "DHOPT_STRING = 0x2"
definition DHOPT_ENCAPSULATE :: u32 where "DHOPT_ENCAPSULATE = 0x4"
definition DHOPT_FORCE :: u32 where "DHOPT_FORCE = 0x10"
definition DHOPT_VENDOR :: u32 where "DHOPT_VENDOR = 0x100"
definition DHOPT_HEX :: u32 where "DHOPT_HEX = 0x200"
definition DHOPT_VENDOR_MATCH :: u32 where "DHOPT_VENDOR_MATCH = 0x400"
definition DHOPT_RFC3925 :: u32 where "DHOPT_RFC3925 = 0x800"
definition DHOPT_TAGOK :: u32 where "DHOPT_TAGOK = 0x1000"
definition DHOPT_PXE_OPT :: u32 where "DHOPT_PXE_OPT = 0x8000"

lemmas dhopt_flags = DHOPT_ADDR_def DHOPT_STRING_def DHOPT_ENCAPSULATE_def DHOPT_FORCE_def DHOPT_VENDOR_def DHOPT_HEX_def
  DHOPT_VENDOR_MATCH_def DHOPT_RFC3925_def DHOPT_TAGOK_def DHOPT_PXE_OPT_def

record dhcp_opt =
  op_opt :: int
  op_flags :: u32
  op_val :: "u8 list option"
  op_netid :: "netid list"
  op_encap :: int
  op_vendor_class :: "u8 list option"

definition has_flag :: "u32 \<Rightarrow> dhcp_opt \<Rightarrow> bool" where
  "has_flag f o1 \<longleftrightarrow> op_flags o1 AND f \<noteq> 0"

definition add_flag :: "u32 \<Rightarrow> dhcp_opt \<Rightarrow> dhcp_opt" where
  "add_flag f o1 = o1\<lparr>op_flags := op_flags o1 OR f\<rparr>"

definition remove_flag :: "u32 \<Rightarrow> dhcp_opt \<Rightarrow> dhcp_opt" where
  "remove_flag f o1 = o1\<lparr>op_flags := op_flags o1 AND NOT f\<rparr>"

text \<open>\<open>hay.windows(n).any(|w| w == needle)\<close> for a needle of \<open>n > 0\<close> octets.\<close>

definition has_window :: "'a list \<Rightarrow> 'a list \<Rightarrow> bool" where
  "has_window hay needle =
     list_ex (\<lambda>i. take (length needle) (drop i hay) = needle) [0..<length hay + 1 - length needle]"

text \<open>The scan advances by at least one octet, since the value is not empty.\<close>

function scan_for :: "nat \<Rightarrow> nat \<Rightarrow> u8 list \<Rightarrow> u8 list \<Rightarrow> bool" where
  "scan_for step i val data =
     (if i + length val > length data \<or> step = 0 then False
      else if take (length val) (drop i data) = val then True
      else scan_for step (i + step) val data)"
  by pat_completeness auto
termination by (relation "measure (\<lambda>(step, i, val, data). length data + 1 - i)") auto

declare scan_for.simps [simp del]

definition match_bytes :: "dhcp_opt \<Rightarrow> u8 list \<Rightarrow> bool" where
  "match_bytes opt data =
     (case op_val opt of
        None \<Rightarrow> True
      | Some val \<Rightarrow>
          if val = [] then True
          else if length val > length data then False
          else if has_flag DHOPT_HEX opt then memcmp_masked val data 0xFFFFFFFF \<noteq> 0
          else scan_for (if has_flag DHOPT_STRING opt then 1 else length val) 0 val data)"

definition pxe_ok :: "dhcp_opt \<Rightarrow> nat \<Rightarrow> bool" where
  "pxe_ok opt pxemode = (if has_flag DHOPT_PXE_OPT opt then pxemode \<noteq> 0 else pxemode \<noteq> 2)"

definition ENCAP_MASK :: u32 where
  "ENCAP_MASK = DHOPT_ENCAPSULATE OR DHOPT_VENDOR OR DHOPT_RFC3925"

definition tag_matching :: "nat \<Rightarrow> netid list \<Rightarrow> dhcp_opt \<Rightarrow> dhcp_opt" where
  "tag_matching pxemode tagif o0 =
     (let opt = remove_flag DHOPT_TAGOK o0
      in if has_flag ENCAP_MASK opt then opt
         else if op_netid opt \<noteq> [] \<and> match_netid_wild (op_netid opt) tagif \<and> pxe_ok opt pxemode
         then add_flag DHOPT_TAGOK opt else opt)"

definition untag_failing :: "netid list \<Rightarrow> dhcp_opt \<Rightarrow> dhcp_opt" where
  "untag_failing tagif_ctx opt =
     (if has_flag ENCAP_MASK opt \<or> \<not> has_flag DHOPT_TAGOK opt then opt
      else if op_netid opt = [] \<or> match_netid_wild (op_netid opt) tagif_ctx then opt
      else remove_flag DHOPT_TAGOK opt)"

definition tag_context :: "nat \<Rightarrow> netid list \<Rightarrow> int set \<Rightarrow> dhcp_opt \<Rightarrow> dhcp_opt" where
  "tag_context pxemode tagif_ctx codes opt =
     (if has_flag (ENCAP_MASK OR DHOPT_TAGOK) opt then opt
      else if op_netid opt \<noteq> [] \<and> match_netid_wild (op_netid opt) tagif_ctx \<and> pxe_ok opt pxemode \<and> op_opt opt \<notin> codes
      then add_flag DHOPT_TAGOK opt else opt)"

definition tag_untagged :: "nat \<Rightarrow> int set \<Rightarrow> dhcp_opt \<Rightarrow> dhcp_opt" where
  "tag_untagged pxemode codes opt =
     (if has_flag (ENCAP_MASK OR DHOPT_TAGOK) opt then opt
      else if op_netid opt \<noteq> [] then opt
      else if pxe_ok opt pxemode \<and> op_opt opt \<notin> codes then add_flag DHOPT_TAGOK opt else opt)"

fun keep_first :: "int set \<Rightarrow> dhcp_opt list \<Rightarrow> dhcp_opt list" where
  "keep_first seen [] = []"
| "keep_first seen (opt # opts) =
     (if has_flag DHOPT_TAGOK opt
      then (if op_opt opt \<in> seen then remove_flag DHOPT_TAGOK opt else opt) # keep_first (insert (op_opt opt) seen) opts
      else opt # keep_first seen opts)"

definition option_filter ::
    "netid list \<Rightarrow> netid list option \<Rightarrow> dhcp_opt list \<Rightarrow> nat \<Rightarrow> tag_if list \<Rightarrow> netid list \<times> dhcp_opt list" where
  "option_filter tags context_tags opts pxemode tag_rules =
     (let tagif = run_tag_if tags tag_rules;
          opts1 = map (tag_matching pxemode tagif) opts;
          opts2 = (case context_tags of
                     None \<Rightarrow> opts1
                   | Some ctx \<Rightarrow>
                       let tagif_ctx = run_tag_if (ctx @ tagif) tag_rules;
                           o1 = map (untag_failing tagif_ctx) opts1;
                           codes = set (map op_opt (filter (has_flag DHOPT_TAGOK) o1))
                       in map (tag_context pxemode tagif_ctx codes) o1);
          tagged = set (map op_opt (filter (\<lambda>opt. has_flag DHOPT_TAGOK opt \<and> op_netid opt \<noteq> []) opts2))
      in (tagif, keep_first {} (map (tag_untagged pxemode tagged) opts2)))"

section \<open>Writing options into a reply\<close>

function chunks :: "nat \<Rightarrow> 'a list \<Rightarrow> 'a list list" where
  "chunks n xs = (if xs = [] \<or> n = 0 then [] else take n xs # chunks n (drop n xs))"
  by pat_completeness auto
termination by (relation "measure (\<lambda>(n, xs). length xs)") auto

declare chunks.simps [simp del]

definition opt_raw :: "dhcp_opt \<Rightarrow> u8 list" where
  "opt_raw opt = (case op_val opt of None \<Rightarrow> [] | Some v \<Rightarrow> v)"

definition do_opt_len :: "dhcp_opt \<Rightarrow> bool \<Rightarrow> nat" where
  "do_opt_len opt null_term =
     (if has_flag DHOPT_STRING opt \<and> null_term \<and> length (opt_raw opt) < 255
      then length (opt_raw opt) + 1 else length (opt_raw opt))"

text \<open>The data octets, written into a buffer of zeros of the length above.\<close>

definition do_opt :: "dhcp_opt \<Rightarrow> ipv4 option \<Rightarrow> bool \<Rightarrow> u8 list" where
  "do_opt opt local null_term =
     (let raw = opt_raw opt; len = do_opt_len opt null_term; buf = raw @ replicate (len - length raw) 0
      in if len = 0 then []
         else (case (if has_flag DHOPT_ADDR opt then local else None) of
                 Some l \<Rightarrow>
                   concat (map (\<lambda>chunk. if chunk = [0, 0, 0, 0] then octets4 l else chunk) (chunks 4 raw))
                     @ replicate (len - length raw) 0
               | None \<Rightarrow> if has_flag DHOPT_STRING opt \<and> null_term then buf[len - 1 := 0] else buf))"

definition match_vendor_opt :: "u8 list option \<Rightarrow> dhcp_opt \<Rightarrow> dhcp_opt" where
  "match_vendor_opt vc_data o0 =
     (let opt = remove_flag DHOPT_VENDOR_MATCH o0
      in if \<not> has_flag DHOPT_VENDOR opt then opt
         else (case vc_data of
                 None \<Rightarrow> opt
               | Some haystack \<Rightarrow>
                   let needle = (case op_vendor_class opt of None \<Rightarrow> [] | Some vc \<Rightarrow> vc)
                   in if needle = [] \<or> has_window haystack needle then add_flag DHOPT_VENDOR_MATCH opt else opt))"

definition match_vendor_opts :: "u8 list option \<Rightarrow> dhcp_opt list \<Rightarrow> dhcp_opt list" where
  "match_vendor_opts vc_data opts = map (match_vendor_opt vc_data) opts"

definition do_encap_opts :: "dhcp_opt list \<Rightarrow> u8 \<Rightarrow> u32 \<Rightarrow> u8 list \<Rightarrow> bool \<Rightarrow> bool \<times> u8 list" where
  "do_encap_opts config_opts encap flag opts null_term =
     (let matching = filter (has_flag flag) config_opts
      in if matching = [] then (False, opts)
         else let inner = concat (map (\<lambda>o1. [word_of_int (op_opt o1), word_of_nat (do_opt_len o1 null_term)]
                                          @ do_opt o1 None null_term) matching) @ [OPTION_END]
              in (True, fold (\<lambda>chunk b. append_opt b encap chunk) (chunks 255 inner) opts))"

definition prune_vendor_opts :: "dhcp_opt list \<Rightarrow> netid list \<Rightarrow> bool \<times> dhcp_opt list" where
  "prune_vendor_opts opts netid =
     (list_ex (\<lambda>opt. has_flag DHOPT_VENDOR_MATCH opt \<and> match_netid netid (op_netid opt) \<and> has_flag DHOPT_FORCE opt) opts,
      map (\<lambda>opt. if has_flag DHOPT_VENDOR_MATCH opt \<and> \<not> match_netid netid (op_netid opt)
                 then remove_flag DHOPT_VENDOR_MATCH opt else opt) opts)"

definition pxe_misc :: "u8 list \<Rightarrow> u8 list option \<Rightarrow> rstr option \<Rightarrow> u8 list" where
  "pxe_misc opts uuid pxevendor =
     (let opts1 = append_opt opts OPTION_VENDOR_ID (case pxevendor of None \<Rightarrow> str_lit ''PXEClient'' | Some v \<Rightarrow> v)
      in (case uuid of
            None \<Rightarrow> opts1
          | Some u \<Rightarrow> if length u = 17 then append_opt opts1 OPTION_PXE_UUID u else opts1))"

record dhcp_boot =
  bt_file :: "rstr option"
  bt_sname :: "rstr option"
  bt_tftp_sname :: "rstr option"
  bt_next_server :: ipv4
  bt_netid :: "netid list"

record do_options_config =
  od_context :: "dhcp_context option"
  od_req_options :: "u8 list option"
  od_hostname :: "rstr option"
  od_domain :: "rstr option"
  od_netid :: "netid list"
  od_subnet_addr :: "ipv4 option"
  od_fqdn_flags :: u8
  od_null_term :: bool
  od_pxe_arch :: int
  od_uuid :: "u8 list option"
  od_vendor_class :: "u8 list option"
  od_lease_time :: u32
  od_fuzz :: u16
  od_pxevendor :: "rstr option"
  od_config_opts :: "dhcp_opt list"
  od_boot :: "dhcp_boot option"
  od_dns_port :: u16
  od_leasequery :: bool

definition sat_sub :: "u32 \<Rightarrow> u32 \<Rightarrow> u32" where
  "sat_sub a b = (if a < b then 0 else a - b)"

fun halve_fuzz :: "nat \<Rightarrow> nat \<Rightarrow> nat" where
  "halve_fuzz limit fuzz = (if fuzz > limit then halve_fuzz limit (fuzz div 2) else fuzz)"

declare halve_fuzz.simps [simp del]

text \<open>The renewal time of an option entry overrides the default when it lies between 2 and the lease time.\<close>

definition override_timer :: "u8 \<Rightarrow> u32 \<Rightarrow> dhcp_opt \<Rightarrow> u32 \<Rightarrow> u32" where
  "override_timer code lt opt t =
     (case op_val opt of
        None \<Rightarrow> t
      | Some v \<Rightarrow>
          if op_opt opt = int (unat code) \<and> length v \<ge> 4 \<and> ipv4_of v > 2 \<and> ipv4_of v < lt then ipv4_of v else t)"

definition lease_timers :: "u32 \<Rightarrow> dhcp_opt list \<Rightarrow> u16 \<Rightarrow> u32 \<times> u32" where
  "lease_timers lt config_opts fuzz =
     (let t1 = fold (override_timer OPTION_T1 lt) config_opts (lt div 2);
          t2 = fold (override_timer OPTION_T2 lt) config_opts (word_of_nat (unat lt * 7 div 8));
          t1 = (if t2 \<le> t1 then sat_sub t2 1 else t1);
          f = word_of_nat (halve_fuzz (unat (t1 div 8)) (unat fuzz))
      in (sat_sub t1 f, sat_sub t2 f))"

text \<open>The parts of \<open>do_options\<close>, in its order.\<close>

definition put_timers :: "do_options_config \<Rightarrow> u8 list \<Rightarrow> u8 list" where
  "put_timers cfg opts =
     (if od_lease_time cfg = 0xFFFFFFFF then opts
      else (case lease_timers (od_lease_time cfg) (od_config_opts cfg) (od_fuzz cfg) of
              (t1, t2) \<Rightarrow> option_put (option_put opts OPTION_T1 t1 4) OPTION_T2 t2 4))"

definition put_new :: "bool \<Rightarrow> u8 \<Rightarrow> u32 \<Rightarrow> u8 list \<Rightarrow> u8 list" where
  "put_new wanted code val opts = (if wanted \<and> \<not> has_opt_raw opts code then option_put opts code val 4 else opts)"

definition put_context_opts :: "do_options_config \<Rightarrow> u8 list \<Rightarrow> u8 list" where
  "put_context_opts cfg opts =
     (case od_context cfg of
        None \<Rightarrow> opts
      | Some ctx \<Rightarrow>
          let req = in_list (od_req_options cfg);
              o1 = put_new (\<not> od_leasequery cfg \<or> req OPTION_NETMASK) OPTION_NETMASK (cx_netmask ctx) opts;
              o2 = put_new (cx_broadcast ctx \<noteq> 0 \<and> (\<not> od_leasequery cfg \<or> req OPTION_BROADCAST))
                     OPTION_BROADCAST (cx_broadcast ctx) o1;
              o3 = put_new (cx_router ctx \<noteq> 0 \<and> req OPTION_ROUTER) OPTION_ROUTER (cx_router ctx) o2
          in put_new (od_dns_port cfg = 53 \<and> req OPTION_DNSSERVER) OPTION_DNSSERVER (cx_local ctx) o3)"

definition put_domain :: "do_options_config \<Rightarrow> u8 list \<Rightarrow> u8 list" where
  "put_domain cfg opts =
     (case od_domain cfg of
        None \<Rightarrow> opts
      | Some domain \<Rightarrow>
          if in_list (od_req_options cfg) OPTION_DOMAINNAME \<and> \<not> has_opt_raw opts OPTION_DOMAINNAME
          then option_put_string opts OPTION_DOMAINNAME domain (od_null_term cfg) else opts)"

definition fqdn_data :: "do_options_config \<Rightarrow> rstr \<Rightarrow> u8 list" where
  "fqdn_data cfg hostname =
     [od_fqdn_flags cfg AND 0x0F, 0xFF, 0xFF]
       @ (case od_domain cfg of None \<Rightarrow> hostname | Some domain \<Rightarrow> hostname @ [DOT] @ domain)
       @ (if od_null_term cfg then [0] else [])"

definition put_hostname :: "do_options_config \<Rightarrow> u8 list \<Rightarrow> u8 list" where
  "put_hostname cfg opts =
     (case od_hostname cfg of
        None \<Rightarrow> opts
      | Some hostname \<Rightarrow>
          let o1 = (if in_list (od_req_options cfg) OPTION_HOSTNAME \<and> \<not> has_opt_raw opts OPTION_HOSTNAME
                    then option_put_string opts OPTION_HOSTNAME hostname (od_null_term cfg) else opts)
          in if od_fqdn_flags cfg \<noteq> 0 then append_opt o1 OPTION_CLIENT_FQDN (fqdn_data cfg hostname) else o1)"

definition skip_set :: "u8 set" where
  "skip_set = {OPTION_CLIENT_FQDN, OPTION_MAXMESSAGE, OPTION_OVERLOAD, OPTION_PAD, OPTION_END, OPTION_T1, OPTION_T2}"

definition suppressible :: "u8 set" where
  "suppressible = {OPTION_NETMASK, OPTION_BROADCAST, OPTION_ROUTER, OPTION_DNSSERVER, OPTION_DOMAINNAME, OPTION_HOSTNAME}"

definition put_config_opt :: "do_options_config \<Rightarrow> dhcp_opt \<Rightarrow> u8 list \<Rightarrow> u8 list" where
  "put_config_opt cfg opt opts =
     (let code = word_of_int (op_opt opt); local = map_option cx_local (od_context cfg);
          null_term = (od_null_term cfg \<or> code = OPTION_SNAME \<or> code = OPTION_FILENAME)
      in if \<not> has_flag DHOPT_TAGOK opt then opts
         else if (\<not> has_flag DHOPT_FORCE opt \<or> od_leasequery cfg) \<and> \<not> in_list (od_req_options cfg) code then opts
         else if code \<in> skip_set then opts
         else if code = OPTION_VENDOR_ID \<and> od_pxe_arch cfg \<noteq> - 1 then opts
         else if opt_raw opt = [] \<and> code \<in> suppressible then opts
         else drop_end opts @ [code, word_of_nat (do_opt_len opt null_term)] @ do_opt opt local null_term @ [OPTION_END])"

text \<open>The option block and the marks on the configured options after \<open>do_options\<close>.\<close>

definition do_options :: "u8 list \<Rightarrow> do_options_config \<Rightarrow> u8 list \<times> dhcp_opt list" where
  "do_options opts cfg =
     (let o1 = put_context_opts cfg (put_timers cfg opts);
          o2 = (case od_subnet_addr cfg of None \<Rightarrow> o1 | Some sa \<Rightarrow> option_put o1 OPTION_SUBNET_SELECT sa 4);
          o3 = put_hostname cfg (put_domain cfg o2);
          config_opts = match_vendor_opts (od_vendor_class cfg) (od_config_opts cfg);
          o4 = fold (put_config_opt cfg) config_opts o3;
          (force_encap, pruned) = prune_vendor_opts config_opts (od_netid cfg);
          o5 = (if \<not> od_leasequery cfg \<and> (force_encap \<or> in_list (od_req_options cfg) OPTION_VENDOR_CLASS_OPT
                                          \<or> in_list (od_req_options cfg) OPTION_VENDOR_ID)
                then snd (do_encap_opts pruned OPTION_VENDOR_CLASS_OPT DHOPT_VENDOR_MATCH o4 (od_null_term cfg)) else o4)
      in (if od_pxe_arch cfg \<noteq> - 1 then pxe_misc o5 (od_uuid cfg) (od_pxevendor cfg) else o5, pruned))"

definition calc_time :: "u32 \<Rightarrow> u32 option \<Rightarrow> u32 option \<Rightarrow> u32" where
  "calc_time context_time config_time requested =
     (let time = (case config_time of None \<Rightarrow> context_time | Some t \<Rightarrow> t)
      in (case requested of
            None \<Rightarrow> time
          | Some r \<Rightarrow>
              let req = (if r < 120 then 120 else r)
              in if time = 0xFFFFFFFF \<or> (req \<noteq> 0xFFFFFFFF \<and> req < time) then req else time))"

definition is_pxe_client :: "u8 list option \<Rightarrow> bool" where
  "is_pxe_client vendor_class =
     (case vendor_class of None \<Rightarrow> False | Some vc \<Rightarrow> starts_with vc (str_lit ''PXEClient''))"

definition find_boot :: "dhcp_boot list \<Rightarrow> netid option \<Rightarrow> dhcp_boot option" where
  "find_boot boot_configs netid =
     opt_or (case netid of None \<Rightarrow> None | Some tag \<Rightarrow> find (\<lambda>b. tag \<in> set (bt_netid b)) boot_configs)
       (find (\<lambda>b. bt_netid b = []) boot_configs)"

section \<open>Options stay a block\<close>

text \<open>
  Every part of \<open>do_options\<close> appends options to the block, so that what the block answered before it
  still answers. The condition is that no value is longer than its length octet can say.
\<close>

definition extends :: "opt_list \<Rightarrow> u8 list \<Rightarrow> bool" where
  "extends ts opts \<longleftrightarrow> (\<exists>us. opts_ok us \<and> opts = opt_block (ts @ us))"

lemma extends_refl: "extends ts (opt_block ts)"
  unfolding extends_def by (intro exI [of _ "[]"]) simp

lemma extends_append:
  assumes "extends ts opts" "code \<noteq> OPTION_PAD" "code \<noteq> OPTION_END" "length d \<le> 255"
  shows "extends ts (drop_end opts @ [code, word_of_nat (length d)] @ d @ [OPTION_END])"
proof -
  from assms(1) obtain us where us: "opts_ok us" "opts = opt_block (ts @ us)" unfolding extends_def by blast
  then have "drop_end opts @ [code, word_of_nat (length d)] @ d @ [OPTION_END] = opt_block (ts @ (us @ [(code, d)]))"
    by (simp add: opt_block_def [of "ts @ us @ _"])
  moreover have "opts_ok (us @ [(code, d)])" using us(1) assms(2-4) by simp
  ultimately show ?thesis unfolding extends_def by blast
qed

lemma extends_put:
  assumes "extends ts opts" "code \<noteq> OPTION_PAD" "code \<noteq> OPTION_END"
  shows "extends ts (option_put opts code val 4)" "extends ts (option_put_string opts code s nt)"
    "extends ts (option_put_raw opts code data)" "length data \<le> 255 \<Longrightarrow> extends ts (append_opt opts code data)"
    "extends ts (put_new w code val opts)"
proof -
  have p: "extends ts (option_put opts code val 4)"
    using extends_append [OF assms, of "map (\<lambda>i. ucast (drop_bit (8 * i) val)) (rev [0..<4])"]
    by (simp add: option_put_def)
  then show "extends ts (option_put opts code val 4)" "extends ts (put_new w code val opts)"
    using assms(1) by (simp_all add: put_new_def)
  show "extends ts (append_opt opts code data)" if "length data \<le> 255"
    using extends_append [OF assms that] by (simp add: append_opt_def)
  have "take (min (length data) 255) data = take 255 data" by (cases "length data \<le> 255") simp_all
  then show "extends ts (option_put_raw opts code data)"
    using extends_append [OF assms, of "take 255 data"] by (simp add: option_put_raw_def Let_def min.commute)
  show "extends ts (option_put_string opts code s nt)"
  proof (cases "nt \<and> length s < 255")
    case True
    then show ?thesis using extends_append [OF assms, of "s @ [0]"] by (simp add: option_put_string_def Let_def)
  next
    case False
    then have "option_put_string opts code s nt
        = drop_end opts @ [code, word_of_nat (length (take 255 s))] @ take 255 s @ [OPTION_END]"
      by (cases "length s \<le> 255") (auto simp: option_put_string_def Let_def min_def)
    then show ?thesis using extends_append [OF assms, of "take 255 s"] by simp
  qed
qed

lemma chunks_length: "c \<in> set (chunks n xs) \<Longrightarrow> length c \<le> n"
proof (induction n xs rule: chunks.induct)
  case (1 n xs)
  from 1(2) show ?case using 1(1) unfolding chunks.simps [of n xs] by (auto split: if_splits)
qed

lemma length_concat_chunks:
  assumes "0 < n" "\<And>c. length (f c) = length c"
  shows "length (concat (map f (chunks n xs))) = length xs"
  using assms(1)
proof (induction n xs rule: chunks.induct)
  case (1 n xs)
  show ?case
  proof (cases "xs = []")
    case False
    with 1 have "length (concat (map f (chunks n (drop n xs)))) = length (drop n xs)" by simp
    with False 1(2) show ?thesis by (subst chunks.simps) (simp add: assms(2))
  qed (simp add: chunks.simps)
qed

lemma length_do_opt: "length (do_opt opt local null_term) = do_opt_len opt null_term"
proof -
  have "length (concat (map (\<lambda>chunk. if chunk = [0, 0, 0, 0] then octets4 l else chunk) (chunks 4 (opt_raw opt)))) = length (opt_raw opt)"
    for l by (rule length_concat_chunks) auto
  then show ?thesis by (auto simp: do_opt_def Let_def do_opt_len_def split: option.split)
qed

definition values_fit :: "do_options_config \<Rightarrow> bool" where
  "values_fit cfg \<longleftrightarrow>
     list_all (\<lambda>opt. length (opt_raw opt) \<le> 255) (od_config_opts cfg)
     \<and> (case od_hostname cfg of None \<Rightarrow> True | Some h \<Rightarrow> od_fqdn_flags cfg = 0 \<or> length (fqdn_data cfg h) \<le> 255)
     \<and> (case od_pxevendor cfg of None \<Rightarrow> True | Some v \<Rightarrow> length v \<le> 255)"

lemma codes_not_marker:
  "OPTION_T1 \<noteq> OPTION_PAD" "OPTION_T1 \<noteq> OPTION_END" "OPTION_T2 \<noteq> OPTION_PAD" "OPTION_T2 \<noteq> OPTION_END"
  "OPTION_NETMASK \<noteq> OPTION_PAD" "OPTION_NETMASK \<noteq> OPTION_END" "OPTION_BROADCAST \<noteq> OPTION_PAD" "OPTION_BROADCAST \<noteq> OPTION_END"
  "OPTION_ROUTER \<noteq> OPTION_PAD" "OPTION_ROUTER \<noteq> OPTION_END" "OPTION_DNSSERVER \<noteq> OPTION_PAD" "OPTION_DNSSERVER \<noteq> OPTION_END"
  "OPTION_DOMAINNAME \<noteq> OPTION_PAD" "OPTION_DOMAINNAME \<noteq> OPTION_END" "OPTION_HOSTNAME \<noteq> OPTION_PAD" "OPTION_HOSTNAME \<noteq> OPTION_END"
  "OPTION_CLIENT_FQDN \<noteq> OPTION_PAD" "OPTION_CLIENT_FQDN \<noteq> OPTION_END" "OPTION_SUBNET_SELECT \<noteq> OPTION_PAD" "OPTION_SUBNET_SELECT \<noteq> OPTION_END"
  "OPTION_VENDOR_CLASS_OPT \<noteq> OPTION_PAD" "OPTION_VENDOR_CLASS_OPT \<noteq> OPTION_END" "OPTION_VENDOR_ID \<noteq> OPTION_PAD" "OPTION_VENDOR_ID \<noteq> OPTION_END"
  "OPTION_PXE_UUID \<noteq> OPTION_PAD" "OPTION_PXE_UUID \<noteq> OPTION_END" "OPTION_LEASE_TIME \<noteq> OPTION_PAD" "OPTION_LEASE_TIME \<noteq> OPTION_END"
  "OPTION_AGENT_ID \<noteq> OPTION_PAD" "OPTION_AGENT_ID \<noteq> OPTION_END" "OPTION_CLIENT_ID \<noteq> OPTION_PAD" "OPTION_CLIENT_ID \<noteq> OPTION_END"
  "OPTION_LAST_TRANSACTION \<noteq> OPTION_PAD" "OPTION_LAST_TRANSACTION \<noteq> OPTION_END"
  by (simp_all add: option_codes)

lemma extends_context:
  "extends ts opts \<Longrightarrow> extends ts (put_context_opts cfg (put_timers cfg opts))"
  by (auto simp: put_context_opts_def put_timers_def Let_def codes_not_marker split: option.split prod.split
      intro!: extends_put)

lemma extends_names:
  assumes "extends ts opts" "values_fit cfg"
  shows "extends ts (put_hostname cfg (put_domain cfg opts))"
proof -
  have d: "extends ts (put_domain cfg opts)"
    using assms(1) by (auto simp: put_domain_def codes_not_marker split: option.split intro!: extends_put)
  show ?thesis
  proof (cases "od_hostname cfg")
    case (Some h)
    let ?o1 = "if in_list (od_req_options cfg) OPTION_HOSTNAME \<and> \<not> has_opt_raw (put_domain cfg opts) OPTION_HOSTNAME
       then option_put_string (put_domain cfg opts) OPTION_HOSTNAME h (od_null_term cfg) else put_domain cfg opts"
    have o1: "extends ts ?o1" using d extends_put(2) [OF d, of OPTION_HOSTNAME] by (simp add: codes_not_marker)
    have "od_fqdn_flags cfg = 0 \<or> length (fqdn_data cfg h) \<le> 255" using assms(2) Some by (simp add: values_fit_def)
    then show ?thesis
      unfolding put_hostname_def Some option.case Let_def
      using o1 extends_put(4) [OF o1 codes_not_marker(17,18), of "fqdn_data cfg h"] by presburger
  qed (use d in \<open>simp add: put_hostname_def\<close>)
qed

lemma extends_config_opt:
  assumes "extends ts opts" "length (opt_raw opt) \<le> 255"
  shows "extends ts (put_config_opt cfg opt opts)"
proof -
  let ?c = "word_of_int (op_opt opt) :: u8"
  have "extends ts (drop_end opts @ [?c, word_of_nat (do_opt_len opt nt)] @ do_opt opt local nt @ [OPTION_END])"
    if "?c \<notin> skip_set" for local nt
  proof -
    have "length (do_opt opt local nt) \<le> 255" using assms(2) by (simp add: length_do_opt do_opt_len_def)
    with that extends_append [OF assms(1), of ?c "do_opt opt local nt"] show ?thesis
      by (simp add: skip_set_def length_do_opt)
  qed
  with assms(1) show ?thesis by (simp add: put_config_opt_def Let_def)
qed

lemma extends_config_opts:
  "extends ts opts \<Longrightarrow> list_all (\<lambda>opt. length (opt_raw opt) \<le> 255) copts \<Longrightarrow> extends ts (fold (put_config_opt cfg) copts opts)"
  by (induction copts arbitrary: opts) (simp_all add: extends_config_opt)

lemma extends_encap:
  assumes "extends ts opts"
  shows "extends ts (snd (do_encap_opts copts OPTION_VENDOR_CLASS_OPT flag opts nt))"
proof -
  have "extends ts (fold (\<lambda>chunk b. append_opt b OPTION_VENDOR_CLASS_OPT chunk) cs b)"
    if "\<And>c. c \<in> set cs \<Longrightarrow> length c \<le> 255" "extends ts b" for cs b
    using that by (induction cs arbitrary: b) (simp_all add: extends_put(4) codes_not_marker)
  then have "extends ts (fold (\<lambda>chunk b. append_opt b OPTION_VENDOR_CLASS_OPT chunk) (chunks 255 inner) opts)" for inner
    using assms chunks_length by blast
  then show ?thesis using assms by (simp add: do_encap_opts_def Let_def)
qed

lemma opt_raw_match [simp]: "list_all (\<lambda>opt. length (opt_raw opt) \<le> 255) (match_vendor_opts vc copts)
    \<longleftrightarrow> list_all (\<lambda>opt. length (opt_raw opt) \<le> 255) copts"
proof -
  have "opt_raw (match_vendor_opt vc opt) = opt_raw opt" for opt
    by (simp add: match_vendor_opt_def Let_def opt_raw_def remove_flag_def add_flag_def split: option.split)
  then show ?thesis by (simp add: match_vendor_opts_def list_all_iff)
qed

lemma extends_do_options:
  assumes "extends ts opts" "values_fit cfg"
  shows "extends ts (fst (do_options opts cfg))"
proof -
  let ?o1 = "put_context_opts cfg (put_timers cfg opts)"
  let ?o2 = "case od_subnet_addr cfg of None \<Rightarrow> ?o1 | Some sa \<Rightarrow> option_put ?o1 OPTION_SUBNET_SELECT sa 4"
  let ?m = "match_vendor_opts (od_vendor_class cfg) (od_config_opts cfg)"
  let ?o4 = "fold (put_config_opt cfg) ?m (put_hostname cfg (put_domain cfg ?o2))"
  have o2: "extends ts ?o2" using extends_context [OF assms(1)] extends_put(1) by (simp add: codes_not_marker split: option.split)
  have o4: "extends ts ?o4"
    using extends_config_opts [OF extends_names [OF o2 assms(2)]] assms(2) by (simp add: values_fit_def)
  have p: "extends ts (pxe_misc o5 (od_uuid cfg) (od_pxevendor cfg))" if "extends ts o5" for o5
  proof -
    let ?v = "case od_pxevendor cfg of None \<Rightarrow> str_lit ''PXEClient'' | Some v \<Rightarrow> v"
    have "length ?v \<le> 255" using assms(2) by (cases "od_pxevendor cfg") (simp_all add: values_fit_def str_lit_def)
    then have "extends ts (append_opt o5 OPTION_VENDOR_ID ?v)" using that by (simp add: extends_put(4) codes_not_marker)
    then show ?thesis by (simp add: pxe_misc_def Let_def extends_put(4) codes_not_marker split: option.split)
  qed
  show ?thesis
    using o4 extends_encap [OF o4] p by (simp add: do_options_def Let_def case_prod_unfold)
qed

section \<open>Renewal times\<close>

lemma halve_fuzz_le: "halve_fuzz limit fuzz \<le> limit"
proof (induction limit fuzz rule: halve_fuzz.induct)
  case (1 limit fuzz)
  then show ?case by (subst halve_fuzz.simps) auto
qed

lemma fold_override:
  assumes "t < lt \<or> t = t0"
  shows "fold (override_timer code lt) copts t < lt \<or> fold (override_timer code lt) copts t = t0"
    "fold (override_timer code lt) copts t > 2 \<or> fold (override_timer code lt) copts t = t"
proof -
  have "fold (override_timer code lt) copts t = t \<or> (fold (override_timer code lt) copts t < lt \<and> fold (override_timer code lt) copts t > 2)"
    by (induction copts arbitrary: t) (auto simp: override_timer_def split: option.splits, (metis (no_types, opaque_lifting))+)
  with assms show "fold (override_timer code lt) copts t < lt \<or> fold (override_timer code lt) copts t = t0"
    "fold (override_timer code lt) copts t > 2 \<or> fold (override_timer code lt) copts t = t" by auto
qed

text \<open>C40: the renewal time and the rebinding time sent with a lease are ordered and within the lease time, whatever the
  configured options and the fuzz are; for a lease of at least two seconds the first is strictly earlier.\<close>

theorem lease_timers_bounds:
  "case lease_timers lt copts fuzz of (t1, t2) \<Rightarrow> t1 \<le> t2 \<and> t2 \<le> lt \<and> (lt < 2 \<or> t1 < t2)"
proof -
  define T2 where "T2 = fold (override_timer OPTION_T2 lt) copts (word_of_nat (unat lt * 7 div 8))"
  define T1 where "T1 = (if T2 \<le> fold (override_timer OPTION_T1 lt) copts (lt div 2) then sat_sub T2 1
    else fold (override_timer OPTION_T1 lt) copts (lt div 2))"
  define f :: u32 where "f = word_of_nat (halve_fuzz (unat (T1 div 8)) (unat fuzz))"
  have small: "unat lt * 7 div 8 \<le> unat lt" by simp
  then have d: "unat (word_of_nat (unat lt * 7 div 8) :: u32) = unat lt * 7 div 8"
    unfolding unat_u32_of_nat by (intro mod_less le_less_trans [OF _ unat_u32 [of lt]])
  define D :: u32 where "D = word_of_nat (unat lt * 7 div 8)"
  have "D \<le> lt" using d small by (simp add: D_def word_le_nat_alt)
  moreover have "T2 < lt \<or> T2 = D" "2 < T2 \<or> T2 = D"
    using fold_override [of D lt D OPTION_T2 copts] unfolding T2_def D_def by simp_all
  ultimately have T2: "T2 \<le> lt" by auto
  have pos: "0 < T2" if "2 \<le> lt"
  proof -
    have "1 \<le> unat lt * 7 div 8" using that by (simp add: word_le_nat_alt)
    then have "0 < D" using d by (simp add: D_def word_less_nat_alt)
    with \<open>2 < T2 \<or> T2 = D\<close> show ?thesis by (auto simp: word_less_nat_alt)
  qed
  have "sat_sub T2 1 < T2" if "T2 \<noteq> 0"
    using that by (simp add: sat_sub_def word_less_1 measure_unat word_less_nat_alt unat_gt_0)
  then have T1: "T1 < T2 \<or> T1 = 0 \<and> T2 = 0" by (auto simp: T1_def sat_sub_def)
  have "halve_fuzz (unat (T1 div 8)) (unat fuzz) \<le> unat T1 div 8"
    using halve_fuzz_le [of "unat (T1 div 8)" "unat fuzz"] by (simp add: unat_div)
  then have f: "unat f \<le> unat T1"
    unfolding f_def unat_u32_of_nat by (meson div_le_dividend le_trans mod_less_eq_dividend)
  then have "f \<le> T1" "f \<le> T2" using T1 by (auto simp: word_le_nat_alt word_less_nat_alt)
  then have "unat (sat_sub T1 f) = unat T1 - unat f" "unat (sat_sub T2 f) = unat T2 - unat f"
    by (auto simp: sat_sub_def unat_sub)
  moreover have "lease_timers lt copts fuzz = (sat_sub T1 f, sat_sub T2 f)"
    by (simp add: lease_timers_def Let_def T1_def T2_def f_def)
  moreover have "lt < 2 \<or> 0 < T2" using pos by (cases "2 \<le> lt") auto
  ultimately show ?thesis using T1 T2 f by (auto simp: word_le_nat_alt word_less_nat_alt)
qed

section \<open>Deviations\<close>

text \<open>
  In \<open>memcmp_masked\<close> a set bit of the mask leaves an octet out of the comparison. \<open>match_bytes\<close> compares
  a hexadecimal value with the mask of all ones, so that a value of up to 32 octets matches any data of
  at least its length.
\<close>

lemma masked_loop_all:
  assumes "length ps \<le> n" "n \<le> 32"
  shows "masked_loop ps (mask n) count = count"
  using assms
proof (induction ps arbitrary: n)
  case (Cons p ps)
  obtain x y where p: "p = (x, y)" by (cases p)
  from Cons.prems obtain m where m: "n = Suc m" by (cases n) auto
  have "drop_bit 1 (mask (Suc m) :: u32) = mask m"
    using Cons.prems m by (intro bit_word_eqI) (auto simp: bit_drop_bit_eq bit_mask_iff)
  moreover have "mask (Suc m) AND 1 = (1 :: u32)" by (rule bit_word_eqI) (auto simp: bit_and_iff bit_mask_iff bit_1_iff)
  ultimately show ?case using Cons m by (simp add: p)
qed simp

lemma hex_match_ignores_value:
  assumes "op_val opt = Some val" "length val \<le> length data" "length val \<le> 32" "has_flag DHOPT_HEX opt"
  shows "match_bytes opt data"
proof -
  have "(0xFFFFFFFF :: u32) = mask 32" by (simp add: mask_eq_exp_minus_1)
  then have "memcmp_masked val data 0xFFFFFFFF = 1"
    using masked_loop_all [of "rev (zip val data)" 32 1] assms(2,3) by (simp add: memcmp_masked_def)
  then show ?thesis using assms by (simp add: match_bytes_def)
qed

text \<open>
  \<open>match_netid\<close> finds no common tag in an empty list, so that \<open>prune_vendor_opts\<close> takes the mark from
  every vendor option without tags: such an option is never sent.
\<close>

lemma untagged_vendor_option_pruned:
  assumes "opt \<in> set (snd (prune_vendor_opts opts netid))" "op_netid opt = []"
  shows "\<not> has_flag DHOPT_VENDOR_MATCH opt"
  using assms by (auto simp: prune_vendor_opts_def match_netid_def remove_flag_def has_flag_def list_ex_iff
      and.assoc split: if_splits)

end
