(* ===== verification/Dhcp_Relay.thy ===== *)
theory Dhcp_Relay
  imports Dhcp_Packet
begin

unbundle bit_operations_syntax

text \<open>
  The DHCPv4 relay of \<open>src/rfc2131.rs\<close>: forwarding of requests to the configured servers
  (\<open>relay_upstream4\<close>) and the way back of the replies (\<open>relay_reply4\<close>). The address of an interface and
  its broadcast address, which the source obtains through callbacks, are functions of the interface
  name. A packet that is changed in place is returned.
\<close>

section \<open>Definitions\<close>

record dhcp_relay =
  rl_local_addr :: all_addr
  rl_server_addr :: all_addr
  rl_uplink_addr :: all_addr
  rl_interface :: "rstr option"
  rl_iface_index :: int
  rl_port :: int
  rl_split_mode :: int

record relay_forward =
  rf_dest :: ipv4
  rf_port :: u16
  rf_from :: ipv4
  rf_packet :: dhcp_packet

definition relay_client_to_server :: "dhcp_packet \<Rightarrow> ipv4 \<Rightarrow> bool \<times> dhcp_packet" where
  "relay_client_to_server pkt relay_addr =
     (if bp_hops pkt \<ge> 16 then (False, pkt)
      else (True, pkt\<lparr>bp_hops := bp_hops pkt + 1,
                      bp_giaddr := if bp_giaddr pkt = 0 then relay_addr else bp_giaddr pkt, bp_op := BOOTREQUEST\<rparr>))"

definition relay_server_to_client :: "dhcp_packet \<Rightarrow> ipv4 option \<times> dhcp_packet" where
  "relay_server_to_client pkt =
     (if bp_giaddr pkt = 0 then (None, pkt) else (Some (bp_giaddr pkt), pkt\<lparr>bp_op := BOOTREPLY\<rparr>))"

definition agent_info :: "ipv4 \<Rightarrow> bool \<Rightarrow> int \<Rightarrow> u8 list" where
  "agent_info local4 unicast iface_index =
     [SUBOPT_SUBNET_SELECT, 4] @ octets4 local4 @ [SUBOPT_SERVER_OR, 4] @ octets4 local4
     @ [SUBOPT_FLAGS, 1, if unicast then 0x80 else 0] @ [SUBOPT_REMOTE_ID, 4] @ to_be32 (word_of_int iface_index)"

text \<open>The source address and the stamped packet for one relay, if it forwards the packet, and the relay.\<close>

definition stamp ::
    "ipv4 \<Rightarrow> int \<Rightarrow> dhcp_packet \<Rightarrow> bool \<Rightarrow> (rstr \<Rightarrow> ipv4 option) \<Rightarrow> dhcp_relay \<Rightarrow> ipv4
      \<Rightarrow> (ipv4 \<times> dhcp_packet) option \<times> dhcp_relay" where
  "stamp iface_addr iface_index pkt unicast resolve_uplink relay local4 =
     (let mess = pkt\<lparr>bp_hops := bp_hops pkt + 1\<rparr>
      in if rl_split_mode relay = 0 \<and> rl_iface_index relay \<noteq> 0 \<and> rl_iface_index relay = iface_index
         then (if bp_giaddr pkt \<noteq> 0
               then if bp_giaddr pkt = local4 then None else Some (local4, mess)
               else Some (local4, mess\<lparr>bp_giaddr := local4\<rparr>), relay)
         else if rl_split_mode relay \<noteq> 0 \<and> local4 = iface_addr
         then (case (case rl_interface relay of
                       None \<Rightarrow> Some relay
                     | Some iface \<Rightarrow> map_option (\<lambda>a. relay\<lparr>rl_uplink_addr := Addr4 a\<rparr>) (resolve_uplink iface)) of
                 None \<Rightarrow> (None, relay)
               | Some relay1 \<Rightarrow>
                   (case rl_uplink_addr relay1 of
                      Addr4 uplink4 \<Rightarrow>
                        (if bp_giaddr pkt \<noteq> 0
                         then if bp_giaddr pkt = uplink4 then None else Some (uplink4, mess)
                         else Some (uplink4, mess\<lparr>bp_giaddr := uplink4,
                                bp_options := option_put_raw (bp_options mess) OPTION_AGENT_ID
                                                (agent_info local4 unicast iface_index)\<rparr>), relay1)
                    | _ \<Rightarrow> (None, relay1)))
         else (None, relay))"

definition relay_one ::
    "ipv4 \<Rightarrow> int \<Rightarrow> dhcp_packet \<Rightarrow> bool \<Rightarrow> (rstr \<Rightarrow> ipv4 option) \<Rightarrow> (rstr \<Rightarrow> ipv4 option) \<Rightarrow> dhcp_relay
      \<Rightarrow> relay_forward option \<times> dhcp_relay" where
  "relay_one iface_addr iface_index pkt unicast resolve_uplink resolve_broadcast relay =
     (case rl_local_addr relay of
        Addr4 local4 \<Rightarrow>
          (case stamp iface_addr iface_index pkt unicast resolve_uplink relay local4 of
             (None, relay1) \<Rightarrow> (None, relay1)
           | (Some (from4, mess), relay1) \<Rightarrow>
               (case rl_server_addr relay1 of
                  Addr4 server4 \<Rightarrow>
                    ((case (if server4 = 0 then Option.bind (rl_interface relay1) resolve_broadcast else Some server4) of
                        None \<Rightarrow> None
                      | Some dest \<Rightarrow> Some \<lparr>rf_dest = dest, rf_port = word_of_int (rl_port relay1), rf_from = from4,
                                           rf_packet = mess\<rparr>), relay1)
                | _ \<Rightarrow> (None, relay1)))
      | _ \<Rightarrow> (None, relay))"

definition relay_upstream4 ::
    "ipv4 \<Rightarrow> int \<Rightarrow> dhcp_packet \<Rightarrow> bool \<Rightarrow> dhcp_relay list \<Rightarrow> (rstr \<Rightarrow> ipv4 option) \<Rightarrow> (rstr \<Rightarrow> ipv4 option)
      \<Rightarrow> relay_forward list \<times> dhcp_relay list" where
  "relay_upstream4 iface_addr iface_index pkt unicast relays resolve_uplink resolve_broadcast =
     (if bp_op pkt \<noteq> BOOTREQUEST \<or> bp_hops pkt > 20 then ([], relays)
      else let rs = map (relay_one iface_addr iface_index pkt unicast resolve_uplink resolve_broadcast) relays
           in (List.map_filter fst rs, map snd rs))"

fun wildcard_chars :: "nat list \<Rightarrow> nat list \<Rightarrow> bool" where
  "wildcard_chars [] [] = True"
| "wildcard_chars [] (t # ts) = False"
| "wildcard_chars (w # ws) [] = (w = 42)"
| "wildcard_chars (w # ws) (t # ts) = (if w = 42 then True else if w = t then wildcard_chars ws ts else False)"

definition wildcard_match :: "rstr \<Rightarrow> rstr \<Rightarrow> bool" where
  "wildcard_match wildcard target = wildcard_chars (str_chars wildcard) (str_chars target)"

text \<open>The agent information is cut out of the reply: it becomes the end marker, followed by padding.\<close>

definition erase_option :: "u8 list \<Rightarrow> nat \<Rightarrow> nat \<Rightarrow> u8 list" where
  "erase_option options idx len =
     (let fin = min (idx + 1 + len + 2) (length options)
      in take idx options @ [OPTION_END] @ replicate (fin - (idx + 1)) 0 @ drop fin options)"

definition return_interface :: "dhcp_packet \<Rightarrow> dhcp_relay \<Rightarrow> (int \<times> dhcp_packet) exec" where
  "return_interface pkt relay =
     (if rl_split_mode relay \<noteq> 0
      then if rl_uplink_addr relay = Addr4 (bp_giaddr pkt)
           then bind_exec (find_dhcp_option (bp_options pkt) OPTION_AGENT_ID 1) (\<lambda>found.
             case found of
               None \<Rightarrow> Done (0, pkt)
             | Some opt \<Rightarrow>
                 bind_exec (find_dhcp_option (or_data opt) SUBOPT_REMOTE_ID 4) (\<lambda>remote.
                   Done (case remote of None \<Rightarrow> 0 | Some r \<Rightarrow> sint (option_uint r 0 4),
                         pkt\<lparr>bp_options := erase_option (bp_options pkt) (or_index opt) (length (or_data opt))\<rparr>)))
           else Done (0, pkt)
      else if rl_local_addr relay = Addr4 (bp_giaddr pkt) then Done (rl_iface_index relay, pkt) else Done (0, pkt))"

definition matches_iface :: "rstr option \<Rightarrow> rstr option \<Rightarrow> bool" where
  "matches_iface interface arrival =
     (case (interface, arrival) of
        (None, _) \<Rightarrow> True
      | (Some pattern, Some actual) \<Rightarrow> wildcard_match pattern actual
      | (Some _, None) \<Rightarrow> False)"

fun try_relays :: "dhcp_packet \<Rightarrow> dhcp_relay list \<Rightarrow> rstr option \<Rightarrow> (int \<times> dhcp_packet) exec" where
  "try_relays pkt [] arrival = Done (0, pkt)"
| "try_relays pkt (relay # relays) arrival =
     bind_exec (return_interface pkt relay) (\<lambda>(return_iface, pkt1).
       if return_iface \<noteq> 0 \<and> matches_iface (rl_interface relay) arrival then Done (return_iface, pkt1)
       else try_relays pkt1 relays arrival)"

definition relay_reply4 :: "dhcp_packet \<Rightarrow> dhcp_relay list \<Rightarrow> rstr option \<Rightarrow> (int \<times> dhcp_packet) exec" where
  "relay_reply4 pkt relays arrival_interface =
     (if bp_giaddr pkt = 0 \<or> bp_op pkt \<noteq> BOOTREPLY then Done (0, pkt)
      else try_relays pkt relays arrival_interface)"

section \<open>Finding options by index\<close>

lemma option_find_encode:
  assumes "opts_ok ts"
  shows "option_find_from i (encode_opts ts @ rest) code minsize =
    (case find_index (\<lambda>(c, d). c = code \<and> length d \<ge> minsize) ts of
       None \<Rightarrow> option_find_from (i + length (encode_opts ts)) rest code minsize
     | Some k \<Rightarrow> Some (i + length (encode_opts (take k ts))))"
  using assms
proof (induction ts arbitrary: i)
  case (Cons t ts)
  obtain c d where t: "t = (c, d)" by (cases t)
  with Cons.prems have c: "c \<noteq> OPTION_PAD" "c \<noteq> OPTION_END" "length d \<le> 255" and ok: "opts_ok ts" by auto
  have step: "option_find_from i (encode_opts (t # ts) @ rest) code minsize =
      (if c = code \<and> length d \<ge> minsize then Some i else option_find_from (i + 2 + length d) (encode_opts ts @ rest) code minsize)"
    using c by (simp add: t unat_len8)
  show ?case
    unfolding step Cons.IH [OF ok] by (simp add: t add.assoc split: option.split)
qed simp

text \<open>The option that is found is in the list, and its octets lie where the index says.\<close>

lemma find_dhcp_option_encode:
  assumes "opts_ok ts" "find_index (\<lambda>(c, d). c = code \<and> length d \<ge> minsize) ts = Some k"
  shows "find_dhcp_option (encode_opts ts @ rest) code minsize =
    Done (Some \<lparr>or_index = length (encode_opts (take k ts)), or_data = snd (ts ! k)\<rparr>)"
proof -
  have k: "k < length ts" using assms(2) find_index_Some by blast
  obtain c d where t: "ts ! k = (c, d)" by (cases "ts ! k")
  have split: "encode_opts ts @ rest = encode_opts (take k ts) @ c # word_of_nat (length d) # d @ encode_opts (drop (Suc k) ts) @ rest"
    by (subst id_take_nth_drop [OF k]) (simp add: t)
  have "length d \<le> 255" using assms(1) k t unfolding opts_ok_def list_all_length by fastforce
  moreover have f: "option_find1 (encode_opts ts @ rest) code minsize = Some (length (encode_opts (take k ts)))"
    using assms(2) by (simp add: option_find1_def option_find_encode [OF assms(1)])
  ultimately show ?thesis
    unfolding find_dhcp_option_def f option.case by (simp add: split t unat_len8 nth_append)
qed

lemma find_dhcp_option_absent:
  assumes "opts_ok ts" "code \<noteq> OPTION_END" "find_index (\<lambda>(c, d). c = code \<and> length d \<ge> minsize) ts = None"
  shows "find_dhcp_option (opt_block ts) code minsize = Done None"
  using assms by (simp add: find_dhcp_option_def option_find1_def opt_block_def option_find_encode)

lemma find_index_map_of: "find_index (\<lambda>(c, d). c = code) ts = None \<longleftrightarrow> map_of ts code = None"
  by (induction ts) auto

section \<open>There and back\<close>

text \<open>The sub-options of the agent information form a block of their own, without an end marker.\<close>

definition agent_subopts :: "ipv4 \<Rightarrow> bool \<Rightarrow> int \<Rightarrow> opt_list" where
  "agent_subopts local4 unicast iface_index =
     [(SUBOPT_SUBNET_SELECT, octets4 local4), (SUBOPT_SERVER_OR, octets4 local4),
      (SUBOPT_FLAGS, [if unicast then 0x80 else 0]), (SUBOPT_REMOTE_ID, to_be32 (word_of_int iface_index))]"

lemma agent_info_opts: "agent_info local4 unicast iface_index = encode_opts (agent_subopts local4 unicast iface_index)"
  by (simp add: agent_info_def agent_subopts_def)

lemma agent_subopts_ok: "opts_ok (agent_subopts local4 unicast iface_index)"
  by (simp add: agent_subopts_def SUBOPT_REMOTE_ID_def SUBOPT_SUBNET_SELECT_def SUBOPT_SERVER_OR_def SUBOPT_FLAGS_def option_codes)

lemma agent_info_remote:
  "\<exists>i. find_dhcp_option (agent_info local4 unicast iface_index) SUBOPT_REMOTE_ID 4
     = Done (Some \<lparr>or_index = i, or_data = to_be32 (word_of_int iface_index)\<rparr>)"
proof -
  have "find_index (\<lambda>(c, d). c = SUBOPT_REMOTE_ID \<and> length d \<ge> 4) (agent_subopts local4 unicast iface_index) = Some 3"
    by (simp add: agent_subopts_def SUBOPT_REMOTE_ID_def SUBOPT_SUBNET_SELECT_def SUBOPT_SERVER_OR_def SUBOPT_FLAGS_def)
  from find_dhcp_option_encode [OF agent_subopts_ok this, of "[]"] show ?thesis
    by (simp add: agent_info_opts agent_subopts_def)
qed

lemma remote_uint: "option_uint \<lparr>or_index = i, or_data = to_be32 w\<rparr> 0 4 = w"
  by (simp add: option_uint_def to_be32_def Let_def)

lemma length_agent_info: "length (agent_info local4 unicast iface_index) = 21"
  by (simp add: agent_info_def)

lemma erase_option_block:
  assumes "opts_ok ts" "k < length ts" "ts ! k = (c, d)"
  shows "\<exists>junk. erase_option (opt_block ts) (length (encode_opts (take k ts))) (length d) = opt_block (take k ts) @ junk"
proof -
  have "take (length (encode_opts (take k ts))) (opt_block ts) = encode_opts (take k ts)"
    by (metis append.assoc append_take_drop_id append_eq_conv_conj encode_opts_simps(3) opt_block_def)
  then show ?thesis by (simp add: erase_option_def Let_def opt_block_def)
qed

lemma split_relay_forward:
  assumes "rl_split_mode relay \<noteq> 0" "rl_local_addr relay = Addr4 iface_addr" "rl_interface relay = None"
    "rl_uplink_addr relay = Addr4 uplink4" "rl_server_addr relay = Addr4 server4" "server4 \<noteq> 0"
    "bp_giaddr pkt = 0" "bp_op pkt = BOOTREQUEST" "bp_hops pkt \<le> 20"
  shows "fst (relay_upstream4 iface_addr iface_index pkt unicast [relay] up bc) =
    [\<lparr>rf_dest = server4, rf_port = word_of_int (rl_port relay), rf_from = uplink4,
      rf_packet = pkt\<lparr>bp_hops := bp_hops pkt + 1, bp_giaddr := uplink4,
        bp_options := option_put_raw (bp_options pkt) OPTION_AGENT_ID (agent_info iface_addr unicast iface_index)\<rparr>\<rparr>]"
  using assms by (simp add: relay_upstream4_def relay_one_def stamp_def List.map_filter_def not_less)

lemma find_index_first:
  assumes "map_of ts c = Some d" "m \<le> length d"
  shows "\<exists>k < length ts. find_index (\<lambda>(x, y). x = c \<and> m \<le> length y) ts = Some k \<and> ts ! k = (c, d) \<and> map_of (take k ts) c = None"
  using assms(1)
proof (induction ts)
  case (Cons t ts)
  obtain x y where t: "t = (x, y)" by (cases t)
  show ?case
  proof (cases "x = c")
    case True
    then show ?thesis using Cons.prems assms(2) by (intro exI [of _ 0]) (simp add: t)
  next
    case False
    with Cons t obtain k where "k < length ts" "find_index (\<lambda>(x, y). x = c \<and> m \<le> length y) ts = Some k" "ts ! k = (c, d)"
      "map_of (take k ts) c = None" by auto
    with False show ?thesis by (intro exI [of _ "Suc k"]) (simp add: t)
  qed
qed simp

text \<open>The answer as the client gets it: only the options differ, and those found are the ones in front of the agent
  information.\<close>

definition returned_to_client :: "dhcp_packet \<Rightarrow> (u8 \<times> u8 list) list \<Rightarrow> dhcp_packet \<Rightarrow> bool" where
  "returned_to_client answer us pkt' \<longleftrightarrow>
     pkt'\<lparr>bp_options := bp_options answer\<rparr> = answer
     \<and> find_option (bp_options pkt') = map_of (takeWhile (\<lambda>(code, _). code \<noteq> OPTION_AGENT_ID) us)"

lemma relay_reply_returns:
  assumes "rl_split_mode relay \<noteq> 0" "rl_uplink_addr relay = Addr4 (bp_giaddr answer)" "rl_interface relay = None"
    "bp_giaddr answer \<noteq> 0" "bp_op answer = BOOTREPLY" "bp_options answer = opt_block us" "opts_ok us"
    "map_of us OPTION_AGENT_ID = Some (agent_info local4 unicast iface_index)"
    "iface_index \<noteq> 0" "- (2 ^ 31) \<le> iface_index" "iface_index < 2 ^ 31"
  shows "\<exists>pkt'. relay_reply4 answer [relay] arrival = Done (iface_index, pkt') \<and> returned_to_client answer us pkt'"
proof -
  let ?info = "agent_info local4 unicast iface_index"
  from find_index_first [OF assms(8), of 1] obtain k where k: "k < length us" "us ! k = (OPTION_AGENT_ID, ?info)"
    "find_index (\<lambda>(x, y). x = OPTION_AGENT_ID \<and> 1 \<le> length y) us = Some k" "map_of (take k us) OPTION_AGENT_ID = None"
    by (auto simp: length_agent_info)
  have found: "find_dhcp_option (opt_block us) OPTION_AGENT_ID 1 =
      Done (Some \<lparr>or_index = length (encode_opts (take k us)), or_data = ?info\<rparr>)"
    using find_dhcp_option_encode [OF assms(7) k(3), of "[OPTION_END]"] by (simp add: opt_block_def k(2))
  obtain i where remote: "find_dhcp_option ?info SUBOPT_REMOTE_ID 4 = Done (Some \<lparr>or_index = i, or_data = to_be32 (word_of_int iface_index)\<rparr>)"
    using agent_info_remote by blast
  have s: "sint (word_of_int iface_index :: u32) = iface_index"
    using assms(10,11) by (simp add: sint_sbintrunc' signed_take_bit_int_eq_self)
  let ?opts = "erase_option (opt_block us) (length (encode_opts (take k us))) (length ?info)"
  have "return_interface answer relay = Done (iface_index, answer\<lparr>bp_options := ?opts\<rparr>)"
    using assms(1,2,6) by (simp add: return_interface_def found [unfolded One_nat_def] remote remote_uint s)
  then have r: "relay_reply4 answer [relay] arrival = Done (iface_index, answer\<lparr>bp_options := ?opts\<rparr>)"
    using assms(3-5,9) by (simp add: relay_reply4_def matches_iface_def)
  obtain junk where e: "?opts = opt_block (take k us) @ junk" using erase_option_block [OF assms(7) k(1,2)] by blast
  have "opts_ok (take k us)" using assms(7) by (metis append_take_drop_id opts_ok_simps(3))
  then have "find_option ?opts code = map_of (take k us) code" for code
    unfolding e by (simp add: opt_block_def find_option_encode option_codes split: option.split)
  moreover have "takeWhile (\<lambda>(code, _). code \<noteq> OPTION_AGENT_ID) us = take k us"
  proof (rule takeWhile_eq_take_P_nth)
    show "case us ! i of (code, _) \<Rightarrow> code \<noteq> OPTION_AGENT_ID" if "i < k" "i < length us" for i
    proof -
      have "us ! i \<in> set (take k us)" using that by (metis in_set_conv_nth length_take min_less_iff_conj nth_take)
      then show ?thesis using k(4) by (force simp: map_of_eq_None_iff)
    qed
  qed (simp add: k(2))
  ultimately show ?thesis using r by (auto simp: returned_to_client_def)
qed

text \<open>C39: a request without relay information that arrives at an interface of the single relay that is configured, a split
  relay with its uplink set and not restricted to an interface, is forwarded to its server with one hop more, the uplink
  as relay address and the agent information as its last option, and nothing else changed. The reply of a server
  that returns the relay address and the agent information leads back to that interface: \<open>relay_reply4\<close>
  returns its index, and the client gets the answer with the options in front of the agent information, and no others.
  (A split relay whose uplink is only found when it forwards drops the replies, as \<open>uplink_only_in_copy\<close> shows.)\<close>

theorem relay_there_and_back:
  assumes relay: "rl_split_mode relay \<noteq> 0" "rl_local_addr relay = Addr4 iface_addr" "rl_interface relay = None"
      "rl_uplink_addr relay = Addr4 uplink4" "rl_server_addr relay = Addr4 server4" "server4 \<noteq> 0" "uplink4 \<noteq> 0"
    and request: "bp_giaddr pkt = 0" "bp_op pkt = BOOTREQUEST" "bp_hops pkt \<le> 20" "bp_options pkt = opt_block ts" "opts_ok ts"
      "map_of ts OPTION_AGENT_ID = None"
    and index: "iface_index \<noteq> 0" "- (2 ^ 31) \<le> iface_index" "iface_index < 2 ^ 31"
    and reply: "bp_op answer = BOOTREPLY" "bp_options answer = opt_block us" "opts_ok us"
  shows "\<exists>fwd. fst (relay_upstream4 iface_addr iface_index pkt unicast [relay] up bc) = [fwd]
    \<and> rf_dest fwd = server4 \<and> rf_from fwd = uplink4
    \<and> rf_packet fwd = pkt\<lparr>bp_hops := bp_hops pkt + 1, bp_giaddr := uplink4,
        bp_options := opt_block (ts @ [(OPTION_AGENT_ID, agent_info iface_addr unicast iface_index)])\<rparr>
    \<and> (bp_giaddr answer = bp_giaddr (rf_packet fwd)
         \<and> map_of us OPTION_AGENT_ID = find_option (bp_options (rf_packet fwd)) OPTION_AGENT_ID
       \<longrightarrow> (\<exists>pkt'. relay_reply4 answer [relay] arrival = Done (iface_index, pkt') \<and> returned_to_client answer us pkt'))"
proof -
  let ?info = "agent_info iface_addr unicast iface_index"
  let ?mess = "pkt\<lparr>bp_hops := bp_hops pkt + 1, bp_giaddr := uplink4, bp_options := option_put_raw (bp_options pkt) OPTION_AGENT_ID ?info\<rparr>"
  let ?fwd = "\<lparr>rf_dest = server4, rf_port = word_of_int (rl_port relay), rf_from = uplink4, rf_packet = ?mess\<rparr>"
  note f = split_relay_forward [OF relay(1-6) request(1-3), of iface_index unicast up bc]
  have "take 255 ?info = ?info" by (simp add: length_agent_info)
  then have put: "option_put_raw (bp_options pkt) OPTION_AGENT_ID ?info = opt_block (ts @ [(OPTION_AGENT_ID, ?info)])"
    by (simp add: request(4) option_put_raw_block)
  have ok: "opts_ok (ts @ [(OPTION_AGENT_ID, ?info)])"
    using request(5) by (simp add: length_agent_info option_codes)
  then have sent: "find_option (bp_options ?mess) OPTION_AGENT_ID = Some ?info"
    using request(6) by (simp add: put find_option_block map_add_def map_of_append)
  have returned: "\<exists>pkt'. relay_reply4 answer [relay] arrival = Done (iface_index, pkt') \<and> returned_to_client answer us pkt'"
    if "bp_giaddr answer = uplink4" "map_of us OPTION_AGENT_ID = Some ?info"
    using relay relay_reply_returns [OF relay(1) _ relay(3) _ reply _ index, of iface_addr unicast arrival] that by simp
  show ?thesis unfolding f using returned sent put by (intro exI [of _ ?fwd]) simp
qed

definition demo_split_relay :: dhcp_relay where
  "demo_split_relay =
     \<lparr>rl_local_addr = Addr4 0xC0A80001, rl_server_addr = Addr4 0x0A000002, rl_uplink_addr = Addr4 0x0A000001,
      rl_interface = None, rl_iface_index = 0, rl_port = 67, rl_split_mode = 1\<rparr>"

definition demo_relay_answer :: dhcp_packet where
  "demo_relay_answer = demo_dhcp_packet\<lparr>bp_op := 2, bp_giaddr := 0x0A000001,
     bp_options := opt_block [(53, [2]), (82, agent_info 0xC0A80001 True 3)]\<rparr>"

theorem relay_there_and_back_witness:
  "\<exists>pkt'. relay_reply4 demo_relay_answer [demo_split_relay] None = Done (3, pkt')
     \<and> returned_to_client demo_relay_answer [(53, [2]), (82, agent_info 0xC0A80001 True 3)] pkt'"
proof -
  let ?us = "[(53, [2]), (82, agent_info 0xC0A80001 True 3)]" and ?ts = "[(53, [3]), (50, [10, 0, 0, 5])]"
  have "\<exists>fwd. fst (relay_upstream4 0xC0A80001 3 demo_dhcp_packet True [demo_split_relay] (\<lambda>_. None) (\<lambda>_. None)) = [fwd]
    \<and> rf_dest fwd = 0x0A000002 \<and> rf_from fwd = 0x0A000001
    \<and> rf_packet fwd = demo_dhcp_packet\<lparr>bp_hops := bp_hops demo_dhcp_packet + 1, bp_giaddr := 0x0A000001,
        bp_options := opt_block (?ts @ [(OPTION_AGENT_ID, agent_info 0xC0A80001 True 3)])\<rparr>
    \<and> (bp_giaddr demo_relay_answer = bp_giaddr (rf_packet fwd)
         \<and> map_of ?us OPTION_AGENT_ID = find_option (bp_options (rf_packet fwd)) OPTION_AGENT_ID
       \<longrightarrow> (\<exists>pkt'. relay_reply4 demo_relay_answer [demo_split_relay] None = Done (3, pkt')
              \<and> returned_to_client demo_relay_answer ?us pkt'))"
    by (rule relay_there_and_back)
      (simp_all add: demo_split_relay_def demo_relay_answer_def demo_dhcp_packet_def option_codes BOOTREQUEST_def BOOTREPLY_def
        length_agent_info)
  moreover have "find_option (opt_block (?ts @ [(OPTION_AGENT_ID, agent_info 0xC0A80001 True 3)])) OPTION_AGENT_ID
      = Some (agent_info 0xC0A80001 True 3)"
    by (subst find_option_block) (simp_all add: option_codes length_agent_info)
  ultimately show ?thesis
    by (auto simp: demo_relay_answer_def option_codes)
qed

text \<open>A reply whose relay address is neither the uplink of a split relay nor the local address of another
  relay is not returned to any client.\<close>

lemma relay_reply_unknown:
  assumes "\<And>relay. relay \<in> set relays \<Longrightarrow>
      (if rl_split_mode relay \<noteq> 0 then rl_uplink_addr relay else rl_local_addr relay) \<noteq> Addr4 (bp_giaddr pkt)"
  shows "relay_reply4 pkt relays arrival = Done (0, pkt)"
proof -
  have "return_interface pkt relay = Done (0, pkt)" if "relay \<in> set relays" for relay
    using assms [OF that] by (simp add: return_interface_def split: if_splits)
  then have "try_relays pkt relays arrival = Done (0, pkt)"
    by (induction relays) simp_all
  then show ?thesis by (simp add: relay_reply4_def)
qed

text \<open>The copy of the relays that \<open>relay_upstream4\<close> updates is where the uplink of a relay with an interface is
  recorded: with the relays as configured the reply is dropped.\<close>

lemma uplink_only_in_copy:
  assumes "rl_split_mode relay \<noteq> 0" "rl_uplink_addr relay = Addr4 0" "bp_giaddr answer \<noteq> 0"
  shows "relay_reply4 answer [relay] arrival = Done (0, answer)"
  using assms by (intro relay_reply_unknown) simp

end
