(* ===== verification/Dhcp_Alloc.thy ===== *)
theory Dhcp_Alloc
  imports Lease_Db
begin

unbundle bit_operations_syntax

text \<open>
  The search for a free address in \<open>src/dhcp.rs\<close>: \<open>sdbm_hash\<close>, \<open>hash_to_addr\<close>, \<open>is_allocatable_addr\<close>,
  the cache of ping results (\<open>PingCache\<close>) and \<open>address_allocate\<close>. The probe for an address in use is a
  parameter. The loop over a range ends when it comes back to its first address, so that it is a
  partial function, and that it returns is a theorem. The age of a ping result is compared in
  nanoseconds.
\<close>

section \<open>Definitions\<close>

definition sdbm_step :: "u8 \<Rightarrow> u32 \<Rightarrow> u32" where
  "sdbm_step b j = ucast b + push_bit 6 j + push_bit 16 j - j"

definition sdbm_hash :: "u8 list \<Rightarrow> u32" where
  "sdbm_hash hwaddr = (let j = fold sdbm_step hwaddr 0 in if j = 0 then 1 else j)"

definition hash_to_addr :: "u32 \<Rightarrow> u32 \<Rightarrow> ipv4 \<Rightarrow> ipv4 \<Rightarrow> ipv4" where
  "hash_to_addr hash epoch s e =
     (let range_size = e - s + 1 in if range_size = 0 then s else s + (hash + epoch) mod range_size)"

definition is_allocatable_addr :: "ipv4 \<Rightarrow> bool" where
  "is_allocatable_addr a =
     (let first_octet = drop_bit 24 a AND 0xFF; last_octet = a AND 0xFF
      in \<not> (192 \<le> first_octet \<and> first_octet \<le> 223 \<and> (last_octet = 0 \<or> last_octet = 0xFF)))"

record ping_result =
  pr_addr :: ipv4
  pr_time :: int
  pr_hash :: u32

text \<open>The pass over the results: the hash of a fresh result for the address, or the number of fresh results
  and the last stale one.\<close>

fun ping_scan :: "int \<Rightarrow> ipv4 \<Rightarrow> nat \<Rightarrow> ping_result list \<Rightarrow> nat \<Rightarrow> nat option \<Rightarrow> u32 + (nat \<times> nat option)" where
  "ping_scan now addr i [] fresh victim = Inr (fresh, victim)"
| "ping_scan now addr i (r # rs) fresh victim =
     (if now - pr_time r > 30 * 1000000000 then ping_scan now addr (i + 1) rs fresh (Some i)
      else if pr_addr r = addr then Inl (pr_hash r)
      else ping_scan now addr (i + 1) rs (fresh + 1) victim)"

definition MAX_PINGS :: nat where
  "MAX_PINGS = 6"

definition ping_check ::
    "int \<Rightarrow> ipv4 \<Rightarrow> u32 \<Rightarrow> bool \<Rightarrow> bool \<Rightarrow> (ipv4 \<Rightarrow> bool) \<Rightarrow> ping_result list \<Rightarrow> u32 option \<times> ping_result list" where
  "ping_check now addr hash no_ping loopback in_use results =
     (case ping_scan now addr 0 results 0 None of
        Inl h \<Rightarrow> (Some h, results)
      | Inr (fresh, victim) \<Rightarrow>
          if fresh \<ge> MAX_PINGS \<or> no_ping \<or> loopback then (Some hash, results)
          else if in_use addr then (None, results)
          else let result = \<lparr>pr_addr = addr, pr_time = now, pr_hash = hash\<rparr>
               in (Some hash, case victim of Some i \<Rightarrow> results[i := result] | None \<Rightarrow> results @ [result]))"

definition next_addr_wrapping :: "ipv4 \<Rightarrow> ipv4 \<Rightarrow> ipv4 \<Rightarrow> ipv4" where
  "next_addr_wrapping addr s e = (if addr + 1 = e + 1 then s else addr + 1)"

text \<open>The conditions on a candidate before the ping.\<close>

definition addr_free :: "dhcp_context list \<Rightarrow> lease_db \<Rightarrow> dhcp_config list \<Rightarrow> ipv4 \<Rightarrow> bool" where
  "addr_free contexts db configs addr \<longleftrightarrow>
     \<not> list_ex (\<lambda>d. addr = cx_router d) contexts \<and> is_allocatable_addr addr
     \<and> find_by_addr db addr = None \<and> config_find_by_address configs addr = None"

definition try_addr ::
    "(ipv4 \<Rightarrow> bool) \<Rightarrow> (ipv4 \<Rightarrow> ping_result list \<Rightarrow> u32 option \<times> ping_result list) \<Rightarrow> u32 \<Rightarrow> bool
      \<Rightarrow> ipv4 \<Rightarrow> ping_result list \<Rightarrow> bool \<times> ping_result list" where
  "try_addr free check hash consec_addr addr pc =
     (if free addr
      then (case check addr pc of
              (None, pc1) \<Rightarrow> (False, pc1)
            | (Some r_hash, pc1) \<Rightarrow> (\<not> consec_addr \<or> r_hash = hash, pc1))
      else (False, pc))"

partial_function (option) scan_range ::
    "(ipv4 \<Rightarrow> 's \<Rightarrow> bool \<times> 's) \<Rightarrow> ipv4 \<Rightarrow> ipv4 \<Rightarrow> ipv4 \<Rightarrow> ipv4 \<Rightarrow> 's \<Rightarrow> (ipv4 option \<times> 's) option" where
  "scan_range attempt s e start_addr addr st =
     (case attempt addr st of
        (found, st1) \<Rightarrow>
          if found then Some (Some addr, st1)
          else let addr1 = next_addr_wrapping addr s e
               in if addr1 = start_addr then Some (None, st1) else scan_range attempt s e start_addr addr1 st1)"

definition start_in :: "lease_db \<Rightarrow> bool \<Rightarrow> u32 \<Rightarrow> dhcp_context \<Rightarrow> ipv4" where
  "start_in db consec_addr hash c =
     (if consec_addr then find_max_addr db (cx_start c) (cx_end c)
      else hash_to_addr hash (cx_addr_epoch c) (cx_start c) (cx_end c))"

fun scan_contexts ::
    "(ipv4 \<Rightarrow> 's \<Rightarrow> bool \<times> 's) \<Rightarrow> (dhcp_context \<Rightarrow> ipv4) \<Rightarrow> dhcp_context list \<Rightarrow> 's \<Rightarrow> (ipv4 option \<times> 's) option" where
  "scan_contexts attempt first [] st = Some (None, st)"
| "scan_contexts attempt first (c # cs) st =
     (case scan_range attempt (cx_start c) (cx_end c) (first c) (first c) st of
        None \<Rightarrow> None
      | Some (Some addr, st1) \<Rightarrow> Some (Some addr, st1)
      | Some (None, st1) \<Rightarrow> scan_contexts attempt first cs st1)"

text \<open>The contexts in the order of the two passes: first those whose tags match, then also those without tags.\<close>

definition eligible :: "netid list \<Rightarrow> bool \<Rightarrow> dhcp_context \<Rightarrow> bool" where
  "eligible netids tagnotneeded c \<longleftrightarrow> dynamic_range c \<and> context_filter_matches (cx_filter c) netids tagnotneeded"

definition address_allocate ::
    "dhcp_context list \<Rightarrow> lease_db \<Rightarrow> dhcp_config list \<Rightarrow> u8 list \<Rightarrow> netid list \<Rightarrow> int \<Rightarrow> bool \<Rightarrow> bool \<Rightarrow> bool
      \<Rightarrow> (ipv4 \<Rightarrow> bool) \<Rightarrow> ping_result list \<Rightarrow> (ipv4 option \<times> ping_result list) option" where
  "address_allocate contexts db configs hwaddr netids now loopback consec_addr no_ping in_use pc =
     (let hash = sdbm_hash hwaddr;
          check = (\<lambda>addr. ping_check now addr hash no_ping loopback in_use);
          attempt = try_addr (addr_free contexts db configs) check hash consec_addr
      in scan_contexts attempt (start_in db consec_addr hash)
           (filter (eligible netids False) contexts @ filter (eligible netids True) contexts) pc)"

section \<open>A range is a circle\<close>

text \<open>The addresses of a range by their position, also when the range wraps around the address space.\<close>

definition circle_size :: "ipv4 \<Rightarrow> ipv4 \<Rightarrow> nat" where
  "circle_size s e = unat (e - s) + 1"

definition circle_at :: "ipv4 \<Rightarrow> nat \<Rightarrow> ipv4" where
  "circle_at s p = s + word_of_nat p"

definition in_circle :: "ipv4 \<Rightarrow> ipv4 \<Rightarrow> ipv4 \<Rightarrow> bool" where
  "in_circle s e a \<longleftrightarrow> a - s \<le> e - s"

lemma circle_size_le: "circle_size s e \<le> 4294967296"
  unfolding circle_size_def Suc_eq_plus1 [symmetric] by (rule Suc_leI [OF unat_u32])

lemma circle_pos:
  assumes "p < circle_size s e"
  shows "unat (circle_at s p - s) = p"
  using assms circle_size_le [of s e] by (simp add: circle_at_def unat_u32_of_nat)

lemma circle_inj:
  assumes "p < circle_size s e" "q < circle_size s e"
  shows "circle_at s p = circle_at s q \<longleftrightarrow> p = q"
  using circle_pos [OF assms(1)] circle_pos [OF assms(2)] by metis

lemma circle_last:
  assumes "p < circle_size s e"
  shows "circle_at s p = e \<longleftrightarrow> p + 1 = circle_size s e"
proof -
  have "circle_at s p = e \<longleftrightarrow> circle_at s p - s = e - s" by simp
  also have "\<dots> \<longleftrightarrow> p = unat (e - s)" using circle_pos [OF assms] by (metis word_unat_eq_iff)
  finally show ?thesis by (auto simp: circle_size_def)
qed

lemma next_circle:
  assumes "p < circle_size s e"
  shows "next_addr_wrapping (circle_at s p) s e = circle_at s (if p + 1 = circle_size s e then 0 else p + 1)"
  using circle_last [OF assms] by (simp add: next_addr_wrapping_def circle_at_def add.commute add.left_commute)

lemma in_circle_iff: "in_circle s e a \<longleftrightarrow> (\<exists>p < circle_size s e. a = circle_at s p)"
proof
  assume "in_circle s e a"
  then show "\<exists>p < circle_size s e. a = circle_at s p"
    by (intro exI [of _ "unat (a - s)"]) (simp add: in_circle_def circle_size_def circle_at_def word_le_nat_alt)
next
  assume "\<exists>p < circle_size s e. a = circle_at s p"
  then obtain p where "p < circle_size s e" "a = circle_at s p" by blast
  with circle_pos [of p s e] show "in_circle s e a" by (simp add: in_circle_def word_le_nat_alt circle_size_def)
qed

lemma in_circle_ordered:
  assumes "s \<le> e"
  shows "in_circle s e a \<longleftrightarrow> s \<le> a \<and> a \<le> e"
proof -
  have "unat (a - s) = (if unat s \<le> unat a then unat a - unat s else unat a + 4294967296 - unat s)"
    by (simp add: unat_sub_if')
  moreover have "unat (e - s) = unat e - unat s" using assms by (simp add: unat_sub)
  ultimately show ?thesis
    using assms unat_u32 [of e] unat_u32 [of s] unfolding in_circle_def word_le_nat_alt by (simp del: unat_u32) arith
qed

section \<open>The scan returns\<close>

fun scan_list :: "(ipv4 \<Rightarrow> 's \<Rightarrow> bool \<times> 's) \<Rightarrow> ipv4 list \<Rightarrow> 's \<Rightarrow> ipv4 option \<times> 's" where
  "scan_list attempt [] st = (None, st)"
| "scan_list attempt (a # as) st =
     (case attempt a st of (found, st1) \<Rightarrow> if found then (Some a, st1) else scan_list attempt as st1)"

text \<open>Behind the wrap the scan goes on up to the address it started from.\<close>

lemma scan_range_wrapped:
  assumes "q < circle_size s e" "p < q"
  shows "scan_range attempt s e (circle_at s q) (circle_at s p) st = Some (scan_list attempt (map (circle_at s) [p..<q]) st)"
  using assms(2)
proof (induction "q - p" arbitrary: p st)
  case (Suc n)
  have p: "p < circle_size s e" "p + 1 < circle_size s e" using Suc.prems assms(1) by auto
  have nxt: "next_addr_wrapping (circle_at s p) s e = circle_at s (p + 1)" using next_circle [OF p(1)] p(2) by simp
  have "circle_at s (p + 1) = circle_at s q \<longleftrightarrow> p + 1 = q" by (rule circle_inj [OF p(2) assms(1)])
  with Suc nxt show ?case
    by (subst scan_range.simps) (auto simp: upt_conv_Cons split: prod.split)
qed simp

text \<open>The loop over a range is the search in the list of its addresses, from the first one to try around the
  circle: it returns for every range and every first address inside it.\<close>

lemma scan_range_from:
  assumes "q \<le> p" "p < circle_size s e"
  shows "scan_range attempt s e (circle_at s q) (circle_at s p) st =
    Some (scan_list attempt (map (circle_at s) ([p..<circle_size s e] @ [0..<q])) st)"
  using assms
proof (induction "circle_size s e - p" arbitrary: p st)
  case (Suc n)
  let ?N = "circle_size s e"
  have q: "q < ?N" using Suc.prems by simp
  show ?case
  proof (cases "p + 1 = ?N")
    case True
    have nxt: "next_addr_wrapping (circle_at s p) s e = circle_at s 0" using next_circle [OF Suc.prems(2)] True by simp
    have "circle_at s 0 = circle_at s q \<longleftrightarrow> 0 = q" using q by (intro circle_inj) auto
    moreover have "[p..<?N] = [p]" using True by (simp add: upt_conv_Cons)
    ultimately show ?thesis using nxt scan_range_wrapped [OF q, of 0]
      by (subst scan_range.simps) (auto split: prod.split)
  next
    case False
    then have p: "p + 1 < ?N" using Suc.prems by simp
    have nxt: "next_addr_wrapping (circle_at s p) s e = circle_at s (p + 1)" using next_circle [OF Suc.prems(2)] False by simp
    have "circle_at s (p + 1) \<noteq> circle_at s q" using circle_inj [OF p q] Suc.prems by simp
    moreover have "[p..<?N] = p # [p + 1..<?N]" using Suc.prems by (simp add: upt_conv_Cons)
    ultimately show ?thesis using nxt Suc.hyps(1) [of "p + 1"] Suc.hyps(2) Suc.prems p
      by (subst scan_range.simps) (auto split: prod.split)
  qed
qed simp

lemma scan_range_list:
  assumes "in_circle s e a"
  obtains as where "set as = Collect (in_circle s e)" "\<And>st. scan_range attempt s e a a st = Some (scan_list attempt as st)"
proof -
  obtain q where q: "q < circle_size s e" "a = circle_at s q" using assms by (auto simp: in_circle_iff)
  let ?as = "map (circle_at s) ([q..<circle_size s e] @ [0..<q])"
  have "{q..<circle_size s e} \<union> {0..<q} = {..<circle_size s e}" using q(1) by auto
  moreover have "set ?as = circle_at s ` ({q..<circle_size s e} \<union> {0..<q})" by auto
  ultimately have "set ?as = Collect (in_circle s e)" by (auto simp: in_circle_iff)
  moreover have "scan_range attempt s e a a st = Some (scan_list attempt ?as st)" for st
    unfolding q(2) by (rule scan_range_from [OF order_refl q(1)])
  ultimately show ?thesis by (rule that)
qed

section \<open>The first address lies in the range\<close>

lemma hash_to_addr_in: "in_circle s e (hash_to_addr hash epoch s e)"
proof (cases "e - s + 1 = 0")
  case False
  then have "(hash + epoch) mod (e - s + 1) < e - s + 1" by (simp add: word_mod_less_divisor word_gt_0)
  then have "(hash + epoch) mod (e - s + 1) \<le> e - s"
    using unatSuc [of "e - s"] False by (simp add: word_less_nat_alt word_le_nat_alt add.commute)
  with False show ?thesis by (simp add: hash_to_addr_def in_circle_def)
qed (simp add: hash_to_addr_def in_circle_def)

lemma find_max_addr_in: "in_circle s e (find_max_addr db s e)"
proof -
  have m: "P (fold max as a)" if "P a" "\<forall>x \<in> set as. P x" for P and a :: ipv4 and as
    using that by (induction as arbitrary: a) (simp_all add: max_def)
  show ?thesis
  proof (cases "filter (\<lambda>a. s \<le> a \<and> a \<le> e) (map (\<lambda>(k, l). l_addr l) (leases db))")
    case (Cons a as)
    then have *: "\<forall>x \<in> set (a # as). s \<le> x \<and> x \<le> e" unfolding Cons [symmetric] by auto
    then have "s \<le> e" by auto
    with * m [of "\<lambda>x. s \<le> x \<and> x \<le> e" a as] Cons show ?thesis by (simp add: find_max_addr_def in_circle_ordered)
  qed (simp add: find_max_addr_def in_circle_def)
qed

lemma start_in_circle: "in_circle (cx_start c) (cx_end c) (start_in db consec_addr hash c)"
  by (simp add: start_in_def hash_to_addr_in find_max_addr_in)

section \<open>What is allocated\<close>

lemma scan_list_Some:
  assumes "scan_list attempt as st = (Some a, st')"
  shows "a \<in> set as \<and> (\<exists>st0. fst (attempt a st0))"
  using assms
proof (induction as arbitrary: st)
  case (Cons x as)
  obtain found st1 where "attempt x st = (found, st1)" by (cases "attempt x st")
  with Cons show ?case by (auto split: if_splits) (metis fst_conv)
qed simp

lemma scan_list_None:
  assumes "scan_list attempt as st = (None, st')" "a \<in> set as"
  shows "\<exists>st0. \<not> fst (attempt a st0)"
  using assms
proof (induction as arbitrary: st)
  case (Cons x as)
  obtain found st1 where "attempt x st = (found, st1)" by (cases "attempt x st")
  with Cons show ?case by (auto split: if_splits) (metis fst_conv)
qed simp

lemma scan_list_keeps:
  assumes "\<And>a st. I st \<Longrightarrow> I (snd (attempt a st))" "I st"
  shows "I (snd (scan_list attempt as st))"
  using assms(2)
proof (induction as arbitrary: st)
  case (Cons x as)
  obtain found st1 where x: "attempt x st = (found, st1)" by (cases "attempt x st")
  with assms(1) [of st x] Cons.prems have "I st1" by simp
  with Cons.IH [of st1] show ?case by (simp add: x)
qed simp

text \<open>The search over the contexts returns; what it finds lies in one of them and passed the test, and when it
  finds nothing every address of every context was refused in some state of the ping cache.\<close>

lemma scan_contexts_returns:
  assumes "\<And>c. in_circle (cx_start c) (cx_end c) (first c)" "\<And>a st. I st \<Longrightarrow> I (snd (attempt a st))" "I st"
  shows "\<exists>r st'. scan_contexts attempt first cs st = Some (r, st') \<and> I st'
    \<and> (\<forall>a. r = Some a \<longrightarrow> (\<exists>c \<in> set cs. in_circle (cx_start c) (cx_end c) a) \<and> (\<exists>st0. fst (attempt a st0)))
    \<and> (r = None \<longrightarrow> (\<forall>c \<in> set cs. \<forall>a. in_circle (cx_start c) (cx_end c) a \<longrightarrow> (\<exists>st0. \<not> fst (attempt a st0))))"
  using assms(3)
proof (induction cs arbitrary: st)
  case (Cons c cs)
  obtain as where as: "set as = Collect (in_circle (cx_start c) (cx_end c))"
    "\<And>st. scan_range attempt (cx_start c) (cx_end c) (first c) (first c) st = Some (scan_list attempt as st)"
    using scan_range_list [OF assms(1)] by blast
  obtain r st1 where r: "scan_list attempt as st = (r, st1)" by (cases "scan_list attempt as st")
  have "I st1" using scan_list_keeps [of I attempt, OF assms(2) Cons.prems, of as] r by simp
  show ?case
  proof (cases r)
    case None
    then have "\<exists>st0. \<not> fst (attempt a st0)" if "in_circle (cx_start c) (cx_end c) a" for a
      using scan_list_None [of attempt as st st1 a] r as(1) that by simp
    with Cons.IH [OF \<open>I st1\<close>] None r show ?thesis by (auto simp: as(2))
  next
    case (Some a)
    with scan_list_Some [of attempt as st a st1] r as(1) \<open>I st1\<close> show ?thesis by (auto simp: as(2))
  qed
qed simp

lemma ping_scan_counts:
  assumes "ping_scan now addr i rs fresh v = Inr (n, v')"
  shows "n \<le> fresh + length rs \<and> (v' = v \<and> n = fresh + length rs \<or> (\<exists>j \<ge> i. v' = Some j \<and> j < i + length rs))"
  using assms
proof (induction now addr i rs fresh v rule: ping_scan.induct)
  case (2 now addr i r rs fresh v)
  show ?case
  proof (cases "now - pr_time r > 30 * 1000000000")
    case True
    with 2 have "n \<le> fresh + length rs" "v' = Some i \<or> (\<exists>j \<ge> i + 1. v' = Some j \<and> j < i + 1 + length rs)" by auto
    then show ?thesis by (elim disjE exE) (auto intro: exI [of _ i])
  next
    case False
    with 2 have "n \<le> fresh + 1 + length rs \<and> (v' = v \<and> n = fresh + 1 + length rs \<or> (\<exists>j \<ge> i + 1. v' = Some j \<and> j < i + 1 + length rs))"
      by (simp split: if_splits)
    then show ?thesis by (elim conjE disjE exE) auto
  qed
qed simp

text \<open>The cache of pings never grows beyond the number of pings allowed in its period.\<close>

lemma ping_check_bound:
  assumes "length pc \<le> MAX_PINGS"
  shows "length (snd (ping_check now addr hash no_ping loopback in_use pc)) \<le> MAX_PINGS"
proof (cases "ping_scan now addr 0 pc 0 None")
  case (Inr b)
  obtain n v where b: "b = (n, v)" by (cases b)
  with ping_scan_counts [of now addr 0 pc 0 None n v] Inr assms show ?thesis
    by (auto simp: ping_check_def Let_def split: option.split)
qed (use assms in \<open>simp add: ping_check_def\<close>)

lemma try_addr_bound:
  assumes "length pc \<le> MAX_PINGS"
  shows "length (snd (try_addr free (\<lambda>addr. ping_check now addr hash no_ping loopback in_use) h consec addr pc)) \<le> MAX_PINGS"
  using ping_check_bound [OF assms, of now addr hash no_ping loopback in_use] assms
  by (auto simp: try_addr_def split: prod.splits option.splits)

lemma try_addr_free: "fst (try_addr free check h consec addr pc) \<Longrightarrow> free addr"
  by (simp add: try_addr_def split: if_splits)

lemma try_addr_quiet:
  assumes "no_ping \<or> loopback"
  shows "fst (try_addr free (\<lambda>addr. ping_check now addr hash no_ping loopback in_use) h False addr pc) \<longleftrightarrow> free addr"
  using assms by (auto simp: try_addr_def ping_check_def split: sum.split prod.splits option.splits)

text \<open>The search returns; what it yields lies in a range that admits the client and is free, and when it yields
  nothing every address of these ranges was refused.\<close>

lemma address_allocate_scan:
  assumes "length pc \<le> MAX_PINGS"
  shows "\<exists>r pc'. address_allocate contexts db configs hwaddr netids now loopback consec_addr no_ping in_use pc = Some (r, pc')
    \<and> length pc' \<le> MAX_PINGS
    \<and> (\<forall>a. r = Some a \<longrightarrow> (\<exists>c \<in> set contexts. eligible netids True c \<and> in_circle (cx_start c) (cx_end c) a)
          \<and> addr_free contexts db configs a)
    \<and> (r = None \<longrightarrow> (\<forall>c \<in> set contexts. eligible netids True c \<longrightarrow> (\<forall>a. in_circle (cx_start c) (cx_end c) a \<longrightarrow>
          (\<exists>pc0. \<not> fst (try_addr (addr_free contexts db configs)
             (\<lambda>addr. ping_check now addr (sdbm_hash hwaddr) no_ping loopback in_use) (sdbm_hash hwaddr) consec_addr a pc0)))))"
proof -
  let ?hash = "sdbm_hash hwaddr"
  let ?attempt = "try_addr (addr_free contexts db configs) (\<lambda>addr. ping_check now addr ?hash no_ping loopback in_use) ?hash consec_addr"
  let ?cs = "filter (eligible netids False) contexts @ filter (eligible netids True) contexts"
  have "eligible netids False c \<Longrightarrow> eligible netids True c" for c
    by (simp add: eligible_def context_filter_matches_def split: if_splits)
  then have cs: "c \<in> set ?cs \<longleftrightarrow> c \<in> set contexts \<and> eligible netids True c" for c by auto
  obtain r pc' where r: "scan_contexts ?attempt (start_in db consec_addr ?hash) ?cs pc = Some (r, pc')" "length pc' \<le> MAX_PINGS"
    "\<forall>a. r = Some a \<longrightarrow> (\<exists>c \<in> set ?cs. in_circle (cx_start c) (cx_end c) a) \<and> (\<exists>st0. fst (?attempt a st0))"
    "r = None \<longrightarrow> (\<forall>c \<in> set ?cs. \<forall>a. in_circle (cx_start c) (cx_end c) a \<longrightarrow> (\<exists>st0. \<not> fst (?attempt a st0)))"
    using scan_contexts_returns [where I = "\<lambda>pc. length pc \<le> MAX_PINGS" and attempt = ?attempt and cs = ?cs
        and first = "start_in db consec_addr ?hash", OF start_in_circle try_addr_bound assms] by blast
  have "(\<exists>c \<in> set contexts. eligible netids True c \<and> in_circle (cx_start c) (cx_end c) a) \<and> addr_free contexts db configs a"
    if "r = Some a" for a
    using r(3) that try_addr_free cs by metis
  moreover have "address_allocate contexts db configs hwaddr netids now loopback consec_addr no_ping in_use pc = Some (r, pc')"
    using r(1) by (simp add: address_allocate_def Let_def)
  ultimately show ?thesis using r(2,4) cs by blast
qed

text \<open>C32: the search for a free address returns for every configuration, also for ranges that wrap around the address
  space. An address it yields lies in a dynamic range whose tags admit the client, is no router
  address, is not leased, not reserved for a host and no network or broadcast address of a class C
  network. When no ping is made and addresses are not given out consecutively it yields nothing only if the
  ranges that admit the client hold no such address. A cache of at most six pings keeps that bound.\<close>

theorem address_allocate_exact:
  assumes "length pc \<le> MAX_PINGS"
  shows "\<exists>r pc'. address_allocate contexts db configs hwaddr netids now loopback consec_addr no_ping in_use pc = Some (r, pc')
    \<and> length pc' \<le> MAX_PINGS
    \<and> (\<forall>a. r = Some a \<longrightarrow> (\<exists>c \<in> set contexts. eligible netids True c \<and> in_circle (cx_start c) (cx_end c) a)
          \<and> a \<notin> cx_router ` set contexts \<and> is_allocatable_addr a \<and> find_by_addr db a = None
          \<and> config_find_by_address configs a = None)
    \<and> (r = None \<and> (no_ping \<or> loopback) \<and> \<not> consec_addr \<longrightarrow>
         (\<forall>c \<in> set contexts. eligible netids True c \<longrightarrow>
            (\<forall>a. in_circle (cx_start c) (cx_end c) a \<longrightarrow> \<not> addr_free contexts db configs a)))"
proof -
  obtain r pc' where r: "address_allocate contexts db configs hwaddr netids now loopback consec_addr no_ping in_use pc = Some (r, pc')"
    "length pc' \<le> MAX_PINGS"
    "\<forall>a. r = Some a \<longrightarrow> (\<exists>c \<in> set contexts. eligible netids True c \<and> in_circle (cx_start c) (cx_end c) a)
       \<and> addr_free contexts db configs a"
    "r = None \<longrightarrow> (\<forall>c \<in> set contexts. eligible netids True c \<longrightarrow> (\<forall>a. in_circle (cx_start c) (cx_end c) a \<longrightarrow>
       (\<exists>pc0. \<not> fst (try_addr (addr_free contexts db configs)
          (\<lambda>addr. ping_check now addr (sdbm_hash hwaddr) no_ping loopback in_use) (sdbm_hash hwaddr) consec_addr a pc0))))"
    using address_allocate_scan [OF assms] by blast
  have "\<not> addr_free contexts db configs a"
    if "r = None" "no_ping \<or> loopback" "\<not> consec_addr" "c \<in> set contexts" "eligible netids True c" "in_circle (cx_start c) (cx_end c) a"
    for c a
    using r(4) that try_addr_quiet [OF that(2)] by metis
  with r(1-3) show ?thesis by (auto simp: addr_free_def list_ex_iff)
qed

definition demo_range :: dhcp_context where
  "demo_range =
     \<lparr>cx_lease_time = 3600, cx_addr_epoch = 0, cx_netmask = 0xFFFFFF00, cx_broadcast = 0x0A0000FF, cx_local = 0x0A000001,
      cx_router = 0x0A00000A, cx_start = 0x0A00000A, cx_end = 0x0A00000B, cx_flags = 0, cx_netid = [], cx_filter = []\<rparr>"

lemma demo_range_circle: "in_circle (cx_start demo_range) (cx_end demo_range) a \<Longrightarrow> a = 0x0A00000A \<or> a = 0x0A00000B"
  unfolding in_circle_iff by (auto simp: demo_range_def circle_size_def circle_at_def less_Suc_eq numeral_2_eq_2)

theorem address_allocate_exact_witness:
  "\<exists>pc'. address_allocate [demo_range] lease_db_new [] [1, 2, 3] [] 0 False False True (\<lambda>_. True) [] = Some (Some 0x0A00000B, pc')"
proof -
  have free: "addr_free [demo_range] lease_db_new [] 0x0A00000B" "eligible [] True demo_range"
    "in_circle (cx_start demo_range) (cx_end demo_range) 0x0A00000B" "cx_router demo_range = 0x0A00000A"
    by code_simp+
  from address_allocate_exact [of "[]" "[demo_range]" lease_db_new "[]" "[1, 2, 3]" "[]" 0 False False True "\<lambda>_. True"]
  obtain r pc' where r: "address_allocate [demo_range] lease_db_new [] [1, 2, 3] [] 0 False False True (\<lambda>_. True) [] = Some (r, pc')"
    "\<forall>a. r = Some a \<longrightarrow> in_circle (cx_start demo_range) (cx_end demo_range) a \<and> a \<noteq> cx_router demo_range"
    "r \<noteq> None"
    using free by auto
  then obtain a where "r = Some a" by blast
  with r demo_range_circle [of a] free(4) show ?thesis by auto
qed

end
