(* ===== verification/Dhcp_Server.thy ===== *)
theory Dhcp_Server
  imports Dhcp_Options Dhcp_Alloc Lease_Invariant Flags_Metrics
begin

unbundle bit_operations_syntax

text \<open>
  The DHCPv4 server: the handlers of \<open>src/rfc2131.rs\<close> (\<open>handle_discover\<close>, \<open>handle_request\<close>, \<open>handle_inform\<close>,
  \<open>handle_release\<close>, \<open>handle_decline\<close>, \<open>handle_bootp\<close>, \<open>handle_leasequery\<close>) and the dispatch of \<open>src/dhcp.rs\<close>
  (\<open>derived_tags\<close>, \<open>decorate_reply\<close>, \<open>record_lease\<close>, \<open>dispatch_dhcp_with_meta_view\<close>, \<open>dispatch_bootp\<close>,
  \<open>dispatch_leasequery\<close>, \<open>dispatch_dhcp_with_arrival\<close>, \<open>dhcp_reply_to_wire\<close>). A dispatch takes the state of the
  server, which is the lease database, the cache of pings and the metric counters, and one reading of the clock,
  and yields the reply, if any, with the new state. The outer option is that of \<open>address_allocate\<close>: it
  stands for a search that does not return. A host entry is its position in the list of entries. The configuration
  holds the fields that the dispatch reads.
\<close>

section \<open>Evaluation\<close>

text \<open>Code equations over the integers, whose numerals are evaluated in binary.\<close>

lemma to_be32_code [code]:
  "to_be32 w = [word_of_int (uint w div 16777216), word_of_int (uint w div 65536), word_of_int (uint w div 256), word_of_int (uint w)]"
proof -
  have "(word_of_nat (unat w div n) :: u8) = word_of_int (uint w div int n)" for n
    by (metis of_int_of_nat_eq uint_nat zdiv_int)
  from this [of 16777216] this [of 65536] this [of 256] this [of 1] show ?thesis by (simp add: to_be32_def)
qed

lemma from_be32_code [code]:
  "from_be32 a b c d = word_of_int (((uint a * 256 + uint b) * 256 + uint c) * 256 + uint d)"
  unfolding from_be32_def uint_nat
  by (metis (no_types, opaque_lifting) of_int_of_nat_eq of_nat_add of_nat_mult of_nat_numeral)

section \<open>Replies\<close>

record dhcp_reply =
  rp_msg_type :: dhcp_msg_type
  rp_yiaddr :: ipv4
  rp_options :: "u8 list"
  rp_siaddr :: ipv4
  rp_giaddr :: ipv4
  rp_sname :: "rstr option"
  rp_file :: "rstr option"
  rp_ciaddr_override :: "ipv4 option"
  rp_chaddr_override :: "(u8 list \<times> u8 \<times> u8) option"

definition plain_reply :: "dhcp_msg_type \<Rightarrow> ipv4 \<Rightarrow> u8 list \<Rightarrow> ipv4 \<Rightarrow> ipv4 \<Rightarrow> dhcp_reply" where
  "plain_reply msg_type yiaddr options siaddr giaddr =
     \<lparr>rp_msg_type = msg_type, rp_yiaddr = yiaddr, rp_options = options, rp_siaddr = siaddr, rp_giaddr = giaddr,
      rp_sname = None, rp_file = None, rp_ciaddr_override = None, rp_chaddr_override = None\<rparr>"

definition option_msg_type :: "dhcp_msg_type \<Rightarrow> u8 list" where
  "option_msg_type t = [OPTION_MESSAGE_TYPE, 1, msg_type_code t]"

definition in_pool :: "ipv4 \<Rightarrow> ipv4 \<Rightarrow> ipv4 \<Rightarrow> bool" where
  "in_pool addr pool_start pool_end \<longleftrightarrow> pool_start \<le> addr \<and> addr \<le> pool_end"

definition pick_offer_addr ::
    "ipv4 \<Rightarrow> ipv4 \<Rightarrow> dhcp_lease option \<Rightarrow> ipv4 option \<Rightarrow> ipv4 option \<Rightarrow> ipv4 option" where
  "pick_offer_addr pool_start pool_end existing_lease static_addr scanned_addr =
     (case static_addr of
        Some addr \<Rightarrow> Some addr
      | None \<Rightarrow>
          (case existing_lease of
             Some lease \<Rightarrow> if in_pool (l_addr lease) pool_start pool_end then Some (l_addr lease) else scanned_addr
           | None \<Rightarrow> scanned_addr))"

definition build_reply_options :: "dhcp_msg_type \<Rightarrow> ipv4 \<Rightarrow> u8 list" where
  "build_reply_options msg_type server_id =
     option_msg_type msg_type @ [OPTION_SERVER_IDENTIFIER, 4] @ octets4 server_id @ [OPTION_END]"

definition address_in_range :: "ipv4 \<Rightarrow> ipv4 \<Rightarrow> ipv4 \<Rightarrow> ipv4 option \<Rightarrow> bool \<Rightarrow> bool" where
  "address_in_range requested pool_start pool_end static_addr reserved_for_other \<longleftrightarrow>
     \<not> reserved_for_other
     \<and> (case static_addr of Some addr \<Rightarrow> requested = addr | None \<Rightarrow> in_pool requested pool_start pool_end)"

text \<open>The option is put in front of the first octet that equals the end marker.\<close>

definition make_rapid_commit_ack ::
    "dhcp_reply \<Rightarrow> ipv4 \<Rightarrow> ipv4 \<Rightarrow> ipv4 \<Rightarrow> ipv4 option \<Rightarrow> bool \<Rightarrow> dhcp_reply option" where
  "make_rapid_commit_ack reply server_id pool_start pool_end static_addr reserved_for_other =
     (if \<not> address_in_range (rp_yiaddr reply) pool_start pool_end static_addr reserved_for_other then None
      else let options = build_reply_options Ack server_id
           in Some (reply\<lparr>rp_msg_type := Ack,
                          rp_options := (case find_index (\<lambda>b. b = OPTION_END) options of
                             Some end_pos \<Rightarrow> take end_pos options @ [OPTION_RAPID_COMMIT, 0] @ drop end_pos options
                           | None \<Rightarrow> options)\<rparr>))"

definition handle_discover ::
    "dhcp_packet \<Rightarrow> ipv4 \<Rightarrow> ipv4 \<Rightarrow> dhcp_lease option \<Rightarrow> ipv4 \<Rightarrow> ipv4 option \<Rightarrow> ipv4 option \<Rightarrow> dhcp_reply option" where
  "handle_discover pkt pool_start pool_end existing_lease server_id static_addr scanned_addr =
     map_option (\<lambda>yiaddr. plain_reply Offer yiaddr (build_reply_options Offer server_id) server_id (bp_giaddr pkt))
       (pick_offer_addr pool_start pool_end existing_lease static_addr scanned_addr)"

definition requested_addr :: "dhcp_packet \<Rightarrow> ipv4 option" where
  "requested_addr pkt = opt_or (find_requested_ip (bp_options pkt)) (if bp_ciaddr pkt \<noteq> 0 then Some (bp_ciaddr pkt) else None)"

definition handle_request ::
    "dhcp_packet \<Rightarrow> ipv4 \<Rightarrow> ipv4 \<Rightarrow> ipv4 \<Rightarrow> ipv4 option \<Rightarrow> bool \<Rightarrow> dhcp_reply option" where
  "handle_request pkt pool_start pool_end server_id static_addr reserved_for_other =
     map_option (\<lambda>requested.
       if address_in_range requested pool_start pool_end static_addr reserved_for_other
       then plain_reply Ack (case static_addr of Some addr \<Rightarrow> addr | None \<Rightarrow> requested) (build_reply_options Ack server_id)
              server_id (bp_giaddr pkt)
       else plain_reply Nak 0 (build_reply_options Nak server_id) 0 (bp_giaddr pkt)) (requested_addr pkt)"

definition handle_bootp :: "dhcp_packet \<Rightarrow> ipv4 \<Rightarrow> ipv4 \<Rightarrow> dhcp_reply" where
  "handle_bootp pkt yiaddr server_id = plain_reply dhcp_msg_type.Bootp yiaddr [] server_id (bp_giaddr pkt)"

definition handle_inform :: "dhcp_packet \<Rightarrow> ipv4 \<Rightarrow> dhcp_reply option" where
  "handle_inform pkt server_id =
     (if bp_ciaddr pkt = 0 then None
      else Some (plain_reply Ack 0 (build_reply_options Ack server_id) server_id (bp_giaddr pkt)))"

definition handle_release :: "dhcp_packet \<Rightarrow> ipv4 \<Rightarrow> ipv4 \<Rightarrow> bool" where
  "handle_release pkt pool_start pool_end = in_pool (bp_ciaddr pkt) pool_start pool_end"

definition handle_decline :: "dhcp_packet \<Rightarrow> ipv4 \<Rightarrow> ipv4 \<Rightarrow> bool" where
  "handle_decline pkt pool_start pool_end =
     (case find_requested_ip (bp_options pkt) of
        Some declined_ip \<Rightarrow> in_pool declined_ip pool_start pool_end
      | None \<Rightarrow> False)"

text \<open>\<open>exp.duration_since(now)\<close> in seconds, as a 32-bit number; zero for a time in the past.\<close>

definition remaining_time :: "int \<Rightarrow> int \<Rightarrow> u32" where
  "remaining_time now ex = (if ex < now then 0 else word_of_int ((ex - now) div 1000000000))"

definition put_if :: "bool \<Rightarrow> u8 \<Rightarrow> u32 \<Rightarrow> u8 list \<Rightarrow> u8 list" where
  "put_if wanted code val opts = (if wanted then option_put opts code val 4 else opts)"

definition query_times :: "u8 list option \<Rightarrow> u32 option \<Rightarrow> u32 \<Rightarrow> u8 list \<Rightarrow> u8 list" where
  "query_times req_options remaining full_lease_time opts =
     (let o1 = put_if (in_list req_options OPTION_LEASE_TIME) OPTION_LEASE_TIME
                 (case remaining of Some r \<Rightarrow> r | None \<Rightarrow> 0xFFFFFFFF) opts
      in (case remaining of
            None \<Rightarrow> o1
          | Some r \<Rightarrow>
              put_if (in_list req_options OPTION_LAST_TRANSACTION \<and> r < full_lease_time) OPTION_LAST_TRANSACTION
                (full_lease_time - r)
                (put_if (in_list req_options OPTION_T2 \<and> r > full_lease_time div 8) OPTION_T2 (r - full_lease_time div 8)
                  (put_if (in_list req_options OPTION_T1 \<and> r > full_lease_time div 2) OPTION_T1 (r - full_lease_time div 2) o1))))"

definition query_options ::
    "int \<Rightarrow> dhcp_lease \<Rightarrow> u8 list option \<Rightarrow> dhcp_context option \<Rightarrow> netid list \<Rightarrow> dhcp_opt list \<Rightarrow> rstr option \<Rightarrow> u32
      \<Rightarrow> u8 list \<Rightarrow> u8 list" where
  "query_options now lease req_options ctx filtered_tags config_opts domain full_lease_time opts =
     (let o1 = (case l_clid lease of
                  Some clid \<Rightarrow> if in_list req_options OPTION_CLIENT_ID then option_put_raw opts OPTION_CLIENT_ID clid else opts
                | None \<Rightarrow> opts);
          o2 = query_times req_options (map_option (remaining_time now) (l_expires lease)) full_lease_time o1;
          o3 = fst (do_options o2
                 \<lparr>od_context = ctx, od_req_options = req_options, od_hostname = l_hostname lease, od_domain = domain,
                  od_netid = filtered_tags, od_subnet_addr = None, od_fqdn_flags = 0, od_null_term = False,
                  od_pxe_arch = - 1, od_uuid = None, od_vendor_class = l_vendorclass lease, od_lease_time = 0xFFFFFFFF,
                  od_fuzz = 0, od_pxevendor = None, od_config_opts = config_opts, od_boot = None, od_dns_port = 53,
                  od_leasequery = True\<rparr>)
      in (case l_agent_id lease of
            Some agent_id \<Rightarrow> if in_list req_options OPTION_AGENT_ID then option_put_raw o3 OPTION_AGENT_ID agent_id else o3
          | None \<Rightarrow> o3))"

definition handle_leasequery ::
    "int \<Rightarrow> dhcp_packet \<Rightarrow> dhcp_msg_type \<Rightarrow> dhcp_lease option \<Rightarrow> u8 list option \<Rightarrow> dhcp_context option \<Rightarrow> netid list
      \<Rightarrow> dhcp_opt list \<Rightarrow> rstr option \<Rightarrow> u32 \<Rightarrow> dhcp_reply" where
  "handle_leasequery now pkt reply_type lease req_options ctx filtered_tags config_opts domain full_lease_time =
     (let options = option_put [] OPTION_MESSAGE_TYPE (ucast (msg_type_code reply_type)) 1;
          reply = (plain_reply reply_type 0 options 0 (bp_giaddr pkt))
                    \<lparr>rp_ciaddr_override := if reply_type = LeaseUnknown then Some 0 else None\<rparr>
      in (case lease of
            None \<Rightarrow> reply
          | Some l \<Rightarrow>
              let hw_len = min (l_hwaddr_len l) DHCP_CHADDR_MAX;
                  chaddr = take hw_len (l_hwaddr l) @ replicate (DHCP_CHADDR_MAX - hw_len) 0
              in reply\<lparr>rp_ciaddr_override := Some (l_addr l),
                       rp_chaddr_override := Some (chaddr, word_of_nat hw_len, word_of_int (l_hwaddr_type l)),
                       rp_options := query_options now l req_options ctx filtered_tags config_opts domain full_lease_time options\<rparr>))"

definition fixed_field :: "nat \<Rightarrow> rstr option \<Rightarrow> u8 list" where
  "fixed_field n name = (case name of None \<Rightarrow> replicate n 0 | Some s \<Rightarrow> take n s @ replicate (n - length s) 0)"

definition dhcp_reply_to_wire :: "dhcp_reply \<Rightarrow> dhcp_packet \<Rightarrow> u8 list" where
  "dhcp_reply_to_wire reply request =
     (let (chaddr, hlen, htype) = (case rp_chaddr_override reply of
            None \<Rightarrow> (bp_chaddr request, bp_hlen request, bp_htype request) | Some over \<Rightarrow> over)
      in end_and_pad ([BOOTREPLY, htype, hlen, 0] @ to_be32 (bp_xid request) @ [0, 0] @ [0, 0]
           @ octets4 (case rp_ciaddr_override reply of None \<Rightarrow> bp_ciaddr request | Some a \<Rightarrow> a)
           @ octets4 (rp_yiaddr reply) @ octets4 (rp_siaddr reply) @ octets4 (rp_giaddr reply) @ chaddr
           @ fixed_field 64 (rp_sname reply) @ fixed_field 128 (rp_file reply) @ to_be32 DHCP_COOKIE) (rp_options reply))"

section \<open>Configuration and state\<close>

record class_rule =
  cr_netid :: netid
  cr_class :: "u8 list"

record mac_rule =
  mr_netid :: netid
  mr_hwaddr :: "u8 list"
  mr_hwaddr_len :: int
  mr_hwaddr_type :: int
  mr_wildcard_mask :: u32

record relay_id_rule =
  ri_netid :: netid
  ri_subopt :: u8
  ri_data :: "u8 list"

record match_name =
  mn_netid :: netid
  mn_name :: rstr
  mn_wildcard :: bool

record reply_delay =
  rd_delay_secs :: u32
  rd_filter :: "netid list"

record dhcp_server_config =
  sc_pool_start :: ipv4
  sc_pool_end :: ipv4
  sc_server_ip :: ipv4
  sc_configs :: "dhcp_config list"
  sc_vendor_rules :: "class_rule list"
  sc_user_class_rules :: "class_rule list"
  sc_mac_rules :: "mac_rule list"
  sc_relay_id_rules :: "relay_id_rule list"
  sc_reply_delays :: "reply_delay list"
  sc_contexts :: "dhcp_context list"
  sc_dhcp_opts :: "dhcp_opt list"
  sc_boot_configs :: "dhcp_boot list"
  sc_domain_suffix :: "rstr option"
  sc_match_rules :: "dhcp_opt list"
  sc_name_match_rules :: "match_name list"
  sc_tag_rules :: "tag_if list"
  sc_no_ping :: bool
  sc_consec_addr :: bool
  sc_dhcp_ignore :: "netid list list"
  sc_bootp_dynamic :: "netid list list"
  sc_rapid_commit :: bool
  sc_leasequery_addr :: "bogus_addr list"
  sc_leasequery_enabled :: bool
  sc_leasequery_source :: ipv4

record dhcp_state =
  st_leases :: lease_db
  st_pings :: "ping_result list"
  st_metrics :: counters

definition count :: "metric \<Rightarrow> dhcp_state \<Rightarrow> dhcp_state" where
  "count m st = st\<lparr>st_metrics := inc_metric m (st_metrics st)\<rparr>"

record dispatched_reply =
  dr_reply :: dhcp_reply
  dr_delay_secs :: u32

section \<open>Tags of a client\<close>

function rfc3004_user_classes :: "u8 list \<Rightarrow> u8 list list option" where
  "rfc3004_user_classes [] = Some []"
| "rfc3004_user_classes (len # rest) =
     (if length rest < unat len then None
      else map_option (Cons (take (unat len) rest)) (rfc3004_user_classes (drop (unat len) rest)))"
  by pat_completeness auto
termination by (relation "measure length") auto

definition user_class_matches :: "u8 list \<Rightarrow> u8 list \<Rightarrow> bool" where
  "user_class_matches raw user_class =
     (if user_class = [] then True
      else (case rfc3004_user_classes raw of
              Some classes \<Rightarrow> list_ex (\<lambda>class. has_window class user_class) classes
            | None \<Rightarrow> has_window raw user_class))"

definition mac_matches :: "dhcp_packet \<Rightarrow> nat \<Rightarrow> mac_rule \<Rightarrow> bool" where
  "mac_matches pkt hw_len rule \<longleftrightarrow>
     mr_hwaddr_len rule = int hw_len \<and> (mr_hwaddr_type rule = int (unat (bp_htype pkt)) \<or> mr_hwaddr_type rule = 0)
     \<and> memcmp_masked (take hw_len (mr_hwaddr rule)) (take hw_len (bp_chaddr pkt)) (mr_wildcard_mask rule) \<noteq> 0"

fun relay_id_tags :: "u8 list \<Rightarrow> relay_id_rule list \<Rightarrow> netid list exec" where
  "relay_id_tags agent_info [] = Done []"
| "relay_id_tags agent_info (rule # rules) =
     bind_exec (find_dhcp_option agent_info (ri_subopt rule) 1) (\<lambda>found.
       bind_exec (relay_id_tags agent_info rules) (\<lambda>tags.
         Done (case found of
                 Some opt \<Rightarrow> if or_data opt = ri_data rule then ri_netid rule # tags else tags
               | None \<Rightarrow> tags)))"

definition match_rule_tags :: "u8 list \<Rightarrow> dhcp_opt \<Rightarrow> netid list" where
  "match_rule_tags options rule =
     (if 0 \<le> op_opt rule \<and> op_opt rule < 256
      then (case find_option options (word_of_int (op_opt rule)) of
              Some data \<Rightarrow> if match_bytes rule data then op_netid rule else []
            | None \<Rightarrow> [])
      else [])"

text \<open>The slice \<open>&name[..n]\<close> panics when it ends inside a character.\<close>

definition name_rule_matches :: "rstr \<Rightarrow> match_name \<Rightarrow> bool exec" where
  "name_rule_matches name rule =
     (if length name < length (mn_name rule) then Done False
      else if length name = length (mn_name rule) then Done (hostname_isequal name (mn_name rule))
      else if \<not> mn_wildcard rule then Done False
      else if is_char_boundary name (length (mn_name rule))
           then Done (hostname_isequal (take (length (mn_name rule)) name) (mn_name rule))
           else Panic)"

fun name_tags :: "rstr \<Rightarrow> match_name list \<Rightarrow> netid list exec" where
  "name_tags name [] = Done []"
| "name_tags name (rule # rules) =
     bind_exec (name_rule_matches name rule) (\<lambda>matched.
       bind_exec (name_tags name rules) (\<lambda>tags. Done (if matched then mn_netid rule # tags else tags)))"

definition hardware_len :: "dhcp_packet \<Rightarrow> nat" where
  "hardware_len pkt = min (unat (bp_hlen pkt)) DHCP_CHADDR_MAX"

definition derived_tags :: "dhcp_packet \<Rightarrow> dhcp_server_config \<Rightarrow> rstr option \<Rightarrow> netid list exec" where
  "derived_tags pkt cfg hostname =
     (let vendor = (case find_option (bp_options pkt) OPTION_VENDOR_ID of
                      None \<Rightarrow> []
                    | Some data \<Rightarrow> map cr_netid (filter (\<lambda>rule. cr_class rule = [] \<or> has_window data (cr_class rule))
                                     (sc_vendor_rules cfg)));
          user = (case find_option (bp_options pkt) OPTION_USER_CLASS of
                    None \<Rightarrow> []
                  | Some raw \<Rightarrow> map cr_netid (filter (\<lambda>rule. user_class_matches raw (cr_class rule)) (sc_user_class_rules cfg)));
          mac = map mr_netid (filter (mac_matches pkt (hardware_len pkt)) (sc_mac_rules cfg))
      in bind_exec (case find_option (bp_options pkt) OPTION_AGENT_ID of
                      None \<Rightarrow> Done [] | Some agent_info \<Rightarrow> relay_id_tags agent_info (sc_relay_id_rules cfg)) (\<lambda>relay.
         bind_exec (case hostname of None \<Rightarrow> Done [] | Some name \<Rightarrow> name_tags name (sc_name_match_rules cfg)) (\<lambda>names.
           Done (vendor @ user @ mac @ relay
                 @ concat (map (match_rule_tags (bp_options pkt)) (sc_match_rules cfg)) @ names))))"

definition select_reply_delay :: "netid list \<Rightarrow> dhcp_server_config \<Rightarrow> u32" where
  "select_reply_delay tags cfg =
     (case find (\<lambda>rule. rd_filter rule \<noteq> [] \<and> match_netid_wild (rd_filter rule) tags) (sc_reply_delays cfg) of
        Some rule \<Rightarrow> rd_delay_secs rule
      | None \<Rightarrow> (case find (\<lambda>rule. rd_filter rule = []) (sc_reply_delays cfg) of
                   Some rule \<Rightarrow> rd_delay_secs rule | None \<Rightarrow> 0))"

section \<open>Options of a reply\<close>

text \<open>The contexts of the view are an argument of their own.\<close>

definition context_for_reply :: "dhcp_context list \<Rightarrow> dhcp_reply \<Rightarrow> dhcp_context option" where
  "context_for_reply contexts reply =
     (let first = (case contexts of [] \<Rightarrow> None | c # _ \<Rightarrow> Some c)
      in if rp_yiaddr reply = 0 then first else opt_or (narrow_context contexts (rp_yiaddr reply)) first)"

definition requested_arch :: "dhcp_packet \<Rightarrow> int" where
  "requested_arch pkt =
     (case find_option (bp_options pkt) OPTION_ARCH of
        None \<Rightarrow> - 1
      | Some raw \<Rightarrow> if length raw < 2 then - 1 else int (unat (from_be16 (raw ! 0) (raw ! 1))))"

definition context_tags :: "dhcp_context option \<Rightarrow> netid list option" where
  "context_tags ctx = (case ctx of None \<Rightarrow> None | Some c \<Rightarrow> if cx_netid c \<noteq> [] then Some [cx_netid c] else None)"

definition config_tags :: "dhcp_config option \<Rightarrow> netid list" where
  "config_tags config = (case config of None \<Rightarrow> [] | Some c \<Rightarrow> dc_netid c)"

definition choose_boot :: "dhcp_boot list \<Rightarrow> netid list \<Rightarrow> dhcp_boot option" where
  "choose_boot boot_configs tags =
     opt_or (case find (\<lambda>tag. tag \<noteq> []) tags of None \<Rightarrow> None | Some tag \<Rightarrow> find_boot boot_configs (Some tag))
       (find_boot boot_configs None)"

definition apply_boot :: "dhcp_boot option \<Rightarrow> dhcp_reply \<Rightarrow> dhcp_reply" where
  "apply_boot boot reply =
     (case boot of
        None \<Rightarrow> reply
      | Some b \<Rightarrow> reply\<lparr>rp_siaddr := if bt_next_server b \<noteq> 0 then bt_next_server b else rp_siaddr reply,
                         rp_sname := bt_sname b, rp_file := bt_file b\<rparr>)"

definition context_lease_time :: "dhcp_context option \<Rightarrow> u32" where
  "context_lease_time ctx = (case ctx of None \<Rightarrow> 3600 | Some c \<Rightarrow> cx_lease_time c)"

definition is_inform :: "dhcp_packet \<Rightarrow> bool" where
  "is_inform pkt \<longleftrightarrow> get_message_type (bp_options pkt) = Some Inform"

definition reply_options_config ::
    "dhcp_reply \<Rightarrow> dhcp_packet \<Rightarrow> dhcp_server_config \<Rightarrow> dhcp_context option \<Rightarrow> dhcp_config option \<Rightarrow> netid list
      \<Rightarrow> dhcp_opt list \<Rightarrow> dhcp_boot option \<Rightarrow> do_options_config" where
  "reply_options_config reply pkt cfg ctx config filtered_tags config_opts boot =
     (let is_bootp = (rp_msg_type reply = dhcp_msg_type.Bootp)
      in \<lparr>od_context = ctx,
          od_req_options = if is_bootp then None else find_option (bp_options pkt) OPTION_REQUESTED_OPTIONS,
          od_hostname = Option.bind config dc_hostname,
          od_domain = opt_or (Option.bind config dc_domain) (sc_domain_suffix cfg),
          od_netid = filtered_tags, od_subnet_addr = None, od_fqdn_flags = 0, od_null_term = False,
          od_pxe_arch = if is_bootp then - 1 else requested_arch pkt, od_uuid = None,
          od_vendor_class = find_option (bp_options pkt) OPTION_VENDOR_ID,
          od_lease_time = if is_inform pkt \<or> is_bootp then 0xFFFFFFFF else context_lease_time ctx,
          od_fuzz = 0, od_pxevendor = None, od_config_opts = config_opts, od_boot = boot, od_dns_port = 53,
          od_leasequery = False\<rparr>)"

definition decorate_reply ::
    "dhcp_reply \<Rightarrow> dhcp_packet \<Rightarrow> dhcp_server_config \<Rightarrow> dhcp_context list \<Rightarrow> netid list \<Rightarrow> dhcp_config option \<Rightarrow> dhcp_reply" where
  "decorate_reply reply pkt cfg contexts tags config =
     (let ctx = context_for_reply contexts reply;
          pxemode = (if is_pxe_client (find_option (bp_options pkt) OPTION_VENDOR_ID) then 1 else 0);
          (filtered_tags, config_opts) =
            option_filter (tags @ config_tags config) (context_tags ctx) (sc_dhcp_opts cfg) pxemode (sc_tag_rules cfg);
          boot = choose_boot (sc_boot_configs cfg) filtered_tags;
          write_lease_time = (rp_msg_type reply = Offer \<or> rp_msg_type reply = Ack \<and> \<not> is_inform pkt);
          o1 = (if write_lease_time then option_put (rp_options reply) OPTION_LEASE_TIME (context_lease_time ctx) 4
                else rp_options reply);
          o2 = fst (do_options o1 (reply_options_config reply pkt cfg ctx config filtered_tags config_opts boot))
      in (apply_boot boot reply)
           \<lparr>rp_options := (case find_option (bp_options pkt) OPTION_AGENT_ID of
                             Some agent_info \<Rightarrow> option_put_raw o2 OPTION_AGENT_ID agent_info
                           | None \<Rightarrow> o2)\<rparr>)"

section \<open>Dispatch\<close>

definition synthetic_pool_context :: "ipv4 \<Rightarrow> ipv4 \<Rightarrow> dhcp_context" where
  "synthetic_pool_context pool_start pool_end =
     \<lparr>cx_lease_time = 3600, cx_addr_epoch = 0, cx_netmask = 0, cx_broadcast = 0, cx_local = 0, cx_router = 0,
      cx_start = pool_start, cx_end = pool_end, cx_flags = 0, cx_netid = [], cx_filter = []\<rparr>"

definition allocation_contexts :: "dhcp_server_config \<Rightarrow> dhcp_context list \<Rightarrow> dhcp_context list" where
  "allocation_contexts cfg contexts =
     (if contexts = [] then [synthetic_pool_context (sc_pool_start cfg) (sc_pool_end cfg)] else contexts)"

definition hardware_addr :: "dhcp_packet \<Rightarrow> u8 list" where
  "hardware_addr pkt = take (hardware_len pkt) (bp_chaddr pkt)"

definition hardware_type :: "dhcp_packet \<Rightarrow> int" where
  "hardware_type pkt = int (unat (bp_htype pkt))"

definition client_clid :: "dhcp_packet \<Rightarrow> u8 list option" where
  "client_clid pkt = find_option (bp_options pkt) OPTION_CLIENT_ID"

definition client_hostname :: "dhcp_packet \<Rightarrow> rstr option" where
  "client_hostname pkt =
     (case find_option (bp_options pkt) OPTION_HOSTNAME of
        None \<Rightarrow> None | Some raw \<Rightarrow> if utf8_valid raw then Some raw else None)"

definition record_lease ::
    "(lkey list \<Rightarrow> lkey list) \<Rightarrow> int \<Rightarrow> ipv4 \<Rightarrow> dhcp_packet \<Rightarrow> u8 list option \<Rightarrow> rstr option \<Rightarrow> u32 \<Rightarrow> lease_db \<Rightarrow> lease_db" where
  "record_lease ord now addr pkt clid hostname lease_time db =
     (let bind_lease = (\<lambda>db1.
            set_expires now addr lease_time
              (set_hostname ord addr hostname False
                (snd (set_hwaddr addr (hardware_addr pkt) (hardware_type pkt) clid False db1))))
      in if find_by_addr db addr \<noteq> None then bind_lease db
         else (case allocate_v4 addr db of
                 (None, db1) \<Rightarrow> db1
               | (Some _, db1) \<Rightarrow> bind_lease db1))"

text \<open>The host entry of a client, its static address, and whether an address is reserved for another client.\<close>

definition client_config :: "dhcp_server_config \<Rightarrow> dhcp_packet \<Rightarrow> netid list \<Rightarrow> nat option" where
  "client_config cfg pkt tags =
     find_config (sc_configs cfg) (client_clid pkt) (Some (hardware_addr pkt)) (hardware_type pkt) (client_hostname pkt) tags"

definition config_at :: "dhcp_server_config \<Rightarrow> nat option \<Rightarrow> dhcp_config option" where
  "config_at cfg config = map_option (\<lambda>i. sc_configs cfg ! i) config"

definition static_addr :: "dhcp_server_config \<Rightarrow> nat option \<Rightarrow> ipv4 option" where
  "static_addr cfg config =
     (case config_at cfg config of
        None \<Rightarrow> None | Some c \<Rightarrow> if dc_flags c AND CONFIG_ADDR \<noteq> 0 then Some (dc_addr c) else None)"

definition reserved_for_other :: "dhcp_server_config \<Rightarrow> nat option \<Rightarrow> ipv4 option \<Rightarrow> bool" where
  "reserved_for_other cfg config addr =
     (case Option.bind addr (config_find_by_address (sc_configs cfg)) of
        None \<Rightarrow> False | Some i \<Rightarrow> config \<noteq> Some i)"

definition disabled_by_tags :: "dhcp_server_config \<Rightarrow> netid list \<Rightarrow> bool" where
  "disabled_by_tags cfg tags =
     list_ex (\<lambda>c. dc_flags c AND CONFIG_DISABLE \<noteq> 0 \<and> dc_filter c \<noteq> [] \<and> match_netid_wild (dc_filter c) tags) (sc_configs cfg)"

definition dispatch_discover ::
    "(ipv4 \<Rightarrow> bool) \<Rightarrow> int \<Rightarrow> dhcp_packet \<Rightarrow> dhcp_server_config \<Rightarrow> dhcp_context list \<Rightarrow> netid list \<Rightarrow> nat option
      \<Rightarrow> dhcp_state \<Rightarrow> (dhcp_reply option \<times> dhcp_state) option" where
  "dispatch_discover in_use now pkt cfg contexts tags config st0 =
     (let st = count Dhcpdiscover st0; static = static_addr cfg config
      in map_option (\<lambda>(scanned_addr, pings).
           let offer = handle_discover pkt (sc_pool_start cfg) (sc_pool_end cfg) None (sc_server_ip cfg) static scanned_addr
           in (if sc_rapid_commit cfg \<and> find_option (bp_options pkt) OPTION_RAPID_COMMIT \<noteq> None
               then Option.bind offer (\<lambda>r.
                      make_rapid_commit_ack r (sc_server_ip cfg) (sc_pool_start cfg) (sc_pool_end cfg) static
                        (reserved_for_other cfg config (Some (rp_yiaddr r))))
               else offer, st\<lparr>st_pings := pings\<rparr>))
         (if static = None
          then address_allocate (allocation_contexts cfg contexts) (st_leases st) (sc_configs cfg) (hardware_addr pkt)
                 (tags @ config_tags (config_at cfg config)) now False (sc_consec_addr cfg) (sc_no_ping cfg) in_use (st_pings st)
          else Some (None, st_pings st)))"

definition remove_lease :: "ipv4 \<Rightarrow> dhcp_state \<Rightarrow> dhcp_state" where
  "remove_lease addr st = st\<lparr>st_leases := snd (remove_by_addr addr (st_leases st))\<rparr>"

definition answer_message ::
    "(ipv4 \<Rightarrow> bool) \<Rightarrow> int \<Rightarrow> dhcp_msg_type \<Rightarrow> dhcp_packet \<Rightarrow> dhcp_server_config \<Rightarrow> dhcp_context list \<Rightarrow> netid list \<Rightarrow> nat option
      \<Rightarrow> dhcp_state \<Rightarrow> (dhcp_reply option \<times> dhcp_state) option" where
  "answer_message in_use now msg_type pkt cfg contexts tags config st =
     (let ps = sc_pool_start cfg; pe = sc_pool_end cfg
      in (case msg_type of
            Discover \<Rightarrow> dispatch_discover in_use now pkt cfg contexts tags config st
          | Request \<Rightarrow>
              Some (handle_request pkt ps pe (sc_server_ip cfg) (static_addr cfg config)
                      (reserved_for_other cfg config (requested_addr pkt)), count Dhcprequest st)
          | Release \<Rightarrow>
              Some (None, let st1 = count Dhcprelease st
                          in if handle_release pkt ps pe then remove_lease (bp_ciaddr pkt) st1 else st1)
          | Inform \<Rightarrow> Some (handle_inform pkt (sc_server_ip cfg), count Dhcpinform st)
          | Decline \<Rightarrow>
              Some (None, let st1 = count Dhcpdecline st
                          in if handle_decline pkt ps pe
                             then (case find_requested_ip (bp_options pkt) of
                                     Some declined \<Rightarrow> remove_lease declined st1 | None \<Rightarrow> st1)
                             else st1)
          | _ \<Rightarrow> Some (None, st)))"

definition finish_reply ::
    "(lkey list \<Rightarrow> lkey list) \<Rightarrow> int \<Rightarrow> dhcp_msg_type \<Rightarrow> dhcp_packet \<Rightarrow> dhcp_server_config \<Rightarrow> dhcp_context list \<Rightarrow> netid list
      \<Rightarrow> nat option \<Rightarrow> dhcp_reply option \<times> dhcp_state \<Rightarrow> dispatched_reply option \<times> dhcp_state" where
  "finish_reply ord now msg_type pkt cfg contexts tags config answer =
     (case answer of
        (None, st) \<Rightarrow> (None, st)
      | (Some r, st) \<Rightarrow>
          let reply = decorate_reply r pkt cfg contexts tags (config_at cfg config);
              st1 = (if rp_msg_type reply = Ack \<and> rp_yiaddr reply \<noteq> 0 \<and> \<not> is_inform pkt
                     then st\<lparr>st_leases := record_lease ord now (rp_yiaddr reply) pkt (client_clid pkt) (client_hostname pkt)
                            (context_lease_time (context_for_reply contexts reply)) (st_leases st)\<rparr>
                     else st);
              delay_secs = (if rp_msg_type reply = Offer \<or> msg_type = Discover \<and> rp_msg_type reply = Ack
                            then select_reply_delay tags cfg else 0)
          in (Some \<lparr>dr_reply = reply, dr_delay_secs = delay_secs\<rparr>, st1))"

definition bootp_file_tag :: "dhcp_packet \<Rightarrow> netid option" where
  "bootp_file_tag pkt =
     (let s = takeWhile (\<lambda>b. b \<noteq> 0) (bp_file pkt)
      in if s = [] then None else if utf8_valid s then Some s else None)"

definition bootp_dynamic_allowed :: "netid list list \<Rightarrow> netid list \<Rightarrow> bool" where
  "bootp_dynamic_allowed rules tags \<longleftrightarrow> rules \<noteq> [] \<and> list_ex (\<lambda>flt. match_netid_wild flt tags) rules"

text \<open>The address for a BOOTP client, if there is one.\<close>

definition bootp_addr ::
    "(ipv4 \<Rightarrow> bool) \<Rightarrow> int \<Rightarrow> dhcp_packet \<Rightarrow> dhcp_server_config \<Rightarrow> dhcp_context list \<Rightarrow> netid list \<Rightarrow> nat option
      \<Rightarrow> dhcp_lease option \<Rightarrow> dhcp_state \<Rightarrow> (ipv4 option \<times> dhcp_state) option" where
  "bootp_addr in_use now pkt cfg contexts bootp_tags config lease_by_client st =
     (case static_addr cfg config of
        Some addr \<Rightarrow>
          Some (case find_by_addr (st_leases st) addr of
                  Some existing \<Rightarrow>
                    if l_hwaddr_len existing \<noteq> hardware_len pkt \<or> l_hwaddr_type existing \<noteq> hardware_type pkt
                       \<or> take (hardware_len pkt) (l_hwaddr existing) \<noteq> hardware_addr pkt
                    then None else Some addr
                | None \<Rightarrow> Some addr, st)
      | None \<Rightarrow>
          (case lease_by_client of
             Some existing \<Rightarrow>
               if address_available (allocation_contexts cfg contexts) (l_addr existing) then Some (Some (l_addr existing), st)
               else map_option (\<lambda>(a, pings). (a, st\<lparr>st_pings := pings\<rparr>))
                 (address_allocate (allocation_contexts cfg contexts) (st_leases st) (sc_configs cfg) (hardware_addr pkt)
                    bootp_tags now False (sc_consec_addr cfg) (sc_no_ping cfg) in_use (st_pings st))
           | None \<Rightarrow>
               map_option (\<lambda>(a, pings). (a, st\<lparr>st_pings := pings\<rparr>))
                 (address_allocate (allocation_contexts cfg contexts) (st_leases st) (sc_configs cfg) (hardware_addr pkt)
                    bootp_tags now False (sc_consec_addr cfg) (sc_no_ping cfg) in_use (st_pings st))))"

definition bootp_lease_time :: "dhcp_config option \<Rightarrow> bool \<Rightarrow> u32" where
  "bootp_lease_time config nailed =
     (case config of
        Some c \<Rightarrow> if nailed \<and> dc_flags c AND CONFIG_TIME \<noteq> 0 then dc_lease_time c else 0xFFFFFFFF
      | None \<Rightarrow> 0xFFFFFFFF)"

definition dispatch_bootp ::
    "(lkey list \<Rightarrow> lkey list) \<Rightarrow> (ipv4 \<Rightarrow> bool) \<Rightarrow> int \<Rightarrow> dhcp_packet \<Rightarrow> dhcp_server_config \<Rightarrow> dhcp_context list \<Rightarrow> netid list
      \<Rightarrow> nat option \<Rightarrow> dhcp_lease option \<Rightarrow> dhcp_state \<Rightarrow> (dispatched_reply option \<times> dhcp_state) option" where
  "dispatch_bootp ord in_use now pkt cfg contexts tags config lease_by_client st =
     (let bootp_tags = tags @ config_tags (config_at cfg config)
                       @ (case bootp_file_tag pkt of None \<Rightarrow> [] | Some t \<Rightarrow> [t]) @ [str_lit ''bootp''];
          nailed = (static_addr cfg config \<noteq> None)
      in if bp_htype pkt = 0 \<or> bp_hlen pkt = 0 then Some (None, st)
         else if disabled_by_tags cfg bootp_tags then Some (None, st)
         else map_option (\<lambda>(addr, st1).
           (case addr of
              None \<Rightarrow> (None, st1)
            | Some yiaddr \<Rightarrow>
                if narrow_context (allocation_contexts cfg contexts) yiaddr = None then (None, st1)
                else if \<not> nailed \<and> \<not> bootp_dynamic_allowed (sc_bootp_dynamic cfg) bootp_tags then (None, st1)
                else let r = decorate_reply (handle_bootp pkt yiaddr (sc_server_ip cfg)) pkt cfg contexts bootp_tags
                               (config_at cfg config);
                         reply = r\<lparr>rp_options := cap_vendor_area (rp_options r) 64\<rparr>;
                         db = record_lease ord now yiaddr pkt (client_clid pkt) (client_hostname pkt)
                                (bootp_lease_time (config_at cfg config) nailed) (st_leases st1)
                     in (Some \<lparr>dr_reply = reply, dr_delay_secs = 0\<rparr>, count metric.Bootp (st1\<lparr>st_leases := db\<rparr>))))
           (bootp_addr in_use now pkt cfg contexts bootp_tags config lease_by_client st))"

definition leasequery_permitted :: "dhcp_server_config \<Rightarrow> bool" where
  "leasequery_permitted cfg \<longleftrightarrow>
     sc_leasequery_enabled cfg \<and> sc_leasequery_source cfg \<noteq> 0
     \<and> (sc_leasequery_addr cfg = []
        \<or> list_ex (\<lambda>b. \<not> ba_is6 b
             \<and> (case as_ipv4 (ba_addr b) of
                  Some a \<Rightarrow> is_same_net_prefix (sc_leasequery_source cfg) a (nat (min (max (ba_prefix b) 0) 32))
                | None \<Rightarrow> False)) (sc_leasequery_addr cfg))"

definition classify_query ::
    "dhcp_context list \<Rightarrow> dhcp_packet \<Rightarrow> dhcp_lease option \<Rightarrow> dhcp_msg_type \<times> metric \<times> dhcp_lease option" where
  "classify_query contexts pkt queried =
     (case queried of
        Some l \<Rightarrow>
          if narrow_context contexts (l_addr l) \<noteq> None then (LeaseActive, Dhcpleaseactive, Some l)
          else (LeaseUnknown, Dhcpleaseunknown, None)
      | None \<Rightarrow>
          if bp_ciaddr pkt \<noteq> 0 \<and> address_available contexts (bp_ciaddr pkt) then (LeaseUnassigned, Dhcpleaseunassigned, None)
          else (LeaseUnknown, Dhcpleaseunknown, None))"

definition active_reply ::
    "int \<Rightarrow> dhcp_packet \<Rightarrow> dhcp_server_config \<Rightarrow> dhcp_context list \<Rightarrow> netid list \<Rightarrow> dhcp_msg_type \<Rightarrow> dhcp_lease
      \<Rightarrow> u8 list option \<Rightarrow> dhcp_reply" where
  "active_reply now pkt cfg contexts tags reply_type l req_options =
     (let lease_config = config_at cfg (find_config (sc_configs cfg) (l_clid l)
            (Some (take (min (l_hwaddr_len l) DHCP_CHADDR_MAX) (l_hwaddr l))) (l_hwaddr_type l) (l_hostname l) tags);
          ctx = narrow_context contexts (l_addr l);
          (filtered_tags, config_opts) =
            option_filter (tags @ config_tags lease_config) (context_tags ctx) (sc_dhcp_opts cfg) 0 (sc_tag_rules cfg);
          full_lease_time = calc_time (context_lease_time ctx)
            (case lease_config of
               Some c \<Rightarrow> if dc_flags c AND CONFIG_TIME \<noteq> 0 then Some (dc_lease_time c) else None | None \<Rightarrow> None) None
      in handle_leasequery now pkt reply_type (Some l) req_options ctx filtered_tags config_opts
           (sc_domain_suffix cfg) full_lease_time)"

definition dispatch_leasequery ::
    "int \<Rightarrow> dhcp_packet \<Rightarrow> dhcp_server_config \<Rightarrow> dhcp_context list \<Rightarrow> netid list \<Rightarrow> dhcp_lease option \<Rightarrow> dhcp_state
      \<Rightarrow> dispatched_reply option \<times> dhcp_state" where
  "dispatch_leasequery now pkt cfg contexts0 tags lease_by_client st =
     (if \<not> leasequery_permitted cfg then (None, st)
      else
        let contexts = allocation_contexts cfg contexts0;
            queried = (if bp_ciaddr pkt \<noteq> 0 then find_by_addr (st_leases st) (bp_ciaddr pkt) else lease_by_client);
            req_options = find_option (bp_options pkt) OPTION_REQUESTED_OPTIONS
        in (case classify_query contexts pkt queried of
              (reply_type, m, lease) \<Rightarrow>
                let reply = (case lease of
                       Some l \<Rightarrow> active_reply now pkt cfg contexts tags reply_type l req_options
                     | None \<Rightarrow> handle_leasequery now pkt reply_type None req_options None [] [] None 0)
                in (Some \<lparr>dr_reply = reply, dr_delay_secs = 0\<rparr>, count m (count Dhcpleasequery st))))"

definition client_key :: "dhcp_packet \<Rightarrow> u8 list" where
  "client_key pkt =
     (case client_clid pkt of Some c \<Rightarrow> if c \<noteq> [] then c else hardware_addr pkt | None \<Rightarrow> hardware_addr pkt)"

text \<open>A packet that is answered by one of the three dispatches, after the tests that ignore a client.\<close>

definition dispatch_admitted ::
    "(lkey list \<Rightarrow> lkey list) \<Rightarrow> (ipv4 \<Rightarrow> bool) \<Rightarrow> int \<Rightarrow> dhcp_packet \<Rightarrow> dhcp_server_config \<Rightarrow> dhcp_context list \<Rightarrow> netid list
      \<Rightarrow> dhcp_state \<Rightarrow> (dispatched_reply option \<times> dhcp_state) option" where
  "dispatch_admitted ord in_use now pkt cfg contexts tags st =
     (let config = client_config cfg pkt tags;
          lease_by_client = find_by_client_id (st_leases st) (client_key pkt)
      in (case get_message_type (bp_options pkt) of
            None \<Rightarrow>
              if find_option (bp_options pkt) OPTION_MESSAGE_TYPE \<noteq> None then Some (None, st)
              else dispatch_bootp ord in_use now pkt cfg contexts tags config lease_by_client st
          | Some msg_type \<Rightarrow>
              if msg_type = LeaseQuery then Some (dispatch_leasequery now pkt cfg contexts tags lease_by_client st)
              else map_option (finish_reply ord now msg_type pkt cfg contexts tags config)
                     (answer_message in_use now msg_type pkt cfg contexts tags config st)))"

definition client_ignored :: "dhcp_server_config \<Rightarrow> dhcp_packet \<Rightarrow> netid list \<Rightarrow> bool" where
  "client_ignored cfg pkt tags \<longleftrightarrow>
     disabled_by_tags cfg tags \<or> list_ex (\<lambda>entry. context_filter_matches entry tags False) (sc_dhcp_ignore cfg)
     \<or> (case config_at cfg (client_config cfg pkt tags) of Some c \<Rightarrow> dc_flags c AND CONFIG_DISABLE \<noteq> 0 | None \<Rightarrow> False)"

definition dispatch_dhcp_with_meta_view ::
    "(lkey list \<Rightarrow> lkey list) \<Rightarrow> (ipv4 \<Rightarrow> bool) \<Rightarrow> int \<Rightarrow> dhcp_packet \<Rightarrow> dhcp_server_config \<Rightarrow> dhcp_context list
      \<Rightarrow> dhcp_state \<Rightarrow> (dispatched_reply option \<times> dhcp_state) exec option" where
  "dispatch_dhcp_with_meta_view ord in_use now pkt cfg contexts st =
     (case derived_tags pkt cfg (client_hostname pkt) of
        Panic \<Rightarrow> Some Panic
      | Done tags \<Rightarrow>
          if client_ignored cfg pkt tags then Some (Done (None, st))
          else map_option Done (dispatch_admitted ord in_use now pkt cfg contexts tags st))"

definition dispatch_dhcp_with_meta ::
    "(lkey list \<Rightarrow> lkey list) \<Rightarrow> (ipv4 \<Rightarrow> bool) \<Rightarrow> int \<Rightarrow> dhcp_packet \<Rightarrow> dhcp_server_config
      \<Rightarrow> dhcp_state \<Rightarrow> (dispatched_reply option \<times> dhcp_state) exec option" where
  "dispatch_dhcp_with_meta ord in_use now pkt cfg st =
     dispatch_dhcp_with_meta_view ord in_use now pkt cfg (sc_contexts cfg) st"

text \<open>The arrival interface links contexts to it; they are changed in the configuration, which is returned.\<close>

definition note_interface :: "int \<Rightarrow> dispatched_reply option \<times> dhcp_state \<Rightarrow> dispatched_reply option \<times> dhcp_state" where
  "note_interface if_index dispatched =
     (case dispatched of
        (None, st) \<Rightarrow> (None, st)
      | (Some d, st) \<Rightarrow>
          (Some d, if rp_msg_type (dr_reply d) = Ack \<and> rp_yiaddr (dr_reply d) \<noteq> 0
                   then st\<lparr>st_leases := set_interface (rp_yiaddr (dr_reply d)) if_index (st_leases st)\<rparr> else st))"

definition dispatch_dhcp_with_arrival ::
    "(lkey list \<Rightarrow> lkey list) \<Rightarrow> (ipv4 \<Rightarrow> bool) \<Rightarrow> int \<Rightarrow> dhcp_packet \<Rightarrow> dhcp_server_config \<Rightarrow> arrival_interface option
      \<Rightarrow> dhcp_state \<Rightarrow> (dispatched_reply option \<times> dhcp_state) exec option \<times> dhcp_server_config" where
  "dispatch_dhcp_with_arrival ord in_use now pkt cfg arrival st =
     (case arrival of
        None \<Rightarrow> (dispatch_dhcp_with_meta ord in_use now pkt cfg st, cfg)
      | Some iface \<Rightarrow>
          (case link_contexts_for_interface (sc_contexts cfg) iface of
             (contexts, linked) \<Rightarrow>
               let cfg1 = cfg\<lparr>sc_contexts := contexts\<rparr>;
                   view = (if linked = [] then contexts else map (\<lambda>i. contexts ! i) linked)
               in (map_option (\<lambda>x. bind_exec x (\<lambda>d. Done (note_interface (ai_if_index iface) d)))
                     (dispatch_dhcp_with_meta_view ord in_use now pkt cfg1 view st), cfg1)))"

definition dispatch_dhcp ::
    "(lkey list \<Rightarrow> lkey list) \<Rightarrow> int \<Rightarrow> dhcp_packet \<Rightarrow> dhcp_server_config \<Rightarrow> dhcp_state
      \<Rightarrow> (dhcp_reply option \<times> dhcp_state) exec option" where
  "dispatch_dhcp ord now pkt cfg st =
     map_option (\<lambda>x. bind_exec x (\<lambda>(d, st1). Done (map_option dr_reply d, st1\<lparr>st_pings := st_pings st\<rparr>)))
       (dispatch_dhcp_with_meta ord (\<lambda>_. False) now pkt cfg (st\<lparr>st_pings := []\<rparr>))"

end
