(* ===== verification/Dhcp_Dispatch.thy ===== *)
theory Dhcp_Dispatch
  imports Dhcp_Server
begin

unbundle bit_operations_syntax

text \<open>
  What the dispatch of the DHCPv4 server guarantees: it returns, it keeps the invariants of the lease database and
  of the cache of pings, an address is acknowledged only to a client that may have it and is then bound to that client,
  and a reply is a packet that reads back with its message type and server identifier.
\<close>

section \<open>The lease of an address after a change\<close>

lemma find_by_addr_sel [simp]:
  "find_by_addr (db\<lparr>file_dirty := b\<rparr>) a = find_by_addr db a" "find_by_addr (mark_dirty db) a = find_by_addr db a"
  by (simp_all add: find_by_addr_def mark_dirty_def split: option.split)

lemma find_change: "find_by_addr (change_lease a f db) a = map_option (\<lambda>l. fst (f l)) (find_by_addr db a)"
  by (auto simp: change_lease_def find_by_addr_def get_mut_by_addr_def case_prod_unfold split: option.splits)

lemma find_change_other:
  assumes "lease_ok db" "b \<noteq> a"
  shows "find_by_addr (change_lease b f db) a = find_by_addr db a"
proof (cases "get_mut_by_addr db b")
  case (Some kl)
  obtain k l where kl: "kl = (k, l)" by (cases kl)
  with Some have i: "addr_index db b = Some k" "map_of (leases db) k = Some l" by (simp_all add: get_mut_by_addr_Some)
  have "addr_index db a \<noteq> Some k"
    using lease_ok_index [OF assms(1), of b k] lease_ok_index [OF assms(1), of a k] i assms(2) by auto
  then show ?thesis
    unfolding change_lease_def Some kl by (auto simp: find_by_addr_def case_prod_unfold split: option.split)
qed (simp add: change_lease_def)

lemma find_take_names:
  assumes "lease_ok db" "a \<notin> set as"
  shows "find_by_addr (fold take_name as db) a = find_by_addr db a"
  using assms
proof (induction as arbitrary: db)
  case (Cons b as)
  from Cons.prems have "find_by_addr (take_name b db) a = find_by_addr db a"
    unfolding take_name_def by (intro find_change_other) auto
  with Cons lease_ok_simple(8) [OF Cons.prems(1)] show ?case by simp
qed simp

lemma find_set_hostname:
  assumes "lease_ok db" "find_by_addr db a = Some l"
  shows "\<exists>l'. find_by_addr (set_hostname ord a name auth db) a = Some l' \<and> hw_bytes l' = hw_bytes l
    \<and> l_hwaddr_type l' = l_hwaddr_type l \<and> l_clid l' = l_clid l"
proof -
  define as where "as = (case name of None \<Rightarrow> []
    | Some n \<Rightarrow> map l_addr (filter (\<lambda>l. l_addr l \<noteq> a \<and> has_name n l) (lease_values ord db)))"
  have "a \<notin> set as" by (auto simp: as_def split: option.split)
  then have f: "find_by_addr (fold take_name as db) a = Some l" using find_take_names [OF assms(1)] assms(2) by simp
  then obtain k where k: "get_mut_by_addr (fold take_name as db) a = Some (k, l)"
    by (auto simp: find_by_addr_def get_mut_by_addr_def split: option.splits)
  then have i: "addr_index (fold take_name as db) a = Some k" by (simp add: get_mut_by_addr_Some)
  let ?l1 = "if name_changed (l_hostname l) name
    then set_flags LEASE_CHANGED (l\<lparr>l_old_hostname := l_hostname l, l_hostname := name\<rparr>) else l"
  let ?l2 = "if auth then set_flags LEASE_AUTH_NAME ?l1 else clear_flags LEASE_AUTH_NAME ?l1"
  have "find_by_addr (set_hostname ord a name auth db) a = Some ?l2"
    unfolding set_hostname_def as_def [symmetric] Let_def k option.case prod.case
    using i by (simp add: find_by_addr_def mark_dirty_def)
  then show ?thesis by (auto simp: hw_bytes_def set_flags_def clear_flags_def)
qed

lemma find_insert_raw: "l_addr l \<noteq> 0 \<Longrightarrow> find_by_addr (insert_raw k l db) (l_addr l) = Some l"
  by (simp add: find_by_addr_def insert_raw_def Let_def index_addr_def put_lease_def update_conv' split: option.split)

lemma hw_bytes_written:
  assumes "length hw \<le> 16"
  shows "hw_bytes (if hw_changed hw t l then write_hwaddr hw t l else l) = hw"
    "l_hwaddr_type (if hw_changed hw t l then write_hwaddr hw t l else l) = t"
  using assms by (auto simp: hw_changed_def write_hwaddr_def hw_bytes_def set_flags_def DHCP_CHADDR_MAX_def)

lemma find_set_hwaddr:
  assumes "lease_ok db" "find_by_addr db a = Some l" "length hw \<le> 16"
  shows "\<exists>l'. find_by_addr (snd (set_hwaddr a hw t clid force db)) a = Some l' \<and> hw_bytes l' = hw \<and> l_hwaddr_type l' = t
    \<and> (clid \<noteq> None \<longrightarrow> l_clid l' = clid)"
proof -
  from assms(2) obtain k where k: "get_mut_by_addr db a = Some (k, l)"
    by (auto simp: find_by_addr_def get_mut_by_addr_def split: option.splits)
  have a: "a \<noteq> 0" "l_addr l = a" using assms(2) find_by_addr_exact [OF assms(1)] by auto
  have hb: "take DHCP_CHADDR_MAX hw = hw" using assms(3) by (simp add: DHCP_CHADDR_MAX_def)
  define l1 where "l1 = set_flags LEASE_HAVE_HWADDR l"
  define l2 where "l2 = (if hw_changed hw t l1 then write_hwaddr hw t l1 else l1)"
  define db1 where "db1 = (put_lease k l2 db)\<lparr>file_dirty := file_dirty db \<or> hw_changed hw t l1\<rparr>"
  have w: "hw_bytes l2 = hw" "l_hwaddr_type l2 = t" unfolding l2_def using hw_bytes_written [OF assms(3)] by blast+
  have ad: "l_addr l2 = a" using a(2) by (simp add: l2_def l1_def write_hwaddr_def set_flags_def)
  have whole: "set_hwaddr a hw t clid force db = (case clid of None \<Rightarrow> (force, db1)
      | Some c \<Rightarrow> if l_clid l2 = Some c then (force, db1)
                 else let l3 = set_flags LEASE_AUX_CHANGED (l2\<lparr>l_clid := Some c\<rparr>)
                      in (True, insert_raw (lease_key l3) l3 (db1\<lparr>leases := AList.delete k (leases db1), file_dirty := True\<rparr>)))"
    unfolding set_hwaddr_def k option.case prod.case Let_def db1_def l2_def l1_def hb
    by (simp only: a(2) simp_thms if_False not_True_eq_False)
  show ?thesis
  proof (cases "clid = None \<or> l_clid l2 = clid")
    case True
    then have "snd (set_hwaddr a hw t clid force db) = db1" unfolding whole by (auto split: option.split)
    moreover have "find_by_addr db1 a = Some l2" using k by (simp add: db1_def find_by_addr_def get_mut_by_addr_Some)
    ultimately show ?thesis using w True by auto
  next
    case False
    then obtain c where c: "clid = Some c" "l_clid l2 \<noteq> Some c" by auto
    define l3 where "l3 = set_flags LEASE_AUX_CHANGED (l2\<lparr>l_clid := Some c\<rparr>)"
    have "l_addr l3 = a" "hw_bytes l3 = hw" "l_hwaddr_type l3 = t" "l_clid l3 = clid"
      using w ad c by (simp_all add: l3_def set_flags_def hw_bytes_def)
    with find_insert_raw [of l3] a(1) c show ?thesis unfolding whole by (force simp: Let_def l3_def [symmetric])
  qed
qed

section \<open>Recording a lease\<close>

definition lease_end :: "int \<Rightarrow> u32 \<Rightarrow> int option" where
  "lease_end now lease_time =
     (if lease_time = 0xFFFFFFFF then None else Some (now + int (unat lease_time) * 1000000000))"

definition bound_to :: "dhcp_packet \<Rightarrow> int option \<Rightarrow> dhcp_lease \<Rightarrow> bool" where
  "bound_to pkt expires l \<longleftrightarrow>
     hw_bytes l = hardware_addr pkt \<and> l_hwaddr_type l = hardware_type pkt
     \<and> (client_clid pkt \<noteq> None \<longrightarrow> l_clid l = client_clid pkt) \<and> l_expires l = expires"

lemma length_hardware_addr: "length (hardware_addr pkt) \<le> 16"
  by (simp add: hardware_addr_def hardware_len_def DHCP_CHADDR_MAX_def)

lemma bind_lease_binds:
  assumes "lease_ok db" "find_by_addr db a = Some l0"
  shows "\<exists>l. find_by_addr (set_expires now a lease_time (set_hostname ord a hostname False
      (snd (set_hwaddr a (hardware_addr pkt) (hardware_type pkt) (client_clid pkt) False db)))) a = Some l
    \<and> bound_to pkt (lease_end now lease_time) l"
proof -
  let ?db1 = "snd (set_hwaddr a (hardware_addr pkt) (hardware_type pkt) (client_clid pkt) False db)"
  from find_set_hwaddr [OF assms length_hardware_addr, where t = "hardware_type pkt" and clid = "client_clid pkt" and force = False]
  obtain l1 where l1: "find_by_addr ?db1 a = Some l1" "hw_bytes l1 = hardware_addr pkt" "l_hwaddr_type l1 = hardware_type pkt"
    "client_clid pkt \<noteq> None \<longrightarrow> l_clid l1 = client_clid pkt" by blast
  from find_set_hostname [OF lease_ok_set_hwaddr [OF assms(1)] l1(1), of ord hostname False]
  obtain l2 where l2: "find_by_addr (set_hostname ord a hostname False ?db1) a = Some l2" "hw_bytes l2 = hw_bytes l1"
    "l_hwaddr_type l2 = l_hwaddr_type l1" "l_clid l2 = l_clid l1" by blast
  show ?thesis
    unfolding set_expires_def find_change Let_def l2(1) lease_end_def [symmetric]
    using l1 l2 by (auto simp: bound_to_def hw_bytes_def set_flags_def)
qed

text \<open>After recording a lease the address is bound to the client of the packet, unless the database is full.\<close>

lemma record_lease_binds:
  assumes "lease_ok db" "a \<noteq> 0" "find_by_addr db a \<noteq> None \<or> length (leases db) < max_leases db"
  shows "\<exists>l. find_by_addr (record_lease ord now a pkt (client_clid pkt) hostname lease_time db) a = Some l
    \<and> bound_to pkt (lease_end now lease_time) l"
proof (cases "find_by_addr db a")
  case (Some l)
  with bind_lease_binds [OF assms(1)] show ?thesis by (simp add: record_lease_def)
next
  case None
  let ?l = "default_lease\<lparr>l_flags := LEASE_NEW, l_addr := a\<rparr>"
  have f: "fst (allocate_v4 a db) \<noteq> None" "find_by_addr (snd (allocate_v4 a db)) a = Some ?l"
    using assms(2,3) None find_insert_raw [of ?l "lease_key ?l" db] by (simp_all add: allocate_v4_def Let_def)
  from bind_lease_binds [OF lease_ok_allocate_v4 [OF assms(1) None] f(2)] f(1) None show ?thesis
    by (auto simp: record_lease_def case_prod_unfold split: option.split)
qed

lemma record_lease_reachable:
  assumes "lease_reachable ord db"
  shows "lease_reachable ord (record_lease ord now a pkt clid hostname lease_time db)"
proof -
  have "lease_reachable ord (snd (allocate_v4 a db))" if "find_by_addr db a = None"
    by (rule lease_reachable.allocated [OF assms that])
  then show ?thesis using assms
    by (auto simp: record_lease_def case_prod_unfold intro: lease_reachable.expiry_set lease_reachable.hostname_set
        lease_reachable.hwaddr_set split: option.split)
qed

section \<open>The dispatch returns and keeps its invariants\<close>

definition server_ok :: "(lkey list \<Rightarrow> lkey list) \<Rightarrow> dhcp_state \<Rightarrow> bool" where
  "server_ok ord st \<longleftrightarrow> lease_reachable ord (st_leases st) \<and> length (st_pings st) \<le> MAX_PINGS"

lemma count_sel [simp]: "st_leases (Dhcp_Server.count m st) = st_leases st" "st_pings (Dhcp_Server.count m st) = st_pings st"
  by (simp_all add: Dhcp_Server.count_def)

lemma decorate_sel [simp]:
  "rp_msg_type (decorate_reply r pkt cfg contexts tags config) = rp_msg_type r"
  "rp_yiaddr (decorate_reply r pkt cfg contexts tags config) = rp_yiaddr r"
  "rp_giaddr (decorate_reply r pkt cfg contexts tags config) = rp_giaddr r"
  "rp_ciaddr_override (decorate_reply r pkt cfg contexts tags config) = rp_ciaddr_override r"
  "rp_chaddr_override (decorate_reply r pkt cfg contexts tags config) = rp_chaddr_override r"
  by (simp_all add: decorate_reply_def apply_boot_def Let_def case_prod_unfold split: option.split)

lemma plain_reply_sel [simp]:
  "rp_msg_type (plain_reply t y os si g) = t" "rp_yiaddr (plain_reply t y os si g) = y" "rp_options (plain_reply t y os si g) = os"
  "rp_giaddr (plain_reply t y os si g) = g" "rp_ciaddr_override (plain_reply t y os si g) = None"
  "rp_chaddr_override (plain_reply t y os si g) = None"
  by (simp_all add: plain_reply_def)

lemma remove_lease_ok: "server_ok ord st \<Longrightarrow> server_ok ord (remove_lease a st)"
  by (simp add: server_ok_def remove_lease_def lease_reachable.removed)

lemma record_lease_ok:
  "server_ok ord st \<Longrightarrow> server_ok ord (st\<lparr>st_leases := record_lease ord now a pkt clid hostname t (st_leases st)\<rparr>)"
  by (simp add: server_ok_def record_lease_reachable)

lemma dispatch_discover_ok:
  assumes "server_ok ord st"
  shows "\<exists>r st'. dispatch_discover in_use now pkt cfg contexts tags config st = Some (r, st')
    \<and> server_ok ord st' \<and> st_leases st' = st_leases st"
proof (cases "static_addr cfg config")
  case None
  have "length (st_pings st) \<le> MAX_PINGS" using assms by (simp add: server_ok_def)
  from address_allocate_scan [OF this, of "allocation_contexts cfg contexts" "st_leases st" "sc_configs cfg" "hardware_addr pkt"
      "tags @ config_tags (config_at cfg config)" now False "sc_consec_addr cfg" "sc_no_ping cfg" in_use]
  obtain r pc where "address_allocate (allocation_contexts cfg contexts) (st_leases st) (sc_configs cfg) (hardware_addr pkt)
      (tags @ config_tags (config_at cfg config)) now False (sc_consec_addr cfg) (sc_no_ping cfg) in_use (st_pings st) = Some (r, pc)"
    "length pc \<le> MAX_PINGS" by blast
  with None assms show ?thesis by (simp add: dispatch_discover_def Let_def server_ok_def)
qed (use assms in \<open>simp add: dispatch_discover_def Let_def server_ok_def\<close>)

lemma answer_message_ok:
  assumes "server_ok ord st"
  shows "\<exists>r st'. answer_message in_use now msg_type pkt cfg contexts tags config st = Some (r, st')
    \<and> server_ok ord st' \<and> (r \<noteq> None \<longrightarrow> st_leases st' = st_leases st)"
proof (cases "msg_type = Discover")
  case True
  with dispatch_discover_ok [OF assms, of in_use now pkt cfg contexts tags config] show ?thesis
    by (auto simp: answer_message_def Let_def)
next
  case False
  have "server_ok ord (Dhcp_Server.count m st)" for m using assms by (simp add: server_ok_def)
  with False assms show ?thesis
    by (cases msg_type) (auto simp: answer_message_def Let_def intro: remove_lease_ok split: option.split)
qed

lemma finish_reply_ok:
  assumes "server_ok ord (snd answer)"
  shows "server_ok ord (snd (finish_reply ord now msg_type pkt cfg contexts tags config answer))"
  using assms record_lease_ok by (auto simp: finish_reply_def Let_def case_prod_unfold split: option.split)

lemma bootp_addr_ok:
  assumes "server_ok ord st"
  shows "\<exists>a st'. bootp_addr in_use now pkt cfg contexts tags config lease st = Some (a, st') \<and> server_ok ord st'"
proof -
  have "length (st_pings st) \<le> MAX_PINGS" using assms by (simp add: server_ok_def)
  from address_allocate_scan [OF this, of "allocation_contexts cfg contexts" "st_leases st" "sc_configs cfg" "hardware_addr pkt"
      tags now False "sc_consec_addr cfg" "sc_no_ping cfg" in_use]
  obtain r pc where "address_allocate (allocation_contexts cfg contexts) (st_leases st) (sc_configs cfg) (hardware_addr pkt)
      tags now False (sc_consec_addr cfg) (sc_no_ping cfg) in_use (st_pings st) = Some (r, pc)"
    "length pc \<le> MAX_PINGS" by blast
  with assms show ?thesis by (simp add: bootp_addr_def server_ok_def split: option.split)
qed

lemma dispatch_bootp_ok:
  assumes "server_ok ord st"
  shows "\<exists>d st'. dispatch_bootp ord in_use now pkt cfg contexts tags config lease st = Some (d, st') \<and> server_ok ord st'"
proof -
  let ?tags = "tags @ config_tags (config_at cfg config) @ (case bootp_file_tag pkt of None \<Rightarrow> [] | Some t \<Rightarrow> [t]) @ [str_lit ''bootp'']"
  obtain a st1 where a: "bootp_addr in_use now pkt cfg contexts ?tags config lease st = Some (a, st1)" "server_ok ord st1"
    using bootp_addr_ok [OF assms] by blast
  have "server_ok ord (Dhcp_Server.count m (st1\<lparr>st_leases := record_lease ord now b pkt clid h t (st_leases st1)\<rparr>))" for m b clid h t
    using record_lease_ok [OF a(2)] by (simp add: server_ok_def)
  with a assms show ?thesis
    unfolding dispatch_bootp_def Let_def a(1) by (auto split: option.split)
qed

lemma dispatch_admitted_ok:
  assumes "server_ok ord st"
  shows "\<exists>d st'. dispatch_admitted ord in_use now pkt cfg contexts tags st = Some (d, st') \<and> server_ok ord st'"
proof (cases "get_message_type (bp_options pkt)")
  case None
  with assms dispatch_bootp_ok [OF assms] show ?thesis by (auto simp: dispatch_admitted_def Let_def)
next
  case (Some msg_type)
  let ?c = "client_config cfg pkt tags"
  obtain r st1 where a: "answer_message in_use now msg_type pkt cfg contexts tags ?c st = Some (r, st1)" "server_ok ord st1"
    using answer_message_ok [OF assms] by blast
  have q: "server_ok ord (snd (dispatch_leasequery now pkt cfg contexts tags lease st))" for lease
    using assms by (simp add: dispatch_leasequery_def Let_def case_prod_unfold server_ok_def)
  show ?thesis
  proof (cases "msg_type = LeaseQuery")
    case True
    with Some q show ?thesis by (simp add: dispatch_admitted_def Let_def) (metis prod.collapse)
  next
    case False
    with Some a finish_reply_ok [of ord "(r, st1)" now msg_type pkt cfg contexts tags ?c] show ?thesis
      by (simp add: dispatch_admitted_def Let_def) (metis prod.collapse)
  qed
qed

lemma dispatch_view_ok:
  assumes "server_ok ord st"
  shows "\<exists>x. dispatch_dhcp_with_meta_view ord in_use now pkt cfg contexts st = Some x
    \<and> (\<forall>d st'. x = Done (d, st') \<longrightarrow> server_ok ord st')
    \<and> (x = Panic \<longrightarrow> derived_tags pkt cfg (client_hostname pkt) = Panic)"
proof (cases "derived_tags pkt cfg (client_hostname pkt)")
  case (Done tags)
  with assms dispatch_admitted_ok [OF assms, of in_use now pkt cfg contexts tags] show ?thesis
    by (auto simp: dispatch_dhcp_with_meta_view_def)
qed (simp add: dispatch_dhcp_with_meta_view_def)

text \<open>A panic comes from a rule that looks for the end marker in the agent information or from a host name
  that is not ASCII.\<close>

lemma option_find_in:
  assumes "option_find_from i buf t m = Some j" "t \<noteq> OPTION_END"
  shows "\<exists>p c len body. buf = p @ c # len # body \<and> j = i + length p \<and> unat len \<le> length body"
  using assms
proof (induction i buf t m rule: option_find_from.induct)
  case (2 i code rest t m)
  have code: "code \<noteq> OPTION_END" using 2(3,4) by (auto split: if_splits)
  show ?case
  proof (cases "code = OPTION_PAD")
    case True
    with 2 code obtain p c len body where "rest = p @ c # len # body" "j = i + 1 + length p" "unat len \<le> length body" by auto
    then show ?thesis by (intro exI [of _ "code # p"]) auto
  next
    case False
    with 2(3) code obtain len body where rest: "rest = len # body" "unat len \<le> length body"
      by (auto split: list.splits if_splits)
    show ?thesis
    proof (cases "code = t \<and> m \<le> unat len")
      case True
      with 2(3) code False rest show ?thesis by (intro exI [of _ "[]"]) (auto simp: not_less)
    next
      case False
      with 2 code \<open>code \<noteq> OPTION_PAD\<close> rest obtain p c len' body' where
        d: "drop (unat len) body = p @ c # len' # body'" "j = i + 2 + unat len + length p" "unat len' \<le> length body'"
        by (auto simp: not_less)
      have "code # rest = (code # len # take (unat len) body @ p) @ c # len' # body'"
        using append_take_drop_id [of "unat len" body] unfolding rest(1) d(1) by simp
      moreover have "j = i + length (code # len # take (unat len) body @ p)" using d(2) rest(2) by simp
      ultimately show ?thesis using d(3) by blast
    qed
  qed
qed simp

lemma find_dhcp_option_done:
  assumes "t \<noteq> OPTION_END"
  shows "\<exists>r. find_dhcp_option buf t m = Done r"
proof (cases "option_find1 buf t m")
  case (Some j)
  then obtain p c len body where "buf = p @ c # len # body" "j = length p" "unat len \<le> length body"
    using option_find_in [OF _ assms, of 0 buf m j] by (auto simp: option_find1_def)
  with Some show ?thesis by (simp add: find_dhcp_option_def nth_append)
qed (simp add: find_dhcp_option_def)

lemma relay_id_tags_done: "OPTION_END \<notin> ri_subopt ` set rules \<Longrightarrow> \<exists>tags. relay_id_tags info rules = Done tags"
proof (induction rules)
  case (Cons rule rules)
  then obtain r where "find_dhcp_option info (ri_subopt rule) 1 = Done r" using find_dhcp_option_done by fastforce
  with Cons show ?case by auto
qed simp

lemma name_tags_done: "is_ascii name \<Longrightarrow> \<exists>tags. name_tags name rules = Done tags"
proof (induction rules)
  case (Cons rule rules)
  have "\<exists>b. name_rule_matches name rule = Done b" using Cons.prems by (auto simp: name_rule_matches_def is_char_boundary_ascii)
  then obtain b where "name_rule_matches name rule = Done b" by blast
  with Cons show ?case by (cases b) auto
qed simp

lemma derived_tags_done:
  assumes "OPTION_END \<notin> ri_subopt ` set (sc_relay_id_rules cfg)" "\<And>name. hostname = Some name \<Longrightarrow> is_ascii name"
  shows "\<exists>tags. derived_tags pkt cfg hostname = Done tags"
  using relay_id_tags_done [OF assms(1)] name_tags_done [OF assms(2), of _ "sc_name_match_rules cfg"]
  by (fastforce simp: derived_tags_def Let_def split: option.split)

text \<open>C29: the dispatch of a DHCPv4 packet returns for every packet, configuration and arrival interface and keeps the state in
  order: a lease database that the operations of the servers can build from an empty one stays such a database, so that
  its index is exact and no address is leased twice, and the cache of pings stays within its bound. It panics
  only for a client host name that is not ASCII or a relay rule for the sub-option 255.\<close>

theorem dispatch_keeps_leases:
  assumes "lease_reachable ord (st_leases st)" "length (st_pings st) \<le> MAX_PINGS"
  shows "\<exists>x. fst (dispatch_dhcp_with_arrival ord in_use now pkt cfg arrival st) = Some x
    \<and> (\<forall>d st'. x = Done (d, st') \<longrightarrow> lease_reachable ord (st_leases st') \<and> length (st_pings st') \<le> MAX_PINGS)
    \<and> (x = Panic \<longrightarrow> (\<exists>name. client_hostname pkt = Some name \<and> \<not> is_ascii name)
                   \<or> OPTION_END \<in> ri_subopt ` set (sc_relay_id_rules cfg))"
proof -
  have ok: "server_ok ord st" using assms by (simp add: server_ok_def)
  have panic: "(\<exists>name. client_hostname pkt = Some name \<and> \<not> is_ascii name) \<or> OPTION_END \<in> ri_subopt ` set (sc_relay_id_rules cfg)"
    if "derived_tags pkt cfg' (client_hostname pkt) = Panic" "sc_relay_id_rules cfg' = sc_relay_id_rules cfg" for cfg'
    using derived_tags_done [of cfg' "client_hostname pkt" pkt] that by auto
  have note_ok: "server_ok ord (snd (note_interface i ds))" if "server_ok ord (snd ds)" for i ds
    using that by (auto simp: note_interface_def server_ok_def case_prod_unfold intro: lease_reachable.interface_set split: option.split)
  show ?thesis
  proof (cases arrival)
    case None
    with dispatch_view_ok [OF ok, of in_use now pkt cfg "sc_contexts cfg"] panic show ?thesis
      by (auto simp: dispatch_dhcp_with_arrival_def dispatch_dhcp_with_meta_def server_ok_def)
  next
    case (Some iface)
    obtain contexts linked where l: "link_contexts_for_interface (sc_contexts cfg) iface = (contexts, linked)"
      by (cases "link_contexts_for_interface (sc_contexts cfg) iface")
    let ?cfg = "cfg\<lparr>sc_contexts := contexts\<rparr>"
    let ?view = "if linked = [] then contexts else map (\<lambda>i. contexts ! i) linked"
    obtain x where x: "dispatch_dhcp_with_meta_view ord in_use now pkt ?cfg ?view st = Some x"
      "\<forall>d st'. x = Done (d, st') \<longrightarrow> server_ok ord st'" "x = Panic \<longrightarrow> derived_tags pkt ?cfg (client_hostname pkt) = Panic"
      using dispatch_view_ok [OF ok] by blast
    have r: "fst (dispatch_dhcp_with_arrival ord in_use now pkt cfg arrival st)
        = Some (bind_exec x (\<lambda>d. Done (note_interface (ai_if_index iface) d)))"
      unfolding dispatch_dhcp_with_arrival_def Some option.case l prod.case Let_def x(1) by simp
    show ?thesis
    proof (cases x)
      case (Done ds)
      with x(2) have "server_ok ord (snd (note_interface (ai_if_index iface) ds))" by (intro note_ok) (metis prod.collapse)
      then show ?thesis unfolding r Done by (auto simp: server_ok_def)
    qed (use r x(3) panic [of ?cfg] in auto)
  qed
qed

section \<open>Acknowledged addresses\<close>

definition entitled :: "dhcp_server_config \<Rightarrow> nat option \<Rightarrow> ipv4 \<Rightarrow> bool" where
  "entitled cfg config a \<longleftrightarrow>
     (static_addr cfg config = Some a \<or> static_addr cfg config = None \<and> in_pool a (sc_pool_start cfg) (sc_pool_end cfg))
     \<and> (\<forall>i. config_find_by_address (sc_configs cfg) a = Some i \<longrightarrow> config = Some i)"

lemma address_in_range_entitled:
  "address_in_range a (sc_pool_start cfg) (sc_pool_end cfg) (static_addr cfg config) (reserved_for_other cfg config (Some a))
     \<longleftrightarrow> entitled cfg config a"
  by (auto simp: address_in_range_def entitled_def reserved_for_other_def split: option.splits)

lemma rapid_commit_entitled:
  assumes "make_rapid_commit_ack r sid (sc_pool_start cfg) (sc_pool_end cfg) (static_addr cfg config)
      (reserved_for_other cfg config (Some (rp_yiaddr r))) = Some r'"
  shows "entitled cfg config (rp_yiaddr r')"
  using assms address_in_range_entitled [of "rp_yiaddr r" cfg config]
  by (auto simp: make_rapid_commit_ack_def Let_def split: if_splits)

lemma handle_request_entitled:
  assumes "handle_request pkt (sc_pool_start cfg) (sc_pool_end cfg) sid (static_addr cfg config)
      (reserved_for_other cfg config (requested_addr pkt)) = Some r" "rp_msg_type r = Ack"
  shows "entitled cfg config (rp_yiaddr r)"
proof -
  from assms obtain a where a: "requested_addr pkt = Some a"
    "address_in_range a (sc_pool_start cfg) (sc_pool_end cfg) (static_addr cfg config) (reserved_for_other cfg config (Some a))"
    "rp_yiaddr r = (case static_addr cfg config of Some s \<Rightarrow> s | None \<Rightarrow> a)"
    by (auto simp: handle_request_def split: if_splits)
  moreover have "static_addr cfg config = Some s \<Longrightarrow> s = a" for s using a(2) by (simp add: address_in_range_def)
  ultimately show ?thesis unfolding address_in_range_entitled by (auto split: option.splits)
qed

lemma dispatch_discover_reply:
  assumes "dispatch_discover in_use now pkt cfg contexts tags config st = Some (Some r, st')"
  obtains yiaddr where "r = plain_reply Offer yiaddr (build_reply_options Offer (sc_server_ip cfg)) (sc_server_ip cfg) (bp_giaddr pkt)"
  | yiaddr where "sc_rapid_commit cfg"
    "make_rapid_commit_ack (plain_reply Offer yiaddr (build_reply_options Offer (sc_server_ip cfg)) (sc_server_ip cfg) (bp_giaddr pkt))
       (sc_server_ip cfg) (sc_pool_start cfg) (sc_pool_end cfg) (static_addr cfg config) (reserved_for_other cfg config (Some yiaddr))
     = Some r"
proof -
  from assms obtain z where z: "(if sc_rapid_commit cfg \<and> find_option (bp_options pkt) OPTION_RAPID_COMMIT \<noteq> None
      then Option.bind (handle_discover pkt (sc_pool_start cfg) (sc_pool_end cfg) None (sc_server_ip cfg) (static_addr cfg config) (fst z))
        (\<lambda>r. make_rapid_commit_ack r (sc_server_ip cfg) (sc_pool_start cfg) (sc_pool_end cfg) (static_addr cfg config)
           (reserved_for_other cfg config (Some (rp_yiaddr r))))
      else handle_discover pkt (sc_pool_start cfg) (sc_pool_end cfg) None (sc_server_ip cfg) (static_addr cfg config) (fst z)) = Some r"
    unfolding dispatch_discover_def Let_def map_option_eq_Some by (auto simp only: case_prod_unfold prod.inject fst_conv)
  then obtain r0 where r0: "handle_discover pkt (sc_pool_start cfg) (sc_pool_end cfg) None (sc_server_ip cfg)
      (static_addr cfg config) (fst z) = Some r0" by (auto simp: Option.bind_eq_Some_conv split: if_splits)
  then obtain y where y: "r0 = plain_reply Offer y (build_reply_options Offer (sc_server_ip cfg)) (sc_server_ip cfg) (bp_giaddr pkt)"
    by (auto simp: handle_discover_def)
  show ?thesis
  proof (cases "sc_rapid_commit cfg \<and> find_option (bp_options pkt) OPTION_RAPID_COMMIT \<noteq> None")
    case True
    with z r0 y that(2) [of y] show ?thesis by simp
  next
    case False
    with z r0 y that(1) [of y] show ?thesis by auto
  qed
qed

lemma answer_message_entitled:
  assumes "answer_message in_use now msg_type pkt cfg contexts tags config st = Some (Some r, st')"
    "rp_msg_type r = Ack" "rp_yiaddr r \<noteq> 0"
  shows "entitled cfg config (rp_yiaddr r) \<and> msg_type \<noteq> Inform"
proof (cases msg_type)
  case Discover
  then have "dispatch_discover in_use now pkt cfg contexts tags config st = Some (Some r, st')"
    using assms(1) by (simp add: answer_message_def Let_def)
  then show ?thesis
  proof (cases rule: dispatch_discover_reply)
    case (2 yiaddr)
    with rapid_commit_entitled [of "plain_reply Offer yiaddr (build_reply_options Offer (sc_server_ip cfg)) (sc_server_ip cfg) (bp_giaddr pkt)"]
    show ?thesis using Discover by simp
  qed (use assms(2) in simp)
next
  case Request
  with assms handle_request_entitled [of pkt cfg _ config r] show ?thesis by (auto simp: answer_message_def Let_def)
next
  case Inform
  with assms show ?thesis by (auto simp: answer_message_def Let_def handle_inform_def split: if_splits)
qed (use assms in \<open>auto simp: answer_message_def Let_def\<close>)

text \<open>An offer, an acknowledgement and a refusal come from \<open>answer_message\<close>.\<close>

lemma handle_leasequery_type:
  "rp_msg_type (handle_leasequery now pkt t lease req ctx tags copts domain full) = t"
  by (simp add: handle_leasequery_def Let_def split: option.split)

lemma leasequery_type:
  assumes "dispatch_leasequery now pkt cfg contexts tags lease st = (Some d, st')"
  shows "rp_msg_type (dr_reply d) \<notin> {Offer, Ack, Nak}"
proof -
  let ?q = "classify_query (allocation_contexts cfg contexts) pkt
    (if bp_ciaddr pkt \<noteq> 0 then find_by_addr (st_leases st) (bp_ciaddr pkt) else lease)"
  obtain t m l where q: "?q = (t, m, l)" by (cases ?q)
  then have "t \<notin> {Offer, Ack, Nak}" by (auto simp: classify_query_def split: if_splits option.splits)
  moreover have "rp_msg_type (dr_reply d) = t"
    using assms unfolding dispatch_leasequery_def Let_def q
    by (auto simp: active_reply_def Let_def case_prod_unfold handle_leasequery_type split: if_splits option.splits)
  ultimately show ?thesis by simp
qed

lemma bootp_type:
  assumes "dispatch_bootp ord in_use now pkt cfg contexts tags config lease st = Some (Some d, st')"
  shows "rp_msg_type (dr_reply d) \<notin> {Offer, Ack, Nak}"
  using assms by (auto simp: dispatch_bootp_def Let_def handle_bootp_def split: if_splits option.splits)

lemma dispatch_admitted_answer:
  assumes "dispatch_admitted ord in_use now pkt cfg contexts tags st = Some (Some d, st')"
    and "rp_msg_type (dr_reply d) \<in> {Offer, Ack, Nak}"
  obtains msg_type r st1 where "get_message_type (bp_options pkt) = Some msg_type"
    "answer_message in_use now msg_type pkt cfg contexts tags (client_config cfg pkt tags) st = Some (Some r, st1)"
    "(Some d, st') = finish_reply ord now msg_type pkt cfg contexts tags (client_config cfg pkt tags) (Some r, st1)"
    "rp_msg_type r = rp_msg_type (dr_reply d)" "rp_yiaddr r = rp_yiaddr (dr_reply d)"
proof (cases "get_message_type (bp_options pkt)")
  case None
  then show ?thesis using assms bootp_type by (auto simp: dispatch_admitted_def Let_def split: if_splits)
next
  case (Some msg_type)
  have "msg_type \<noteq> LeaseQuery" using assms Some leasequery_type by (auto simp: dispatch_admitted_def Let_def)
  with assms(1) Some obtain answer where
    a: "answer_message in_use now msg_type pkt cfg contexts tags (client_config cfg pkt tags) st = Some answer"
      "(Some d, st') = finish_reply ord now msg_type pkt cfg contexts tags (client_config cfg pkt tags) answer"
    by (auto simp: dispatch_admitted_def Let_def)
  obtain x st1 where x: "answer = (x, st1)" by (cases answer)
  obtain r where r: "x = Some r" using a(2) x by (cases x) (auto simp: finish_reply_def)
  have "rp_msg_type r = rp_msg_type (dr_reply d)" "rp_yiaddr r = rp_yiaddr (dr_reply d)"
    using a(2) by (auto simp: x r finish_reply_def Let_def)
  with that Some a x r assms(2) show ?thesis by simp
qed

text \<open>C30: in a state that the dispatch can reach, and without an arrival interface that narrows the contexts, an address is
  acknowledged only to a client that is entitled to it: it is the static address of the host entry that matches the client,
  or the client has none and the address lies in the pool, and no host entry of another client reserves it. When the
  address is leased already or the lease database is not full, the address is from then on bound to the hardware
  address of that client, and to its identifier if it sent one, for the lease time of the context. (An address that
  another client has leased is taken over, as \<open>leased_address_taken_over\<close> shows.)\<close>

theorem ack_binds_entitled_address:
  assumes "hash_order ord" "lease_reachable ord (st_leases st)" "length (st_pings st) \<le> MAX_PINGS"
    and dispatched: "dispatch_dhcp_with_meta ord in_use now pkt cfg st = Some (Done (Some d, st'))"
    and ack: "rp_msg_type (dr_reply d) = Ack" "rp_yiaddr (dr_reply d) = a" "a \<noteq> 0"
  shows "\<exists>tags. derived_tags pkt cfg (client_hostname pkt) = Done tags
    \<and> (static_addr cfg (client_config cfg pkt tags) = Some a
       \<or> static_addr cfg (client_config cfg pkt tags) = None \<and> in_pool a (sc_pool_start cfg) (sc_pool_end cfg))
    \<and> (\<forall>i. config_find_by_address (sc_configs cfg) a = Some i \<longrightarrow> client_config cfg pkt tags = Some i)
    \<and> (find_by_addr (st_leases st) a \<noteq> None \<or> length (leases (st_leases st)) < max_leases (st_leases st) \<longrightarrow>
        (\<exists>l. find_by_addr (st_leases st') a = Some l \<and> hw_bytes l = hardware_addr pkt \<and> l_hwaddr_type l = hardware_type pkt
           \<and> (client_clid pkt \<noteq> None \<longrightarrow> l_clid l = client_clid pkt)
           \<and> l_expires l = lease_end now (context_lease_time (context_for_reply (sc_contexts cfg) (dr_reply d)))))"
proof -
  obtain tags where tags: "derived_tags pkt cfg (client_hostname pkt) = Done tags"
    "dispatch_admitted ord in_use now pkt cfg (sc_contexts cfg) tags st = Some (Some d, st')"
    using dispatched by (auto simp: dispatch_dhcp_with_meta_def dispatch_dhcp_with_meta_view_def split: exec.splits if_splits)
  let ?c = "client_config cfg pkt tags"
  from dispatch_admitted_answer [OF tags(2)] ack(1) obtain msg_type r st1 where
    m: "get_message_type (bp_options pkt) = Some msg_type"
      "answer_message in_use now msg_type pkt cfg (sc_contexts cfg) tags ?c st = Some (Some r, st1)"
      "(Some d, st') = finish_reply ord now msg_type pkt cfg (sc_contexts cfg) tags ?c (Some r, st1)"
      "rp_msg_type r = Ack" "rp_yiaddr r = a" using ack(2) by auto
  have e: "entitled cfg ?c a" "msg_type \<noteq> Inform" using answer_message_entitled [OF m(2,4)] m(5) ack(3) by auto
  have "server_ok ord st" using assms by (simp add: server_ok_def)
  with answer_message_ok [of ord st in_use now msg_type pkt cfg "sc_contexts cfg" tags ?c] m(2)
  have st1: "st_leases st1 = st_leases st" by auto
  have "\<not> is_inform pkt" using m(1) e(2) by (simp add: is_inform_def)
  with m(3-5) ack(3) st1 have "st_leases st' = record_lease ord now a pkt (client_clid pkt) (client_hostname pkt)
      (context_lease_time (context_for_reply (sc_contexts cfg) (dr_reply d))) (st_leases st)"
    by (auto simp: finish_reply_def Let_def)
  moreover have "lease_ok (st_leases st)" using lease_reachable_ok [OF assms(1,2)] by blast
  ultimately have "find_by_addr (st_leases st) a \<noteq> None \<or> length (leases (st_leases st)) < max_leases (st_leases st) \<longrightarrow>
      (\<exists>l. find_by_addr (st_leases st') a = Some l
         \<and> bound_to pkt (lease_end now (context_lease_time (context_for_reply (sc_contexts cfg) (dr_reply d)))) l)"
    using record_lease_binds [OF _ ack(3)] by auto
  with tags(1) e(1) show ?thesis by (auto simp: entitled_def bound_to_def)
qed

section \<open>Replies on the wire\<close>

lemma build_reply_block:
  "build_reply_options t server_id = opt_block [(OPTION_MESSAGE_TYPE, [msg_type_code t]), (OPTION_SERVER_IDENTIFIER, octets4 server_id)]"
  by (simp add: build_reply_options_def option_msg_type_def opt_block_def)

lemma rapid_commit_block:
  assumes "255 \<notin> set (octets4 server_id)" "make_rapid_commit_ack r server_id s e static reserved = Some r'"
  shows "rp_options r' = opt_block [(OPTION_MESSAGE_TYPE, [msg_type_code Ack]), (OPTION_SERVER_IDENTIFIER, octets4 server_id),
      (OPTION_RAPID_COMMIT, [])]"
proof -
  let ?front = "[OPTION_MESSAGE_TYPE, 1, msg_type_code Ack, OPTION_SERVER_IDENTIFIER, 4] @ octets4 server_id"
  have f: "find_index (\<lambda>b. b = OPTION_END) (xs @ [OPTION_END]) = Some (length xs)" if "OPTION_END \<notin> set xs" for xs
    using that by (induction xs) auto
  have "OPTION_END \<notin> set ?front" using assms(1) by (simp add: option_codes)
  from f [OF this] have i: "find_index (\<lambda>b. b = OPTION_END) (build_reply_options Ack server_id) = Some (length ?front)"
    by (simp add: build_reply_options_def option_msg_type_def)
  have "build_reply_options Ack server_id = ?front @ [OPTION_END]"
    by (simp add: build_reply_options_def option_msg_type_def)
  then have "take (length ?front) (build_reply_options Ack server_id) = ?front"
    "drop (length ?front) (build_reply_options Ack server_id) = [OPTION_END]" by simp_all
  with assms(2) i have "rp_options r' = ?front @ [OPTION_RAPID_COMMIT, 0] @ [OPTION_END]"
    by (auto simp: make_rapid_commit_ack_def Let_def split: if_splits)
  then show ?thesis by (simp add: opt_block_def)
qed

lemma option_filter_vals: "map op_val (snd (option_filter tags ctx opts mode rules)) = map op_val opts"
proof -
  have k: "map op_val (keep_first seen os) = map op_val os" for seen os
    by (induction os arbitrary: seen) (simp_all add: remove_flag_def)
  have e: "op_val (tag_matching m t x) = op_val x" "op_val (untag_failing t x) = op_val x" "op_val (tag_context m t cs x) = op_val x"
    "op_val (tag_untagged m cs x) = op_val x" for m t x cs
    by (simp_all add: tag_matching_def untag_failing_def tag_context_def tag_untagged_def Let_def add_flag_def remove_flag_def)
  show ?thesis by (simp add: option_filter_def Let_def k e comp_def split: option.split)
qed

definition options_fit :: "dhcp_server_config \<Rightarrow> bool" where
  "options_fit cfg \<longleftrightarrow> list_all (\<lambda>opt. length (opt_raw opt) \<le> 255) (sc_dhcp_opts cfg)"

lemma option_filter_fit:
  assumes "options_fit cfg"
  shows "list_all (\<lambda>opt. length (opt_raw opt) \<le> 255) (snd (option_filter tags ctx (sc_dhcp_opts cfg) mode rules))"
proof -
  have "list_all (\<lambda>opt. length (opt_raw opt) \<le> 255) os \<longleftrightarrow> list_all (\<lambda>v. length (case v of None \<Rightarrow> [] | Some x \<Rightarrow> x) \<le> 255) (map op_val os)"
    for os by (simp add: list_all_iff opt_raw_def)
  then show ?thesis using assms by (simp add: options_fit_def option_filter_vals)
qed

text \<open>The options of a reply extend those it was made with.\<close>

lemma decorate_extends:
  assumes "options_fit cfg" "extends ts (rp_options r)"
  shows "extends ts (rp_options (decorate_reply r pkt cfg contexts tags config))"
proof -
  let ?ctx = "context_for_reply contexts r"
  let ?mode = "if is_pxe_client (find_option (bp_options pkt) OPTION_VENDOR_ID) then 1 else 0"
  let ?f = "option_filter (tags @ config_tags config) (context_tags ?ctx) (sc_dhcp_opts cfg) ?mode (sc_tag_rules cfg)"
  let ?boot = "choose_boot (sc_boot_configs cfg) (fst ?f)"
  let ?o1 = "if rp_msg_type r = Offer \<or> rp_msg_type r = Ack \<and> \<not> is_inform pkt
    then option_put (rp_options r) OPTION_LEASE_TIME (context_lease_time ?ctx) 4 else rp_options r"
  let ?o2 = "fst (do_options ?o1 (reply_options_config r pkt cfg ?ctx config (fst ?f) (snd ?f) ?boot))"
  have o1: "extends ts ?o1" using assms(2) extends_put(1) by (simp add: codes_not_marker)
  have "values_fit (reply_options_config r pkt cfg ?ctx config (fst ?f) (snd ?f) ?boot)"
    using option_filter_fit [OF assms(1)] by (simp add: values_fit_def reply_options_config_def Let_def split: option.split)
  note o2 = extends_do_options [OF o1 this]
  have e: "rp_options (decorate_reply r pkt cfg contexts tags config) =
      (case find_option (bp_options pkt) OPTION_AGENT_ID of Some info \<Rightarrow> option_put_raw ?o2 OPTION_AGENT_ID info | None \<Rightarrow> ?o2)"
    unfolding decorate_reply_def Let_def case_prod_unfold by (simp split: option.split)
  show ?thesis
  proof (cases "find_option (bp_options pkt) OPTION_AGENT_ID")
    case None
    show ?thesis unfolding e None option.case by (rule o2)
  next
    case (Some info)
    show ?thesis unfolding e Some option.case by (rule extends_put(3) [OF o2]) (simp_all add: codes_not_marker)
  qed
qed

lemma answer_message_reply:
  assumes "answer_message in_use now msg_type pkt cfg contexts tags config st = Some (Some r, st')"
    and "sc_rapid_commit cfg \<Longrightarrow> 255 \<notin> set (octets4 (sc_server_ip cfg))"
  shows "extends [(OPTION_MESSAGE_TYPE, [msg_type_code (rp_msg_type r)]), (OPTION_SERVER_IDENTIFIER, octets4 (sc_server_ip cfg))]
      (rp_options r) \<and> rp_giaddr r = bp_giaddr pkt \<and> rp_ciaddr_override r = None \<and> rp_chaddr_override r = None"
proof -
  have plain: "extends [(OPTION_MESSAGE_TYPE, [msg_type_code t]), (OPTION_SERVER_IDENTIFIER, octets4 sid)] (build_reply_options t sid)" for t sid
    unfolding build_reply_block by (rule extends_refl)
  show ?thesis
  proof (cases msg_type)
    case Discover
    then have "dispatch_discover in_use now pkt cfg contexts tags config st = Some (Some r, st')"
      using assms(1) by (simp add: answer_message_def Let_def)
    then show ?thesis
    proof (cases rule: dispatch_discover_reply)
      case (1 yiaddr)
      with plain [of Offer "sc_server_ip cfg"] show ?thesis by simp
    next
      case (2 yiaddr)
      have "extends [(OPTION_MESSAGE_TYPE, [msg_type_code Ack]), (OPTION_SERVER_IDENTIFIER, octets4 (sc_server_ip cfg))] (rp_options r)"
        unfolding rapid_commit_block [OF assms(2) [OF 2(1)] 2(2)] extends_def
        by (intro exI [of _ "[(OPTION_RAPID_COMMIT, [])]"]) (simp add: option_codes)
      moreover have "rp_msg_type r = Ack \<and> rp_giaddr r = bp_giaddr pkt \<and> rp_ciaddr_override r = None \<and> rp_chaddr_override r = None"
        using 2(2) by (auto simp: make_rapid_commit_ack_def Let_def split: if_splits)
      ultimately show ?thesis by simp
    qed
  qed (use assms(1) plain [of Ack "sc_server_ip cfg"] plain [of Nak "sc_server_ip cfg"] in \<open>auto simp: answer_message_def Let_def handle_request_def handle_inform_def split: if_splits\<close>)
qed

lemma length_fixed_field [simp]: "length (fixed_field n name) = n"
  by (auto simp: fixed_field_def min_def split: option.split)

lemma msg_type_round_trip: "t \<noteq> dhcp_msg_type.Bootp \<Longrightarrow> msg_type_from_u8 (msg_type_code t) = Some t"
  by (cases t) (simp_all add: msg_type_from_u8_def)

text \<open>C31: every offer, acknowledgement and refusal that the dispatch produces without an arrival interface is read back from
  its wire format as a reply to the request: it has the transaction identifier, the hardware address and the relay
  address of the request and the address of the reply, and its options hold the message type and the identifier of the
  server, whatever options the configuration adds behind them. The values of the configured options are at most 255
  octets long, and when rapid commit is on no octet of the server address is 255 (otherwise the identifier is
  broken, as \<open>rapid_commit_breaks_server_id\<close> shows).\<close>

theorem dispatched_reply_reads_back:
  assumes "length (bp_chaddr pkt) = 16" "options_fit cfg" "sc_rapid_commit cfg \<longrightarrow> 255 \<notin> set (octets4 (sc_server_ip cfg))"
    and "dispatch_dhcp_with_meta ord in_use now pkt cfg st = Some (Done (Some d, st'))"
    and "rp_msg_type (dr_reply d) \<in> {Offer, Ack, Nak}"
  shows "\<exists>p. parse_dhcp_packet (dhcp_reply_to_wire (dr_reply d) pkt) = Some p
    \<and> bp_op p = BOOTREPLY \<and> bp_xid p = bp_xid pkt \<and> bp_chaddr p = bp_chaddr pkt \<and> bp_giaddr p = bp_giaddr pkt
    \<and> bp_yiaddr p = rp_yiaddr (dr_reply d) \<and> get_message_type (bp_options p) = Some (rp_msg_type (dr_reply d))
    \<and> find_option (bp_options p) OPTION_SERVER_IDENTIFIER = Some (octets4 (sc_server_ip cfg))
    \<and> 300 \<le> length (dhcp_reply_to_wire (dr_reply d) pkt)"
proof -
  obtain tags where tags: "dispatch_admitted ord in_use now pkt cfg (sc_contexts cfg) tags st = Some (Some d, st')"
    using assms(4) by (auto simp: dispatch_dhcp_with_meta_def dispatch_dhcp_with_meta_view_def split: exec.splits if_splits)
  let ?c = "client_config cfg pkt tags"
  let ?r = "dr_reply d"
  from dispatch_admitted_answer [OF tags assms(5)] obtain msg_type r st1 where
    m: "answer_message in_use now msg_type pkt cfg (sc_contexts cfg) tags ?c st = Some (Some r, st1)"
      "(Some d, st') = finish_reply ord now msg_type pkt cfg (sc_contexts cfg) tags ?c (Some r, st1)" by metis
  have dec: "?r = decorate_reply r pkt cfg (sc_contexts cfg) tags (config_at cfg ?c)"
    using m(2) by (auto simp: finish_reply_def Let_def)
  let ?ts = "[(OPTION_MESSAGE_TYPE, [msg_type_code (rp_msg_type ?r)]), (OPTION_SERVER_IDENTIFIER, octets4 (sc_server_ip cfg))]"
  have a: "extends ?ts (rp_options r)" "rp_giaddr ?r = bp_giaddr pkt" "rp_ciaddr_override ?r = None" "rp_chaddr_override ?r = None"
    using answer_message_reply [OF m(1)] assms(3) by (simp_all add: dec)
  from decorate_extends [OF assms(2) a(1)] obtain us where us: "opts_ok us" "rp_options ?r = opt_block (?ts @ us)"
    unfolding dec extends_def by blast
  let ?q = "\<lparr>bp_op = BOOTREPLY, bp_htype = bp_htype pkt, bp_hlen = bp_hlen pkt, bp_hops = 0, bp_xid = bp_xid pkt, bp_secs = 0,
    bp_flags = 0, bp_ciaddr = bp_ciaddr pkt, bp_yiaddr = rp_yiaddr ?r, bp_siaddr = rp_siaddr ?r, bp_giaddr = bp_giaddr pkt,
    bp_chaddr = bp_chaddr pkt, bp_sname = fixed_field 64 (rp_sname ?r), bp_file = fixed_field 128 (rp_file ?r), bp_options = []\<rparr>"
  have w: "dhcp_reply_to_wire ?r pkt = end_and_pad (packet_head ?q) (opt_block (?ts @ us))"
    using a(2-4) us(2) by (simp add: dhcp_reply_to_wire_def packet_head_def to_be16_def)
  have "packet_ok ?q" using assms(1) by (simp add: packet_ok_def)
  from parse_padded_block [OF this, of "?ts @ us"] obtain pad where
    p: "parse_dhcp_packet (dhcp_reply_to_wire ?r pkt) = Some (?q\<lparr>bp_options := opt_block (?ts @ us) @ pad\<rparr>)"
      "300 \<le> length (dhcp_reply_to_wire ?r pkt)" unfolding w by blast
  have "opts_ok (?ts @ us)" using us(1) by (simp add: option_codes)
  then have f: "find_option (opt_block (?ts @ us) @ pad) code = map_of (?ts @ us) code" for code by (rule find_option_padded)
  have "rp_msg_type ?r \<noteq> dhcp_msg_type.Bootp" using assms(5) by auto
  then have "get_message_type (opt_block (?ts @ us) @ pad) = Some (rp_msg_type ?r)"
    using f [of OPTION_MESSAGE_TYPE] by (simp add: get_message_type_def msg_type_round_trip)
  moreover have "find_option (opt_block (?ts @ us) @ pad) OPTION_SERVER_IDENTIFIER = Some (octets4 (sc_server_ip cfg))"
    using f [of OPTION_SERVER_IDENTIFIER] by (simp add: option_codes)
  ultimately show ?thesis using p by simp
qed

section \<open>An example\<close>

text \<open>A client renews its address; the lease time is unlimited.\<close>

definition demo_request :: dhcp_packet where
  "demo_request = demo_dhcp_packet\<lparr>bp_ciaddr := 5, bp_options := opt_block [(53, [3])]\<rparr>"

definition demo_server :: dhcp_server_config where
  "demo_server =
     \<lparr>sc_pool_start = 2, sc_pool_end = 9, sc_server_ip = 1, sc_configs = [], sc_vendor_rules = [],
      sc_user_class_rules = [], sc_mac_rules = [], sc_relay_id_rules = [], sc_reply_delays = [],
      sc_contexts = [demo_range\<lparr>cx_lease_time := 0xFFFFFFFF, cx_start := 2, cx_end := 9\<rparr>],
      sc_dhcp_opts = [], sc_boot_configs = [], sc_domain_suffix = None, sc_match_rules = [], sc_name_match_rules = [],
      sc_tag_rules = [], sc_no_ping = True, sc_consec_addr = False, sc_dhcp_ignore = [], sc_bootp_dynamic = [],
      sc_rapid_commit = False, sc_leasequery_addr = [], sc_leasequery_enabled = False, sc_leasequery_source = 0\<rparr>"

definition demo_state :: "lease_db \<Rightarrow> dhcp_state" where
  "demo_state db = \<lparr>st_leases = db, st_pings = [], st_metrics = \<lambda>_. 0\<rparr>"

definition demo_dispatch :: "lease_db \<Rightarrow> (dispatched_reply option \<times> dhcp_state) exec option" where
  "demo_dispatch db = dispatch_dhcp_with_meta (\<lambda>ks. ks) (\<lambda>_. False) 0 demo_request demo_server (demo_state db)"

lemma new_reachable: "lease_reachable ord lease_db_new"
  using lease_reachable.fresh [of ord 1000] by (simp add: lease_db_new_def)

lemma demo_dispatch_ack:
  obtains d st' where "demo_dispatch lease_db_new = Some (Done (Some d, st'))" "rp_msg_type (dr_reply d) = Ack"
    "rp_yiaddr (dr_reply d) = 5"
proof -
  have "case demo_dispatch lease_db_new of
      Some (Done (Some d, st')) \<Rightarrow> rp_msg_type (dr_reply d) = Ack \<and> rp_yiaddr (dr_reply d) = 5 | _ \<Rightarrow> False"
    by code_simp
  then show ?thesis using that by (auto split: option.splits exec.splits prod.splits)
qed

theorem dispatch_keeps_leases_witness:
  "\<exists>d st'. fst (dispatch_dhcp_with_arrival (\<lambda>ks. ks) (\<lambda>_. False) 0 demo_request demo_server None (demo_state lease_db_new))
      = Some (Done (d, st')) \<and> lease_reachable (\<lambda>ks. ks) (st_leases st') \<and> length (st_pings st') \<le> MAX_PINGS"
proof -
  obtain d st' where "demo_dispatch lease_db_new = Some (Done (Some d, st'))" using demo_dispatch_ack by blast
  then show ?thesis
    using dispatch_keeps_leases [of "\<lambda>ks. ks" "demo_state lease_db_new" "\<lambda>_. False" 0 demo_request demo_server None] new_reachable
    by (auto simp: demo_state_def demo_dispatch_def dispatch_dhcp_with_arrival_def)
qed

theorem ack_binds_entitled_address_witness:
  "\<exists>d st' l. demo_dispatch lease_db_new = Some (Done (Some d, st')) \<and> rp_yiaddr (dr_reply d) = 5
    \<and> find_by_addr (st_leases st') 5 = Some l \<and> hw_bytes l = [1, 2, 3, 4, 5, 6]"
proof -
  obtain d st' where d: "demo_dispatch lease_db_new = Some (Done (Some d, st'))" "rp_msg_type (dr_reply d) = Ack"
    "rp_yiaddr (dr_reply d) = 5" using demo_dispatch_ack by blast
  have "lease_reachable (\<lambda>ks. ks) (st_leases (demo_state lease_db_new))" "length (st_pings (demo_state lease_db_new)) \<le> MAX_PINGS"
    "length (leases (st_leases (demo_state lease_db_new))) < max_leases (st_leases (demo_state lease_db_new))"
    using new_reachable by (simp_all add: demo_state_def lease_db_new_def)
  moreover have "hardware_addr demo_request = [1, 2, 3, 4, 5, 6]" by code_simp
  ultimately show ?thesis
    using ack_binds_entitled_address [OF id_order.hash_order_axioms _ _ d(1) [unfolded demo_dispatch_def] d(2,3)] d by auto
qed

theorem dispatched_reply_reads_back_witness:
  "\<exists>d st' p. demo_dispatch lease_db_new = Some (Done (Some d, st'))
    \<and> parse_dhcp_packet (dhcp_reply_to_wire (dr_reply d) demo_request) = Some p
    \<and> bp_xid p = 7 \<and> bp_yiaddr p = 5 \<and> get_message_type (bp_options p) = Some Ack"
proof -
  obtain d st' where d: "demo_dispatch lease_db_new = Some (Done (Some d, st'))" "rp_msg_type (dr_reply d) = Ack"
    "rp_yiaddr (dr_reply d) = 5" using demo_dispatch_ack by blast
  have "length (bp_chaddr demo_request) = 16" "options_fit demo_server" "\<not> sc_rapid_commit demo_server" "bp_xid demo_request = 7"
    by (simp_all add: demo_request_def demo_dhcp_packet_def demo_server_def options_fit_def)
  then show ?thesis
    using dispatched_reply_reads_back [OF _ _ _ d(1) [unfolded demo_dispatch_def]] d by force
qed

section \<open>Deviations\<close>

text \<open>A request for an address of the pool is granted whoever has the lease: the lease of the hardware address
  \<open>09:09\<close> goes over to another client.\<close>

lemma leased_address_taken_over:
  defines "owned \<equiv> snd (set_hwaddr 5 [9, 9] 1 (Some [7]) False (snd (allocate_v4 5 lease_db_new)))"
  shows "map_option hw_bytes (find_by_addr owned 5) = Some [9, 9]"
    "case demo_dispatch owned of
       Some (Done (Some d, st')) \<Rightarrow> rp_msg_type (dr_reply d) = Ack
         \<and> map_option hw_bytes (find_by_addr (st_leases st') 5) = Some [1, 2, 3, 4, 5, 6]
     | _ \<Rightarrow> False"
  unfolding owned_def by code_simp+

text \<open>A release removes the lease of its address without looking at the client that sent it.\<close>

lemma release_ignores_owner:
  assumes "in_pool (bp_ciaddr pkt) (sc_pool_start cfg) (sc_pool_end cfg)"
  shows "answer_message in_use now Release pkt cfg contexts tags config st =
    Some (None, remove_lease (bp_ciaddr pkt) (Dhcp_Server.count Dhcprelease st))"
  using assms by (simp add: answer_message_def handle_release_def Let_def)

text \<open>An address of a range outside of the pool is refused when it is requested, although a range of the
  configuration holds it and it may have been offered.\<close>

lemma other_range_refused:
  assumes "requested_addr pkt = Some a" "static_addr cfg config = None" "\<not> in_pool a (sc_pool_start cfg) (sc_pool_end cfg)"
  shows "\<exists>r. answer_message in_use now Request pkt cfg contexts tags config st = Some (Some r, Dhcp_Server.count Dhcprequest st)
    \<and> rp_msg_type r = Nak"
  using assms by (simp add: answer_message_def handle_request_def address_in_range_def Let_def)

text \<open>The option for a rapid commit is put in front of the first octet 255, which may belong to the identifier of the server:
  10.255.0.1 is then sent as 10.80.0.255.\<close>

lemma rapid_commit_breaks_server_id:
  "map_option (\<lambda>r. find_option (rp_options r) OPTION_SERVER_IDENTIFIER)
     (make_rapid_commit_ack (plain_reply Offer 5 [] 0 0) 0x0AFF0001 1 9 None False) = Some (Some [10, 80, 0, 255])"
  by code_simp

text \<open>A rule for names with a given beginning makes the dispatch panic when the name of the client has a character across
  the end of that beginning.\<close>

lemma name_rule_panics:
  "name_tags [0xC3, 0xA9] [\<lparr>mn_netid = str_lit ''t'', mn_name = str_lit ''a'', mn_wildcard = True\<rparr>] = Panic"
  by code_simp

end
