(* ===== verification/Spec2Isabelle.thy ===== *)
theory Spec2Isabelle
  imports Dns_Packet Rr_Filter Pattern Hostname Extract Domain_Lookup Local_Answer Dnssec_Props Lease_File
    Dhcp_Options Dhcp_Relay Dhcp_Dispatch
begin

text \<open>
  A verification library for dnsmasq-rs, the DNS forwarder and DHCP server under \<^verbatim>\<open>src/\<close>. It models the
  functional core of the daemon: everything between the octets of a packet and the octets of the answer, with the
  state in between. Sockets, timers, the file system and the reading of the configuration stay outside.

  \<^bold>\<open>The program and its model.\<close> A DNS query is parsed (\<^verbatim>\<open>rfc1035.rs\<close>, \<^verbatim>\<open>edns0.rs\<close>), answered from the configuration
  and the cache if possible (\<open>answer_request\<close>), and otherwise forwarded to the servers that \<^verbatim>\<open>domain_match.rs\<close> selects. The
  reply is filtered (\<^verbatim>\<open>rrfilter.rs\<close>), validated (\<^verbatim>\<open>dnssec.rs\<close>) and stored in the cache (\<open>extract_addresses\<close>, \<^verbatim>\<open>cache.rs\<close>), from
  which the next query is answered. A DHCPv4 packet is parsed (\<^verbatim>\<open>dhcp.rs\<close>), relayed or dispatched to a handler of
  \<^verbatim>\<open>rfc2131.rs\<close>, which reads and changes the lease database (\<^verbatim>\<open>lease.rs\<close>), and the reply is written back. Each part
  is a theory, in which the definitions carry the names of the functions they model:

  \<^item> \<open>Rust_Base\<close>: the parts of Rust and its library the sources use. A string is its list of octets, a panic is the
    value \<open>Panic\<close> of the type \<open>exec\<close>, a \<open>Result\<close> is a sum with the error on the left, an integer has its width.
  \<^item> \<open>Byte_Cursor\<close> (\<^verbatim>\<open>byte_cursor.rs\<close>), \<open>Dns_Protocol\<close> (\<^verbatim>\<open>dns_protocol/mod.rs\<close>), \<open>Dns_Name\<close> and \<open>Dns_Packet\<close>
    (\<^verbatim>\<open>rfc1035.rs\<close>): header, names, questions, records, messages. A name or message that is written is read back; reading
    a name never leaves the packet, whatever its octets.
  \<^item> \<open>Addr_Net\<close> (\<^verbatim>\<open>types/addr.rs\<close>), \<open>Edns0\<close> (\<^verbatim>\<open>edns0.rs\<close>), \<open>Rr_Filter\<close> (\<^verbatim>\<open>rrfilter.rs\<close>), \<open>Hostname\<close> (\<^verbatim>\<open>hostname.rs\<close>) and \<open>Pattern\<close>
    (\<^verbatim>\<open>pattern.rs\<close>): networks and prefixes, the OPT record, removal of records with the fix-up of compression
    pointers, host names, glob patterns and the allow list of connection marks.
  \<^item> \<open>Lru\<close>, \<open>Flags_Metrics\<close>, \<open>Dns_Cache\<close> and \<open>Cache_Invariant\<close> (\<^verbatim>\<open>cache.rs\<close>): the cache as a bounded map, its invariant
    over all reachable states, the refinement of insertion and lookup to a map with expiry, and the protection of
    configured records.
  \<^item> \<open>Extract\<close> and \<open>Local_Answer\<close> (\<^verbatim>\<open>rfc1035.rs\<close>), \<open>Synth_Domain\<close> (\<^verbatim>\<open>domain.rs\<close>): from an upstream reply to the cache and from a
    query to a local reply. The theorem of this theory joins the two.
  \<^item> \<open>Domain_Match\<close> and \<open>Domain_Lookup\<close> (\<^verbatim>\<open>domain_match.rs\<close>): the sorted server array. Its binary search agrees with a plain
    scan over the suffixes of the name.
  \<^item> \<open>Crypto\<close> (\<^verbatim>\<open>crypto.rs\<close>), \<open>Dnssec\<close>, \<open>Dnssec_Reply\<close>, \<open>Dnssec_Chain\<close> and \<open>Dnssec_Props\<close> (\<^verbatim>\<open>dnssec.rs\<close>): record sets and their
    signatures, proofs of non-existence, the store of trusted keys and the validation of replies. What is declared
    secure is signed by a stored key, and what is stored is linked to an anchor.
  \<^item> \<open>Dhcp_Config\<close> (\<^verbatim>\<open>dhcp_common.rs\<close>), \<open>Dhcp_Packet\<close>, \<open>Dhcp_Options\<close> and \<open>Dhcp_Relay\<close> (\<^verbatim>\<open>dhcp.rs\<close>, \<^verbatim>\<open>rfc2131.rs\<close>): tags, host entries and
    ranges, packets and option blocks, the options of a reply, and the relay with its way back.
  \<^item> \<open>Dhcp_Alloc\<close>, \<open>Dhcp_Server\<close> and \<open>Dhcp_Dispatch\<close> (\<^verbatim>\<open>dhcp.rs\<close>, \<^verbatim>\<open>rfc2131.rs\<close>): the search for a free address, one handler per
    message type, and the dispatch over the lease database, the ping cache and the counters. The dispatch returns,
    keeps the invariant of the leases, and acknowledges an address only to a client that is entitled to it.
  \<^item> \<open>Lease_Db\<close>, \<open>Lease_Invariant\<close> and \<open>Lease_File\<close> (\<^verbatim>\<open>lease.rs\<close>): the leases with their index of addresses, the operations
    and the states they build, the script calls, and the text format of the lease file.

  \<^bold>\<open>State and effects.\<close> A struct is a record, an enumeration a datatype; a function that changes a state takes it and
  returns it, with its result, in the order in which the source makes the changes. Metric counters are part of the state;
  log lines are left out. Time is an argument: the cache counts it in nanoseconds as a natural number, the leases as
  an integer since the epoch, and one dispatch reads the clock once.

  \<^bold>\<open>Parameters.\<close> Code outside of the repository is an argument of the definitions, and what is relied on is a
  locale: \<open>bytes_mut_laws\<close> for the buffer of the bytes crate, \<open>lru_laws\<close> for the map of the lru crate, \<open>str_lower\<close> for Unicode
  lower-casing, of which only the effect on ASCII is used, and \<open>hash_order\<close> for the iteration order of a hash
  map. Each has an instance: a list buffer, a list in order of use, ASCII lower-casing, and two orders. The
  signature and hash crates are the fields of \<open>crypto_crates\<close>, of which nothing is assumed. The ICMP probe of the address
  search and the interface addresses of the relay are functions. Other locales collect the laws that several
  definitions of the sources share: \<open>fixed_reader\<close>, \<open>wire_enum\<close>, \<open>item_codec\<close>, \<open>prefix_relation\<close> and \<open>cache_lru\<close>.

  \<^bold>\<open>Loops and bounds.\<close> Loops are recursive functions with termination proofs. Two may run on as far as their text tells, and
  are partial functions whose result \<open>None\<close> means that they do not return: the glob matcher and the scan of an
  address range; both are proved to return on every input. The limits are those of the source: ten hops in a CNAME chain of
  a reply, sixteen in one that is answered locally, a counter of signature checks in DNSSEC, six
  results in the ping cache. Arithmetic is that of a release build, in which it wraps around.

  \<^bold>\<open>Deviations.\<close> Where the code does not do what it means to, the behaviour is modelled as it is, a lemma shows it, and
  the theorems state the restriction in their hypotheses and their text. Among them: string slices inside a
  multi-octet character (\<open>soa_slice_panics\<close>, \<open>wildcard_lookup_panics\<close>, \<open>synth_prefix_panics\<close>, \<open>name_rule_panics\<close>), DS records
  stored for another name (\<open>foreign_ds_stored\<close>), an NSEC record that denies its own next name
  (\<open>nsec_denies_its_next_name\<close>), a lease that another client takes over (\<open>leased_address_taken_over\<close>) or releases
  (\<open>release_ignores_owner\<close>), and a lease inserted twice for one address (\<open>insert_breaks_index\<close>).

  \<^bold>\<open>Not modelled.\<close> The forwarding engine and the DHCP socket loop, which are asynchronous code over sockets and timers;
  the authoritative zones, loop detection, DHCPv6, router advertisements and the TFTP server, which are separate
  services; the reading of configuration, hosts and ethers files; network interfaces, packet sets, connection tracking
  and the management interfaces, which are system calls; the formatting of log lines and of the cache dump; the SLAAC
  addresses of a lease; and \<open>free_space\<close> of \<^verbatim>\<open>rfc2131.rs\<close>, which has no caller.
\<close>

unbundle bit_operations_syntax

section \<open>From an upstream reply to a local answer\<close>

lemma octets4_ipv4_of:
  assumes "4 \<le> length bs" shows "octets4 (ipv4_of (take 4 bs)) = take 4 bs"
  using assms by (auto simp: octets4_def ipv4_of_def numeral_eq_Suc Suc_le_length_iff)

lemma answer_flags_neg: "answer_flags config AND F_NEG = 0"
  by (simp add: answer_flags_def Flags_Metrics.flag_defs)

text \<open>C1: resolving and caching fit together. When an upstream reply answers an IPv4 query with one public address and
  the cache held nothing for the name, processing the reply completes, and from then on the same
  question is answered locally: until the granted lifetime has passed the reply holds exactly the
  address octets of the upstream record with a lifetime that does not outlast the grant, and
  afterwards the query is left to be forwarded again.\<close>

theorem resolved_address_answers_locally:
  assumes "lru_laws L lru_ok lru_cap" "cache_ok L lru_ok lru_cap lower cache" "str_lower lower" "is_ascii (q_name q)"
    and "single_answer lower config packet q rr" "cache_accepts L lower cache (answer_record lower config now q rr)"
    and "hb4 (pk_header packet) AND HB4_CD = 0" "hb4 (pk_header packet) AND HB4_RA \<noteq> 0"
    and "\<And>f. view L cache \<lparr>ck_name = lower (q_name q), ck_flags = f\<rparr> = None"
    and "silent local" "plain_query query q"
    and "grant = from_secs (unat (clamp_cache_ttl cache (answer_flags config) (clamp_ttl (rr_ttl rr) (ec_max_ttl config))))"
  shows "\<exists>cache'. extract_addresses B L lower packet cache now config = Done (outcome Cached [] [], cache')
    \<and> (if t < now + grant
       then \<exists>resp c' ttl. answer_request B L lower query cache' t local = Done (Some resp, c')
              \<and> answers resp = [rr_in (lower (q_name q)) 1 ttl (take 4 (rr_data rr))]
              \<and> t + from_secs (unat ttl) \<le> now + grant
       else \<exists>c'. answer_request B L lower query cache' t local = Done (None, c'))"
proof -
  have cl: "cache_lru L lru_ok lru_cap" using assms(1) by (simp add: cache_lru_def)
  let ?r = "answer_record lower config now q rr"
  let ?c = "commit_staged L lower cache [?r] (pk_header packet) now"
  let ?k = "cache_key_for lower (q_name q) F_IPV4"
  note ll = lower_lower [OF assms(3,4)]
  have key: "cache_key_for lower (cr_name ?r) (cr_flags ?r) = ?k" using ll by (simp add: cache_key_for_def)
  have static: "\<not> is_static (cr_flags ?r)" "cr_flags ?r AND F_CNAME = 0" by simp_all
  note cv = cache_lru.committed_view [OF cl assms(2) static assms(6-8), where now = now, unfolded key]
  have other: "view L ?c \<lparr>ck_name = lower (q_name q), ck_flags = f\<rparr> = None" if "f \<noteq> F_IPV4" for f
  proof -
    have "type_flags F_IPV4 = F_IPV4" by (simp add: type_flags_def TYPE_MASK_def Flags_Metrics.flag_defs)
    with that have "\<lparr>ck_name = lower (q_name q), ck_flags = f\<rparr> \<noteq> ?k" by (simp add: cache_key_for_def)
    then show ?thesis using cv(3) assms(9) by simp
  qed
  have "length (rr_data rr) \<ge> 4" "q_type q = 1" using assms(5) by (auto simp: single_answer_def)
  have ext: "extract_addresses B L lower packet cache now config = Done (outcome Cached [] [], ?c)"
    using single_answer_extract [OF assms(5)] .
  have live: "live_view L t ?c ?k = (if t < now + grant then Some (timed cache now ?r) else None)"
    using cv(2) assms(12) by (auto simp: live_view_def record_is_expired_def)
  have none: "live_view L t ?c \<lparr>ck_name = lower (q_name q), ck_flags = f\<rparr> = None" if "f \<noteq> F_IPV4" for f
    using other [OF that] by (simp add: live_view_def)
  have keys: "type_flags F_CNAME \<noteq> F_IPV4" "type_flags (F_NXDOMAIN OR F_NEG) \<noteq> F_IPV4" "type_flags F_IPV4 = F_IPV4"
    by (simp_all add: type_flags_def TYPE_MASK_def Flags_Metrics.flag_defs)
  show ?thesis
  proof (cases "t < now + grant")
    case True
    have f: "cr_flags (timed cache now ?r) AND F_NEG = 0" "cr_flags (timed cache now ?r) AND F_IMMORTAL = 0"
      by (simp_all add: answer_flags_neg)
    from True live none keys
    have v: "live_view L t ?c (cache_key_for lower (q_name q) F_CNAME) = None"
      "live_view L t ?c (cache_key_for lower (q_name q) (F_NXDOMAIN OR F_NEG)) = None"
      "live_view L t ?c ?k = Some (timed cache now ?r)"
      by (simp_all add: cache_key_for_def)
    have a: "cr_addr (timed cache now ?r) = Some (Addr4 (ipv4_of (take 4 (rr_data rr))))" by simp
    have "t + from_secs (unat (crec_ttl (timed cache now ?r) t)) \<le> now + grant"
      using crec_ttl_within [OF f(2), of t] True assms(12) by simp
    with cache_lru.answer_from_cache [OF cl cv(1) assms(10,11) \<open>q_type q = 1\<close> ll v a f(1), of B] ext True
    show ?thesis using octets4_ipv4_of [OF \<open>4 \<le> length (rr_data rr)\<close>] by auto
  next
    case False
    have "live_view L t ?c \<lparr>ck_name = lower (q_name q), ck_flags = f\<rparr> = None" for f
      using False live none [of f] keys(3) by (cases "f = F_IPV4") (simp_all add: cache_key_for_def)
    from cache_lru.answer_from_nothing [OF cl cv(1) assms(10,11) \<open>q_type q = 1\<close> ll this, of B] ext False
    show ?thesis by auto
  qed
qed

theorem resolved_address_answers_locally_witness:
  "\<exists>cache' resp c' ttl. extract_addresses vec_bytes_mut list_lru to_ascii_lowercase demo_packet demo_cache 5 demo_config
       = Done (outcome Cached [] [], cache')
     \<and> answer_request vec_bytes_mut list_lru to_ascii_lowercase demo_query cache' 6 silent_config = Done (Some resp, c')
     \<and> answers resp = [rr_in (to_ascii_lowercase (q_name demo_question)) 1 ttl [1, 2, 3, 4]]"
proof -
  have a: "is_ascii (q_name demo_question)" by code_simp
  have t: "(6::nat) < 5 + from_secs (unat (60::u32))" by (simp add: from_secs_def)
  have ttl: "clamp_cache_ttl demo_cache (answer_flags demo_config) (clamp_ttl (rr_ttl demo_rr) (ec_max_ttl demo_config)) = 60"
    using demo_answer_ttl by simp
  have d: "take 4 (rr_data demo_rr) = [1, 2, 3, 4]" by (simp add: demo_rr_def)
  have n: "view list_lru demo_cache \<lparr>ck_name = to_ascii_lowercase (q_name demo_question), ck_flags = f\<rparr> = None" for f
    by (simp add: view_def demo_empty)
  from resolved_address_answers_locally [OF list_lru.lru_laws_axioms demo_ok ascii_lc.str_lower_axioms a demo_single
      demo_accepts demo_gate n silent_silent_config plain_demo_query refl, of vec_bytes_mut 6] t
  show ?thesis unfolding d ttl by auto
qed

end
